(* ===== verification/Prelude.thy ===== *)
theory Prelude
  imports Main "HOL-Library.Word" "HOL-Library.Multiset"
begin

text \<open>
  Shared vocabulary of the development: results of fallible Go functions, Go's map-backed
  set idioms on slices, \<open>sort.Slice\<close>, and the functions of the packages \<open>strings\<close> and
  \<open>strconv\<close> the sources call. Nothing in this theory models a file of the repository;
  it models the parts of Go's standard library the components share.
\<close>

unbundle bit_operations_syntax

named_theorems netip_simps "facts on addresses, prefixes and their bit paths"
named_theorems step_defs "unfolding rules of the state-passing operations"

section \<open>Results\<close>

text \<open>A Go function with results \<open>(T, error)\<close> is a sum: \<open>Inl\<close> is a non-nil error.\<close>

type_synonym error = string

type_synonym 'a result = "error + 'a"

definition bind_result :: "'a result \<Rightarrow> ('a \<Rightarrow> 'b result) \<Rightarrow> 'b result" where
  "bind_result r f = (case r of Inl e \<Rightarrow> Inl e | Inr x \<Rightarrow> f x)"

definition wrap_err :: "string \<Rightarrow> 'a result \<Rightarrow> 'a result" where
  "wrap_err ctx r = (case r of Inl e \<Rightarrow> Inl (ctx @ '': '' @ e) | Inr x \<Rightarrow> Inr x)"

lemma bind_result_simps [simp]:
  "bind_result (Inl e) f = Inl e" "bind_result (Inr x) f = f x"
  by (simp_all add: bind_result_def)

lemma wrap_err_simps [simp]:
  "wrap_err ctx (Inl e) = Inl (ctx @ '': '' @ e)" "wrap_err ctx (Inr x) = Inr x"
  by (simp_all add: wrap_err_def)

lemma bind_result_InrD:
  "bind_result r f = Inr y \<Longrightarrow> \<exists>x. r = Inr x \<and> f x = Inr y"
  by (cases r) auto

lemma wrap_err_Inr_iff [simp]: "wrap_err ctx r = Inr x \<longleftrightarrow> r = Inr x"
  by (cases r) auto

section \<open>Slices and map-backed sets\<close>

text \<open>
  The idiom \<open>seen := map[K]struct{}; for x in xs: if seen[key x] continue; seen[key x]; append\<close>:
  the first occurrence of every key is kept, in order.
\<close>

fun keep_first_aux :: "('a \<Rightarrow> 'k) \<Rightarrow> 'k set \<Rightarrow> 'a list \<Rightarrow> 'a list" where
  "keep_first_aux key seen [] = []"
| "keep_first_aux key seen (x # xs) =
     (if key x \<in> seen then keep_first_aux key seen xs
      else x # keep_first_aux key (insert (key x) seen) xs)"

definition keep_first :: "('a \<Rightarrow> 'k) \<Rightarrow> 'a list \<Rightarrow> 'a list" where
  "keep_first key xs = keep_first_aux key {} xs"

lemma keep_first_aux_keys:
  "key ` set (keep_first_aux key seen xs) = key ` set xs - seen"
  by (induction xs arbitrary: seen) auto

lemma keep_first_aux_subset: "set (keep_first_aux key seen xs) \<subseteq> set xs"
  by (induction xs arbitrary: seen) (auto split: if_splits)

lemma keep_first_aux_distinct: "distinct (map key (keep_first_aux key seen xs))"
proof (induction xs arbitrary: seen)
  case (Cons x xs)
  have "key x \<notin> key ` set (keep_first_aux key (insert (key x) seen) xs)"
    by (simp add: keep_first_aux_keys)
  with Cons.IH show ?case by simp
qed simp

lemma keep_first_keys: "key ` set (keep_first key xs) = key ` set xs"
  by (simp add: keep_first_def keep_first_aux_keys)

lemma keep_first_subset: "set (keep_first key xs) \<subseteq> set xs"
  by (simp add: keep_first_def keep_first_aux_subset)

lemma keep_first_distinct: "distinct (map key (keep_first key xs))"
  by (simp add: keep_first_def keep_first_aux_distinct)

lemma set_keep_first_id [simp]: "set (keep_first id xs) = set xs"
  using keep_first_keys [of id xs] by simp

lemma distinct_keep_first_id [simp]: "distinct (keep_first id xs)"
  using keep_first_distinct [of id xs] by simp

lemma keep_first_Nil [simp]: "keep_first key [] = []"
  by (simp add: keep_first_def)

text \<open>Cutting a list at the first occurrence of a separator.\<close>

lemma takeWhile_sep: "c \<notin> set a \<Longrightarrow> takeWhile (\<lambda>x. x \<noteq> c) (a @ c # b) = a"
  by (induction a) auto

lemma dropWhile_sep: "c \<notin> set a \<Longrightarrow> dropWhile (\<lambda>x. x \<noteq> c) (a @ c # b) = c # b"
  by (induction a) auto

section \<open>sort.Slice\<close>

text \<open>
  \<open>sort.Slice(xs, less)\<close> permutes \<open>xs\<close> into an order in which no later element is
  \<open>less\<close> than an earlier one. Where \<open>less\<close> is total on the elements, the result is
  unique; the model is an insertion sort and leaves ties in the order of the input.
\<close>

fun insert_by :: "('a \<Rightarrow> 'a \<Rightarrow> bool) \<Rightarrow> 'a \<Rightarrow> 'a list \<Rightarrow> 'a list" where
  "insert_by lt x [] = [x]"
| "insert_by lt x (y # ys) = (if lt y x then y # insert_by lt x ys else x # y # ys)"

fun sort_slice :: "('a \<Rightarrow> 'a \<Rightarrow> bool) \<Rightarrow> 'a list \<Rightarrow> 'a list" where
  "sort_slice lt [] = []"
| "sort_slice lt (x # xs) = insert_by lt x (sort_slice lt xs)"

lemma mset_insert_by [simp]: "mset (insert_by lt x ys) = add_mset x (mset ys)"
  by (induction ys) auto

lemma mset_sort_slice [simp]: "mset (sort_slice lt xs) = mset xs"
  by (induction xs) auto

lemma set_sort_slice [simp]: "set (sort_slice lt xs) = set xs"
  by (metis mset_sort_slice set_mset_mset)

lemma length_sort_slice [simp]: "length (sort_slice lt xs) = length xs"
  by (metis mset_sort_slice size_mset)

lemma distinct_sort_slice [simp]: "distinct (sort_slice lt xs) = distinct xs"
  by (metis distinct_count_atmost_1 mset_sort_slice set_sort_slice)

lemma set_insert_by [simp]: "set (insert_by lt x ys) = insert x (set ys)"
  by (metis mset_insert_by set_mset_add_mset_insert set_mset_mset)

text \<open>A strict order of the elements of a slice, as a comparison callback must be.\<close>

locale slice_less =
  fixes lt :: "'a \<Rightarrow> 'a \<Rightarrow> bool"
  assumes less_asym: "lt x y \<Longrightarrow> \<not> lt y x"
    and less_neg_trans: "\<not> lt x y \<Longrightarrow> \<not> lt y z \<Longrightarrow> \<not> lt x z"
begin

lemma sorted_insert_by:
  "sorted_wrt (\<lambda>x y. \<not> lt y x) ys \<Longrightarrow> sorted_wrt (\<lambda>x y. \<not> lt y x) (insert_by lt x ys)"
  by (induction ys) (auto dest: less_asym less_neg_trans)

lemma sorted_sort_slice: "sorted_wrt (\<lambda>x y. \<not> lt y x) (sort_slice lt xs)"
  by (induction xs) (auto intro: sorted_insert_by)

text \<open>Where the order is total on the elements, the sorted slice depends on the set only.\<close>

lemma sorted_unique:
  assumes "sorted_wrt (\<lambda>x y. \<not> lt y x) xs" and "sorted_wrt (\<lambda>x y. \<not> lt y x) ys"
    and "distinct xs" and "distinct ys" and "set xs = set ys"
    and "\<And>x y. x \<in> set xs \<Longrightarrow> y \<in> set xs \<Longrightarrow> \<not> lt x y \<Longrightarrow> \<not> lt y x \<Longrightarrow> x = y"
  shows "xs = ys"
  using assms
proof (induction xs arbitrary: ys)
  case (Cons x xs)
  then obtain y ys' where ys: "ys = y # ys'"
    by (cases ys) auto
  have "x = y"
  proof (rule ccontr)
    assume "x \<noteq> y"
    have "x \<in> set ys" and "y \<in> set (x # xs)"
      using Cons.prems(5) ys by (metis list.set_intros(1))+
    with \<open>x \<noteq> y\<close> ys have "x \<in> set ys'" and "y \<in> set xs"
      by auto
    with Cons.prems ys have "\<not> lt y x" and "\<not> lt x y"
      by auto
    with Cons.prems(6) [of x y] \<open>y \<in> set xs\<close> \<open>x \<noteq> y\<close> show False
      by auto
  qed
  moreover have "xs = ys'"
  proof (rule Cons.IH)
    show "set xs = set ys'"
      using Cons.prems(3,4,5) ys \<open>x = y\<close> by (metis Diff_insert_absorb distinct.simps(2) list.simps(15))
    show "\<And>a b. a \<in> set xs \<Longrightarrow> b \<in> set xs \<Longrightarrow> \<not> lt a b \<Longrightarrow> \<not> lt b a \<Longrightarrow> a = b"
      by (rule Cons.prems(6)) auto
  qed (use Cons.prems(1-4) ys in auto)
  ultimately show ?case using ys by simp
qed simp

end

end
