(* ===== verification/Netip.thy ===== *)
theory Netip
  imports Prelude
begin

text \<open>
  The part of Go's \<open>net/netip\<close> the sources use: addresses, their byte forms, prefixes,
  masking and the order \<open>Addr.Compare\<close>. Addresses carry no zone (DNS answers and the
  prefix sources never produce one). The specification side is the bit path of an address:
  its bits from the most significant one down, which is what a prefix fixes an initial part of.
\<close>

section \<open>Addresses\<close>

datatype addr = AddrZero | Addr4 "32 word" | Addr6 "128 word"

fun is4 :: "addr \<Rightarrow> bool" where
  "is4 (Addr4 _) = True"
| "is4 _ = False"

fun is6 :: "addr \<Rightarrow> bool" where
  "is6 (Addr6 _) = True"
| "is6 _ = False"

fun is_valid :: "addr \<Rightarrow> bool" where
  "is_valid AddrZero = False"
| "is_valid _ = True"

fun bit_len :: "addr \<Rightarrow> nat" where
  "bit_len AddrZero = 0"
| "bit_len (Addr4 _) = 32"
| "bit_len (Addr6 _) = 128"

definition byte_at :: "'a::len word \<Rightarrow> nat \<Rightarrow> 8 word" where
  "byte_at w k = ucast (drop_bit (8 * k) w)"

text \<open>\<open>As16\<close>: an IPv4 address in its IPv4-mapped IPv6 form.\<close>

fun as16 :: "addr \<Rightarrow> 8 word list" where
  "as16 AddrZero = replicate 16 0"
| "as16 (Addr4 w) = replicate 10 0 @ [255, 255] @ map (byte_at w) [3, 2, 1, 0]"
| "as16 (Addr6 w) = map (byte_at w) [15, 14, 13, 12, 11, 10, 9, 8, 7, 6, 5, 4, 3, 2, 1, 0]"

text \<open>\<open>AddrFrom4\<close> and \<open>AddrFrom16\<close>: big-endian bytes to an address.\<close>

definition word_of_bytes :: "8 word list \<Rightarrow> 'a::len word" where
  "word_of_bytes bs = foldl (\<lambda>acc b. push_bit 8 acc OR ucast b) 0 bs"

definition addr_from4 :: "8 word list \<Rightarrow> addr" where
  "addr_from4 bs = Addr4 (word_of_bytes bs)"

definition addr_from16 :: "8 word list \<Rightarrow> addr" where
  "addr_from16 bs = Addr6 (word_of_bytes bs)"

section \<open>Prefixes\<close>

text \<open>\<open>Bits()\<close> of an invalid prefix is \<open>-1\<close>; the zero \<open>netip.Prefix\<close> is invalid.\<close>

datatype prefix = Prefix (paddr: addr) (pbits: int)

definition prefix_zero :: prefix where
  "prefix_zero = Prefix AddrZero (-1)"

definition prefix_from :: "addr \<Rightarrow> int \<Rightarrow> prefix" where
  "prefix_from ip bits =
     Prefix ip (if is_valid ip \<and> 0 \<le> bits \<and> bits \<le> int (bit_len ip) then bits else -1)"

fun mask_addr :: "addr \<Rightarrow> nat \<Rightarrow> addr" where
  "mask_addr AddrZero n = AddrZero"
| "mask_addr (Addr4 w) n = Addr4 (w AND NOT (mask (32 - n)))"
| "mask_addr (Addr6 w) n = Addr6 (w AND NOT (mask (128 - n)))"

definition addr_prefix :: "addr \<Rightarrow> int \<Rightarrow> prefix result" where
  "addr_prefix ip b =
     (if b < 0 then Inl ''negative Prefix bits''
      else if \<not> is_valid ip then Inr prefix_zero
      else if int (bit_len ip) < b then Inl ''prefix length too large''
      else Inr (prefix_from (mask_addr ip (nat b)) b))"

definition masked :: "prefix \<Rightarrow> prefix" where
  "masked p = (case addr_prefix (paddr p) (pbits p) of Inl _ \<Rightarrow> prefix_zero | Inr q \<Rightarrow> q)"

section \<open>Bit paths\<close>

fun path :: "addr \<Rightarrow> bool list" where
  "path AddrZero = []"
| "path (Addr4 w) = map (\<lambda>d. bit w (31 - d)) [0..<32]"
| "path (Addr6 w) = map (\<lambda>d. bit w (127 - d)) [0..<128]"

definition covers :: "prefix \<Rightarrow> addr \<Rightarrow> bool" where
  "covers p x \<longleftrightarrow> is_valid x \<and> 0 \<le> pbits p \<and> pbits p \<le> int (bit_len (paddr p)) \<and>
     bit_len (paddr p) = bit_len x \<and>
     take (nat (pbits p)) (path (paddr p)) = take (nat (pbits p)) (path x)"

lemma length_path [simp]: "length (path a) = bit_len a"
  by (cases a) simp_all

lemma bit_len_pos [simp]: "0 < bit_len a \<longleftrightarrow> is_valid a"
  by (cases a) simp_all

lemma is6_bit_len: "is6 a \<longleftrightarrow> bit_len a = 128"
  by (cases a) simp_all

lemma is4_bit_len: "is4 a \<longleftrightarrow> bit_len a = 32"
  by (cases a) simp_all

lemma path_Addr4_nth: "d < 32 \<Longrightarrow> path (Addr4 w) ! d = bit w (31 - d)"
  by simp

lemma path_Addr6_nth: "d < 128 \<Longrightarrow> path (Addr6 w) ! d = bit w (127 - d)"
  by simp

lemma path_inj: "bit_len a = bit_len b \<Longrightarrow> path a = path b \<Longrightarrow> a = b"
proof (cases a; cases b)
  fix v w assume *: "bit_len a = bit_len b" "path a = path b" "a = Addr4 v" "b = Addr4 w"
  have "bit v n = bit w n" if "n < 32" for n
  proof -
    from *(2) have "path a ! (31 - n) = path b ! (31 - n)" by (rule arg_cong)
    moreover have "31 - n < 32" "31 - (31 - n) = n" using that by linarith+
    ultimately show ?thesis using *(3,4) by (simp add: path_Addr4_nth del: path.simps)
  qed
  with * show "a = b" by (auto intro!: bit_word_eqI)
next
  fix v w assume *: "bit_len a = bit_len b" "path a = path b" "a = Addr6 v" "b = Addr6 w"
  have "bit v n = bit w n" if "n < 128" for n
  proof -
    from *(2) have "path a ! (127 - n) = path b ! (127 - n)" by (rule arg_cong)
    moreover have "127 - n < 128" "127 - (127 - n) = n" using that by linarith+
    ultimately show ?thesis using *(3,4) by (simp add: path_Addr6_nth del: path.simps)
  qed
  with * show "a = b" by (auto intro!: bit_word_eqI)
qed auto

text \<open>Bit \<open>d\<close> of an address sits in byte \<open>off + d div 8\<close> of \<open>As16\<close>, at position \<open>7 - d mod 8\<close>.\<close>

lemma bit_byte_at: "bit (byte_at w k) i \<longleftrightarrow> i < 8 \<and> bit w (8 * k + i)"
  by (auto simp: byte_at_def bit_simps add.commute)

lemma length_as16 [simp]: "length (as16 a) = 16"
  by (cases a) simp_all

lemma as16_Addr6_nth: "k < 16 \<Longrightarrow> as16 (Addr6 w) ! k = byte_at w (15 - k)"
  by (auto simp: less_Suc_eq numeral_eq_Suc)

lemma as16_Addr4_nth: "k < 4 \<Longrightarrow> as16 (Addr4 w) ! (12 + k) = byte_at w (3 - k)"
  by (auto simp: less_Suc_eq numeral_eq_Suc)

lemma as16_path:
  assumes "d < bit_len a"
  shows "bit (as16 a ! ((if is4 a then 12 else 0) + d div 8)) (7 - d mod 8) = path a ! d"
proof (cases a)
  case (Addr4 w)
  with assms have d: "d < 32" "d div 8 < 4" by auto
  have "8 * (3 - d div 8) + (7 - d mod 8) = 31 - d"
    using d mult_div_mod_eq [of 8 d] by linarith
  moreover have "7 - d mod 8 < 8" by linarith
  ultimately show ?thesis using Addr4 d
    by (simp add: as16_Addr4_nth bit_byte_at del: as16.simps)
next
  case (Addr6 w)
  with assms have d: "d < 128" "d div 8 < 16" by auto
  have "8 * (15 - d div 8) + (7 - d mod 8) = 127 - d"
    using d mult_div_mod_eq [of 8 d] by linarith
  moreover have "7 - d mod 8 < 8" by linarith
  ultimately show ?thesis using Addr6 d
    by (simp add: as16_Addr6_nth bit_byte_at del: as16.simps)
qed (use assms in simp)

lemma bit_word_of_bytes:
  fixes bs :: "8 word list"
  shows "bit (word_of_bytes bs :: 'a::len word) i \<longleftrightarrow>
    i < LENGTH('a) \<and> i < 8 * length bs \<and> bit (bs ! (length bs - 1 - i div 8)) (i mod 8)"
proof (induction bs arbitrary: i rule: rev_induct)
  case (snoc b bs)
  have step: "(word_of_bytes (bs @ [b]) :: 'a word) = push_bit 8 (word_of_bytes bs) OR ucast b"
    by (simp add: word_of_bytes_def)
  show ?case
  proof (cases "i < 8")
    case True
    then show ?thesis
      by (auto simp: step bit_simps nth_append)
  next
    case False
    have "i div 8 = Suc ((i - 8) div 8)" and "i mod 8 = (i - 8) mod 8"
      using False by (auto simp: le_div_geq le_mod_geq)
    moreover have "\<not> bit (ucast b :: 'a word) i"
      using False by (auto simp: bit_simps dest: bit_imp_le_length)
    moreover have "i - 8 < 8 * length bs \<longleftrightarrow> i < 8 * length (bs @ [b])"
      using False by auto
    ultimately show ?thesis
      using False snoc.IH [of "i - 8"]
      by (auto simp: step bit_simps nth_append dest: bit_imp_le_length)
  qed
qed (simp add: word_of_bytes_def)

section \<open>Masking\<close>

lemma bit_len_mask_addr [simp]: "bit_len (mask_addr a n) = bit_len a"
  by (cases a) simp_all

lemma is_valid_mask_addr [simp]: "is_valid (mask_addr a n) = is_valid a"
  by (cases a) simp_all

lemma path_mask_addr:
  assumes "n \<le> bit_len a"
  shows "path (mask_addr a n) = take n (path a) @ replicate (bit_len a - n) False"
proof (rule nth_equalityI)
  fix i assume "i < length (path (mask_addr a n))"
  then have i: "i < bit_len a" by simp
  show "path (mask_addr a n) ! i = (take n (path a) @ replicate (bit_len a - n) False) ! i"
  proof (cases a)
    case (Addr4 w)
    have "bit (mask (32 - n) :: 32 word) (31 - i) \<longleftrightarrow> n \<le> i"
      using i Addr4 by (auto simp: bit_mask_iff)
    moreover have "31 - i < 32" by linarith
    ultimately show ?thesis
      using i assms Addr4 by (auto simp: nth_append bit_simps)
  next
    case (Addr6 w)
    have "bit (mask (128 - n) :: 128 word) (127 - i) \<longleftrightarrow> n \<le> i"
      using i Addr6 by (auto simp: bit_mask_iff)
    moreover have "127 - i < 128" by linarith
    ultimately show ?thesis
      using i assms Addr6 by (auto simp: nth_append bit_simps)
  qed (use i in simp)
qed (use assms in simp)

text \<open>The bits a prefix fixes, and prefixes in canonical form (host bits zero).\<close>

definition prefix_bits :: "prefix \<Rightarrow> bool list" where
  "prefix_bits p = take (nat (pbits p)) (path (paddr p))"

definition canonical :: "nat \<Rightarrow> prefix \<Rightarrow> bool" where
  "canonical n p \<longleftrightarrow> bit_len (paddr p) = n \<and> 0 \<le> pbits p \<and> pbits p \<le> int n \<and>
     path (paddr p) = prefix_bits p @ replicate (n - nat (pbits p)) False"

lemma length_prefix_bits: "canonical n p \<Longrightarrow> length (prefix_bits p) = nat (pbits p)"
  by (auto simp: canonical_def prefix_bits_def)

lemma canonical_inj:
  "canonical n p \<Longrightarrow> canonical n q \<Longrightarrow> prefix_bits p = prefix_bits q \<Longrightarrow> p = q"
proof -
  assume *: "canonical n p" "canonical n q" "prefix_bits p = prefix_bits q"
  from *(3) have "pbits p = pbits q"
    using length_prefix_bits [OF *(1)] length_prefix_bits [OF *(2)] *(1,2)
    by (auto simp: canonical_def)
  moreover from this * have "paddr p = paddr q"
    by (intro path_inj) (auto simp: canonical_def)
  ultimately show "p = q" by (cases p; cases q) simp
qed

lemma canonical_host:
  "is_valid a \<Longrightarrow> canonical (bit_len a) (prefix_from a (int (bit_len a)))"
  by (simp add: canonical_def prefix_from_def prefix_bits_def)

lemma prefix_bits_host:
  "is_valid a \<Longrightarrow> prefix_bits (prefix_from a (int (bit_len a))) = path a"
  by (simp add: prefix_from_def prefix_bits_def)

lemma masked_prefix_from:
  assumes "is_valid a" and "d \<le> bit_len a"
  shows "canonical (bit_len a) (masked (prefix_from a (int d)))"
    and "prefix_bits (masked (prefix_from a (int d))) = take d (path a)"
    and "pbits (masked (prefix_from a (int d))) = int d"
  using assms
  by (auto simp: masked_def addr_prefix_def prefix_from_def canonical_def prefix_bits_def path_mask_addr)

lemma covers_iff:
  "canonical n p \<Longrightarrow> 0 < n \<Longrightarrow>
     covers p x \<longleftrightarrow> bit_len x = n \<and> take (length (prefix_bits p)) (path x) = prefix_bits p"
  by (auto simp: covers_def canonical_def prefix_bits_def simp flip: bit_len_pos)

section \<open>The order of \<open>Addr.Compare\<close>\<close>

text \<open>Shorter addresses first, then by value; prefixes by address, then by length.\<close>

definition addr_rank :: "addr \<Rightarrow> nat \<times> nat" where
  "addr_rank a = (case a of AddrZero \<Rightarrow> (0, 0) | Addr4 w \<Rightarrow> (1, unat w) | Addr6 w \<Rightarrow> (2, unat w))"

lemma addr_rank_inj: "addr_rank a = addr_rank b \<Longrightarrow> a = b"
  by (cases a; cases b) (auto simp: addr_rank_def word_unat_eq_iff)

instantiation addr :: linorder
begin

definition less_eq_addr :: "addr \<Rightarrow> addr \<Rightarrow> bool" where
  "a \<le> b \<longleftrightarrow> fst (addr_rank a) < fst (addr_rank b) \<or>
     (fst (addr_rank a) = fst (addr_rank b) \<and> snd (addr_rank a) \<le> snd (addr_rank b))"

definition less_addr :: "addr \<Rightarrow> addr \<Rightarrow> bool" where
  "a < b \<longleftrightarrow> a \<le> b \<and> \<not> b \<le> (a :: addr)"

instance
  by standard
    (auto simp: less_eq_addr_def less_addr_def intro!: addr_rank_inj prod_eqI)

end

instantiation prefix :: linorder
begin

definition less_eq_prefix :: "prefix \<Rightarrow> prefix \<Rightarrow> bool" where
  "p \<le> q \<longleftrightarrow> paddr p < paddr q \<or> (paddr p = paddr q \<and> pbits p \<le> pbits q)"

definition less_prefix :: "prefix \<Rightarrow> prefix \<Rightarrow> bool" where
  "p < q \<longleftrightarrow> p \<le> q \<and> \<not> q \<le> (p :: prefix)"

instance
  by standard (auto simp: less_eq_prefix_def less_prefix_def prefix.expand)

end

end
