(* ===== verification/Cidr.thy ===== *)
theory Cidr
  imports Complex_Main Netip "HOL-Library.Sublist"
begin

text \<open>
  Package \<open>pkg/cidr\<close>: the binary radix tree (\<open>tree.go\<close>) and \<open>Aggregate\<close>
  (\<open>aggregate.go\<close>). The model keeps the tree's pointers as a datatype, the 16-byte
  address buffer as a list of bytes, the merge ratio's integer arithmetic at 64 bits
  (\<open>1 << (bits - depth)\<close> wraps to 0 from 64 on and to the least integer at 63), and the
  floating-point quotient exactly: a leaf count below \<open>2^53\<close> divided by a power of two is
  a float64 without rounding, and a positive count divided by 0 is \<open>+Inf\<close>.

  The second half relates the tree to sets of bit strings: \<open>collectPrefixes\<close> refines a
  walk \<open>agg\<close> on bit strings, and the properties of the walk give those of the package.
\<close>

section \<open>tree.go\<close>

datatype radixNode = RNil | RNode (rleft: radixNode) (rright: radixNode) (isLeaf: bool) (rprefix: prefix)

text \<open>\<open>&radixNode{}\<close>\<close>

definition zero_node :: radixNode where
  "zero_node = RNode RNil RNil False prefix_zero"

record radixTree =
  root :: radixNode
  tbits :: nat
  isV6 :: bool

definition newRadixTree :: "bool \<Rightarrow> radixTree" where
  "newRadixTree v6 = \<lparr>root = zero_node, tbits = (if v6 then 128 else 32), isV6 = v6\<rparr>"

text \<open>
  The loop of \<open>insert\<close>: \<open>steps\<close> is \<open>prefixLen - depth\<close>; \<open>node\<close> is never nil, since
  a missing child is allocated before the walk enters it.
\<close>

fun alloc_child :: "radixNode \<Rightarrow> radixNode" where
  "alloc_child RNil = zero_node"
| "alloc_child node = node"

fun insert_walk ::
  "8 word list \<Rightarrow> nat \<Rightarrow> nat \<Rightarrow> nat \<Rightarrow> prefix \<Rightarrow> radixNode \<Rightarrow> radixNode" where
  "insert_walk bytes byteOffset depth steps p RNil = RNil"
| "insert_walk bytes byteOffset depth 0 p (RNode l r lf q) = RNode l r True p"
| "insert_walk bytes byteOffset depth (Suc steps) p (RNode l r lf q) =
     (let byteIdx = byteOffset + depth div 8;
          bitIdx = 7 - depth mod 8;
          b = drop_bit bitIdx (bytes ! byteIdx) AND 1
      in if b = 0
         then RNode (insert_walk bytes byteOffset (Suc depth) steps p (alloc_child l)) r lf q
         else RNode l (insert_walk bytes byteOffset (Suc depth) steps p (alloc_child r)) lf q)"

definition tree_insert :: "radixTree \<Rightarrow> addr \<Rightarrow> radixTree" where
  "tree_insert t a =
     (if \<not> is_valid a then t
      else let prefixLen = (if is6 a then 128 else 32);
               p = prefix_from a (int prefixLen);
               byteOffset = (if is4 a then 12 else 0)
           in t\<lparr>root := insert_walk (as16 a) byteOffset 0 prefixLen p (root t)\<rparr>)"

fun countLeavesRecursive :: "radixNode \<Rightarrow> nat" where
  "countLeavesRecursive RNil = 0"
| "countLeavesRecursive (RNode l r lf p) =
     (if lf then 1 else countLeavesRecursive l + countLeavesRecursive r)"

text \<open>A float64 quotient of integers, the divisor possibly 0 or negative, and its comparison.\<close>

datatype float64 = Finite rat | PosInf

definition float_div :: "int \<Rightarrow> int \<Rightarrow> float64" where
  "float_div n m = (if m = 0 then PosInf else Finite (of_int n / of_int m))"

fun float_ge :: "float64 \<Rightarrow> rat \<Rightarrow> bool" where
  "float_ge PosInf t = True"
| "float_ge (Finite q) t = (t \<le> q)"

text \<open>\<open>maxPossible := 1 << (t.bits - depth)\<close>, a signed 64-bit integer.\<close>

definition max_possible :: "nat \<Rightarrow> nat \<Rightarrow> int" where
  "max_possible bits depth = sint (push_bit (bits - depth) (1 :: 64 word))"

definition can_merge :: "nat \<Rightarrow> rat \<Rightarrow> int \<Rightarrow> nat \<Rightarrow> nat \<Rightarrow> bool" where
  "can_merge bits threshold maxPrefix depth totalCount \<longleftrightarrow>
     0 < depth \<and> maxPrefix \<le> int depth \<and>
     float_ge (float_div (int totalCount) (max_possible bits depth)) threshold"

definition set_bit_at :: "bool \<Rightarrow> nat \<Rightarrow> 8 word list \<Rightarrow> 8 word list" where
  "set_bit_at v6 depth addrBytes =
     (let byteOffset = (if v6 then 0 else 12);
          byteIdx = byteOffset + depth div 8;
          bitIdx = 7 - depth mod 8
      in addrBytes[byteIdx := (addrBytes ! byteIdx) OR push_bit bitIdx 1])"

fun collectPrefixes ::
  "nat \<Rightarrow> bool \<Rightarrow> radixNode \<Rightarrow> nat \<Rightarrow> 8 word list \<Rightarrow> rat \<Rightarrow> int \<Rightarrow> prefix list" where
  "collectPrefixes bits v6 RNil depth addrBytes threshold maxPrefix = []"
| "collectPrefixes bits v6 (RNode l r lf p) depth addrBytes threshold maxPrefix =
     (if lf then [p]
      else let leftPrefixes = collectPrefixes bits v6 l (Suc depth) addrBytes threshold maxPrefix;
               rightBytes = (if depth < bits then set_bit_at v6 depth addrBytes else addrBytes);
               rightPrefixes = collectPrefixes bits v6 r (Suc depth) rightBytes threshold maxPrefix;
               leftCount = countLeavesRecursive l;
               rightCount = countLeavesRecursive r;
               totalCount = leftCount + rightCount
           in if totalCount = 0 then []
              else if leftCount = 0 \<or> rightCount = 0 then leftPrefixes @ rightPrefixes
              else if can_merge bits threshold maxPrefix depth totalCount
              then [masked (prefix_from
                     (if v6 then addr_from16 addrBytes else addr_from4 (take 4 (drop 12 addrBytes)))
                     (int depth))]
              else leftPrefixes @ rightPrefixes)"

definition tree_aggregate :: "radixTree \<Rightarrow> rat \<Rightarrow> int \<Rightarrow> prefix list" where
  "tree_aggregate t threshold maxPrefix =
     collectPrefixes (tbits t) (isV6 t) (root t) 0 (replicate 16 0) threshold maxPrefix"

section \<open>aggregate.go\<close>

text \<open>The byte loop of \<open>compareAddrs\<close>.\<close>

fun bytes_less :: "8 word list \<Rightarrow> 8 word list \<Rightarrow> bool" where
  "bytes_less (a # as) (b # bs) = (if a < b then True else if b < a then False else bytes_less as bs)"
| "bytes_less _ _ = False"

definition compareAddrs :: "addr \<Rightarrow> addr \<Rightarrow> bool" where
  "compareAddrs a b = bytes_less (as16 a) (as16 b)"

definition clamp_prefix :: "bool \<Rightarrow> int \<Rightarrow> int" where
  "clamp_prefix v6 maxPrefix =
     (let m = (if maxPrefix < 0 then 0 else maxPrefix);
          top = (if v6 then 128 else 32)
      in if top < m then top else m)"

definition aggregateFamily :: "addr list \<Rightarrow> bool \<Rightarrow> rat \<Rightarrow> int \<Rightarrow> prefix list" where
  "aggregateFamily addrs v6 threshold maxPrefix =
     (let maxPrefix = clamp_prefix v6 maxPrefix;
          uniqueAddrs = sort_slice compareAddrs (keep_first id addrs);
          tree = foldl tree_insert (newRadixTree v6) uniqueAddrs
      in tree_aggregate tree threshold maxPrefix)"

definition Aggregate :: "addr list \<Rightarrow> rat \<Rightarrow> int \<Rightarrow> prefix list" where
  "Aggregate addrs threshold maxPrefix =
     (let v4addrs = filter is4 (filter is_valid addrs);
          v6addrs = filter is6 (filter is_valid addrs);
          v4Prefixes = (if 0 < length v4addrs then aggregateFamily v4addrs False threshold maxPrefix else []);
          v6Prefixes = (if 0 < length v6addrs then aggregateFamily v6addrs True threshold maxPrefix else [])
      in sort_slice (\<lambda>p q. compareAddrs (paddr p) (paddr q)) (v4Prefixes @ v6Prefixes))"

section \<open>The tree as a set of bit strings\<close>

fun leaf_paths :: "radixNode \<Rightarrow> bool list set" where
  "leaf_paths RNil = {}"
| "leaf_paths (RNode l r lf p) =
     (if lf then {[]} else (#) False ` leaf_paths l \<union> (#) True ` leaf_paths r)"

text \<open>
  The tree invariant, for a node \<open>n\<close> levels above the leaves whose path from the root is
  \<open>pre\<close>: leaves sit at level 0 only, have no children, and carry the host prefix of their path.
\<close>

fun trie_ok :: "nat \<Rightarrow> bool list \<Rightarrow> radixNode \<Rightarrow> bool" where
  "trie_ok n pre RNil = True"
| "trie_ok 0 pre (RNode l r lf p) =
     (lf \<and> l = RNil \<and> r = RNil \<and> canonical (length pre) p \<and> prefix_bits p = pre)"
| "trie_ok (Suc n) pre (RNode l r lf p) =
     (\<not> lf \<and> trie_ok n (pre @ [False]) l \<and> trie_ok n (pre @ [True]) r)"

text \<open>Insertion along a bit string; \<open>insert_walk\<close> does this with the bits of \<open>As16\<close>.\<close>

fun insert_path :: "bool list \<Rightarrow> prefix \<Rightarrow> radixNode \<Rightarrow> radixNode" where
  "insert_path [] p node = (case alloc_child node of RNil \<Rightarrow> RNil | RNode l r lf q \<Rightarrow> RNode l r True p)"
| "insert_path (b # bs) p node =
     (case alloc_child node of RNil \<Rightarrow> RNil
      | RNode l r lf q \<Rightarrow>
          if b then RNode l (insert_path bs p r) lf q else RNode (insert_path bs p l) r lf q)"

lemma alloc_child_neq_RNil [simp]: "alloc_child node \<noteq> RNil"
  by (cases node) (simp_all add: zero_node_def)

lemma drop_bit_and_1_eq_0: "drop_bit i w AND 1 = (0 :: 8 word) \<longleftrightarrow> \<not> bit w i"
  by (simp add: and_one_eq mod_2_eq_odd bit_iff_odd_drop_bit)

lemma insert_walk_path:
  assumes "\<And>d. d < n \<Longrightarrow> bit (bytes ! (off + d div 8)) (7 - d mod 8) = bs ! d" and "length bs = n"
    and "depth + steps = n"
  shows "insert_walk bytes off depth steps p (alloc_child node) = insert_path (drop depth bs) p node"
  using assms(3)
proof (induction steps arbitrary: depth node)
  case 0
  then show ?case
    using assms(2) by (cases "alloc_child node") auto
next
  case (Suc steps)
  then have d: "depth < n" by simp
  with assms(2) have drop: "drop depth bs = bs ! depth # drop (Suc depth) bs"
    by (simp add: Cons_nth_drop_Suc)
  from Suc.prems have "Suc depth + steps = n" by simp
  from Suc.IH [OF this] assms(1) [OF d] show ?case
    by (cases "alloc_child node") (simp_all add: drop drop_bit_and_1_eq_0 Let_def)
qed

lemma insert_path_ok:
  assumes "trie_ok n pre node" and "length bs = n"
    and "canonical (length (pre @ bs)) p" and "prefix_bits p = pre @ bs"
  shows "trie_ok n pre (insert_path bs p node)"
  using assms
proof (induction bs arbitrary: n pre node)
  case Nil
  then show ?case
    by (cases node) (auto simp: zero_node_def)
next
  case (Cons b bs)
  then show ?case
    by (cases node) (auto simp: zero_node_def)
qed

lemma leaf_paths_insert:
  "trie_ok n pre node \<Longrightarrow> length bs = n \<Longrightarrow> leaf_paths (insert_path bs p node) = insert bs (leaf_paths node)"
proof (induction bs arbitrary: n pre node)
  case Nil
  then show ?case
    by (cases node) (auto simp: zero_node_def)
next
  case (Cons b bs)
  then obtain m where m: "n = Suc m" "length bs = m" by auto
  show ?case
  proof (cases node)
    case RNil
    with Cons.IH [of m undefined RNil] m show ?thesis
      by (auto simp: zero_node_def)
  next
    case (RNode l r lf q)
    with Cons m show ?thesis by auto
  qed
qed

lemma length_leaf_paths: "trie_ok n pre node \<Longrightarrow> bs \<in> leaf_paths node \<Longrightarrow> length bs = n"
  by (induction n pre node arbitrary: bs rule: trie_ok.induct) auto

lemma finite_leaf_paths [simp]: "finite (leaf_paths node)"
  by (induction node) auto

lemma countLeaves_card: "countLeavesRecursive node = card (leaf_paths node)"
proof (induction node)
  case (RNode l r lf p)
  have "card ((#) False ` leaf_paths l \<union> (#) True ` leaf_paths r) =
      card ((#) False ` leaf_paths l) + card ((#) True ` leaf_paths r)"
    by (rule card_Un_disjoint) auto
  with RNode show ?case
    by (simp add: card_image)
qed simp

text \<open>The bottom-up merge on bit strings: \<open>mg\<close> is the merge test on depth and leaf count.\<close>

definition merges :: "(nat \<Rightarrow> nat \<Rightarrow> bool) \<Rightarrow> radixNode \<Rightarrow> radixNode \<Rightarrow> bool list \<Rightarrow> bool" where
  "merges mg l r pre \<longleftrightarrow> leaf_paths l \<noteq> {} \<and> leaf_paths r \<noteq> {} \<and>
     mg (length pre) (card ((#) False ` leaf_paths l \<union> (#) True ` leaf_paths r))"

fun agg :: "(nat \<Rightarrow> nat \<Rightarrow> bool) \<Rightarrow> radixNode \<Rightarrow> bool list \<Rightarrow> bool list list" where
  "agg mg RNil pre = []"
| "agg mg (RNode l r lf p) pre =
     (if lf \<or> merges mg l r pre then [pre]
      else agg mg l (pre @ [False]) @ agg mg r (pre @ [True]))"

lemma agg_empty: "leaf_paths node = {} \<Longrightarrow> agg mg node pre = []"
  by (induction node arbitrary: pre) (auto simp: merges_def split: if_splits)

section \<open>\<open>collectPrefixes\<close> refines the walk on bit strings\<close>

definition fam_bits :: "bool \<Rightarrow> nat" where
  "fam_bits v6 = (if v6 then 128 else 32)"

definition fam_off :: "bool \<Rightarrow> nat" where
  "fam_off v6 = (if v6 then 0 else 12)"

text \<open>The address buffer spells the path from the root, followed by zeros.\<close>

definition bytes_repr :: "bool \<Rightarrow> 8 word list \<Rightarrow> bool list \<Rightarrow> bool" where
  "bytes_repr v6 bytes pre \<longleftrightarrow> length bytes = 16 \<and>
     (\<forall>d < fam_bits v6. bit (bytes ! (fam_off v6 + d div 8)) (7 - d mod 8) = (d < length pre \<and> pre ! d))"

lemma bytes_repr_Nil: "bytes_repr v6 (replicate 16 0) []"
  by (auto simp: bytes_repr_def fam_bits_def fam_off_def)

lemma bytes_repr_False: "bytes_repr v6 bytes pre \<Longrightarrow> bytes_repr v6 bytes (pre @ [False])"
  by (auto simp: bytes_repr_def nth_append less_Suc_eq)

lemma div_mod_8_eq:
  assumes "d div 8 = e div 8" and "7 - d mod 8 = 7 - e mod (8::nat)"
  shows "d = e"
proof -
  have "d mod 8 \<le> 7" "e mod 8 \<le> 7" by linarith+
  with assms(2) have "d mod 8 = e mod 8" by linarith
  with assms(1) show ?thesis by (metis mult_div_mod_eq)
qed

lemma bytes_repr_True:
  assumes "bytes_repr v6 bytes pre" and "length pre < fam_bits v6"
  shows "bytes_repr v6 (set_bit_at v6 (length pre) bytes) (pre @ [True])"
proof -
  let ?e = "length pre"
  have len: "length bytes = 16" and e16: "fam_off v6 + ?e div 8 < 16"
    using assms by (auto simp: bytes_repr_def fam_bits_def fam_off_def split: if_splits)
  have "bit (set_bit_at v6 ?e bytes ! (fam_off v6 + d div 8)) (7 - d mod 8) =
      (bit (bytes ! (fam_off v6 + d div 8)) (7 - d mod 8) \<or> d = ?e)" for d
  proof -
    have "7 - d mod 8 < (8::nat)" by linarith
    then have "bit (push_bit (7 - ?e mod 8) 1 :: 8 word) (7 - d mod 8) \<longleftrightarrow> 7 - d mod 8 = 7 - ?e mod 8"
      by (auto simp: bit_simps)
    with len e16 show ?thesis
      by (auto simp: set_bit_at_def fam_off_def Let_def nth_list_update bit_simps dest: div_mod_8_eq)
  qed
  with assms show ?thesis
    by (auto simp: bytes_repr_def nth_append less_Suc_eq set_bit_at_def Let_def)
qed

definition buffer_addr :: "bool \<Rightarrow> 8 word list \<Rightarrow> addr" where
  "buffer_addr v6 bytes = (if v6 then addr_from16 bytes else addr_from4 (take 4 (drop 12 bytes)))"

lemma bit_len_buffer_addr [simp]: "bit_len (buffer_addr v6 bytes) = fam_bits v6"
  by (simp add: buffer_addr_def addr_from16_def addr_from4_def fam_bits_def)

lemma rev_div_mod_8:
  assumes "d < 8 * Suc m"
  shows "(8 * m + 7 - d) div 8 = m - d div 8" and "(8 * m + 7 - d) mod 8 = 7 - d mod (8::nat)"
    and "m - (m - d div 8) = d div 8"
proof -
  have "d mod 8 \<le> 7" "d div 8 \<le> m" using assms by auto
  then obtain r where eq: "8 * m + 7 - d = 8 * (m - d div 8) + r" and "r < 8" and r: "7 - d mod 8 = r"
    using mult_div_mod_eq [of 8 d] that [of "7 - d mod 8"] by linarith
  then show "(8 * m + 7 - d) div 8 = m - d div 8" and "(8 * m + 7 - d) mod 8 = 7 - d mod 8"
    unfolding eq r by simp_all
  show "m - (m - d div 8) = d div 8" using \<open>d div 8 \<le> m\<close> by simp
qed

lemma path_buffer_addr:
  assumes "length bytes = 16" and "d < fam_bits v6"
  shows "path (buffer_addr v6 bytes) ! d = bit (bytes ! (fam_off v6 + d div 8)) (7 - d mod 8)"
proof (cases v6)
  case True
  with assms have d: "d < 128" by (simp add: fam_bits_def)
  have "(127 - d) div 8 = 15 - d div 8" and "(127 - d) mod 8 = 7 - d mod 8"
    and "15 - (15 - d div 8) = d div 8" and "127 - d < 128"
    using d rev_div_mod_8 [of d 15] by simp_all
  with True d assms show ?thesis
    by (simp add: buffer_addr_def addr_from16_def path_Addr6_nth bit_word_of_bytes fam_off_def del: path.simps)
next
  case False
  with assms have d: "d < 32" by (simp add: fam_bits_def)
  have "(31 - d) div 8 = 3 - d div 8" and "(31 - d) mod 8 = 7 - d mod 8"
    and "3 - (3 - d div 8) = d div 8" and "31 - d < 32" and "d div 8 < 4"
    using d rev_div_mod_8 [of d 3] by auto
  with False d assms show ?thesis
    by (simp add: buffer_addr_def addr_from4_def path_Addr4_nth bit_word_of_bytes fam_off_def del: path.simps)
qed

lemma take_path_buffer_addr:
  assumes "bytes_repr v6 bytes pre" and "length pre \<le> fam_bits v6"
  shows "take (length pre) (path (buffer_addr v6 bytes)) = pre"
proof (rule nth_equalityI)
  fix i assume "i < length (take (length pre) (path (buffer_addr v6 bytes)))"
  with assms show "take (length pre) (path (buffer_addr v6 bytes)) ! i = pre ! i"
    by (auto simp: bytes_repr_def path_buffer_addr)
qed (use assms in simp)

theorem collectPrefixes_refines:
  assumes "trie_ok n pre node" and "n + length pre = fam_bits v6" and "bytes_repr v6 bytes pre"
  shows "map prefix_bits (collectPrefixes (fam_bits v6) v6 node (length pre) bytes thr mp) =
      agg (can_merge (fam_bits v6) thr mp) node pre \<and>
    (\<forall>p \<in> set (collectPrefixes (fam_bits v6) v6 node (length pre) bytes thr mp). canonical (fam_bits v6) p)"
  using assms
proof (induction n pre node arbitrary: bytes rule: trie_ok.induct)
  case (3 n pre l r lf p)
  let ?B = "fam_bits v6"
  have lf: "\<not> lf" and d: "length pre < ?B"
    using 3 by auto
  have L: "map prefix_bits (collectPrefixes ?B v6 l (Suc (length pre)) bytes thr mp) =
      agg (can_merge ?B thr mp) l (pre @ [False]) \<and>
    (\<forall>p \<in> set (collectPrefixes ?B v6 l (Suc (length pre)) bytes thr mp). canonical ?B p)"
    using 3 bytes_repr_False [OF "3.prems"(3)] by force
  have R: "map prefix_bits (collectPrefixes ?B v6 r (Suc (length pre)) (set_bit_at v6 (length pre) bytes) thr mp) =
      agg (can_merge ?B thr mp) r (pre @ [True]) \<and>
    (\<forall>p \<in> set (collectPrefixes ?B v6 r (Suc (length pre)) (set_bit_at v6 (length pre) bytes) thr mp). canonical ?B p)"
    using 3 bytes_repr_True [OF "3.prems"(3) d] by force
  have cnt: "countLeavesRecursive l = 0 \<longleftrightarrow> leaf_paths l = {}" "countLeavesRecursive r = 0 \<longleftrightarrow> leaf_paths r = {}"
    by (simp_all add: countLeaves_card)
  have tot: "countLeavesRecursive l + countLeavesRecursive r = card (leaf_paths (RNode l r lf p))"
    using lf countLeaves_card [of "RNode l r lf p"] by simp
  have M: "canonical ?B (masked (prefix_from (buffer_addr v6 bytes) (int (length pre))))"
    "prefix_bits (masked (prefix_from (buffer_addr v6 bytes) (int (length pre)))) = pre"
    using masked_prefix_from [of "buffer_addr v6 bytes" "length pre"] d
      take_path_buffer_addr [OF "3.prems"(3)] by (simp_all flip: bit_len_pos)
  show ?case
    using L R M lf d tot cnt
    by (simp add: Let_def agg_empty ball_Un merges_def flip: buffer_addr_def)
qed simp_all

section \<open>Properties of the walk\<close>

lemma agg_extends: "q \<in> set (agg mg node pre) \<Longrightarrow> prefix pre q"
proof (induction mg node pre rule: agg.induct)
  case (2 mg l r lf p pre)
  then show ?case
    by (auto split: if_splits dest!: append_prefixD)
qed simp

lemma agg_covers: "xs \<in> leaf_paths node \<Longrightarrow> \<exists>q \<in> set (agg mg node pre). prefix q (pre @ xs)"
proof (induction mg node pre arbitrary: xs rule: agg.induct)
  case (2 mg l r lf p pre)
  show ?case
  proof (cases "lf \<or> merges mg l r pre")
    case False
    with "2.prems" obtain b ys where xs: "xs = b # ys"
      "ys \<in> (if b then leaf_paths r else leaf_paths l)"
      by (auto split: if_splits)
    with 2 False have "\<exists>q \<in> set (if b then agg mg r (pre @ [True]) else agg mg l (pre @ [False])).
        prefix q ((pre @ [b]) @ ys)"
      by (cases b) (auto split: if_splits)
    with xs False show ?thesis
      by (auto split: if_splits)
  qed simp
qed simp

lemma leaf_paths_under_left:
  "\<not> lf \<Longrightarrow> prefix (pre @ [False]) q \<Longrightarrow>
     {xs \<in> leaf_paths (RNode l r lf p). prefix q (pre @ xs)} =
     (#) False ` {xs \<in> leaf_paths l. prefix q ((pre @ [False]) @ xs)}"
  by (auto simp: prefix_def)

lemma leaf_paths_under_right:
  "\<not> lf \<Longrightarrow> prefix (pre @ [True]) q \<Longrightarrow>
     {xs \<in> leaf_paths (RNode l r lf p). prefix q (pre @ xs)} =
     (#) True ` {xs \<in> leaf_paths r. prefix q ((pre @ [True]) @ xs)}"
  by (auto simp: prefix_def)

text \<open>Every emitted bit string is a leaf, or passed the merge test on the leaves below it.\<close>

lemma agg_emitted:
  assumes "trie_ok n pre node" and "q \<in> set (agg mg node pre)"
  shows "length q \<le> length pre + n \<and>
    (length q = length pre + n \<and> (\<exists>xs \<in> leaf_paths node. q = pre @ xs) \<or>
     mg (length q) (card {xs \<in> leaf_paths node. prefix q (pre @ xs)}))"
  using assms
proof (induction n pre node rule: trie_ok.induct)
  case (3 n pre l r lf p)
  then have nl: "\<not> lf" by simp
  show ?case
  proof (cases "merges mg l r pre")
    case True
    with "3.prems" have "q = pre" by simp
    with True nl show ?thesis
      by (auto simp: merges_def Un_def)
  next
    case False
    then consider "q \<in> set (agg mg l (pre @ [False]))" | "q \<in> set (agg mg r (pre @ [True]))"
      using "3.prems" nl by (auto split: if_splits)
    then show ?thesis
    proof cases
      case 1
      with 3 nl agg_extends [OF 1] show ?thesis
        by (subst leaf_paths_under_left) (auto simp: card_image)
    next
      case 2
      with 3 nl agg_extends [OF 2] show ?thesis
        by (subst leaf_paths_under_right) (auto simp: card_image)
    qed
  qed
qed simp_all

lemma agg_parallel: "sorted_wrt parallel (agg mg node pre)"
proof (induction mg node pre rule: agg.induct)
  case (2 mg l r lf p pre)
  have "parallel q q'" if "q \<in> set (agg mg l (pre @ [False]))" "q' \<in> set (agg mg r (pre @ [True]))" for q q'
    using agg_extends [OF that(1)] agg_extends [OF that(2)]
    by (auto simp: prefix_def intro!: parallelI)
  with 2 show ?case
    by (auto simp: sorted_wrt_append)
qed simp

lemma agg_mono:
  assumes "\<And>d c. mg d c \<Longrightarrow> mg' d c" and "q \<in> set (agg mg node pre)"
  shows "\<exists>q' \<in> set (agg mg' node pre). prefix q' q"
  using assms
proof (induction mg' node pre rule: agg.induct)
  case (2 mg' l r lf p pre)
  show ?case
  proof (cases "lf \<or> merges mg' l r pre")
    case True
    with agg_extends [OF "2.prems"(2)] show ?thesis by simp
  next
    case False
    then have "\<not> merges mg l r pre" using "2.prems"(1) unfolding merges_def by blast
    with 2 False show ?thesis by auto
  qed
qed simp

text \<open>Where every count at depth \<open>d\<close> merges, two leaves that part at \<open>d\<close> are merged.\<close>

lemma agg_forced:
  assumes "trie_ok n pre node" and "\<And>c. mg d c"
    and "xs \<in> leaf_paths node" and "ys \<in> leaf_paths node" and "xs \<noteq> ys"
    and "length (longest_common_prefix (pre @ xs) (pre @ ys)) = d"
    and "q \<in> set (agg mg node pre)" and "prefix q (pre @ xs)"
  shows "length q \<le> d"
  using assms
proof (induction n pre node arbitrary: xs ys rule: trie_ok.induct)
  case (3 n pre l r lf p)
  then have nl: "\<not> lf" by simp
  have lcp: "prefix pre (longest_common_prefix (pre @ xs) (pre @ ys))"
    by (intro longest_common_prefix_max_prefix) auto
  show ?case
  proof (cases "merges mg l r pre")
    case True
    with 3 lcp show ?thesis by (auto dest: prefix_length_le)
  next
    case False
    obtain b xs' c ys' where x: "xs = b # xs'" and y: "ys = c # ys'"
      using "3.prems" nl by auto
    have "b = c"
    proof (rule ccontr)
      assume "b \<noteq> c"
      then have "longest_common_prefix (pre @ xs) (pre @ ys) = pre"
        using x y by (induction pre) auto
      with "3.prems" have "mg (length pre) k" for k by simp
      moreover have "leaf_paths l \<noteq> {}" "leaf_paths r \<noteq> {}"
        using \<open>b \<noteq> c\<close> x y "3.prems"(3,4) nl by (auto simp: image_iff)
      ultimately show False using False by (auto simp: merges_def)
    qed
    have "q \<notin> set (agg mg (if b then l else r) (pre @ [\<not> b]))"
      using "3.prems"(8) x by (auto dest!: agg_extends simp: prefix_def)
    then have "q \<in> set (if b then agg mg r (pre @ [True]) else agg mg l (pre @ [False]))"
      using "3.prems"(7) nl False by (auto split: if_splits)
    with 3 nl x y \<open>b = c\<close> show ?thesis
      by (cases b) (auto simp: image_iff)
  qed
qed auto

lemma card_extensions: "length q \<le> N \<Longrightarrow> card {ys :: bool list. length ys = N \<and> prefix q ys} = 2 ^ (N - length q)"
proof -
  assume "length q \<le> N"
  then have "{ys. length ys = N \<and> prefix q ys} = (@) q ` {zs. length zs = N - length q}"
    by (auto simp: prefix_def)
  then show ?thesis
    using card_lists_length_eq [of "UNIV :: bool set" "N - length q"] by (simp add: card_image inj_on_def)
qed

text \<open>A merge test that asks for every address below it makes the walk exact.\<close>

lemma agg_exact:
  assumes "trie_ok N [] node" and "q \<in> set (agg mg node [])" and "length ys = N" and "prefix q ys"
    and "\<And>d c. mg d c \<Longrightarrow> d \<le> N \<Longrightarrow> 2 ^ (N - d) \<le> c"
  shows "ys \<in> leaf_paths node"
proof -
  let ?U = "{xs \<in> leaf_paths node. prefix q xs}" and ?E = "{xs. length xs = N \<and> prefix q xs}"
  from agg_emitted [OF assms(1,2)] consider "length q = N" "q \<in> leaf_paths node" | "length q \<le> N" "mg (length q) (card ?U)"
    by auto
  then show ?thesis
  proof cases
    case 1
    with assms(3,4) have "ys = q" by (auto simp: prefix_def)
    with 1 show ?thesis by simp
  next
    case 2
    have fin: "finite ?E"
      by (rule finite_subset [OF _ finite_lists_length_eq [of "UNIV :: bool set" N]]) auto
    have "?U \<subseteq> ?E" using length_leaf_paths [OF assms(1)] by auto
    moreover have "card ?E \<le> card ?U"
      using card_extensions [OF 2(1)] assms(5) [OF 2(2,1)] by simp
    ultimately have "?U = ?E" using fin by (simp add: card_seteq)
    with assms(3,4) show ?thesis by blast
  qed
qed

end
