(* ===== verification/Cidr_Aggregate.thy ===== *)
theory Cidr_Aggregate
  imports Cidr
begin

text \<open>
  Correctness of \<open>Aggregate\<close> (\<open>pkg/cidr/aggregate.go\<close>): what the guarantees in its
  comment amount to on the model. The radix tree is used through the interface
  \<open>addr_store\<close>, the comparison callbacks through \<open>slice_less\<close>.
\<close>

section \<open>The radix tree as a set of addresses\<close>

locale addr_store =
  fixes emp :: 't and ins :: "'t \<Rightarrow> addr \<Rightarrow> 't" and keys :: "'t \<Rightarrow> bool list set"
    and inv :: "'t \<Rightarrow> bool" and width :: nat
  assumes inv_emp: "inv emp"
    and keys_emp: "keys emp = {}"
    and inv_ins: "inv t \<Longrightarrow> bit_len a = width \<Longrightarrow> inv (ins t a)"
    and keys_ins: "inv t \<Longrightarrow> bit_len a = width \<Longrightarrow> keys (ins t a) = insert (path a) (keys t)"
begin

lemma fold_ins:
  "inv t \<Longrightarrow> (\<And>a. a \<in> set as \<Longrightarrow> bit_len a = width) \<Longrightarrow>
     inv (foldl ins t as) \<and> keys (foldl ins t as) = path ` set as \<union> keys t"
  by (induction as arbitrary: t) (auto simp: inv_ins keys_ins)

lemma build:
  "(\<And>a. a \<in> set as \<Longrightarrow> bit_len a = width) \<Longrightarrow>
     inv (foldl ins emp as) \<and> keys (foldl ins emp as) = path ` set as"
  using fold_ins [OF inv_emp] by (simp add: keys_emp)

end

definition tree_ok :: "bool \<Rightarrow> radixTree \<Rightarrow> bool" where
  "tree_ok v6 t \<longleftrightarrow> tbits t = fam_bits v6 \<and> isV6 t = v6 \<and> root t \<noteq> RNil \<and>
     trie_ok (fam_bits v6) [] (root t)"

lemma tree_ok_new: "tree_ok v6 (newRadixTree v6)"
  by (simp add: tree_ok_def newRadixTree_def fam_bits_def zero_node_def numeral_eq_Suc)

lemma keys_new: "leaf_paths (root (newRadixTree v6)) = {}"
  by (simp add: newRadixTree_def zero_node_def)

lemma tree_insert_root:
  assumes "bit_len a = fam_bits v6" and "root t \<noteq> RNil"
  shows "root (tree_insert t a) = insert_path (path a) (prefix_from a (int (fam_bits v6))) (root t)"
    and "tbits (tree_insert t a) = tbits t" and "isV6 (tree_insert t a) = isV6 t"
proof -
  have a: "is_valid a" "is6 a = v6" "is4 a = (\<not> v6)"
    using assms(1) by (auto simp: is6_bit_len is4_bit_len fam_bits_def split: if_splits simp flip: bit_len_pos)
  have "alloc_child (root t) = root t" using assms(2) by (cases "root t") auto
  moreover have "insert_walk (as16 a) (if is4 a then 12 else 0) 0 (fam_bits v6) p (alloc_child (root t))
      = insert_path (drop 0 (path a)) p (root t)" for p
    by (rule insert_walk_path [where n = "fam_bits v6"]) (use as16_path [of _ a] assms(1) in auto)
  ultimately show "root (tree_insert t a) = insert_path (path a) (prefix_from a (int (fam_bits v6))) (root t)"
    using a by (cases v6) (simp_all add: tree_insert_def fam_bits_def)
  show "tbits (tree_insert t a) = tbits t" and "isV6 (tree_insert t a) = isV6 t"
    by (simp_all add: tree_insert_def Let_def)
qed

lemma insert_path_neq_RNil: "insert_path bs p node \<noteq> RNil"
  by (cases bs) (auto split: radixNode.splits)

lemma tree_store:
  assumes "tree_ok v6 t" and "bit_len a = fam_bits v6"
  shows "tree_ok v6 (tree_insert t a)"
    and "leaf_paths (root (tree_insert t a)) = insert (path a) (leaf_paths (root t))"
proof -
  have t: "root t \<noteq> RNil" "trie_ok (fam_bits v6) [] (root t)" using assms(1) by (auto simp: tree_ok_def)
  have "0 < fam_bits v6" by (simp add: fam_bits_def)
  then have p: "canonical (fam_bits v6) (prefix_from a (int (fam_bits v6)))"
    "prefix_bits (prefix_from a (int (fam_bits v6))) = path a"
    using canonical_host [of a] prefix_bits_host [of a] assms(2) by (metis bit_len_pos)+
  show "tree_ok v6 (tree_insert t a)"
    using tree_insert_root [OF assms(2) t(1)] insert_path_ok [OF t(2), of "path a"] p assms
    by (simp add: tree_ok_def insert_path_neq_RNil)
  show "leaf_paths (root (tree_insert t a)) = insert (path a) (leaf_paths (root t))"
    using tree_insert_root [OF assms(2) t(1)] leaf_paths_insert [OF t(2), of "path a"] assms(2) by simp
qed

interpretation v4tree: addr_store "newRadixTree False" tree_insert "\<lambda>t. leaf_paths (root t)" "tree_ok False" 32
  using tree_store [of False]
  by unfold_locales (auto simp: tree_ok_new keys_new fam_bits_def)

interpretation v6tree: addr_store "newRadixTree True" tree_insert "\<lambda>t. leaf_paths (root t)" "tree_ok True" 128
  using tree_store [of True]
  by unfold_locales (auto simp: tree_ok_new keys_new fam_bits_def)

section \<open>Comparison of addresses\<close>

lemma bytes_less_irrefl [simp]: "\<not> bytes_less as as"
  by (induction as) auto

lemma bytes_less_asym: "bytes_less as bs \<Longrightarrow> \<not> bytes_less bs as"
  by (induction as bs rule: bytes_less.induct) (auto split: if_splits)

lemma bytes_less_neg_trans:
  "length as = length bs \<Longrightarrow> length bs = length cs \<Longrightarrow>
     \<not> bytes_less as bs \<Longrightarrow> \<not> bytes_less bs cs \<Longrightarrow> \<not> bytes_less as cs"
  by (induction as bs cs rule: list_induct3) (auto split: if_splits)

lemma bytes_less_total:
  "length as = length bs \<Longrightarrow> \<not> bytes_less as bs \<Longrightarrow> \<not> bytes_less bs as \<Longrightarrow> as = bs"
  by (induction as bs rule: list_induct2) (auto split: if_splits)

interpretation addr_less: slice_less compareAddrs
  by unfold_locales (auto simp: compareAddrs_def dest: bytes_less_asym bytes_less_neg_trans [rotated 2])

interpretation prefix_less: slice_less "\<lambda>p q. compareAddrs (paddr p) (paddr q)"
  by unfold_locales (auto dest: addr_less.less_asym addr_less.less_neg_trans)

lemma as16_inj: "bit_len a = bit_len b \<Longrightarrow> as16 a = as16 b \<Longrightarrow> a = b"
proof (rule path_inj)
  assume *: "bit_len a = bit_len b" "as16 a = as16 b"
  then have "is4 a = is4 b" by (simp add: is4_bit_len)
  show "path a = path b"
  proof (rule nth_equalityI)
    fix i assume "i < length (path a)"
    then show "path a ! i = path b ! i"
      using as16_path [of i a] as16_path [of i b] * \<open>is4 a = is4 b\<close> by simp
  qed (use * in simp)
qed

lemma compareAddrs_total:
  "bit_len a = bit_len b \<Longrightarrow> \<not> compareAddrs a b \<Longrightarrow> \<not> compareAddrs b a \<Longrightarrow> a = b"
  by (rule as16_inj) (auto simp: compareAddrs_def intro: bytes_less_total)

text \<open>The sorted, deduplicated slice depends on the set of addresses only.\<close>

lemma unique_addrs_cong:
  assumes "set xs = set ys" and "\<And>a. a \<in> set xs \<Longrightarrow> bit_len a = n"
  shows "sort_slice compareAddrs (keep_first id xs) = sort_slice compareAddrs (keep_first id ys)"
  by (rule addr_less.sorted_unique)
    (use assms in \<open>auto intro: addr_less.sorted_sort_slice compareAddrs_total\<close>)

section \<open>The merge test\<close>

lemma max_possible_small: "bits - depth < 63 \<Longrightarrow> max_possible bits depth = 2 ^ (bits - depth)"
proof -
  assume k: "bits - depth < 63"
  have "push_bit (bits - depth) (1 :: 64 word) = word_of_int (2 ^ (bits - depth))"
    by (simp add: push_bit_eq_mult)
  then have "sint (push_bit (bits - depth) (1 :: 64 word)) = signed_take_bit 63 (2 ^ (bits - depth))"
    by (simp only: sint_sbintrunc') simp
  also have "\<dots> = 2 ^ (bits - depth)"
  proof (rule signed_take_bit_int_eq_self)
    have "(0 :: int) \<le> 2 ^ (bits - depth)" by simp
    then show "- (2 ^ 63) \<le> (2 :: int) ^ (bits - depth)" by (rule order_trans [rotated]) simp
    show "(2 :: int) ^ (bits - depth) < 2 ^ 63" by (rule power_strict_increasing [OF k]) simp
  qed
  finally show ?thesis by (simp add: max_possible_def)
qed

lemma max_possible_63: "bits - depth = 63 \<Longrightarrow> max_possible bits depth = - (2 ^ 63)"
  by (simp add: max_possible_def)

lemma max_possible_wraps: "64 \<le> bits - depth \<Longrightarrow> max_possible bits depth = 0"
proof -
  assume "64 \<le> bits - depth"
  then have "push_bit (bits - depth) (1 :: 64 word) = 0" by (simp add: push_bit_eq_mult)
  then show ?thesis unfolding max_possible_def by (simp only: signed_0)
qed

lemma can_merge_depth: "can_merge bits thr mp d c \<Longrightarrow> 0 < d \<and> mp \<le> int d"
  by (simp add: can_merge_def)

lemma can_merge_mono: "thr' \<le> thr \<Longrightarrow> can_merge bits thr mp d c \<Longrightarrow> can_merge bits thr' mp d c"
  by (cases "float_div (int c) (max_possible bits d)") (auto simp: can_merge_def)

lemma can_merge_density:
  assumes "can_merge bits thr mp d c" and "bits - d < 63"
  shows "thr * 2 ^ (bits - d) \<le> of_nat c"
  using assms by (simp add: can_merge_def max_possible_small float_div_def pos_le_divide_eq)

lemma can_merge_full:
  assumes "can_merge bits thr mp d c" and "1 \<le> thr" and "bits - d \<le> 63"
  shows "2 ^ (bits - d) \<le> c"
proof (cases "bits - d < 63")
  case True
  have "(2 ^ (bits - d) :: rat) \<le> thr * 2 ^ (bits - d)" using assms(2) by simp
  also have "\<dots> \<le> of_nat c" by (rule can_merge_density [OF assms(1) True])
  finally have "of_nat (2 ^ (bits - d)) \<le> (of_nat c :: rat)" by simp
  then show ?thesis by (simp only: of_nat_le_iff)
next
  case False
  with assms(3) have "bits - d = 63" by simp
  then have "float_div (int c) (max_possible bits d) = Finite (- (of_nat c / 2 ^ 63))"
    by (simp add: max_possible_63 float_div_def)
  moreover have "- (of_nat c / 2 ^ 63) \<le> (0 :: rat)" by simp
  then have "\<not> thr \<le> - (of_nat c / 2 ^ 63)" using assms(2) by linarith
  ultimately show ?thesis using assms(1) by (simp add: can_merge_def)
qed

lemma can_merge_forced: "0 < d \<Longrightarrow> mp \<le> int d \<Longrightarrow> 64 \<le> bits - d \<Longrightarrow> can_merge bits thr mp d c"
  by (simp add: can_merge_def max_possible_wraps float_div_def)

section \<open>One address family\<close>

lemma clamp_prefix_bounds: "0 \<le> clamp_prefix v6 mp" "clamp_prefix v6 mp \<le> int (fam_bits v6)"
  by (auto simp: clamp_prefix_def fam_bits_def Let_def)

lemma clamp_prefix_id: "0 \<le> mp \<Longrightarrow> mp \<le> int (fam_bits v6) \<Longrightarrow> clamp_prefix v6 mp = mp"
  by (auto simp: clamp_prefix_def fam_bits_def Let_def split: if_splits)

lemma aggregateFamily_node:
  assumes "\<And>a. a \<in> set xs \<Longrightarrow> bit_len a = fam_bits v6"
  obtains node where "trie_ok (fam_bits v6) [] node" and "leaf_paths node = path ` set xs"
    and "\<And>thr. map prefix_bits (aggregateFamily xs v6 thr mp) =
      agg (can_merge (fam_bits v6) thr (clamp_prefix v6 mp)) node []"
    and "\<And>thr p. p \<in> set (aggregateFamily xs v6 thr mp) \<Longrightarrow> canonical (fam_bits v6) p"
proof -
  let ?us = "sort_slice compareAddrs (keep_first id xs)"
  let ?t = "foldl tree_insert (newRadixTree v6) ?us"
  have t: "tree_ok v6 ?t" "leaf_paths (root ?t) = path ` set xs"
    using v4tree.build [of ?us] v6tree.build [of ?us] assms by (cases v6; simp add: fam_bits_def)+
  then have ok: "trie_ok (fam_bits v6) [] (root ?t)" "tbits ?t = fam_bits v6" "isV6 ?t = v6"
    by (simp_all add: tree_ok_def)
  have r: "map prefix_bits (aggregateFamily xs v6 thr mp) =
      agg (can_merge (fam_bits v6) thr (clamp_prefix v6 mp)) (root ?t) [] \<and>
    (\<forall>p \<in> set (aggregateFamily xs v6 thr mp). canonical (fam_bits v6) p)" for thr
    using collectPrefixes_refines [OF ok(1) _ bytes_repr_Nil, where thr = thr and mp = "clamp_prefix v6 mp"] ok
    by (simp add: aggregateFamily_def tree_aggregate_def Let_def)
  show ?thesis by (rule that [OF ok(1) t(2)]) (use r in blast)+
qed

lemma aggregateFamily_agg:
  assumes "\<And>a. a \<in> set xs \<Longrightarrow> bit_len a = fam_bits v6"
  obtains node where "trie_ok (fam_bits v6) [] node" and "leaf_paths node = path ` set xs"
    and "map prefix_bits (aggregateFamily xs v6 thr mp) =
      agg (can_merge (fam_bits v6) thr (clamp_prefix v6 mp)) node []"
    and "\<And>p. p \<in> set (aggregateFamily xs v6 thr mp) \<Longrightarrow> canonical (fam_bits v6) p"
  using aggregateFamily_node [of xs v6 mp, OF assms] by metis

lemma covers_prefix:
  "canonical (fam_bits v6) p \<Longrightarrow> covers p x \<longleftrightarrow> bit_len x = fam_bits v6 \<and> prefix (prefix_bits p) (path x)"
  by (subst covers_iff) (auto simp: fam_bits_def prefix_def, (metis append_take_drop_id)+)

lemma family_covers:
  assumes "\<And>a. a \<in> set xs \<Longrightarrow> bit_len a = fam_bits v6" and "x \<in> set xs"
  shows "\<exists>p \<in> set (aggregateFamily xs v6 thr mp). covers p x"
proof -
  obtain node where n: "leaf_paths node = path ` set xs"
    "map prefix_bits (aggregateFamily xs v6 thr mp) = agg (can_merge (fam_bits v6) thr (clamp_prefix v6 mp)) node []"
    "\<And>p. p \<in> set (aggregateFamily xs v6 thr mp) \<Longrightarrow> canonical (fam_bits v6) p"
    using aggregateFamily_agg [of xs v6 thr mp, OF assms(1)] by metis
  have "\<exists>q \<in> set (map prefix_bits (aggregateFamily xs v6 thr mp)). prefix q (path x)"
    unfolding n(2) using agg_covers [of "path x" node _ "[]"] assms(2) n(1) by simp
  then obtain p where p: "p \<in> set (aggregateFamily xs v6 thr mp)" "prefix (prefix_bits p) (path x)"
    by auto
  with covers_prefix [OF n(3) [OF p(1)]] assms show ?thesis by blast
qed

text \<open>Each emitted prefix is a host prefix of an input, or passed the merge test on its inputs.\<close>

lemma family_emitted:
  assumes "\<And>a. a \<in> set xs \<Longrightarrow> bit_len a = fam_bits v6" and "p \<in> set (aggregateFamily xs v6 thr mp)"
  shows "canonical (fam_bits v6) p \<and>
    (pbits p = int (fam_bits v6) \<and> paddr p \<in> set xs \<or>
     can_merge (fam_bits v6) thr (clamp_prefix v6 mp) (nat (pbits p)) (card {x \<in> set xs. covers p x}))"
proof -
  obtain node where n: "trie_ok (fam_bits v6) [] node" "leaf_paths node = path ` set xs"
    "map prefix_bits (aggregateFamily xs v6 thr mp) = agg (can_merge (fam_bits v6) thr (clamp_prefix v6 mp)) node []"
    "\<And>p. p \<in> set (aggregateFamily xs v6 thr mp) \<Longrightarrow> canonical (fam_bits v6) p"
    using aggregateFamily_agg [of xs v6 thr mp, OF assms(1)] by metis
  let ?q = "prefix_bits p"
  have c: "canonical (fam_bits v6) p" by (rule n(4) [OF assms(2)])
  have q: "?q \<in> set (agg (can_merge (fam_bits v6) thr (clamp_prefix v6 mp)) node [])"
    using assms(2) by (simp flip: n(3))
  have inj: "inj_on path (set xs)" using assms(1) by (auto intro!: inj_onI path_inj)
  have "{bs \<in> leaf_paths node. prefix ?q ([] @ bs)} = path ` {x \<in> set xs. covers p x}"
    using assms(1) by (auto simp: n(2) covers_prefix [OF c])
  then have "card {bs \<in> leaf_paths node. prefix ?q ([] @ bs)} = card {x \<in> set xs. covers p x}"
    using inj by (simp add: card_image inj_on_subset)
  moreover have "pbits p = int (fam_bits v6) \<and> paddr p \<in> set xs"
    if "length ?q = fam_bits v6" "?q \<in> leaf_paths node"
  proof -
    have "pbits p = int (fam_bits v6)" using that(1) length_prefix_bits [OF c] c by (auto simp: canonical_def)
    moreover from this c have "path (paddr p) = ?q" by (simp add: canonical_def)
    moreover from that(2) n(2) obtain x where "x \<in> set xs" "?q = path x" by auto
    ultimately show ?thesis using path_inj [of "paddr p" x] assms(1) c by (simp add: canonical_def)
  qed
  ultimately show ?thesis
    using agg_emitted [OF n(1) q] c length_prefix_bits [OF c] by auto
qed

lemma family_exact:
  assumes "\<And>a. a \<in> set xs \<Longrightarrow> bit_len a = fam_bits v6" and "1 \<le> thr"
    and "v6 \<Longrightarrow> 64 < mp"
    and "p \<in> set (aggregateFamily xs v6 thr mp)" and "covers p x"
  shows "x \<in> set xs"
proof -
  obtain node where n: "trie_ok (fam_bits v6) [] node" "leaf_paths node = path ` set xs"
    "map prefix_bits (aggregateFamily xs v6 thr mp) = agg (can_merge (fam_bits v6) thr (clamp_prefix v6 mp)) node []"
    "\<And>p. p \<in> set (aggregateFamily xs v6 thr mp) \<Longrightarrow> canonical (fam_bits v6) p"
    using aggregateFamily_agg [of xs v6 thr mp, OF assms(1)] by metis
  have x: "bit_len x = fam_bits v6" "prefix (prefix_bits p) (path x)"
    using assms(5) covers_prefix [OF n(4) [OF assms(4)]] by auto
  have "path x \<in> leaf_paths node"
  proof (rule agg_exact [OF n(1), of "prefix_bits p" "can_merge (fam_bits v6) thr (clamp_prefix v6 mp)"])
    show "prefix_bits p \<in> set (agg (can_merge (fam_bits v6) thr (clamp_prefix v6 mp)) node [])"
      using assms(4) by (simp flip: n(3))
    fix d c assume m: "can_merge (fam_bits v6) thr (clamp_prefix v6 mp) d c" "d \<le> fam_bits v6"
    have "fam_bits v6 - d \<le> 63"
      using assms(3) can_merge_depth [OF m(1)]
      by (cases v6) (auto simp: fam_bits_def clamp_prefix_def Let_def split: if_splits)
    then show "2 ^ (fam_bits v6 - d) \<le> c" by (rule can_merge_full [OF m(1) assms(2)])
  qed (use x in simp_all)
  with n(2) obtain y where "y \<in> set xs" "path x = path y" by auto
  with x assms(1) show ?thesis by (metis path_inj)
qed

lemma parallel_no_common: "parallel q q' \<Longrightarrow> prefix q xs \<Longrightarrow> prefix q' xs \<Longrightarrow> False"
  by (meson parallelD1 parallelD2 prefix_same_cases)

definition disjoint_prefixes :: "prefix \<Rightarrow> prefix \<Rightarrow> bool" where
  "disjoint_prefixes p q \<longleftrightarrow> \<not> (\<exists>x. covers p x \<and> covers q x)"

lemma family_disjoint:
  assumes "\<And>a. a \<in> set xs \<Longrightarrow> bit_len a = fam_bits v6"
  shows "sorted_wrt disjoint_prefixes (aggregateFamily xs v6 thr mp)"
proof -
  obtain node where n: 
    "map prefix_bits (aggregateFamily xs v6 thr mp) = agg (can_merge (fam_bits v6) thr (clamp_prefix v6 mp)) node []"
    "\<And>p. p \<in> set (aggregateFamily xs v6 thr mp) \<Longrightarrow> canonical (fam_bits v6) p"
    using aggregateFamily_agg [of xs v6 thr mp, OF assms(1)] by metis
  have "sorted_wrt parallel (map prefix_bits (aggregateFamily xs v6 thr mp))"
    unfolding n(1) by (rule agg_parallel)
  then have "sorted_wrt (\<lambda>p q. parallel (prefix_bits p) (prefix_bits q)) (aggregateFamily xs v6 thr mp)"
    by (simp add: sorted_wrt_map)
  then show ?thesis
    by (rule sorted_wrt_mono_rel [rotated])
      (auto simp: disjoint_prefixes_def covers_prefix [OF n(2)] dest: parallel_no_common)
qed

text \<open>Where every count merges at depth \<open>d\<close>, inputs that first differ at bit \<open>d\<close> are merged.\<close>

lemma family_forced:
  assumes len: "\<And>a. a \<in> set xs \<Longrightarrow> bit_len a = fam_bits v6"
    and "x \<in> set xs" and "y \<in> set xs" and "x \<noteq> y"
    and "d = length (longest_common_prefix (path x) (path y))"
    and "\<And>c. can_merge (fam_bits v6) thr (clamp_prefix v6 mp) d c"
    and "p \<in> set (aggregateFamily xs v6 thr mp)" and "covers p x"
  shows "pbits p \<le> int d"
proof -
  obtain node where n: "trie_ok (fam_bits v6) [] node" "leaf_paths node = path ` set xs"
    "map prefix_bits (aggregateFamily xs v6 thr mp) = agg (can_merge (fam_bits v6) thr (clamp_prefix v6 mp)) node []"
    "\<And>p. p \<in> set (aggregateFamily xs v6 thr mp) \<Longrightarrow> canonical (fam_bits v6) p"
    using aggregateFamily_agg [of xs v6 thr mp, OF len] by metis
  have c: "canonical (fam_bits v6) p" by (rule n(4) [OF assms(7)])
  have "length (prefix_bits p) \<le> d"
  proof (rule agg_forced [OF n(1), where mg = "can_merge (fam_bits v6) thr (clamp_prefix v6 mp)"
        and xs = "path x" and ys = "path y"])
    show "can_merge (fam_bits v6) thr (clamp_prefix v6 mp) d c" for c by (rule assms(6))
    show "path x \<noteq> path y" using path_inj [of x y] assms(2,3,4) len by auto
    show "prefix_bits p \<in> set (agg (can_merge (fam_bits v6) thr (clamp_prefix v6 mp)) node [])"
      using assms(7) by (simp flip: n(3))
    show "prefix (prefix_bits p) ([] @ path x)" using assms(8) covers_prefix [OF c] by simp
  qed (use assms(2,3,5) n(2) in simp_all)
  then show ?thesis using length_prefix_bits [OF c] by simp
qed

text \<open>A lower threshold covers at least what a higher one covers.\<close>

lemma family_mono:
  assumes len: "\<And>a. a \<in> set xs \<Longrightarrow> bit_len a = fam_bits v6" and "thr' \<le> thr"
    and "p \<in> set (aggregateFamily xs v6 thr mp)" and "covers p x"
  shows "\<exists>q \<in> set (aggregateFamily xs v6 thr' mp). covers q x"
proof -
  obtain node where n:
    "\<And>thr. map prefix_bits (aggregateFamily xs v6 thr mp) = agg (can_merge (fam_bits v6) thr (clamp_prefix v6 mp)) node []"
    "\<And>thr p. p \<in> set (aggregateFamily xs v6 thr mp) \<Longrightarrow> canonical (fam_bits v6) p"
    using aggregateFamily_node [of xs v6 mp, OF len] by metis
  have "prefix_bits p \<in> set (agg (can_merge (fam_bits v6) thr (clamp_prefix v6 mp)) node [])"
    using assms(3) by (simp flip: n(1))
  then obtain q' where "q' \<in> set (map prefix_bits (aggregateFamily xs v6 thr' mp))" "prefix q' (prefix_bits p)"
    unfolding n(1) using agg_mono [of _ _ "prefix_bits p" node "[]"] can_merge_mono [OF assms(2)] by metis
  then obtain q where q: "q \<in> set (aggregateFamily xs v6 thr' mp)" "prefix (prefix_bits q) (prefix_bits p)"
    by auto
  moreover have "covers q x"
    using assms(4) covers_prefix [OF n(2) [OF assms(3)]] covers_prefix [OF n(2) [OF q(1)]] q(2)
    by (auto intro: prefix_order.trans)
  ultimately show ?thesis by blast
qed

section \<open>Aggregate\<close>

definition family :: "bool \<Rightarrow> addr list \<Rightarrow> addr list" where
  "family v6 addrs = filter (\<lambda>a. bit_len a = fam_bits v6) addrs"

lemma aggregateFamily_Nil [simp]: "aggregateFamily [] v6 thr mp = []"
  by (simp add: aggregateFamily_def tree_aggregate_def newRadixTree_def zero_node_def Let_def)

lemma bit_len_family: "a \<in> set (family v6 addrs) \<Longrightarrow> bit_len a = fam_bits v6"
  by (simp add: family_def)

lemma in_family: "is_valid a \<Longrightarrow> a \<in> set addrs \<Longrightarrow> a \<in> set (family (is6 a) addrs)"
  by (cases a) (auto simp: family_def fam_bits_def)

lemma Aggregate_families:
  "Aggregate addrs thr mp = sort_slice (\<lambda>p q. compareAddrs (paddr p) (paddr q))
     (aggregateFamily (family False addrs) False thr mp @ aggregateFamily (family True addrs) True thr mp)"
proof -
  have "is_valid a \<and> is4 a \<longleftrightarrow> bit_len a = 32" "is_valid a \<and> is6 a \<longleftrightarrow> bit_len a = 128" for a
    by (cases a; simp)+
  then have "filter is4 (filter is_valid addrs) = family False addrs"
    "filter is6 (filter is_valid addrs) = family True addrs"
    by (simp_all add: family_def fam_bits_def)
  then show ?thesis
    by (simp add: Aggregate_def Let_def)
qed

lemma in_Aggregate:
  "p \<in> set (Aggregate addrs thr mp) \<longleftrightarrow> (\<exists>v6. p \<in> set (aggregateFamily (family v6 addrs) v6 thr mp))"
  unfolding Aggregate_families ex_bool_eq by auto

text \<open>The lemmas of one family, at the addresses of that family.\<close>

lemma fam_covers:
  "x \<in> set (family v6 addrs) \<Longrightarrow> \<exists>p \<in> set (aggregateFamily (family v6 addrs) v6 thr mp). covers p x"
  by (rule family_covers) (simp_all add: bit_len_family)

lemma fam_emitted:
  "p \<in> set (aggregateFamily (family v6 addrs) v6 thr mp) \<Longrightarrow> canonical (fam_bits v6) p \<and>
    (pbits p = int (fam_bits v6) \<and> paddr p \<in> set (family v6 addrs) \<or>
     can_merge (fam_bits v6) thr (clamp_prefix v6 mp) (nat (pbits p))
       (card {x \<in> set (family v6 addrs). covers p x}))"
  by (rule family_emitted) (simp_all add: bit_len_family)

lemma fam_exact:
  "1 \<le> thr \<Longrightarrow> (v6 \<Longrightarrow> 64 < mp) \<Longrightarrow> p \<in> set (aggregateFamily (family v6 addrs) v6 thr mp) \<Longrightarrow>
     covers p x \<Longrightarrow> x \<in> set (family v6 addrs)"
  by (rule family_exact [of _ v6]) (simp_all add: bit_len_family)

lemma fam_cong:
  assumes "set xs = set ys"
  shows "aggregateFamily (family v6 xs) v6 thr mp = aggregateFamily (family v6 ys) v6 thr mp"
proof -
  have "sort_slice compareAddrs (keep_first id (family v6 xs)) =
      sort_slice compareAddrs (keep_first id (family v6 ys))"
    by (rule unique_addrs_cong [where n = "fam_bits v6"]) (use assms in \<open>auto simp: family_def\<close>)
  then show ?thesis by (simp add: aggregateFamily_def)
qed

lemma covers_family:
  "p \<in> set (aggregateFamily (family v6 addrs) v6 thr mp) \<Longrightarrow> covers p x \<Longrightarrow> bit_len x = fam_bits v6"
  using fam_emitted [of p v6 addrs thr mp] covers_prefix [of v6 p x] by simp

lemma fam_bits_inj [simp]: "fam_bits v = fam_bits w \<longleftrightarrow> v = w"
  by (auto simp: fam_bits_def split: if_splits)

lemma masked_canonical: "canonical n p \<Longrightarrow> 0 < n \<Longrightarrow> masked p = p"
proof -
  assume c: "canonical n p" and n: "0 < n"
  then have v: "is_valid (paddr p)" "nat (pbits p) \<le> bit_len (paddr p)" "pbits p = int (nat (pbits p))"
    by (auto simp: canonical_def simp flip: bit_len_pos)
  have eq: "p = prefix_from (paddr p) (int (nat (pbits p)))"
    using c v by (cases p) (simp add: prefix_from_def canonical_def)
  have "canonical n (masked p)" "prefix_bits (masked p) = prefix_bits p"
    using masked_prefix_from(1,2) [OF v(1,2), folded eq] c by (simp_all add: canonical_def prefix_bits_def)
  then show "masked p = p" using c by (intro canonical_inj)
qed

lemma nonempty_prefix:
  "p \<in> set (aggregateFamily (family v6 addrs) v6 thr mp) \<Longrightarrow> covers p (paddr p)"
  using fam_emitted [of p v6 addrs thr mp]
  by (auto simp: covers_def canonical_def fam_bits_def simp flip: bit_len_pos)

lemma sorted_wrt_sym_distinct:
  "sorted_wrt R xs \<Longrightarrow> (\<And>x y. R x y \<Longrightarrow> R y x) \<Longrightarrow> (\<And>x. x \<in> set xs \<Longrightarrow> \<not> R x x) \<Longrightarrow>
     distinct xs \<and> (\<forall>x \<in> set xs. \<forall>y \<in> set xs. x \<noteq> y \<longrightarrow> R x y)"
  by (induction xs) auto

lemma aggregate_mono:
  assumes "thr' \<le> thr" and "p \<in> set (Aggregate addrs thr mp)" and "covers p x"
  shows "\<exists>q \<in> set (Aggregate addrs thr' mp). covers q x"
proof -
  obtain v6 where p: "p \<in> set (aggregateFamily (family v6 addrs) v6 thr mp)"
    using assms(2) by (auto simp: in_Aggregate)
  have "\<exists>q \<in> set (aggregateFamily (family v6 addrs) v6 thr' mp). covers q x"
    by (rule family_mono [OF _ assms(1) p assms(3)]) (rule bit_len_family)
  then show ?thesis using in_Aggregate by blast
qed

lemma aggregate_forced:
  assumes "x \<in> set addrs" and "y \<in> set addrs" and "x \<noteq> y"
    and "bit_len x = fam_bits v6" and "bit_len y = fam_bits v6"
    and "d = length (longest_common_prefix (path x) (path y))"
    and "\<And>c. can_merge (fam_bits v6) thr (clamp_prefix v6 mp) d c"
    and "p \<in> set (Aggregate addrs thr mp)" and "covers p x"
  shows "pbits p \<le> int d"
proof -
  obtain w where p: "p \<in> set (aggregateFamily (family w addrs) w thr mp)"
    using assms(8) by (auto simp: in_Aggregate)
  have w: "w = v6" using covers_family [OF p assms(9)] assms(4) by simp
  show ?thesis
    by (rule family_forced [OF _ _ _ assms(3,6,7) p [unfolded w] assms(9)])
      (use assms(1,2,4,5) in \<open>auto simp: family_def\<close>)
qed

section \<open>Properties\<close>

lemma Aggregate_covers:
  assumes "a \<in> set addrs" and "is_valid a"
  shows "\<exists>p \<in> set (Aggregate addrs thr mp). covers p a"
  using fam_covers [OF in_family [OF assms(2,1)]] in_Aggregate by blast

lemma Aggregate_exact:
  assumes "1 \<le> thr" and "\<forall>a \<in> set addrs. is6 a \<longrightarrow> 64 < mp" and "p \<in> set (Aggregate addrs thr mp)" and "covers p x"
  shows "x \<in> set addrs \<and> is_valid x"
proof -
  obtain v6 where p: "p \<in> set (aggregateFamily (family v6 addrs) v6 thr mp)"
    using assms(3) by (auto simp: in_Aggregate)
  have "family v6 addrs \<noteq> []" using p by auto
  then have "v6 \<Longrightarrow> 64 < mp"
    using assms(2) by (auto simp: family_def fam_bits_def is6_bit_len filter_empty_conv)
  then have "x \<in> set (family v6 addrs)"
    using fam_exact [OF assms(1) _ p assms(4)] by blast
  then show ?thesis using assms(4) by (simp add: family_def covers_def)
qed

text \<open>
  C2: \<open>Aggregate\<close> loses no address: every valid input address, of either family and for
  every threshold and prefix bound, lies in one of the prefixes returned.
\<close>

theorem aggregate_covers_inputs:
  assumes "a \<in> set addrs" and "is_valid a"
  shows "\<exists>p \<in> set (Aggregate addrs thr mp). covers p a"
  by (rule Aggregate_covers [OF assms])

theorem aggregate_covers_inputs_witness:
  "\<exists>p \<in> set (Aggregate [Addr4 1, Addr6 5, Addr4 9] (3 / 4) 16). covers p (Addr6 5)"
  by (rule aggregate_covers_inputs) simp_all

text \<open>
  C1: lossless aggregation. With a threshold of at least 1 the prefixes returned cover the
  valid input addresses and no other, for IPv4 inputs whatever the prefix bound, and for
  IPv6 inputs when the bound is longer than 64 bits.
\<close>

theorem aggregate_lossless:
  assumes "1 \<le> thr" and "\<forall>a \<in> set addrs. is6 a \<longrightarrow> 64 < mp"
  shows "{x. \<exists>p \<in> set (Aggregate addrs thr mp). covers p x} = {a \<in> set addrs. is_valid a}"
  using Aggregate_exact [OF assms] Aggregate_covers [of _ addrs thr mp] by blast

theorem aggregate_lossless_witness:
  "{x. \<exists>p \<in> set (Aggregate [Addr4 4, Addr4 5, Addr6 7] 1 65). covers p x} = {Addr4 4, Addr4 5, Addr6 7}"
proof -
  have "{x. \<exists>p \<in> set (Aggregate [Addr4 4, Addr4 5, Addr6 7] 1 65). covers p x} =
      {a \<in> set [Addr4 4, Addr4 5, Addr6 7]. is_valid a}"
    by (rule aggregate_lossless) simp_all
  then show ?thesis by auto
qed

text \<open>
  C27: boundary safety. Every prefix returned is in canonical form (host bits zero) and is
  either the host prefix of an input address or no broader than \<open>maxPrefix\<close> (clamped to the
  family) and longer than \<open>/0\<close>.
\<close>

theorem aggregate_boundary:
  assumes "p \<in> set (Aggregate addrs thr mp)"
  shows "masked p = p \<and>
    (paddr p \<in> set addrs \<and> pbits p = int (bit_len (paddr p)) \<or>
     1 \<le> pbits p \<and> clamp_prefix (is6 (paddr p)) mp \<le> pbits p \<and> pbits p \<le> int (bit_len (paddr p)))"
proof -
  obtain v6 where p: "p \<in> set (aggregateFamily (family v6 addrs) v6 thr mp)"
    using assms by (auto simp: in_Aggregate)
  have em: "canonical (fam_bits v6) p" "pbits p = int (fam_bits v6) \<and> paddr p \<in> set (family v6 addrs) \<or>
      can_merge (fam_bits v6) thr (clamp_prefix v6 mp) (nat (pbits p)) (card {x \<in> set (family v6 addrs). covers p x})"
    using fam_emitted [OF p] by auto
  have "is6 (paddr p) = v6" using em(1) by (auto simp: canonical_def is6_bit_len fam_bits_def split: if_splits)
  moreover have "masked p = p" by (rule masked_canonical [OF em(1)]) (simp add: fam_bits_def)
  ultimately show ?thesis
    using em can_merge_depth by (fastforce simp: canonical_def family_def)
qed

theorem aggregate_boundary_witness:
  "\<exists>p. p \<in> set (Aggregate [Addr4 4] 1 16) \<and> masked p = p \<and>
    (paddr p \<in> set [Addr4 4] \<and> pbits p = int (bit_len (paddr p)) \<or>
     1 \<le> pbits p \<and> clamp_prefix (is6 (paddr p)) 16 \<le> pbits p \<and> pbits p \<le> int (bit_len (paddr p)))"
proof -
  obtain p where p: "p \<in> set (Aggregate [Addr4 4] 1 16)"
    using fam_covers [OF in_family [of "Addr4 4" "[Addr4 4]"], of 1 16] in_Aggregate by auto
  with aggregate_boundary [OF p] show ?thesis by blast
qed

text \<open>C10: the prefixes returned are pairwise disjoint: no address lies in two of them.\<close>

theorem aggregate_disjoint:
  "distinct (Aggregate addrs thr mp) \<and>
   (\<forall>p \<in> set (Aggregate addrs thr mp). \<forall>q \<in> set (Aggregate addrs thr mp).
      p \<noteq> q \<longrightarrow> disjoint_prefixes p q)"
proof -
  let ?F = "\<lambda>v6. aggregateFamily (family v6 addrs) v6 thr mp"
  have fam: "sorted_wrt disjoint_prefixes (?F v6)" for v6
    by (rule family_disjoint) (rule bit_len_family)
  have S: "sorted_wrt disjoint_prefixes (?F False @ ?F True)"
    using fam by (auto simp: sorted_wrt_append disjoint_prefixes_def dest!: covers_family)
  have I: "\<not> disjoint_prefixes p p" if "p \<in> set (?F False @ ?F True)" for p
    using that by (auto simp: disjoint_prefixes_def intro: nonempty_prefix)
  have "distinct (?F False @ ?F True) \<and>
      (\<forall>p \<in> set (?F False @ ?F True). \<forall>q \<in> set (?F False @ ?F True). p \<noteq> q \<longrightarrow> disjoint_prefixes p q)"
    by (rule sorted_wrt_sym_distinct [OF S _ I]) (auto simp: disjoint_prefixes_def)
  then show ?thesis by (simp add: Aggregate_families)
qed

theorem aggregate_disjoint_witness:
  "disjoint_prefixes (prefix_from (Addr4 4) 32) (prefix_from (Addr4 9) 32)"
proof -
  have "prefix_from (Addr4 4) 32 \<in> set (Aggregate [Addr4 4, Addr4 9] 1 16)"
    and "prefix_from (Addr4 9) 32 \<in> set (Aggregate [Addr4 4, Addr4 9] 1 16)"
    by code_simp+
  moreover have "prefix_from (Addr4 4) 32 \<noteq> prefix_from (Addr4 9) 32" by (simp add: prefix_from_def)
  ultimately show ?thesis using aggregate_disjoint by blast
qed

text \<open>
  determinism. The result depends on the set of input addresses only, not on their
  order or multiplicity.
\<close>

theorem aggregate_deterministic:
  assumes "set xs = set ys"
  shows "Aggregate xs thr mp = Aggregate ys thr mp"
  by (simp add: Aggregate_families fam_cong [OF assms])

theorem aggregate_deterministic_witness:
  "set [Addr4 1, Addr6 2, Addr4 1] = set [Addr6 2, Addr4 1] \<and>
   Aggregate [Addr4 1, Addr6 2, Addr4 1] 1 16 = Aggregate [Addr6 2, Addr4 1] 1 16"
proof -
  have *: "set [Addr4 1, Addr6 2, Addr4 1] = set [Addr6 2, Addr4 1]" by auto
  show ?thesis using * aggregate_deterministic [OF *] by blast
qed

text \<open>the result is sorted by the 16-byte form of the prefix addresses.\<close>

theorem aggregate_sorted:
  "sorted_wrt (\<lambda>p q. \<not> compareAddrs (paddr q) (paddr p)) (Aggregate addrs thr mp)"
  unfolding Aggregate_families by (rule prefix_less.sorted_sort_slice)


text \<open>
  the shift behind the merge ratio overflows for IPv6. Two IPv6 inputs whose first
  differing bit \<open>d\<close> lies at \<open>maxPrefix \<le> d \<le> 64\<close> are merged for every threshold, the
  lossless one included: the prefix that covers them has at most \<open>d\<close> bits.
\<close>

theorem aggregate_v6_forced_merge:
  assumes "Addr6 v \<in> set addrs" and "Addr6 w \<in> set addrs" and "v \<noteq> w"
    and "d = length (longest_common_prefix (path (Addr6 v)) (path (Addr6 w)))"
    and "0 < d" and "mp \<le> int d" and "d \<le> 64"
    and "p \<in> set (Aggregate addrs thr mp)" and "covers p (Addr6 v)"
  shows "pbits p \<le> int d"
proof (rule aggregate_forced [OF assms(1,2) _ _ _ assms(4) _ assms(8,9), of True])
  show "can_merge (fam_bits True) thr (clamp_prefix True mp) d c" for c
    using assms(5-7) by (intro can_merge_forced) (auto simp: fam_bits_def clamp_prefix_def Let_def)
qed (use assms(3) in \<open>simp_all add: fam_bits_def\<close>)

theorem aggregate_v6_forced_merge_witness:
  "\<exists>p \<in> set (Aggregate [Addr6 0, Addr6 (2 ^ 63)] 1 32). covers p (Addr6 0) \<and> pbits p \<le> 64"
proof -
  have d: "64 = length (longest_common_prefix (path (Addr6 0)) (path (Addr6 (2 ^ 63))))"
    by (simp add: upt_rec)
  obtain p where p: "p \<in> set (Aggregate [Addr6 0, Addr6 (2 ^ 63)] 1 32)" "covers p (Addr6 0)"
    using fam_covers [OF in_family [of "Addr6 0" "[Addr6 0, Addr6 (2 ^ 63)]"], of 1 32] in_Aggregate by auto
  with aggregate_v6_forced_merge [OF _ _ _ d _ _ _ p] show ?thesis by force
qed


end
