(* ===== verification/Aggregator.thy ===== *)
theory Aggregator
  imports Cidr_Aggregate
begin

text \<open>
  Package \<open>internal/aggregator\<close>: the aggregation levels and their thresholds on top of
  \<open>pkg/cidr\<close>. The type \<open>Aggressiveness\<close> is a byte; values beyond the four named levels
  reach the default branch.
\<close>

section \<open>aggregator.go\<close>

datatype Aggressiveness = AggOff | AggConservative | AggBalanced | AggAggressive | AggOther "8 word"

fun levelToThreshold :: "Aggressiveness \<Rightarrow> rat" where
  "levelToThreshold AggOff = -1"
| "levelToThreshold AggConservative = 1"
| "levelToThreshold AggBalanced = 3 / 4"
| "levelToThreshold AggAggressive = 1 / 2"
| "levelToThreshold (AggOther _) = 1"

definition AggregateV4 :: "addr list \<Rightarrow> Aggressiveness \<Rightarrow> int \<Rightarrow> prefix list" where
  "AggregateV4 addrs level maxPrefix = Aggregate addrs (levelToThreshold level) maxPrefix"

definition AggregateV6 :: "addr list \<Rightarrow> Aggressiveness \<Rightarrow> int \<Rightarrow> prefix list" where
  "AggregateV6 addrs level maxPrefix = Aggregate addrs (levelToThreshold level) maxPrefix"

definition covered :: "prefix list \<Rightarrow> addr set" where
  "covered ps = {x. \<exists>p \<in> set ps. covers p x}"

section \<open>Properties\<close>

lemma covered_mono: "thr' \<le> thr \<Longrightarrow> covered (Aggregate addrs thr mp) \<subseteq> covered (Aggregate addrs thr' mp)"
  unfolding covered_def using aggregate_mono by blast

text \<open>
  the levels are nested. At every prefix bound the conservative result covers no more
  than the balanced one, and the balanced one no more than the aggressive one.
\<close>

theorem levels_nested:
  "covered (AggregateV4 addrs AggConservative mp) \<subseteq> covered (AggregateV4 addrs AggBalanced mp) \<and>
   covered (AggregateV4 addrs AggBalanced mp) \<subseteq> covered (AggregateV4 addrs AggAggressive mp)"
  by (auto simp: AggregateV4_def intro!: covered_mono)

text \<open>
  the level \<open>off\<close> is not ``no aggregation''. Its threshold \<open>-1\<close> is below every ratio, so it
  covers at least what every other level covers, and two IPv4 inputs that agree on their
  first \<open>d\<close> bits, \<open>d\<close> at least 1 and at least the prefix bound, are merged into a prefix of at most
  \<open>d\<close> bits.
\<close>

theorem off_merges_most:
  assumes "Addr4 v \<in> set addrs" and "Addr4 w \<in> set addrs" and "v \<noteq> w"
    and "d = length (longest_common_prefix (path (Addr4 v)) (path (Addr4 w)))"
    and "0 < d" and "mp \<le> int d"
    and "p \<in> set (AggregateV4 addrs AggOff mp)" and "covers p (Addr4 v)"
  shows "pbits p \<le> int d \<and> covered (AggregateV4 addrs level mp) \<subseteq> covered (AggregateV4 addrs AggOff mp)"
proof
  have d: "d \<le> 32"
    using prefix_length_le [OF longest_common_prefix_prefix1 [of "path (Addr4 v)" "path (Addr4 w)"]] assms(4)
    by simp
  have merge: "can_merge (fam_bits False) (-1) (clamp_prefix False mp) d c" for c
    using assms(5,6) d
    by (auto simp: can_merge_def fam_bits_def clamp_prefix_def Let_def max_possible_small float_div_def
        intro: order_trans [of _ 0])
  show "pbits p \<le> int d"
    by (rule aggregate_forced [OF assms(1,2) _ _ _ assms(4) merge _ assms(8)])
      (use assms(3,7) in \<open>simp_all add: fam_bits_def AggregateV4_def\<close>)
  show "covered (AggregateV4 addrs level mp) \<subseteq> covered (AggregateV4 addrs AggOff mp)"
    unfolding AggregateV4_def by (rule covered_mono) (cases level; simp)
qed

theorem off_merges_most_witness:
  "prefix_from (Addr4 0x0A000000) 30 \<in> set (AggregateV4 [Addr4 0x0A000001, Addr4 0x0A000002] AggOff 16) \<and>
   pbits (prefix_from (Addr4 0x0A000000) 30) \<le> 30 \<and>
   covered (AggregateV4 [Addr4 0x0A000001, Addr4 0x0A000002] AggAggressive 16)
     \<subseteq> covered (AggregateV4 [Addr4 0x0A000001, Addr4 0x0A000002] AggOff 16)"
proof -
  let ?in = "[Addr4 0x0A000001, Addr4 0x0A000002]" and ?p = "prefix_from (Addr4 0x0A000000) 30"
  have p: "?p \<in> set (AggregateV4 ?in AggOff 16)" by code_simp
  have d: "30 = length (longest_common_prefix (path (Addr4 0x0A000001)) (path (Addr4 0x0A000002)))"
    by code_simp
  have c: "covers ?p (Addr4 0x0A000001)" by code_simp
  show ?thesis
    using off_merges_most [OF _ _ _ d _ _ p c, of AggAggressive] p by simp
qed

end
