(* ===== verification/Netip_Text.thy ===== *)
theory Netip_Text
  imports Netip
begin

text \<open>
  The textual forms of \<open>net/netip\<close>: \<open>Addr.String\<close>, \<open>Prefix.String\<close>, \<open>ParseAddr\<close> and
  \<open>ParsePrefix\<close>, as the standard library defines them (dotted decimal without leading
  zeros, RFC 5952 for IPv6 with the first longest run of two or more zero groups elided,
  IPv4-mapped addresses in mixed form). Addresses carry no zone, so a \<open>%\<close> is an error.
  The main result is that parsing inverts printing.
\<close>

section \<open>Numerals\<close>

definition digit_char :: "nat \<Rightarrow> char" where
  "digit_char n = (if n < 10 then char_of (48 + n) else char_of (87 + n))"

definition hex_val :: "char \<Rightarrow> nat option" where
  "hex_val c = (let k = (of_char c :: nat) in
     if 48 \<le> k \<and> k \<le> 57 then Some (k - 48)
     else if 97 \<le> k \<and> k \<le> 102 then Some (k - 87)
     else if 65 \<le> k \<and> k \<le> 70 then Some (k - 55) else None)"

definition is_dec :: "char \<Rightarrow> bool" where
  "is_dec c \<longleftrightarrow> 48 \<le> (of_char c :: nat) \<and> (of_char c :: nat) \<le> 57"

definition dec_val :: "char \<Rightarrow> nat" where
  "dec_val c = of_char c - 48"

fun show_base :: "nat \<Rightarrow> nat \<Rightarrow> string" where
  "show_base b n = (if b < 2 \<or> n < b then [digit_char n] else show_base b (n div b) @ [digit_char (n mod b)])"

declare show_base.simps [simp del]

definition show_nat :: "nat \<Rightarrow> string" where
  "show_nat = show_base 10"

definition show_int :: "int \<Rightarrow> string" where
  "show_int i = (if i < 0 then ''-'' @ show_nat (nat (- i)) else show_nat (nat i))"

fun read_dec :: "nat \<Rightarrow> string \<Rightarrow> nat option" where
  "read_dec acc [] = Some acc"
| "read_dec acc (c # cs) = (if is_dec c then read_dec (10 * acc + dec_val c) cs else None)"

fun read_hex :: "nat \<Rightarrow> string \<Rightarrow> nat" where
  "read_hex acc [] = acc"
| "read_hex acc (c # cs) = (case hex_val c of None \<Rightarrow> acc | Some d \<Rightarrow> read_hex (16 * acc + d) cs)"

section \<open>Separators\<close>

fun join_with :: "string \<Rightarrow> string list \<Rightarrow> string" where
  "join_with sep [] = []"
| "join_with sep [x] = x"
| "join_with sep (x # y # xs) = x @ sep @ join_with sep (y # xs)"

section \<open>Addr.String\<close>

fun dotted4 :: "32 word \<Rightarrow> string" where
  "dotted4 w = join_with ''.'' (map (\<lambda>k. show_nat (unat (byte_at w k))) [3, 2, 1, 0])"

definition groups6 :: "128 word \<Rightarrow> nat list" where
  "groups6 w = map (\<lambda>k. unat (ucast (drop_bit (16 * k) w) :: 16 word)) [7, 6, 5, 4, 3, 2, 1, 0]"

text \<open>The scan for the first longest run of zero groups, as positions \<open>[start, end)\<close>.\<close>

fun zero_run :: "nat list \<Rightarrow> nat" where
  "zero_run (g # gs) = (if g = 0 then Suc (zero_run gs) else 0)"
| "zero_run [] = 0"

fun best_run :: "nat \<Rightarrow> nat list \<Rightarrow> (nat \<times> nat) option \<Rightarrow> (nat \<times> nat) option" where
  "best_run i [] best = best"
| "best_run i (g # gs) best =
     (let l = zero_run (g # gs);
          best' = (if 2 \<le> l \<and> (case best of None \<Rightarrow> True | Some (s, e) \<Rightarrow> e - s < l) then Some (i, i + l) else best)
      in best_run (Suc i) gs best')"

definition string6 :: "nat list \<Rightarrow> string" where
  "string6 gs = (case best_run 0 gs None of
     None \<Rightarrow> join_with '':'' (map (show_base 16) gs)
   | Some (s, e) \<Rightarrow> join_with '':'' (map (show_base 16) (take s gs)) @ ''::'' @
       join_with '':'' (map (show_base 16) (drop e gs)))"

definition is4in6 :: "128 word \<Rightarrow> bool" where
  "is4in6 w \<longleftrightarrow> drop_bit 32 w = 0xffff"

fun addr_string :: "addr \<Rightarrow> string" where
  "addr_string AddrZero = ''invalid IP''"
| "addr_string (Addr4 w) = dotted4 w"
| "addr_string (Addr6 w) =
     (if is4in6 w then ''::ffff:'' @ dotted4 (ucast w) else string6 (groups6 w))"

definition prefix_string :: "prefix \<Rightarrow> string" where
  "prefix_string p = (if pbits p < 0 then ''invalid Prefix''
     else addr_string (paddr p) @ ''/'' @ show_nat (nat (pbits p)))"

section \<open>ParseAddr\<close>

fun parse4_loop :: "string \<Rightarrow> nat \<Rightarrow> nat \<Rightarrow> nat list \<Rightarrow> nat list result" where
  "parse4_loop [] v digLen fs =
     (if length fs < 3 then Inl ''IPv4 address too short'' else Inr (fs @ [v]))"
| "parse4_loop (c # cs) v digLen fs =
     (if is_dec c then
        (if digLen = 1 \<and> v = 0 then Inl ''IPv4 field has octet with leading zero''
         else let v' = 10 * v + dec_val c in
           if 255 < v' then Inl ''IPv4 field has value >255'' else parse4_loop cs v' (Suc digLen) fs)
      else if c = CHR ''.'' then
        (if digLen = 0 \<or> cs = [] then Inl ''IPv4 field must have at least one digit''
         else if length fs = 3 then Inl ''IPv4 address too long''
         else parse4_loop cs 0 0 (fs @ [v]))
      else Inl ''unexpected character'')"

definition parseIPv4 :: "string \<Rightarrow> addr result" where
  "parseIPv4 s = bind_result (parse4_loop s 0 0 []) (\<lambda>fs. Inr (addr_from4 (map of_nat fs)))"

text \<open>
  The loop of \<open>parseIPv6\<close> over 16-bit fields: \<open>k\<close> fields are still free, \<open>gs\<close> are the
  fields read, \<open>ell\<close> the position of the ellipsis. The result is the fields, the ellipsis
  and the unread rest.
\<close>

fun parse6_loop :: "nat \<Rightarrow> string \<Rightarrow> nat list \<Rightarrow> nat option \<Rightarrow> (nat list \<times> nat option \<times> string) result" where
  "parse6_loop 0 s gs ell = Inr (gs, ell, s)"
| "parse6_loop (Suc k) s gs ell =
     (let digs = takeWhile (\<lambda>c. hex_val c \<noteq> None) s;
          rest = dropWhile (\<lambda>c. hex_val c \<noteq> None) s
      in if 4 < length digs then Inl ''each group must have 4 or less digits''
         else if digs = [] then Inl ''each colon-separated field must have at least one digit''
         else case rest of
           [] \<Rightarrow> Inr (gs @ [read_hex 0 digs], ell, [])
         | c # cs \<Rightarrow>
             if c = CHR ''.'' then
               (if ell = None \<and> length gs \<noteq> 6 then Inl ''embedded IPv4 address must replace the final 2 fields of the address''
                else if k = 0 then Inl ''too many hex fields to fit an embedded IPv4 at the end of the address''
                else bind_result (parse4_loop s 0 0 [])
                  (\<lambda>fs. Inr (gs @ [256 * fs ! 0 + fs ! 1, 256 * fs ! 2 + fs ! 3], ell, [])))
             else if c \<noteq> CHR '':'' then Inl ''unexpected character, want colon''
             else case cs of
               [] \<Rightarrow> Inl ''colon must be followed by more characters''
             | d # ds \<Rightarrow>
                 if d = CHR '':'' then
                   (if ell \<noteq> None then Inl ''multiple :: in address''
                    else if ds = [] then Inr (gs @ [read_hex 0 digs], Some (Suc (length gs)), [])
                    else parse6_loop k ds (gs @ [read_hex 0 digs]) (Some (Suc (length gs))))
                 else parse6_loop k cs (gs @ [read_hex 0 digs]) ell)"

definition expand6 :: "nat list \<times> nat option \<times> string \<Rightarrow> nat list result" where
  "expand6 r = (case r of (gs, ell, s) \<Rightarrow>
     if s \<noteq> [] then Inl ''trailing garbage after address''
     else if length gs < 8 then
       (case ell of None \<Rightarrow> Inl ''address string too short''
        | Some e \<Rightarrow> Inr (take e gs @ replicate (8 - length gs) 0 @ drop e gs))
     else if ell \<noteq> None then Inl ''the :: must expand to at least one field of zeros''
     else Inr gs)"

definition word_of_groups :: "nat list \<Rightarrow> 128 word" where
  "word_of_groups gs = foldl (\<lambda>acc g. push_bit 16 acc OR of_nat g) 0 gs"

definition parseIPv6 :: "string \<Rightarrow> addr result" where
  "parseIPv6 s =
     (if CHR ''%'' \<in> set s then Inl ''zones are not modelled''
      else case s of
        a # b # cs \<Rightarrow>
          if a = CHR '':'' \<and> b = CHR '':'' then
            (if cs = [] then Inr (Addr6 0)
             else bind_result (bind_result (parse6_loop 8 cs [] (Some 0)) expand6) (\<lambda>gs. Inr (Addr6 (word_of_groups gs))))
          else bind_result (bind_result (parse6_loop 8 s [] None) expand6) (\<lambda>gs. Inr (Addr6 (word_of_groups gs)))
      | _ \<Rightarrow> bind_result (bind_result (parse6_loop 8 s [] None) expand6) (\<lambda>gs. Inr (Addr6 (word_of_groups gs))))"

fun parse_dispatch :: "string \<Rightarrow> string \<Rightarrow> addr result" where
  "parse_dispatch s [] = Inl ''unable to parse IP''"
| "parse_dispatch s (c # cs) =
     (if c = CHR ''.'' then parseIPv4 s
      else if c = CHR '':'' then parseIPv6 s
      else if c = CHR ''%'' then Inl ''missing IPv6 address''
      else parse_dispatch s cs)"

definition ParseAddr :: "string \<Rightarrow> addr result" where
  "ParseAddr s = parse_dispatch s s"

section \<open>ParsePrefix\<close>

text \<open>Splitting at the last \<open>/\<close>.\<close>

definition split_last :: "char \<Rightarrow> string \<Rightarrow> (string \<times> string) option" where
  "split_last c s = (if c \<notin> set s then None
     else Some (rev (tl (dropWhile (\<lambda>x. x \<noteq> c) (rev s))), rev (takeWhile (\<lambda>x. x \<noteq> c) (rev s))))"

definition parse_bits :: "string \<Rightarrow> nat option" where
  "parse_bits s = (if s = [] then None
     else if 1 < length s \<and> \<not> (is_dec (hd s) \<and> hd s \<noteq> CHR ''0'') then None
     else read_dec 0 s)"

definition ParsePrefix :: "string \<Rightarrow> prefix result" where
  "ParsePrefix s = (case split_last CHR ''/'' s of
     None \<Rightarrow> Inl ''no slash''
   | Some (a, b) \<Rightarrow> bind_result (ParseAddr a) (\<lambda>ip.
       case parse_bits b of
         None \<Rightarrow> Inl ''bad bits after slash''
       | Some n \<Rightarrow> if (if is6 ip then 128 else 32) < n then Inl ''prefix length out of range''
           else Inr (prefix_from ip (int n))))"

section \<open>Reading back what was printed\<close>

lemma of_char_digit: "n < 16 \<Longrightarrow> of_char (digit_char n) = (if n < 10 then 48 + n else 87 + n)"
  by (auto simp: digit_char_def of_char_of)

lemma hex_val_digit: "n < 16 \<Longrightarrow> hex_val (digit_char n) = Some n"
  by (auto simp: hex_val_def of_char_digit Let_def)

lemma is_dec_digit: "n < 10 \<Longrightarrow> is_dec (digit_char n)" and dec_val_digit: "n < 10 \<Longrightarrow> dec_val (digit_char n) = n"
  by (simp_all add: is_dec_def dec_val_def of_char_digit)

lemma show_base_chars: "2 \<le> b \<Longrightarrow> set (show_base b n) \<subseteq> digit_char ` {..<b}"
proof (induction b n rule: show_base.induct)
  case (1 b n)
  show ?case
  proof (cases "n < b")
    case True
    then show ?thesis by (subst show_base.simps) auto
  next
    case False
    with 1 show ?thesis by (subst show_base.simps) auto
  qed
qed

lemma show_base_Nil [simp]: "show_base b n \<noteq> []"
  by (subst show_base.simps) simp

lemma hex_chars: "c \<in> set (show_base 16 n) \<Longrightarrow> hex_val c \<noteq> None"
  using show_base_chars [of 16 n] hex_val_digit by fastforce

lemma dec_chars: "c \<in> set (show_nat n) \<Longrightarrow> is_dec c \<and> hex_val c \<noteq> None"
  using show_base_chars [of 10 n] is_dec_digit hex_val_digit by (fastforce simp: show_nat_def)

lemma read_hex_snoc: "(\<And>c. c \<in> set xs \<Longrightarrow> hex_val c \<noteq> None) \<Longrightarrow> hex_val d = Some v \<Longrightarrow>
    read_hex a (xs @ [d]) = 16 * read_hex a xs + v"
proof (induction xs arbitrary: a)
  case (Cons x xs)
  then obtain u where "hex_val x = Some u" by fastforce
  with Cons show ?case by simp
qed simp

lemma read_hex_show: "read_hex 0 (show_base 16 n) = n"
proof (induction "16 :: nat" n rule: show_base.induct)
  case (1 n)
  show ?case
  proof (cases "n < 16")
    case True
    then show ?thesis by (subst show_base.simps) (simp add: hex_val_digit)
  next
    case False
    then have "show_base 16 n = show_base 16 (n div 16) @ [digit_char (n mod 16)]"
      by (subst show_base.simps) simp
    moreover have "read_hex 0 (show_base 16 (n div 16)) = n div 16"
      using 1 False by simp
    ultimately show ?thesis
      using read_hex_snoc [of "show_base 16 (n div 16)"] hex_chars hex_val_digit [of "n mod 16"] by simp
  qed
qed

lemma length_show_base: "2 \<le> b \<Longrightarrow> n < b ^ k \<Longrightarrow> 0 < k \<Longrightarrow> length (show_base b n) \<le> k"
proof (induction k arbitrary: n)
  case (Suc k)
  show ?case
  proof (cases "n < b")
    case True
    then show ?thesis by (subst show_base.simps) simp
  next
    case False
    with Suc.prems have "n div b < b ^ k" and "0 < k"
      by (auto simp: less_mult_imp_div_less mult.commute intro: gr0I)
    with Suc False show ?thesis by (subst show_base.simps) simp
  qed
qed simp

lemma parse4_digits:
  "n \<le> 255 \<Longrightarrow> parse4_loop (show_nat n @ rest) 0 0 fs = parse4_loop rest n (length (show_nat n)) fs"
proof (induction "10 :: nat" n arbitrary: rest rule: show_base.induct)
  case (1 n)
  show ?case
  proof (cases "n < 10")
    case True
    with 1 show ?thesis
      by (simp add: show_nat_def show_base.simps [of 10 n] is_dec_digit dec_val_digit)
  next
    case False
    then have s: "show_nat n = show_nat (n div 10) @ [digit_char (n mod 10)]"
      by (simp add: show_nat_def show_base.simps [of 10 n])
    have "n div 10 \<noteq> 0" "\<not> 255 < 10 * (n div 10) + n mod 10" using False 1 by auto
    with 1 False show ?thesis
      by (simp add: s is_dec_digit dec_val_digit)
  qed
qed

lemma show_nat_Nil [simp]: "show_nat n \<noteq> []"
  by (simp add: show_nat_def)

lemma unat_byte: "unat (w :: 8 word) \<le> 255"
  using unsigned_less [of w, where 'a = nat] by simp

lemma parse4_field:
  "n \<le> 255 \<Longrightarrow> length fs < 3 \<Longrightarrow> rest \<noteq> [] \<Longrightarrow>
     parse4_loop (show_nat n @ CHR ''.'' # rest) 0 0 fs = parse4_loop rest 0 0 (fs @ [n])"
  by (simp add: parse4_digits is_dec_def)

lemma parse4_last: "n \<le> 255 \<Longrightarrow> length fs = 3 \<Longrightarrow> parse4_loop (show_nat n) 0 0 fs = Inr (fs @ [n])"
  using parse4_digits [of n "[]" fs] by simp

lemma parse4_dotted: "parse4_loop (dotted4 w) 0 0 [] = Inr (map (\<lambda>k. unat (byte_at w k)) [3, 2, 1, 0])"
  by (simp add: parse4_field unat_byte parse4_last)

lemma nth4: "j < 4 \<Longrightarrow> [f 3, f 2, f 1, f 0] ! (3 - j) = f (j :: nat)"
  by (auto simp: less_Suc_eq numeral_eq_Suc)

lemma word_of_bytes4: "word_of_bytes [byte_at w 3, byte_at w 2, byte_at w 1, byte_at w 0] = (w :: 32 word)"
  (is "word_of_bytes ?bs = w")
proof (rule bit_word_eqI)
  fix i assume "i < LENGTH(32)"
  then have i: "i < 32" "i div 8 < 4" by auto
  have l: "length ?bs = 4" "4 - 1 - i div 8 = 3 - i div 8" by simp_all
  show "bit (word_of_bytes ?bs :: 32 word) i = bit w i"
    unfolding bit_word_of_bytes l nth4 [OF i(2), of "byte_at w"] using i by (simp add: bit_byte_at)
qed

lemma parseIPv4_dotted: "parseIPv4 (dotted4 w) = Inr (Addr4 w)"
proof -
  have "map of_nat (map (\<lambda>k. unat (byte_at w k)) [3, 2, 1, 0]) = map (byte_at w) [3, 2, 1, 0]"
    by simp
  then show ?thesis
    unfolding parseIPv4_def parse4_dotted bind_result_simps addr_from4_def by (simp add: word_of_bytes4 del: One_nat_def)
qed

lemma bit_word_of_groups:
  assumes "\<forall>g\<in>set gs. g < 2 ^ 16"
  shows "bit (word_of_groups gs) i \<longleftrightarrow>
    i < 128 \<and> i < 16 * length gs \<and> bit (gs ! (length gs - 1 - i div 16)) (i mod 16)"
  using assms
proof (induction gs arbitrary: i rule: rev_induct)
  case (snoc g gs)
  have step: "word_of_groups (gs @ [g]) = push_bit 16 (word_of_groups gs) OR of_nat g"
    by (simp add: word_of_groups_def)
  have g: "\<not> bit g j" if "16 \<le> j" for j
  proof -
    have "g < 2 ^ 16" using snoc.prems by simp
    also have "(2 :: nat) ^ 16 \<le> 2 ^ j" using that by (rule power_increasing) simp
    finally show ?thesis by (simp add: bit_iff_odd)
  qed
  show ?case
  proof (cases "i < 16")
    case True
    then show ?thesis by (auto simp: step bit_simps nth_append)
  next
    case False
    have "i div 16 = Suc ((i - 16) div 16)" and "i mod 16 = (i - 16) mod 16"
      using False by (auto simp: le_div_geq le_mod_geq)
    moreover have "\<not> bit (of_nat g :: 128 word) i"
      using False g [of i] by (auto simp: bit_simps)
    moreover have "i - 16 < 16 * length gs \<longleftrightarrow> i < 16 * length (gs @ [g])"
      using False by auto
    ultimately show ?thesis
      using False snoc.IH [of "i - 16"] snoc.prems
      by (auto simp: step bit_simps nth_append)
  qed
qed (simp add: word_of_groups_def)

lemma groups6_less: "\<forall>g\<in>set (groups6 w). g < 2 ^ 16"
  unfolding groups6_def using unsigned_less [where 'b = 16 and 'a = nat] by auto

lemma length_groups6 [simp]: "length (groups6 w) = 8"
  by (simp add: groups6_def)

lemma nth8: "j < 8 \<Longrightarrow> map f [7, 6, 5, 4, 3, 2, 1, 0] ! (7 - j) = f (j :: nat)"
  by (auto simp: less_Suc_eq numeral_eq_Suc)

lemma word_of_groups6: "word_of_groups (groups6 w) = w"
proof (rule bit_word_eqI)
  fix i assume "i < LENGTH(128)"
  then have i: "i < 128" "i div 16 < 8" by auto
  have l: "8 - 1 - i div 16 = 7 - i div 16" by simp
  have "groups6 w ! (7 - i div 16) = unat (ucast (drop_bit (16 * (i div 16)) w) :: 16 word)"
    unfolding groups6_def by (rule nth8 [OF i(2)])
  then show "bit (word_of_groups (groups6 w)) i = bit w i"
    unfolding bit_word_of_groups [OF groups6_less] length_groups6 l
    using i by (simp add: bit_simps)
qed

abbreviation hexes :: "nat list \<Rightarrow> string" where
  "hexes gs \<equiv> join_with '':'' (map (show_base 16) gs)"

lemma take_hex_prefix:
  assumes "\<forall>c\<in>set xs. hex_val c \<noteq> None" and "rest = [] \<or> hex_val (hd rest) = None"
  shows "takeWhile (\<lambda>c. hex_val c \<noteq> None) (xs @ rest) = xs"
    and "dropWhile (\<lambda>c. hex_val c \<noteq> None) (xs @ rest) = rest"
proof -
  have "takeWhile (\<lambda>c. hex_val c \<noteq> None) rest = []" and "dropWhile (\<lambda>c. hex_val c \<noteq> None) rest = rest"
    using assms(2) by (cases rest; simp)+
  with assms(1) show "takeWhile (\<lambda>c. hex_val c \<noteq> None) (xs @ rest) = xs"
    and "dropWhile (\<lambda>c. hex_val c \<noteq> None) (xs @ rest) = rest"
    by (simp_all add: takeWhile_append2 dropWhile_append2)
qed

lemma hex_val_seps [simp]: "hex_val CHR '':'' = None" "hex_val CHR ''.'' = None" "hex_val CHR ''%'' = None"
    "hex_val CHR ''/'' = None"
  by (simp_all add: hex_val_def)

lemma take_group:
  assumes "rest = [] \<or> hex_val (hd rest) = None"
  shows "takeWhile (\<lambda>c. hex_val c \<noteq> None) (show_base 16 g @ rest) = show_base 16 g"
    and "dropWhile (\<lambda>c. hex_val c \<noteq> None) (show_base 16 g @ rest) = rest"
  using take_hex_prefix [of "show_base 16 g" rest] assms hex_chars by blast+

lemma length_group: "g < 2 ^ 16 \<Longrightarrow> length (show_base 16 g) \<le> 4"
  by (rule length_show_base) simp_all

lemma parse6_group:
  assumes "g < 2 ^ 16" and "rest = [] \<or> hex_val (hd rest) = None"
  shows "parse6_loop (Suc k) (show_base 16 g @ rest) gs ell =
    (case rest of
       [] \<Rightarrow> Inr (gs @ [g], ell, [])
     | c # cs \<Rightarrow>
         if c = CHR ''.'' then
           (if ell = None \<and> length gs \<noteq> 6 then Inl ''embedded IPv4 address must replace the final 2 fields of the address''
            else if k = 0 then Inl ''too many hex fields to fit an embedded IPv4 at the end of the address''
            else bind_result (parse4_loop (show_base 16 g @ rest) 0 0 [])
              (\<lambda>fs. Inr (gs @ [256 * fs ! 0 + fs ! 1, 256 * fs ! 2 + fs ! 3], ell, [])))
         else if c \<noteq> CHR '':'' then Inl ''unexpected character, want colon''
         else case cs of
           [] \<Rightarrow> Inl ''colon must be followed by more characters''
         | d # ds \<Rightarrow>
             if d = CHR '':'' then
               (if ell \<noteq> None then Inl ''multiple :: in address''
                else if ds = [] then Inr (gs @ [g], Some (Suc (length gs)), [])
                else parse6_loop k ds (gs @ [g]) (Some (Suc (length gs))))
             else parse6_loop k cs (gs @ [g]) ell)"
proof -
  have "\<not> 4 < length (show_base 16 g)" using length_group [OF assms(1)] by simp
  then show ?thesis
    unfolding parse6_loop.simps Let_def take_group [OF assms(2)] read_hex_show
    by (simp only: if_False show_base_Nil)
qed

lemma parse6_end:
  "g < 2 ^ 16 \<Longrightarrow> parse6_loop (Suc k) (show_base 16 g) gs ell = Inr (gs @ [g], ell, [])"
  using parse6_group [of g "[]"] by (simp del: parse6_loop.simps)

lemma parse6_colon:
  "g < 2 ^ 16 \<Longrightarrow> rest \<noteq> [] \<Longrightarrow> hd rest \<noteq> CHR '':'' \<Longrightarrow>
     parse6_loop (Suc k) (show_base 16 g @ CHR '':'' # rest) gs ell = parse6_loop k rest (gs @ [g]) ell"
  by (cases rest) (simp_all add: parse6_group del: parse6_loop.simps)

lemma parse6_ellipsis:
  "g < 2 ^ 16 \<Longrightarrow>
     parse6_loop (Suc k) (show_base 16 g @ CHR '':'' # CHR '':'' # rest) gs None =
       (if rest = [] then Inr (gs @ [g], Some (Suc (length gs)), [])
        else parse6_loop k rest (gs @ [g]) (Some (Suc (length gs))))"
  by (simp add: parse6_group del: parse6_loop.simps)

lemma hexes_Nil [simp]: "hexes xs = [] \<longleftrightarrow> xs = []"
  by (cases xs; cases "tl xs") auto

lemma hd_hexes: "xs \<noteq> [] \<Longrightarrow> hd (hexes xs @ rest) \<noteq> CHR '':''"
proof -
  assume "xs \<noteq> []"
  then obtain x ys where xs: "xs = x # ys" by (cases xs) auto
  then have "hd (hexes xs @ rest) \<in> set (show_base 16 x)"
    by (cases ys) (auto simp: hd_append)
  then show ?thesis using hex_chars by force
qed

lemma parse6_hexes:
  "xs \<noteq> [] \<Longrightarrow> length xs \<le> k \<Longrightarrow> \<forall>g\<in>set xs. g < 2 ^ 16 \<Longrightarrow>
     parse6_loop k (hexes xs) gs ell = Inr (gs @ xs, ell, [])"
proof (induction xs arbitrary: k gs)
  case (Cons x xs)
  then obtain k' where k: "k = Suc k'" by (cases k) auto
  show ?case
  proof (cases xs)
    case Nil
    then show ?thesis using Cons.prems k by (simp add: parse6_end del: parse6_loop.simps)
  next
    case (Cons y ys)
    then show ?thesis
      using Cons.prems k Cons.IH [of k' "gs @ [x]"] parse6_colon [of x "hexes xs"] hd_hexes [of xs "[]"] hexes_Nil [of xs]
      by (simp del: parse6_loop.simps)
  qed
qed simp

lemma parse6_hexes_ellipsis:
  "xs \<noteq> [] \<Longrightarrow> length xs + length ys \<le> k \<Longrightarrow> \<forall>g\<in>set xs \<union> set ys. g < 2 ^ 16 \<Longrightarrow>
     parse6_loop k (hexes xs @ ''::'' @ hexes ys) gs None = Inr (gs @ xs @ ys, Some (length gs + length xs), [])"
proof (induction xs arbitrary: k gs)
  case (Cons x xs)
  then obtain k' where k: "k = Suc k'" by (cases k) auto
  show ?case
  proof (cases xs)
    case Nil
    then show ?thesis
      using Cons.prems k parse6_hexes [of ys k' "gs @ [x]"] by (simp add: parse6_ellipsis del: parse6_loop.simps)
  next
    case (Cons y zs)
    then show ?thesis
      using Cons.prems k Cons.IH [of k' "gs @ [x]"] parse6_colon [of x "hexes xs @ ''::'' @ hexes ys"]
        hd_hexes [of xs "''::'' @ hexes ys"] hexes_Nil [of xs]
      by (simp del: parse6_loop.simps)
  qed
qed simp

lemma best_run_zero:
  "best_run i gs best = Some (s, e) \<Longrightarrow>
     best = Some (s, e) \<or> (i \<le> s \<and> s + 2 \<le> e \<and> e \<le> i + length gs \<and> e - s \<le> zero_run (drop (s - i) gs))"
proof (induction i gs best rule: best_run.induct)
  case (2 i g gs best)
  have z: "zero_run gs' \<le> length gs'" for gs'
    by (induction gs' rule: zero_run.induct) auto
  let ?b = "if 2 \<le> zero_run (g # gs) \<and> (case best of None \<Rightarrow> True | Some (s, e) \<Rightarrow> e - s < zero_run (g # gs))
    then Some (i, i + zero_run (g # gs)) else best"
  have "best_run (Suc i) gs ?b = Some (s, e)"
    using 2(2) by (simp only: best_run.simps Let_def)
  then consider "?b = Some (s, e)" |
    "Suc i \<le> s \<and> s + 2 \<le> e \<and> e \<le> Suc i + length gs \<and> e - s \<le> zero_run (drop (s - Suc i) gs)"
    using 2(1) [OF refl refl] by blast
  then show ?case
  proof cases
    case 1
    then show ?thesis using z [of "g # gs"] by (auto split: if_splits simp del: zero_run.simps)
  next
    case 2
    then show ?thesis by (auto simp: drop_Cons' simp del: zero_run.simps)
  qed
qed simp

lemma take_zero_run: "n \<le> zero_run gs \<Longrightarrow> gs = replicate n 0 @ drop n gs"
proof (induction gs arbitrary: n)
  case (Cons g gs)
  then show ?case by (cases n) (auto split: if_splits)
qed simp

lemma best_run_split:
  assumes "best_run 0 gs None = Some (s, e)"
  shows "gs = take s gs @ replicate (e - s) 0 @ drop e gs" and "s + 2 \<le> e" and "e \<le> length gs"
proof -
  from best_run_zero [OF assms] have *: "s + 2 \<le> e" "e \<le> length gs" "e - s \<le> zero_run (drop s gs)"
    by auto
  have "drop s gs = replicate (e - s) 0 @ drop (e - s) (drop s gs)"
    by (rule take_zero_run) (rule *(3))
  moreover have "drop (e - s) (drop s gs) = drop e gs" using *(1) by simp
  ultimately show "gs = take s gs @ replicate (e - s) 0 @ drop e gs"
    by (metis append_take_drop_id)
  from * show "s + 2 \<le> e" "e \<le> length gs" by simp_all
qed

lemma set_hexes: "c \<in> set (hexes gs) \<Longrightarrow> c = CHR '':'' \<or> hex_val c \<noteq> None"
proof (induction gs)
  case (Cons g gs)
  then show ?case using hex_chars [of c g] by (cases gs) auto
qed simp

lemma set_string6: "c \<in> set (string6 gs) \<Longrightarrow> c = CHR '':'' \<or> hex_val c \<noteq> None"
  unfolding string6_def using set_hexes by (auto split: option.splits)

lemma parseIPv6_plain:
  assumes "s \<noteq> []" and "hd s \<noteq> CHR '':''" and "CHR ''%'' \<notin> set s"
  shows "parseIPv6 s = bind_result (bind_result (parse6_loop 8 s [] None) expand6) (\<lambda>gs. Inr (Addr6 (word_of_groups gs)))"
  using assms unfolding parseIPv6_def by (auto split: list.splits simp del: parse6_loop.simps)

lemma parseIPv6_string6:
  assumes "length gs = 8" and "\<forall>g\<in>set gs. g < 2 ^ 16"
  shows "parseIPv6 (string6 gs) = Inr (Addr6 (word_of_groups gs))"
proof (cases "best_run 0 gs None")
  case None
  then have s: "string6 gs = hexes gs" by (simp add: string6_def)
  have "gs \<noteq> []" using assms by auto
  then show ?thesis
    using parse6_hexes [of gs 8 "[]" None] hd_hexes [of gs "[]"] assms hexes_Nil [of gs] set_string6 [of "CHR ''%''" gs]
    unfolding s by (subst parseIPv6_plain) (auto simp: expand6_def simp del: parse6_loop.simps)
next
  case (Some se)
  obtain l r where "se = (l, r)" by (cases se)
  with Some have br: "best_run 0 gs None = Some (l, r)" by simp
  note sp = best_run_split [OF br]
  have s: "string6 gs = hexes (take l gs) @ ''::'' @ hexes (drop r gs)" by (simp add: string6_def br)
  have le: "length (take l gs) + length (drop r gs) < 8" "8 - (length (take l gs) + length (drop r gs)) = r - l"
    "length (take l gs) = l"
    using sp(2,3) assms(1) by auto
  have b: "\<forall>g\<in>set (take l gs) \<union> set (drop r gs). g < 2 ^ 16"
    using assms(2) by (auto dest: in_set_takeD in_set_dropD)
  have ex: "expand6 (take l gs @ drop r gs, Some l, []) = Inr gs"
    using le sp(1) unfolding expand6_def by simp
  have pc: "CHR ''%'' \<notin> set (string6 gs)" using set_string6 [of "CHR ''%''" gs] by auto
  show ?thesis
  proof (cases "l = 0")
    case True
    then have s': "string6 gs = CHR '':'' # CHR '':'' # hexes (drop r gs)" using s by simp
    show ?thesis
    proof (cases "drop r gs = []")
      case True
      then have "gs = replicate 8 0" using sp(1) \<open>l = 0\<close> le by (metis append_Nil append_Nil2 assms(1) length_replicate take0)
      moreover have "word_of_groups (replicate 8 0) = 0"
        by (simp add: word_of_groups_def numeral_eq_Suc)
      moreover have "parseIPv6 (string6 gs) = Inr (Addr6 0)"
        unfolding s' parseIPv6_def using True by simp
      ultimately show ?thesis by simp
    next
      case False
      have "parse6_loop 8 (hexes (drop r gs)) [] (Some 0) = Inr (drop r gs, Some 0, [])"
        using parse6_hexes [of "drop r gs" 8 "[]" "Some 0"] False b assms(1) by simp
      with False pc ex \<open>l = 0\<close> hexes_Nil [of "drop r gs"] show ?thesis
        unfolding s' parseIPv6_def by (simp del: parse6_loop.simps)
    qed
  next
    case False
    then have ne: "take l gs \<noteq> []" using assms(1) by auto
    have "parse6_loop 8 (string6 gs) [] None = Inr (take l gs @ drop r gs, Some l, [])"
      unfolding s using parse6_hexes_ellipsis [OF ne, of "drop r gs" 8 "[]"] b le by simp
    moreover have "hd (string6 gs) \<noteq> CHR '':''" and "string6 gs \<noteq> []"
      unfolding s using hd_hexes [OF ne] by simp_all
    ultimately show ?thesis
      using pc ex by (subst parseIPv6_plain) (simp_all del: parse6_loop.simps)
  qed
qed

lemma unat_halves: "unat (x :: 16 word) = 256 * unat (ucast (drop_bit 8 x) :: 8 word) + unat (ucast x :: 8 word)"
proof -
  have "unat x < 65536" using unsigned_less [of x, where 'a = nat] by simp
  then have "unat x div 256 mod 256 = unat x div 256" by simp
  then show ?thesis
    by (simp add: unsigned_ucast_eq unsigned_drop_bit_eq take_bit_eq_mod drop_bit_eq_div [where 'a = nat])
qed

lemma groups6_mapped:
  assumes "is4in6 w"
  shows "groups6 w = [0, 0, 0, 0, 0, 65535,
    256 * unat (byte_at (ucast w :: 32 word) 3) + unat (byte_at (ucast w :: 32 word) 2),
    256 * unat (byte_at (ucast w :: 32 word) 1) + unat (byte_at (ucast w :: 32 word) 0)]"
proof -
  have hi: "drop_bit (16 * k) w = drop_bit (16 * k - 32) 65535" if "2 \<le> k" for k
  proof -
    have "drop_bit (16 * k) w = drop_bit (16 * k - 32) (drop_bit 32 w)" using that by simp
    then show ?thesis using assms unfolding is4in6_def by (simp only:)
  qed
  have b: "ucast (drop_bit 8 (ucast (drop_bit 16 w) :: 16 word)) = byte_at (ucast w :: 32 word) 3"
    "ucast (ucast (drop_bit 16 w) :: 16 word) = byte_at (ucast w :: 32 word) 2"
    "ucast (drop_bit 8 (ucast w :: 16 word)) = byte_at (ucast w :: 32 word) 1"
    "ucast (ucast w :: 16 word) = byte_at (ucast w :: 32 word) 0"
    by (rule bit_word_eqI; auto simp: byte_at_def bit_simps)+
  show ?thesis
    using hi [of 7] hi [of 6] hi [of 5] hi [of 4] hi [of 3] hi [of 2]
      unat_halves [of "ucast (drop_bit 16 w)"] unat_halves [of "ucast w"]
    by (simp add: groups6_def b)
qed

lemma replicate_zeros5: "replicate 5 (0 :: nat) = [0, 0, 0, 0, 0]"
  by (simp add: numeral_eq_Suc)

lemma parse6_dotted:
  "0 < k \<Longrightarrow> parse6_loop (Suc k) (dotted4 v) gs (Some e) =
     Inr (gs @ [256 * unat (byte_at v 3) + unat (byte_at v 2), 256 * unat (byte_at v 1) + unat (byte_at v 0)], Some e, [])"
proof -
  assume "0 < k"
  obtain rest where d: "dotted4 v = show_nat (unat (byte_at v 3)) @ CHR ''.'' # rest" by simp
  let ?x = "show_nat (unat (byte_at v 3))"
  have "length ?x \<le> 3"
    unfolding show_nat_def by (rule length_show_base) (use unat_byte [of "byte_at v 3"] in simp_all)
  moreover have t: "takeWhile (\<lambda>c. hex_val c \<noteq> None) (dotted4 v) = ?x"
    "dropWhile (\<lambda>c. hex_val c \<noteq> None) (dotted4 v) = CHR ''.'' # rest"
    unfolding d using take_hex_prefix [of ?x "CHR ''.'' # rest"] dec_chars by (simp_all del: not_None_eq)
  ultimately show ?thesis
    using \<open>0 < k\<close> unfolding parse6_loop.simps Let_def t parse4_dotted by simp
qed

lemma parseIPv6_mapped:
  assumes "is4in6 w"
  shows "parseIPv6 (''::ffff:'' @ dotted4 (ucast w)) = Inr (Addr6 w)"
proof -
  let ?v = "ucast w :: 32 word"
  have ff: "''ffff'' = show_base 16 65535"
    by (simp add: show_base.simps digit_char_def char_of_def bit_iff_odd)
  have hd: "hd (dotted4 ?v) \<noteq> CHR '':''" and ne: "dotted4 ?v \<noteq> []"
    using dec_chars [of "hd (show_nat (unat (byte_at ?v 3)))" "unat (byte_at ?v 3)"] by auto
  have "parse6_loop 8 (show_base 16 65535 @ CHR '':'' # dotted4 ?v) [] (Some 0) = parse6_loop 7 (dotted4 ?v) [65535] (Some 0)"
    using parse6_colon [of 65535 "dotted4 ?v" 7 "[]" "Some 0"] hd ne by simp
  also have "\<dots> = Inr ([65535] @ drop 6 (groups6 w), Some 0, [])"
    using parse6_dotted [of 6 ?v "[65535]" 0] groups6_mapped [OF assms] by (simp del: parse6_loop.simps dotted4.simps)
  finally have p: "parse6_loop 8 (''ffff:'' @ dotted4 ?v) [] (Some 0) = Inr ([65535] @ drop 6 (groups6 w), Some 0, [])"
    by (simp flip: ff)
  have ex: "expand6 ([65535] @ drop 6 (groups6 w), Some 0, []) = Inr (groups6 w)"
    using groups6_mapped [OF assms] by (simp add: expand6_def replicate_zeros5)
  have "CHR ''%'' \<notin> set (''::ffff:'' @ dotted4 ?v)"
    using dec_chars [of "CHR ''%''"] by auto
  then show ?thesis
    unfolding parseIPv6_def using p ex by (simp add: word_of_groups6 del: parse6_loop.simps dotted4.simps)
qed

lemma dispatch6:
  "CHR '':'' \<in> set t \<Longrightarrow> (\<And>c. c \<in> set t \<Longrightarrow> c = CHR '':'' \<or> hex_val c \<noteq> None) \<Longrightarrow>
     parse_dispatch s t = parseIPv6 s"
proof (induction t)
  case (Cons c cs)
  show ?case
  proof (cases "c = CHR '':''")
    case False
    then have "hex_val c \<noteq> None" and "CHR '':'' \<in> set cs" using Cons.prems by auto
    moreover from this have "parse_dispatch s cs = parseIPv6 s" using Cons by simp
    ultimately show ?thesis by (auto simp: False)
  qed simp
qed simp

lemma dispatch4:
  "CHR ''.'' \<in> set t \<Longrightarrow> (\<And>c. c \<in> set t \<Longrightarrow> c = CHR ''.'' \<or> hex_val c \<noteq> None) \<Longrightarrow>
     parse_dispatch s t = parseIPv4 s"
proof (induction t)
  case (Cons c cs)
  show ?case
  proof (cases "c = CHR ''.''")
    case False
    then have "hex_val c \<noteq> None" and "CHR ''.'' \<in> set cs" using Cons.prems by auto
    moreover from this have "parse_dispatch s cs = parseIPv4 s" using Cons by simp
    ultimately show ?thesis by (auto simp: False)
  qed simp
qed simp

lemma colon_string6: "length gs = 8 \<Longrightarrow> CHR '':'' \<in> set (string6 gs)"
proof (cases "best_run 0 gs None")
  case None
  moreover assume "length gs = 8"
  then obtain x y ys where "gs = x # y # ys" by (cases gs; cases "tl gs") auto
  ultimately show ?thesis by (simp add: string6_def)
qed (auto simp: string6_def)

lemma ParseAddr_addr_string: "is_valid a \<Longrightarrow> ParseAddr (addr_string a) = Inr a"
proof (cases a)
  case (Addr4 w)
  have "c = CHR ''.'' \<or> hex_val c \<noteq> None" if "c \<in> set (dotted4 w)" for c
    using that dec_chars [of c] by auto
  then show ?thesis
    using Addr4 dispatch4 [of "dotted4 w" "dotted4 w"] parseIPv4_dotted [of w] by (simp add: ParseAddr_def)
next
  case (Addr6 w)
  show ?thesis
  proof (cases "is4in6 w")
    case True
    then show ?thesis using Addr6 parseIPv6_mapped [of w]
      by (simp add: ParseAddr_def del: dotted4.simps)
  next
    case False
    with Addr6 dispatch6 [of "string6 (groups6 w)" "string6 (groups6 w)"] set_string6 colon_string6
      parseIPv6_string6 [of "groups6 w"] groups6_less show ?thesis
      by (simp add: ParseAddr_def word_of_groups6)
  qed
qed simp

lemma read_dec_snoc: "(\<And>c. c \<in> set xs \<Longrightarrow> is_dec c) \<Longrightarrow>
    read_dec a (xs @ [d]) = (if is_dec d then map_option (\<lambda>v. 10 * v + dec_val d) (read_dec a xs) else None)"
  by (induction xs arbitrary: a) auto

lemma read_dec_show: "read_dec 0 (show_nat n) = Some n"
proof (induction "10 :: nat" n rule: show_base.induct)
  case (1 n)
  show ?case
  proof (cases "n < 10")
    case True
    then show ?thesis by (simp add: show_nat_def show_base.simps [of 10 n] is_dec_digit dec_val_digit)
  next
    case False
    then have "show_nat n = show_nat (n div 10) @ [digit_char (n mod 10)]"
      by (simp add: show_nat_def show_base.simps [of 10 n])
    with 1 False show ?thesis
      by (simp add: read_dec_snoc dec_chars is_dec_digit dec_val_digit)
  qed
qed

lemma hd_show_nat: "0 < n \<Longrightarrow> hd (show_nat n) \<noteq> CHR ''0''"
proof (induction "10 :: nat" n rule: show_base.induct)
  case (1 n)
  show ?case
  proof (cases "n < 10")
    case True
    have "dec_val (digit_char n) \<noteq> dec_val CHR ''0''" using 1 True by (simp add: dec_val_digit) (simp add: dec_val_def)
    with True show ?thesis by (auto simp: show_nat_def show_base.simps [of 10 n])
  next
    case False
    then have "show_nat n = show_nat (n div 10) @ [digit_char (n mod 10)]"
      by (simp add: show_nat_def show_base.simps [of 10 n])
    with 1 False show ?thesis by (simp add: hd_append)
  qed
qed

lemma parse_bits_show: "parse_bits (show_nat n) = Some n"
proof -
  have "is_dec (hd (show_nat n))" using dec_chars [of "hd (show_nat n)" n] by simp
  moreover have "length (show_nat 0) = 1" by (simp add: show_nat_def show_base.simps)
  ultimately show ?thesis
    using hd_show_nat [of n] by (cases "n = 0") (auto simp: parse_bits_def read_dec_show)
qed

lemma split_last_sep: "c \<notin> set ys \<Longrightarrow> split_last c (xs @ c # ys) = Some (xs, ys)"
  using takeWhile_sep [of c "rev ys" "rev xs"] dropWhile_sep [of c "rev ys" "rev xs"]
  by (simp add: split_last_def)

text \<open>A prefix the package can print: a valid address and a length that fits it.\<close>

definition prefix_ok :: "prefix \<Rightarrow> bool" where
  "prefix_ok p \<longleftrightarrow> is_valid (paddr p) \<and> 0 \<le> pbits p \<and> pbits p \<le> int (bit_len (paddr p))"

lemma ParsePrefix_prefix_string: "prefix_ok p \<Longrightarrow> ParsePrefix (prefix_string p) = Inr p"
proof -
  assume *: "prefix_ok p"
  have "CHR ''/'' \<notin> set (show_nat (nat (pbits p)))"
    using dec_chars [of "CHR ''/''"] by auto
  then have "split_last CHR ''/'' (prefix_string p) = Some (addr_string (paddr p), show_nat (nat (pbits p)))"
    using * by (simp add: prefix_string_def prefix_ok_def split_last_sep)
  moreover have "\<not> (if is6 (paddr p) then 128 else 32) < nat (pbits p)"
    using * by (cases "paddr p") (auto simp: prefix_ok_def)
  moreover have "prefix_from (paddr p) (int (nat (pbits p))) = p"
    using * by (cases p) (simp add: prefix_from_def prefix_ok_def)
  ultimately show ?thesis
    using * by (simp add: ParsePrefix_def ParseAddr_addr_string parse_bits_show prefix_ok_def)
qed

lemma prefix_string_inj: "inj_on prefix_string (Collect prefix_ok)"
  by (rule inj_onI) (metis ParsePrefix_prefix_string mem_Collect_eq sum.inject(2))

lemma addr_string_inj: "inj_on addr_string (Collect is_valid)"
  by (rule inj_onI) (metis ParseAddr_addr_string mem_Collect_eq sum.inject(2))

end
