(* ===== verification/Go_Strings.thy ===== *)
theory Go_Strings
  imports Netip_Text
begin

text \<open>
  The functions of Go's \<open>strings\<close>, \<open>strconv\<close>, \<open>bufio\<close> and \<open>net\<close> the sources call, on
  byte strings. White space and letter case are those of ASCII (the inputs of the modelled
  code are host names, numbers, prefixes and configuration keys).
\<close>

section \<open>strings\<close>

definition is_space :: "char \<Rightarrow> bool" where
  "is_space c \<longleftrightarrow> (let k = (of_char c :: nat) in k = 32 \<or> (9 \<le> k \<and> k \<le> 13))"

definition TrimSpace :: "string \<Rightarrow> string" where
  "TrimSpace s = rev (dropWhile is_space (rev (dropWhile is_space s)))"

definition TrimRight :: "string \<Rightarrow> char \<Rightarrow> string" where
  "TrimRight s c = rev (dropWhile (\<lambda>x. x = c) (rev s))"

definition HasPrefix :: "string \<Rightarrow> string \<Rightarrow> bool" where
  "HasPrefix s p \<longleftrightarrow> take (length p) s = p"

definition HasSuffix :: "string \<Rightarrow> string \<Rightarrow> bool" where
  "HasSuffix s p \<longleftrightarrow> HasPrefix (rev s) (rev p)"

definition TrimPrefix :: "string \<Rightarrow> string \<Rightarrow> string" where
  "TrimPrefix s p = (if HasPrefix s p then drop (length p) s else s)"

definition TrimSuffix :: "string \<Rightarrow> string \<Rightarrow> string" where
  "TrimSuffix s p = (if HasSuffix s p then take (length s - length p) s else s)"

fun Index :: "string \<Rightarrow> string \<Rightarrow> nat option" where
  "Index [] sub = (if sub = [] then Some 0 else None)"
| "Index (c # cs) sub = (if HasPrefix (c # cs) sub then Some 0 else map_option Suc (Index cs sub))"

definition Contains :: "string \<Rightarrow> string \<Rightarrow> bool" where
  "Contains s sub \<longleftrightarrow> Index s sub \<noteq> None"

fun SplitChar :: "char \<Rightarrow> string \<Rightarrow> string list" where
  "SplitChar c [] = [[]]"
| "SplitChar c (x # xs) = (if x = c then [] # SplitChar c xs
     else case SplitChar c xs of [] \<Rightarrow> [[x]] | y # ys \<Rightarrow> (x # y) # ys)"

text \<open>\<open>strings.SplitN(s, c, 2)\<close>: at the first separator only.\<close>

definition SplitN2 :: "char \<Rightarrow> string \<Rightarrow> string list" where
  "SplitN2 c s = (if c \<in> set s then [takeWhile (\<lambda>x. x \<noteq> c) s, tl (dropWhile (\<lambda>x. x \<noteq> c) s)] else [s])"

definition Fields :: "string \<Rightarrow> string list" where
  "Fields s = filter (\<lambda>f. f \<noteq> []) (SplitChar CHR '' '' (map (\<lambda>c. if is_space c then CHR '' '' else c) s))"

definition lower_char :: "char \<Rightarrow> char" where
  "lower_char c = (let k = (of_char c :: nat) in if 65 \<le> k \<and> k \<le> 90 then char_of (k + 32) else c)"

definition ToLower :: "string \<Rightarrow> string" where
  "ToLower s = map lower_char s"

definition upper_char :: "char \<Rightarrow> char" where
  "upper_char c = (let k = (of_char c :: nat) in if 97 \<le> k \<and> k \<le> 122 then char_of (k - 32) else c)"

definition ToUpper :: "string \<Rightarrow> string" where
  "ToUpper s = map upper_char s"

definition ReplaceAllChar :: "string \<Rightarrow> char \<Rightarrow> char \<Rightarrow> string" where
  "ReplaceAllChar s a b = map (\<lambda>c. if c = a then b else c) s"

definition newline :: char where
  "newline = char_of (10 :: nat)"

section \<open>strconv\<close>

definition int64_min :: int where
  "int64_min = - (2 ^ 63)"

definition int64_max :: int where
  "int64_max = 2 ^ 63 - 1"

definition Atoi :: "string \<Rightarrow> int result" where
  "Atoi s =
     (let neg = (s \<noteq> [] \<and> hd s = CHR ''-'');
          body = (if s \<noteq> [] \<and> (hd s = CHR ''-'' \<or> hd s = CHR ''+'') then tl s else s)
      in if body = [] then Inl ''invalid syntax''
         else case read_dec 0 body of
           None \<Rightarrow> Inl ''invalid syntax''
         | Some n \<Rightarrow>
             let v = (if neg then - int n else int n) in
             if v < int64_min \<or> int64_max < v then Inl ''value out of range'' else Inr v)"

definition ParseBool :: "string \<Rightarrow> bool result" where
  "ParseBool s =
     (if s \<in> {''1'', ''t'', ''T'', ''TRUE'', ''true'', ''True''} then Inr True
      else if s \<in> {''0'', ''f'', ''F'', ''FALSE'', ''false'', ''False''} then Inr False
      else Inl ''invalid syntax'')"

section \<open>bufio.Scanner\<close>

text \<open>
  \<open>ScanLines\<close> with the default buffer: lines end at a newline, a final empty line is not
  reported, one trailing carriage return is dropped, and a line of more than 65535 bytes
  ends the scan with an error. The result is the lines before the end or the error, and
  whether \<open>Err()\<close> is non-nil.
\<close>

definition drop_cr :: "string \<Rightarrow> string" where
  "drop_cr s = (if s \<noteq> [] \<and> of_char (last s) = (13 :: nat) then butlast s else s)"

definition raw_lines :: "string \<Rightarrow> string list" where
  "raw_lines s = (let ls = SplitChar newline s in if last ls = [] then butlast ls else ls)"

definition scan_lines :: "string \<Rightarrow> string list \<times> bool" where
  "scan_lines s = (let ls = raw_lines s; ok = takeWhile (\<lambda>l. length l \<le> 65535) ls
     in (map drop_cr ok, length ok < length ls))"

section \<open>net.SplitHostPort\<close>

definition IndexByte :: "string \<Rightarrow> char \<Rightarrow> nat option" where
  "IndexByte s c = (if c \<in> set s then Some (length (takeWhile (\<lambda>x. x \<noteq> c) s)) else None)"

definition SplitHostPort :: "string \<Rightarrow> (string \<times> string) result" where
  "SplitHostPort s = (case split_last CHR '':'' s of
     None \<Rightarrow> Inl ''missing port in address''
   | Some (before, port) \<Rightarrow>
       if hd s = CHR ''['' then
         (case IndexByte s CHR '']'' of
            None \<Rightarrow> Inl ''missing ']' in address''
          | Some e \<Rightarrow>
              if e + 1 = length s then Inl ''missing port in address''
              else if e + 1 \<noteq> length before then
                (if s ! (e + 1) = CHR '':'' then Inl ''too many colons in address'' else Inl ''missing port in address'')
              else if CHR ''['' \<in> set (drop 1 s) then Inl ''unexpected '[' in address''
              else if CHR '']'' \<in> set (drop (e + 1) s) then Inl ''unexpected ']' in address''
              else Inr (take (e - 1) (drop 1 s), port))
       else if CHR '':'' \<in> set before then Inl ''too many colons in address''
       else if CHR ''['' \<in> set s then Inl ''unexpected '[' in address''
       else if CHR '']'' \<in> set s then Inl ''unexpected ']' in address''
       else Inr (before, port))"

section \<open>Facts\<close>

lemma SplitChar_not_Nil [simp]: "SplitChar c s \<noteq> []"
  by (induction s) (auto split: list.splits)

lemma HasPrefix_append [simp]: "HasPrefix (p @ s) p"
  by (simp add: HasPrefix_def)

lemma SplitN2_pair:
  "SplitN2 c s = [a, b] \<longleftrightarrow> c \<notin> set a \<and> s = a @ c # b"
proof (cases "c \<in> set s")
  case True
  then obtain u v where "s = u @ c # v" "c \<notin> set u" by (meson split_list_first)
  then show ?thesis
    using takeWhile_sep [of c u v] takeWhile_sep [of c a b] dropWhile_sep [of c u v] dropWhile_sep [of c a b]
    by (auto simp: SplitN2_def)
qed (auto simp: SplitN2_def)

lemma length_SplitN2: "length (SplitN2 c s) \<in> {1, 2}"
  by (simp add: SplitN2_def)

lemma SplitChar_none: "c \<notin> set g \<Longrightarrow> SplitChar c g = [g]"
  by (induction g) auto

lemma SplitChar_app: "c \<notin> set g \<Longrightarrow> SplitChar c (g @ c # rest) = g # SplitChar c rest"
  by (induction g) auto

lemma SplitChar_join:
  "\<forall>f\<in>set fs. c \<notin> set f \<Longrightarrow> fs \<noteq> [] \<Longrightarrow> SplitChar c (join_with [c] fs) = fs"
proof (induction fs)
  case (Cons f fs)
  then show ?case using SplitChar_none [of c f] SplitChar_app [of c f] by (cases fs) auto
qed simp

lemma SplitChar_lines:
  "\<forall>l\<in>set ls. c \<notin> set l \<Longrightarrow> SplitChar c (concat (map (\<lambda>l. l @ [c]) ls)) = ls @ [[]]"
  by (induction ls) (auto simp: SplitChar_app)

lemma Index_char: "c \<notin> set a \<Longrightarrow> Index (a @ c # b) [c] = Some (length a)"
  by (induction a) (auto simp: HasPrefix_def)

lemma Contains_char: "Contains s [c] \<longleftrightarrow> c \<in> set s"
  by (induction s) (auto simp: Contains_def HasPrefix_def)

lemma TrimSpace_core:
  assumes "s \<noteq> []" and "\<forall>c\<in>set s. \<not> is_space c" and "\<forall>c\<in>set a. is_space c" and "\<forall>c\<in>set b. is_space c"
  shows "TrimSpace (a @ s @ b) = s"
proof -
  have keep: "dropWhile is_space (u @ v @ w) = v @ w"
    if "\<forall>c\<in>set u. is_space c" "v \<noteq> []" "\<forall>c\<in>set v. \<not> is_space c" for u v w
    using that by (cases v) (auto simp: dropWhile_append2)
  have "dropWhile is_space (a @ s @ b) = s @ b"
    by (rule keep) (use assms in auto)
  moreover have "dropWhile is_space (rev (s @ b)) = rev s"
    using keep [of "rev b" "rev s" "[]"] assms by simp
  ultimately show ?thesis by (simp add: TrimSpace_def)
qed

lemma TrimSpace_head:
  assumes "s \<noteq> []" and "\<forall>c\<in>set s. \<not> is_space c"
  shows "\<exists>n. TrimSpace (s @ t) = s @ take n t"
proof -
  have "dropWhile is_space (s @ t) = s @ t" using assms by (cases s) auto
  moreover have "\<exists>n. rev (dropWhile is_space (rev t @ rev s)) = s @ take n t"
  proof (cases "\<forall>c\<in>set t. is_space c")
    case True
    have "dropWhile is_space (rev s) = rev s"
    proof (cases "rev s")
      case (Cons y ys)
      then have "y \<in> set s" by (metis list.set_intros(1) set_rev)
      with Cons assms(2) show ?thesis by simp
    qed simp
    moreover have "dropWhile is_space (rev t @ rev s) = dropWhile is_space (rev s)"
      by (rule dropWhile_append2) (use True in simp)
    ultimately show ?thesis by (intro exI [of _ 0]) simp
  next
    case False
    then have "dropWhile is_space (rev t @ rev s) = dropWhile is_space (rev t) @ rev s"
      by (auto simp: dropWhile_append1)
    moreover have "rev (dropWhile is_space (rev t)) = take (length t - length (takeWhile is_space (rev t))) t"
      by (metis dropWhile_eq_drop length_rev rev_drop rev_rev_ident)
    ultimately show ?thesis by auto
  qed
  ultimately show ?thesis by (simp add: TrimSpace_def)
qed

lemma hd_Fields:
  assumes "s \<noteq> []" and "\<forall>c\<in>set s. \<not> is_space c" and "t = [] \<or> is_space (hd t)"
  shows "Fields (s @ t) \<noteq> [] \<and> hd (Fields (s @ t)) = s"
proof -
  let ?f = "\<lambda>c. if is_space c then CHR '' '' else c"
  have sp: "is_space CHR '' ''" by (simp add: is_space_def)
  have m: "map ?f s = s" using assms(2) by (intro map_idI) simp
  have n: "CHR '' '' \<notin> set s" using assms(2) sp by auto
  show ?thesis
  proof (cases t)
    case Nil
    then show ?thesis using assms(1) m SplitChar_none [OF n] by (simp add: Fields_def)
  next
    case (Cons c cs)
    with assms(3) have "map ?f (s @ t) = s @ CHR '' '' # map ?f cs" using m by simp
    then show ?thesis using assms(1) SplitChar_app [OF n] by (simp add: Fields_def)
  qed
qed

text \<open>The characters of a printed address or prefix.\<close>

definition addr_char :: "char \<Rightarrow> bool" where
  "addr_char c \<longleftrightarrow> hex_val c \<noteq> None \<or> c = CHR '':'' \<or> c = CHR ''.''"

lemma addr_string_chars: "is_valid a \<Longrightarrow> c \<in> set (addr_string a) \<Longrightarrow> addr_char c"
proof (cases a)
  case (Addr4 w)
  moreover assume "c \<in> set (addr_string a)"
  ultimately show ?thesis using dec_chars [of c] by (auto simp: addr_char_def)
next
  case (Addr6 w)
  have h: "hex_val CHR ''f'' = Some 15" by (simp add: hex_val_def)
  assume "c \<in> set (addr_string a)"
  with Addr6 h dec_chars [of c] set_string6 [of c "groups6 w"] show ?thesis
    by (auto simp: addr_char_def split: if_splits)
qed simp

lemma prefix_string_chars:
  "prefix_ok p \<Longrightarrow> c \<in> set (prefix_string p) \<Longrightarrow> addr_char c \<or> c = CHR ''/''"
  using addr_string_chars [of "paddr p" c] dec_chars [of c "nat (pbits p)"]
  by (auto simp: prefix_string_def prefix_ok_def addr_char_def)

lemma hex_not_space: "hex_val c \<noteq> None \<Longrightarrow> \<not> is_space c"
  by (auto simp: hex_val_def is_space_def Let_def split: if_splits)

lemma addr_char_facts:
  assumes "addr_char c \<or> c = CHR ''/''"
  shows "\<not> is_space c" "c \<noteq> CHR '',''" "c \<noteq> CHR ''{''" "c \<noteq> CHR ''}''" "c \<noteq> newline" "c \<noteq> CHR '' ''"
    "of_char c \<noteq> (9 :: nat)" "c \<noteq> CHR ''#''" "of_char c \<noteq> (13 :: nat)"
proof -
  have "\<not> is_space CHR '':''" "\<not> is_space CHR ''.''" "\<not> is_space CHR ''/''" by (simp_all add: is_space_def)
  with assms show s: "\<not> is_space c" using hex_not_space by (auto simp: addr_char_def)
  have "hex_val CHR '','' = None" "hex_val CHR ''{'' = None" "hex_val CHR ''}'' = None" "hex_val CHR ''#'' = None"
    by (simp_all add: hex_val_def)
  with assms show "c \<noteq> CHR '',''" "c \<noteq> CHR ''{''" "c \<noteq> CHR ''}''" "c \<noteq> CHR ''#''" by (auto simp: addr_char_def)
  have "is_space newline" "is_space CHR '' ''" by (simp_all add: is_space_def newline_def)
  with s show "c \<noteq> newline" "c \<noteq> CHR '' ''" by auto
  show "of_char c \<noteq> (9 :: nat)" "of_char c \<noteq> (13 :: nat)" using s by (auto simp: is_space_def Let_def)
qed

text \<open>A printed prefix is short.\<close>

lemma length_join_with: "\<forall>f\<in>set fs. length f \<le> k \<Longrightarrow> length (join_with sep fs) \<le> (k + length sep) * length fs"
  by (induction sep fs rule: join_with.induct) auto

lemma length_hexes: "\<forall>g\<in>set gs. g < 2 ^ 16 \<Longrightarrow> length (hexes gs) \<le> 5 * length gs"
  using length_join_with [of "map (show_base 16) gs" 4 "'':''"] length_group by auto

lemma length_string6: "length gs = 8 \<Longrightarrow> \<forall>g\<in>set gs. g < 2 ^ 16 \<Longrightarrow> length (string6 gs) \<le> 90"
proof -
  assume l: "length gs = 8" and g: "\<forall>g\<in>set gs. g < 2 ^ 16"
  have t: "length (hexes (take n gs)) \<le> 40" and d: "length (hexes (drop n gs)) \<le> 40" for n
  proof -
    have "\<forall>g\<in>set (take n gs). g < 2 ^ 16" "\<forall>g\<in>set (drop n gs). g < 2 ^ 16"
      using g by (auto dest: in_set_takeD in_set_dropD)
    from this [THEN length_hexes] l show "length (hexes (take n gs)) \<le> 40" "length (hexes (drop n gs)) \<le> 40" by auto
  qed
  show ?thesis
  proof (cases "best_run 0 gs None")
    case None
    then show ?thesis using length_hexes [OF g] l by (simp add: string6_def)
  next
    case (Some se)
    with t [of "fst se"] d [of "snd se"] show ?thesis by (cases se) (simp add: string6_def)
  qed
qed

lemma length_dotted4: "length (dotted4 w) \<le> 16"
proof -
  have "length (show_nat (unat (byte_at w k))) \<le> 3" for k
    using length_show_base [of 10 "unat (byte_at w k)" 3] unat_byte [of "byte_at w k"] by (simp add: show_nat_def)
  then have "\<forall>f\<in>set (map (\<lambda>k. show_nat (unat (byte_at w k))) [3, 2, 1, 0]). length f \<le> 3" by simp
  from length_join_with [OF this, of "''.''"] show ?thesis by simp
qed

lemma length_prefix_string:
  assumes "prefix_ok p"
  shows "length (prefix_string p) \<le> 100"
proof -
  have "length (addr_string (paddr p)) \<le> 90"
  proof (cases "paddr p")
    case (Addr4 w)
    with length_dotted4 [of w] show ?thesis by simp
  next
    case (Addr6 w)
    have "length (string6 (groups6 w)) \<le> 90" by (rule length_string6 [OF length_groups6 groups6_less])
    with Addr6 length_dotted4 [of "ucast w"] show ?thesis by simp
  qed simp
  moreover have "length (show_nat (nat (pbits p))) \<le> 3"
  proof -
    have "bit_len (paddr p) \<le> 128" by (cases "paddr p") simp_all
    with assms have "nat (pbits p) < 10 ^ 3" by (auto simp: prefix_ok_def)
    then show ?thesis using length_show_base [of 10 "nat (pbits p)" 3] by (simp add: show_nat_def)
  qed
  ultimately show ?thesis by (simp add: prefix_string_def)
qed

end
