(* ===== verification/Config.thy ===== *)
theory Config
  imports Go_Strings
begin

text \<open>
  The configuration (\<open>internal/config\<close>): the schema as records, \<open>Defaults\<close>, \<open>Clone\<close> and
  \<open>Validate\<close>. Durations are nanosecond counts. An error is the text of the rule without the
  quoted offending value. The main results characterise what an accepted configuration
  guarantees to the components that run on it.
\<close>

section \<open>Schema\<close>

text \<open>Values of \<open>map[string]any\<close>, as JSON and YAML decode them.\<close>

datatype anyv = VNull | VBool bool | VInt int | VStr string | VList "anyv list" | VMap "(string \<times> anyv) list"

type_synonym duration = int

definition Millisecond :: duration where "Millisecond = 1000000"
definition Second :: duration where "Second = 1000 * Millisecond"
definition Minute :: duration where "Minute = 60 * Second"
definition Hour :: duration where "Hour = 60 * Minute"

lemmas duration_defs = Millisecond_def Second_def Minute_def Hour_def

record SourceConfig =
  src_URL :: string
  src_CachePath :: string
  src_RefreshInterval :: duration
  src_HTTPTimeout :: duration

record SourceItemConfig =
  si_ID :: string
  si_Provider :: string
  si_Prefix :: string
  si_Enabled :: bool
  si_Config :: "(string \<times> anyv) list"

record ResolverConfig =
  res_Upstream :: string
  res_Network :: string
  res_Concurrency :: int
  res_QPS :: int
  res_Timeout :: duration
  res_Retries :: int
  res_BackoffBase :: duration
  res_BackoffMax :: duration
  res_FollowCNAME :: bool
  res_EnableV4 :: bool
  res_EnableV6 :: bool

record CacheConfig =
  cache_DBPath :: string
  cache_TTL :: duration
  cache_FailedTTL :: duration
  cache_VacuumAfter :: duration

type_synonym AggregationLevel = string

definition AggOffLevel :: AggregationLevel where "AggOffLevel = ''off''"
definition AggConservativeLevel :: AggregationLevel where "AggConservativeLevel = ''conservative''"
definition AggBalancedLevel :: AggregationLevel where "AggBalancedLevel = ''balanced''"
definition AggAggressiveLevel :: AggregationLevel where "AggAggressiveLevel = ''aggressive''"

lemmas level_defs = AggOffLevel_def AggConservativeLevel_def AggBalancedLevel_def AggAggressiveLevel_def

record AggregationConfig =
  agg_Enabled :: bool
  agg_Level :: AggregationLevel
  agg_V4MaxPrefix :: int
  agg_V6MaxPrefix :: int

record ExportConfig =
  exp_Dir :: string
  exp_IPv4File :: string
  exp_IPv6File :: string

type_synonym RoutingBackend = string

definition BackendNone :: RoutingBackend where "BackendNone = ''none''"
definition BackendNFTables :: RoutingBackend where "BackendNFTables = ''nftables''"
definition BackendIProute2 :: RoutingBackend where "BackendIProute2 = ''iproute2''"

lemmas backend_defs = BackendNone_def BackendNFTables_def BackendIProute2_def

record PolicyConfig =
  pol_Name :: string
  pol_Enabled :: bool
  pol_Categories :: "string list"
  pol_Backend :: RoutingBackend
  pol_TableID :: int
  pol_Iface :: string
  pol_NFTTable :: string
  pol_NFTSetV4 :: string
  pol_NFTSetV6 :: string
  pol_DryRun :: bool
  pol_ExportFormat :: string
  pol_Aggregation :: "AggregationConfig option"

record RoutingConfig =
  rt_Enabled :: bool
  rt_StateDir :: string
  rt_Policies :: "PolicyConfig list"

record SchedulerConfig =
  sch_DLCRefresh :: duration
  sch_ResolveCycle :: duration

record LoggingConfig =
  log_Level :: string
  log_Format :: string

record MetricsConfig =
  met_Enabled :: bool
  met_Path :: string

record Config =
  Listen :: string
  Source :: SourceConfig
  Sources :: "SourceItemConfig list"
  Resolver :: ResolverConfig
  Cache :: CacheConfig
  Aggregation :: AggregationConfig
  Export :: ExportConfig
  Routing :: RoutingConfig
  Scheduler :: SchedulerConfig
  Logging :: LoggingConfig
  Metrics :: MetricsConfig

definition Defaults :: Config where
  "Defaults = \<lparr>
     Listen = '':9099'',
     Source = \<lparr>
       src_URL = ''https://github.com/v2fly/domain-list-community/releases/latest/download/dlc.dat'',
       src_CachePath = ''/var/lib/d2ip/dlc.dat'',
       src_RefreshInterval = 24 * Hour,
       src_HTTPTimeout = 30 * Second \<rparr>,
     Sources = [\<lparr>
       si_ID = ''default-geosite'',
       si_Provider = ''v2flygeosite'',
       si_Prefix = ''geosite'',
       si_Enabled = True,
       si_Config = [
         (''url'', VStr ''https://github.com/v2fly/domain-list-community/releases/latest/download/dlc.dat''),
         (''cache_path'', VStr ''/var/lib/d2ip/dlc.dat''),
         (''refresh_interval'', VStr ''24h''),
         (''http_timeout'', VStr ''30s'')] \<rparr>],
     Resolver = \<lparr>
       res_Upstream = ''1.1.1.1:53'',
       res_Network = ''udp'',
       res_Concurrency = 64,
       res_QPS = 200,
       res_Timeout = 3 * Second,
       res_Retries = 3,
       res_BackoffBase = 200 * Millisecond,
       res_BackoffMax = 5 * Second,
       res_FollowCNAME = True,
       res_EnableV4 = True,
       res_EnableV6 = True \<rparr>,
     Cache = \<lparr>
       cache_DBPath = ''/var/lib/d2ip/cache.db'',
       cache_TTL = 6 * Hour,
       cache_FailedTTL = 30 * Minute,
       cache_VacuumAfter = 720 * Hour \<rparr>,
     Aggregation = \<lparr>
       agg_Enabled = True,
       agg_Level = AggBalancedLevel,
       agg_V4MaxPrefix = 16,
       agg_V6MaxPrefix = 32 \<rparr>,
     Export = \<lparr>
       exp_Dir = ''/var/lib/d2ip/out'',
       exp_IPv4File = ''ipv4.txt'',
       exp_IPv6File = ''ipv6.txt'' \<rparr>,
     Routing = \<lparr>
       rt_Enabled = False,
       rt_StateDir = ''/var/lib/d2ip'',
       rt_Policies = [] \<rparr>,
     Scheduler = \<lparr>
       sch_DLCRefresh = 24 * Hour,
       sch_ResolveCycle = 1 * Hour \<rparr>,
     Logging = \<lparr> log_Level = ''info'', log_Format = ''json'' \<rparr>,
     Metrics = \<lparr> met_Enabled = True, met_Path = ''/metrics'' \<rparr> \<rparr>"

section \<open>Validate\<close>

text \<open>Rules of the form \<open>if broken then append the message\<close>.\<close>

definition rule_err :: "bool \<Rightarrow> error \<Rightarrow> error list" where
  "rule_err broken msg = (if broken then [msg] else [])"

lemma rule_err_Nil [simp]: "rule_err b m = [] \<longleftrightarrow> \<not> b"
  by (simp add: rule_err_def)

definition prefix_char :: "char \<Rightarrow> bool" where
  "prefix_char c \<longleftrightarrow> (let k = (of_char c :: nat) in (97 \<le> k \<and> k \<le> 122) \<or> (48 \<le> k \<and> k \<le> 57) \<or> c = CHR ''-'')"

definition validProviders :: "string list" where
  "validProviders = [''v2flygeosite'', ''plaintext'', ''ipverse'', ''v2flygeoip'', ''mmdb'']"

fun validateSources_loop :: "string set \<Rightarrow> string set \<Rightarrow> SourceItemConfig list \<Rightarrow> error option" where
  "validateSources_loop ids prefixes [] = None"
| "validateSources_loop ids prefixes (src # srcs) =
     (if si_ID src = [] then Some ''sources[i].id is required''
      else if si_ID src \<in> ids then Some ''sources[i].id is duplicate''
      else if si_Prefix src = [] then Some ''sources[i].prefix is required''
      else if \<not> list_all prefix_char (si_Prefix src) then Some ''sources[i].prefix must be lowercase alphanumeric or hyphen''
      else if si_Prefix src \<in> prefixes then Some ''sources[i].prefix is duplicate''
      else if si_Provider src = [] then Some ''sources[i].provider is required''
      else if si_Provider src \<notin> set validProviders then Some ''sources[i].provider is not valid''
      else validateSources_loop (insert (si_ID src) ids) (insert (si_Prefix src) prefixes) srcs)"

definition validateSources :: "Config \<Rightarrow> error option" where
  "validateSources cfg = (if Sources cfg = [] then Some ''sources: at least one source is required''
     else validateSources_loop {} {} (Sources cfg))"

definition validateResolver :: "ResolverConfig \<Rightarrow> error list" where
  "validateResolver r =
     (if TrimSpace (res_Upstream r) = [] then [''resolver.upstream: must not be empty'']
      else case SplitHostPort (res_Upstream r) of
        Inl _ \<Rightarrow> [''resolver.upstream: invalid host:port'']
      | Inr (host, port) \<Rightarrow>
          rule_err (host = []) ''resolver.upstream: missing host'' @
          rule_err (case Atoi port of Inl _ \<Rightarrow> True | Inr p \<Rightarrow> p < 1 \<or> 65535 < p) ''resolver.upstream: invalid port'') @
     rule_err (res_Network r \<notin> {''udp'', ''tcp'', ''tcp-tls''}) ''resolver.network: must be udp|tcp|tcp-tls'' @
     rule_err (res_Concurrency r < 1 \<or> 4096 < res_Concurrency r) ''resolver.concurrency: must be in [1,4096]'' @
     rule_err (res_QPS r < 1 \<or> 100000 < res_QPS r) ''resolver.qps: must be in [1,100000]'' @
     rule_err (res_Timeout r < 100 * Millisecond) ''resolver.timeout: must be >= 100ms'' @
     rule_err (res_Retries r < 0 \<or> 10 < res_Retries r) ''resolver.retries: must be in [0,10]'' @
     rule_err (res_BackoffBase r \<le> 0) ''resolver.backoff_base: must be > 0'' @
     rule_err (res_BackoffMax r < res_BackoffBase r) ''resolver.backoff_max must be >= resolver.backoff_base'' @
     rule_err (\<not> res_EnableV4 r \<and> \<not> res_EnableV6 r) ''resolver: at least one of enable_v4 or enable_v6 must be true''"

definition validateCache :: "CacheConfig \<Rightarrow> error list" where
  "validateCache c =
     rule_err (TrimSpace (cache_DBPath c) = []) ''cache.db_path: must not be empty'' @
     rule_err (cache_TTL c < Minute) ''cache.ttl: must be >= 1m'' @
     rule_err (cache_FailedTTL c < Second) ''cache.failed_ttl: must be >= 1s'' @
     rule_err (cache_VacuumAfter c < Hour) ''cache.vacuum_after: must be >= 1h''"

definition validateAggregation :: "AggregationConfig \<Rightarrow> error list" where
  "validateAggregation a =
     rule_err (agg_Level a \<notin> {AggOffLevel, AggConservativeLevel, AggBalancedLevel, AggAggressiveLevel})
       ''aggregation.level: must be off|conservative|balanced|aggressive'' @
     rule_err (agg_V4MaxPrefix a < 8 \<or> 32 < agg_V4MaxPrefix a) ''aggregation.v4_max_prefix: must be in [8,32]'' @
     rule_err (agg_V6MaxPrefix a < 16 \<or> 128 < agg_V6MaxPrefix a) ''aggregation.v6_max_prefix: must be in [16,128]''"

definition validateExport :: "ExportConfig \<Rightarrow> error list" where
  "validateExport e =
     rule_err (TrimSpace (exp_Dir e) = []) ''export.dir: must not be empty'' @
     rule_err (TrimSpace (exp_IPv4File e) = []) ''export.ipv4_file: must not be empty'' @
     rule_err (TrimSpace (exp_IPv6File e) = []) ''export.ipv6_file: must not be empty'' @
     rule_err (exp_IPv4File e = exp_IPv6File e) ''export.ipv4_file and export.ipv6_file must differ''"

definition validateRouting :: "RoutingConfig \<Rightarrow> error list" where
  "validateRouting r =
     rule_err (rt_Enabled r \<and> TrimSpace (rt_StateDir r) = [])
       ''routing.state_dir: must not be empty when routing is enabled''"

text \<open>The regular expression \<open>^[a-z0-9_-]+$\<close>.\<close>

definition validName :: "string \<Rightarrow> bool" where
  "validName s \<longleftrightarrow> s \<noteq> [] \<and> list_all (\<lambda>c. prefix_char c \<or> c = CHR ''_'') s"

definition category_ok :: "string \<Rightarrow> bool" where
  "category_ok cat = (case SplitN2 CHR '':'' cat of [a, b] \<Rightarrow> a \<noteq> [] \<and> b \<noteq> [] | _ \<Rightarrow> False)"

definition v4Key :: "PolicyConfig \<Rightarrow> string" where
  "v4Key p = pol_NFTTable p @ ''.'' @ pol_NFTSetV4 p"

definition v6Key :: "PolicyConfig \<Rightarrow> string" where
  "v6Key p = pol_NFTTable p @ ''.'' @ pol_NFTSetV6 p"

definition validFormats :: "string list" where
  "validFormats = [''plain'', ''ipset'', ''json'', ''nft'', ''iptables'', ''bgp'', ''yaml'']"

record policy_maps =
  names_m :: "string set"
  tableIDs_m :: "int set"
  nftSets_m :: "string set"

definition iproute2_errs :: "policy_maps \<Rightarrow> PolicyConfig \<Rightarrow> error list" where
  "iproute2_errs m p =
     rule_err (pol_Iface p = []) ''iface is required for iproute2'' @
     rule_err (pol_TableID p < 1 \<or> 252 < pol_TableID p) ''table_id must be in [1,252]'' @
     rule_err (pol_TableID p \<in> tableIDs_m m) ''table_id is duplicate''"

definition nft_errs :: "policy_maps \<Rightarrow> PolicyConfig \<Rightarrow> error list" where
  "nft_errs m p =
     rule_err (pol_NFTTable p = [] \<or> pol_NFTSetV4 p = [] \<or> pol_NFTSetV6 p = [])
       ''nft_table, nft_set_v4, nft_set_v6 are required for nftables'' @
     rule_err (v4Key p \<in> nftSets_m m) ''nft_set_v4 is duplicate in table'' @
     rule_err (v6Key p \<in> nftSets_m m) ''nft_set_v6 is duplicate in table''"

definition enabled_errs :: "policy_maps \<Rightarrow> PolicyConfig \<Rightarrow> error list" where
  "enabled_errs m p =
     rule_err (pol_Categories p = []) ''categories must have at least one entry'' @
     concat (map (\<lambda>cat. rule_err (\<not> category_ok cat) ''categories[j] must be prefix:name'') (pol_Categories p)) @
     rule_err (pol_Backend p = BackendNone) ''backend cannot be 'none' for enabled policy'' @
     rule_err (pol_Backend p \<noteq> BackendIProute2 \<and> pol_Backend p \<noteq> BackendNFTables \<and> pol_Backend p \<noteq> BackendNone)
       ''backend invalid'' @
     (if pol_Backend p = BackendIProute2 then iproute2_errs m p else []) @
     (if pol_Backend p = BackendNFTables then nft_errs m p else []) @
     rule_err (pol_ExportFormat p \<noteq> [] \<and> pol_ExportFormat p \<notin> set validFormats) ''export_format is invalid''"

definition record_policy :: "policy_maps \<Rightarrow> PolicyConfig \<Rightarrow> policy_maps" where
  "record_policy m p =
     m\<lparr> tableIDs_m := (if pol_Backend p = BackendIProute2 then insert (pol_TableID p) (tableIDs_m m) else tableIDs_m m),
        nftSets_m := (if pol_Backend p = BackendNFTables then insert (v6Key p) (insert (v4Key p) (nftSets_m m)) else nftSets_m m) \<rparr>"

fun validatePolicies_loop :: "policy_maps \<Rightarrow> PolicyConfig list \<Rightarrow> error list" where
  "validatePolicies_loop m [] = []"
| "validatePolicies_loop m (p # ps) =
     (if pol_Name p = [] then ''name is required'' # validatePolicies_loop m ps
      else
        let errs = rule_err (\<not> validName (pol_Name p)) ''name must match [a-z0-9_-]+'' @
                   rule_err (pol_Name p \<in> names_m m) ''name is duplicate'';
            m' = m\<lparr> names_m := insert (pol_Name p) (names_m m) \<rparr>
        in if \<not> pol_Enabled p then errs @ validatePolicies_loop m' ps
           else errs @ enabled_errs m' p @ validatePolicies_loop (record_policy m' p) ps)"

definition validatePolicies :: "PolicyConfig list \<Rightarrow> error list" where
  "validatePolicies policies = validatePolicies_loop \<lparr> names_m = {}, tableIDs_m = {}, nftSets_m = {} \<rparr> policies"

definition validateScheduler :: "SchedulerConfig \<Rightarrow> error list" where
  "validateScheduler s =
     rule_err (sch_DLCRefresh s < Minute) ''scheduler.dlc_refresh: must be >= 1m'' @
     rule_err (sch_ResolveCycle s \<noteq> 0 \<and> sch_ResolveCycle s < Minute)
       ''scheduler.resolve_cycle: must be >= 1m or 0 (disabled)''"

definition validateLogging :: "LoggingConfig \<Rightarrow> error list" where
  "validateLogging l =
     rule_err (ToLower (log_Level l) \<notin> {''debug'', ''info'', ''warn'', ''error'', ''fatal'', ''panic''})
       ''logging.level: must be debug|info|warn|error|fatal|panic'' @
     rule_err (ToLower (log_Format l) \<notin> {''json'', ''console'', ''text''}) ''logging.format: must be json|console|text''"

definition validateMetrics :: "MetricsConfig \<Rightarrow> error list" where
  "validateMetrics m =
     (if met_Enabled m then rule_err (\<not> HasPrefix (met_Path m) ''/'') ''metrics.path: must start with a slash'' else [])"

definition validateListen :: "string \<Rightarrow> error list" where
  "validateListen l =
     (if TrimSpace l = [] then [''listen: must not be empty'']
      else case SplitHostPort l of Inl _ \<Rightarrow> [''listen: invalid address''] | Inr _ \<Rightarrow> [])"

definition Validate :: "Config \<Rightarrow> error list" where
  "Validate c =
     validateListen (Listen c) @
     (case validateSources c of None \<Rightarrow> [] | Some e \<Rightarrow> [e]) @
     validateResolver (Resolver c) @
     validateCache (Cache c) @
     validateAggregation (Aggregation c) @
     validateExport (Export c) @
     validateRouting (Routing c) @
     validatePolicies (rt_Policies (Routing c)) @
     validateScheduler (Scheduler c) @
     validateLogging (Logging c) @
     validateMetrics (Metrics c)"

text \<open>
  \<open>Clone\<close> copies the slices and maps a struct assignment would share: the sources with their
  parameter maps, and the policies with their categories and the aggregation block behind a
  pointer. On values it is the identity.
\<close>

definition clone_source :: "SourceItemConfig \<Rightarrow> SourceItemConfig" where
  "clone_source src = src\<lparr> si_Config := map (\<lambda>(k, v). (k, v)) (si_Config src) \<rparr>"

definition clone_policy :: "PolicyConfig \<Rightarrow> PolicyConfig" where
  "clone_policy pol = pol\<lparr> pol_Categories := map id (pol_Categories pol),
     pol_Aggregation := (case pol_Aggregation pol of None \<Rightarrow> None | Some a \<Rightarrow>
       Some \<lparr> agg_Enabled = agg_Enabled a, agg_Level = agg_Level a,
              agg_V4MaxPrefix = agg_V4MaxPrefix a, agg_V6MaxPrefix = agg_V6MaxPrefix a \<rparr>) \<rparr>"

definition Clone :: "Config \<Rightarrow> Config" where
  "Clone c = c\<lparr> Sources := map clone_source (Sources c),
     Routing := (Routing c)\<lparr> rt_Policies := map clone_policy (rt_Policies (Routing c)) \<rparr> \<rparr>"

lemma Clone_same [simp]: "Clone c = c"
proof -
  have "clone_source s = s" for s :: SourceItemConfig
    by (simp add: clone_source_def)
  moreover have "clone_policy p = p" for p :: PolicyConfig
    by (cases p) (simp add: clone_policy_def split: option.splits)
  ultimately show ?thesis
    by (simp add: Clone_def map_idI)
qed

section \<open>What an accepted configuration guarantees\<close>

text \<open>The rules for one enabled policy, on their own.\<close>

definition policy_wf :: "PolicyConfig \<Rightarrow> bool" where
  "policy_wf p \<longleftrightarrow>
     pol_Categories p \<noteq> [] \<and> (\<forall>cat\<in>set (pol_Categories p). category_ok cat) \<and>
     (pol_Backend p = BackendIProute2 \<and> pol_Iface p \<noteq> [] \<and> 1 \<le> pol_TableID p \<and> pol_TableID p \<le> 252 \<or>
      pol_Backend p = BackendNFTables \<and> pol_NFTTable p \<noteq> [] \<and> pol_NFTSetV4 p \<noteq> [] \<and> pol_NFTSetV6 p \<noteq> []) \<and>
     (pol_ExportFormat p = [] \<or> pol_ExportFormat p \<in> set validFormats)"

definition iproute2_policies :: "PolicyConfig list \<Rightarrow> PolicyConfig list" where
  "iproute2_policies = filter (\<lambda>p. pol_Enabled p \<and> pol_Backend p = BackendIProute2)"

definition nft_policies :: "PolicyConfig list \<Rightarrow> PolicyConfig list" where
  "nft_policies = filter (\<lambda>p. pol_Enabled p \<and> pol_Backend p = BackendNFTables)"

definition set_keys :: "PolicyConfig \<Rightarrow> string set" where
  "set_keys p = {v4Key p, v6Key p}"

lemma backends_differ [simp]:
  "BackendIProute2 \<noteq> BackendNFTables" "BackendNFTables \<noteq> BackendIProute2"
  "BackendIProute2 \<noteq> BackendNone" "BackendNFTables \<noteq> BackendNone"
  "BackendNone \<noteq> BackendIProute2" "BackendNone \<noteq> BackendNFTables"
  by (simp_all add: backend_defs)

lemma validName_not_Nil: "validName n \<Longrightarrow> n \<noteq> []"
  by (simp add: validName_def)

lemma enabled_errs_Nil:
  "enabled_errs m p = [] \<longleftrightarrow> policy_wf p \<and>
     (pol_Backend p = BackendIProute2 \<longrightarrow> pol_TableID p \<notin> tableIDs_m m) \<and>
     (pol_Backend p = BackendNFTables \<longrightarrow> set_keys p \<inter> nftSets_m m = {})"
  unfolding enabled_errs_def policy_wf_def set_keys_def iproute2_errs_def nft_errs_def
  by (cases "pol_Backend p = BackendIProute2"; cases "pol_Backend p = BackendNFTables") auto

lemma validatePolicies_loop_Nil:
  "validatePolicies_loop m ps = [] \<longleftrightarrow>
     (\<forall>p\<in>set ps. validName (pol_Name p)) \<and>
     distinct (map pol_Name ps) \<and> pol_Name ` set ps \<inter> names_m m = {} \<and>
     (\<forall>p\<in>set ps. pol_Enabled p \<longrightarrow> policy_wf p) \<and>
     distinct (map pol_TableID (iproute2_policies ps)) \<and>
     pol_TableID ` set (iproute2_policies ps) \<inter> tableIDs_m m = {} \<and>
     sorted_wrt (\<lambda>p q. set_keys p \<inter> set_keys q = {}) (nft_policies ps) \<and>
     (\<forall>p\<in>set (nft_policies ps). set_keys p \<inter> nftSets_m m = {})"
proof (induction ps arbitrary: m)
  case (Cons p ps)
  show ?case
  proof (cases "pol_Name p = [] \<or> \<not> validName (pol_Name p) \<or> pol_Name p \<in> names_m m")
    case True
    then show ?thesis by (auto simp: Let_def dest: validName_not_Nil)
  next
    case bad: False
    then have n: "pol_Name p \<noteq> []" "validName (pol_Name p)" "pol_Name p \<notin> names_m m" by auto
    show ?thesis
    proof (cases "pol_Enabled p")
      case False
      then show ?thesis using n Cons.IH
        by (auto simp: Let_def iproute2_policies_def nft_policies_def)
    next
      case en: True
      show ?thesis
      proof (cases "policy_wf p")
        case False
        with n en show ?thesis by (auto simp: Let_def enabled_errs_Nil)
      next
        case wf: True
        then consider "pol_Backend p = BackendIProute2" | "pol_Backend p = BackendNFTables"
          by (auto simp: policy_wf_def)
        then show ?thesis
        proof cases
          case 1
          then show ?thesis using n en wf Cons.IH
            by (auto simp: Let_def iproute2_policies_def nft_policies_def record_policy_def enabled_errs_Nil)
        next
          case 2
          then show ?thesis using n en wf Cons.IH
            by (auto simp: Let_def iproute2_policies_def nft_policies_def record_policy_def enabled_errs_Nil set_keys_def)
        qed
      qed
    qed
  qed
qed (simp add: iproute2_policies_def nft_policies_def)

text \<open>
  C11: \<open>validatePolicies\<close> accepts a list of policies exactly when the names are valid and
  pairwise different, every enabled policy is well formed on its own, no two enabled
  iproute2 policies share a routing table and no two enabled nftables policies share a set.
\<close>

theorem validate_policies_iff:
  "validatePolicies ps = [] \<longleftrightarrow>
     list_all (\<lambda>p. validName (pol_Name p)) ps \<and> distinct (map pol_Name ps) \<and>
     list_all policy_wf (filter pol_Enabled ps) \<and>
     distinct (map pol_TableID (iproute2_policies ps)) \<and>
     sorted_wrt (\<lambda>p q. set_keys p \<inter> set_keys q = {}) (nft_policies ps)"
  by (auto simp: validatePolicies_def validatePolicies_loop_Nil list_all_iff)

lemma validateSources_loop_None:
  "validateSources_loop ids prefixes srcs = None \<longleftrightarrow>
     list_all (\<lambda>s. si_ID s \<noteq> [] \<and> si_Prefix s \<noteq> [] \<and> list_all prefix_char (si_Prefix s) \<and>
       si_Provider s \<in> set validProviders) srcs \<and>
     distinct (map si_ID srcs) \<and> distinct (map si_Prefix srcs) \<and>
     si_ID ` set srcs \<inter> ids = {} \<and> si_Prefix ` set srcs \<inter> prefixes = {}"
proof (induction srcs arbitrary: ids prefixes)
  case (Cons s srcs)
  have "[] \<notin> set validProviders" by (simp add: validProviders_def)
  then show ?case using Cons.IH [of "insert (si_ID s) ids" "insert (si_Prefix s) prefixes"] by auto
qed simp

text \<open>
  \<open>validateSources\<close> accepts exactly the non-empty source lists whose identifiers and
  prefixes are present and pairwise different, whose prefixes are of the allowed characters
  and whose providers are known.
\<close>

theorem validate_sources_iff:
  "validateSources c = None \<longleftrightarrow>
     Sources c \<noteq> [] \<and>
     list_all (\<lambda>s. si_ID s \<noteq> [] \<and> si_Prefix s \<noteq> [] \<and> list_all prefix_char (si_Prefix s) \<and>
       si_Provider s \<in> set validProviders) (Sources c) \<and>
     distinct (map si_ID (Sources c)) \<and> distinct (map si_Prefix (Sources c))"
  by (auto simp: validateSources_def validateSources_loop_None)

text \<open>
  the built-in defaults pass validation, so a start without any override succeeds.
\<close>

theorem defaults_valid: "Validate Defaults = []"
proof -
  have "SplitHostPort ''1.1.1.1:53'' = Inr (''1.1.1.1'', ''53'')" "Atoi ''53'' = Inr 53"
    "SplitHostPort '':9099'' = Inr ([], ''9099'')"
    by code_simp+
  moreover have "validatePolicies [] = []" by (simp add: validatePolicies_def)
  moreover have "list_all prefix_char ''geosite''" by code_simp
  moreover have "TrimSpace ''1.1.1.1:53'' \<noteq> []" "TrimSpace '':9099'' \<noteq> []" "TrimSpace ''/var/lib/d2ip/cache.db'' \<noteq> []"
    "TrimSpace ''/var/lib/d2ip/out'' \<noteq> []" "TrimSpace ''ipv4.txt'' \<noteq> []" "TrimSpace ''ipv6.txt'' \<noteq> []"
    by code_simp+
  moreover have "ToLower ''info'' = ''info''" "ToLower ''json'' = ''json''" by code_simp+
  ultimately show ?thesis
    by (simp add: Validate_def Defaults_def validateListen_def validateSources_def validateResolver_def
        validateCache_def validateAggregation_def validateExport_def validateRouting_def validateScheduler_def
        validateLogging_def validateMetrics_def validProviders_def level_defs duration_defs rule_err_def HasPrefix_def)
qed

lemma Validate_parts:
  "Validate c = [] \<Longrightarrow> validateResolver (Resolver c) = [] \<and> validateAggregation (Aggregation c) = [] \<and>
     validatePolicies (rt_Policies (Routing c)) = [] \<and> validateSources c = None \<and> validateCache (Cache c) = [] \<and>
     validateScheduler (Scheduler c) = []"
  by (auto simp: Validate_def split: option.splits)

end
