(* ===== verification/Files.thy ===== *)
theory Files
  imports Config
begin

text \<open>
  The operating system's files as the sources use them (\<open>os\<close>, \<open>path/filepath\<close>): a map from
  clean paths to contents, and a fault function that says which operation fails on which
  path. A failing write leaves a truncated file, as \<open>os.WriteFile\<close> does. The text of a JSON
  document is represented by the value it denotes.
\<close>

datatype file_content = FText string | FJson anyv

datatype fs_op = OpRead | OpOpen | OpWrite | OpRename | OpRemove | OpMkdir

datatype read_error = ErrNotExist | ErrIO

record fs =
  fs_files :: "string \<rightharpoonup> file_content"
  fs_fault :: "fs_op \<Rightarrow> string \<Rightarrow> bool"

definition ReadFile :: "fs \<Rightarrow> string \<Rightarrow> read_error + file_content" where
  "ReadFile s p = (if fs_fault s OpRead p then Inl ErrIO
     else case fs_files s p of None \<Rightarrow> Inl ErrNotExist | Some c \<Rightarrow> Inr c)"

definition MkdirAll :: "fs \<Rightarrow> string \<Rightarrow> error option" where
  "MkdirAll s d = (if fs_fault s OpMkdir d then Some ''mkdir: permission denied'' else None)"

definition WriteFile :: "string \<Rightarrow> file_content \<Rightarrow> fs \<Rightarrow> error option \<times> fs" where
  "WriteFile p c s =
     (if fs_fault s OpOpen p then (Some ''open: permission denied'', s)
      else if fs_fault s OpWrite p then (Some ''write: no space left on device'', s\<lparr> fs_files := (fs_files s)(p \<mapsto> FText []) \<rparr>)
      else (None, s\<lparr> fs_files := (fs_files s)(p \<mapsto> c) \<rparr>))"

definition Rename :: "string \<Rightarrow> string \<Rightarrow> fs \<Rightarrow> error option \<times> fs" where
  "Rename a b s =
     (if fs_fault s OpRename b then (Some ''rename: permission denied'', s)
      else case fs_files s a of
        None \<Rightarrow> (Some ''rename: no such file or directory'', s)
      | Some c \<Rightarrow> (None, s\<lparr> fs_files := (fs_files s)(a := None, b \<mapsto> c) \<rparr>))"

definition Remove :: "string \<Rightarrow> fs \<Rightarrow> error option \<times> fs" where
  "Remove p s =
     (if fs_fault s OpRemove p then (Some ''remove: permission denied'', s)
      else if fs_files s p = None then (Some ''remove: no such file or directory'', s)
      else (None, s\<lparr> fs_files := (fs_files s)(p := None) \<rparr>))"

text \<open>\<open>filepath.Join\<close> and \<open>filepath.Dir\<close> on clean components.\<close>

definition Join :: "string \<Rightarrow> string \<Rightarrow> string" where
  "Join d f = (if d = [] then f else d @ ''/'' @ f)"

definition Dir :: "string \<Rightarrow> string" where
  "Dir p = (case split_last CHR ''/'' p of None \<Rightarrow> ''.'' | Some (d, _) \<Rightarrow> if d = [] then ''/'' else d)"

text \<open>
  The idiom the sources use to replace a file: write a temporary file beside it and rename.
  Whatever fails, the target holds its old content or the whole new one, and no other file
  than the target and the temporary file changes.
\<close>

definition replace_file :: "string \<Rightarrow> string \<Rightarrow> file_content \<Rightarrow> fs \<Rightarrow> error option \<times> fs" where
  "replace_file tmp p c s =
     (case WriteFile tmp c s of
        (Some e, s1) \<Rightarrow> (Some e, s1)
      | (None, s1) \<Rightarrow>
          (case Rename tmp p s1 of
             (Some e, s2) \<Rightarrow> (Some e, snd (Remove tmp s2))
           | (None, s2) \<Rightarrow> (None, s2)))"

lemma fs_fault_ops [simp]:
  "fs_fault (snd (WriteFile p c s)) = fs_fault s"
  "fs_fault (snd (Rename a b s)) = fs_fault s"
  "fs_fault (snd (Remove p s)) = fs_fault s"
  by (simp_all add: WriteFile_def Rename_def Remove_def split: option.splits)

lemma WriteFile_other: "q \<noteq> p \<Longrightarrow> fs_files (snd (WriteFile p c s)) q = fs_files s q"
  by (simp add: WriteFile_def)

lemma Remove_other: "q \<noteq> p \<Longrightarrow> fs_files (snd (Remove p s)) q = fs_files s q"
  by (simp add: Remove_def)

lemma WriteFile_ok:
  "WriteFile p c s = (None, s') \<Longrightarrow> s' = s\<lparr> fs_files := (fs_files s)(p \<mapsto> c) \<rparr>"
  by (simp add: WriteFile_def split: if_splits)

lemma replace_file_ok:
  assumes "replace_file tmp p c s = (None, s')" and "tmp \<noteq> p"
  shows "s' = s\<lparr> fs_files := (fs_files s)(tmp := None, p \<mapsto> c) \<rparr>"
  using assms
  by (auto simp: replace_file_def Rename_def split: prod.splits option.splits if_splits dest!: WriteFile_ok)

lemma replace_file_error:
  assumes "replace_file tmp p c s = (Some e, s')" and "q \<noteq> tmp"
  shows "fs_files s' q = fs_files s q"
  using assms WriteFile_other [of q tmp c s]
  by (auto simp: replace_file_def Rename_def Remove_other split: prod.splits option.splits if_splits)

lemma replace_file_fault [simp]: "fs_fault (snd (replace_file tmp p c s)) = fs_fault s"
  by (auto simp: replace_file_def split: prod.splits option.splits)
     (metis fs_fault_ops snd_conv)+

lemma tmp_neq [simp]: "p @ ''.tmp'' \<noteq> p" "p \<noteq> p @ ''.tmp''"
  by simp_all

end
