(* ===== verification/Routing.thy ===== *)
theory Routing
  imports Files
begin

text \<open>
  The data and the pure functions of \<open>internal/routing\<close>: \<open>types.go\<close>, \<open>policy_router.go\<close>,
  \<open>router.go\<close>, and the persisted state of \<open>state.go\<close> and \<open>policy_state.go\<close>.
\<close>

section \<open>Types\<close>

datatype Family = FamilyV4 | FamilyV6

fun Family_String :: "Family \<Rightarrow> string" where
  "Family_String FamilyV6 = ''v6''"
| "Family_String FamilyV4 = ''v4''"

record Plan =
  pl_Family :: Family
  pl_Add :: "prefix list"
  pl_Remove :: "prefix list"

definition Empty :: "Plan \<Rightarrow> bool" where
  "Empty p \<longleftrightarrow> length (pl_Add p) = 0 \<and> length (pl_Remove p) = 0"

record RouterState =
  rs_Backend :: string
  rs_AppliedAt :: int
  rs_V4 :: "prefix list"
  rs_V6 :: "prefix list"

definition zero_state :: RouterState where
  "zero_state = \<lparr> rs_Backend = [], rs_AppliedAt = 0, rs_V4 = [], rs_V6 = [] \<rparr>"

section \<open>Plans\<close>

text \<open>\<open>buildPlan\<close> compares prefixes by their text.\<close>

definition buildPlan :: "prefix list \<Rightarrow> prefix list \<Rightarrow> Family \<Rightarrow> Plan" where
  "buildPlan current desired family =
     (let currentSet = set (map prefix_string current);
          desiredSet = set (map prefix_string desired)
      in \<lparr> pl_Family = family,
           pl_Add = filter (\<lambda>p. prefix_string p \<notin> currentSet) desired,
           pl_Remove = filter (\<lambda>p. prefix_string p \<notin> desiredSet) current \<rparr>)"

definition nl :: string where
  "nl = [newline]"

definition diff_lines :: "Plan \<Rightarrow> string" where
  "diff_lines p =
     concat (map (\<lambda>r. ''- '' @ prefix_string r @ nl) (pl_Remove p)) @
     concat (map (\<lambda>a. ''+ '' @ prefix_string a @ nl) (pl_Add p))"

definition diffString :: "Plan \<Rightarrow> string" where
  "diffString p = (let out = diff_lines p in if out = [] then ''(no changes)'' @ nl else out)"

definition prefix_before :: "prefix \<Rightarrow> prefix \<Rightarrow> bool" where
  "prefix_before p q = (if paddr p \<noteq> paddr q then paddr p < paddr q else pbits p < pbits q)"

definition sortPrefixes :: "prefix list \<Rightarrow> prefix list" where
  "sortPrefixes = sort_slice prefix_before"

definition dedup :: "prefix list \<Rightarrow> prefix list" where
  "dedup xs = (if xs = [] then [] else sortPrefixes (keep_first id xs))"

definition computePlan :: "prefix list \<Rightarrow> prefix list \<Rightarrow> Family \<Rightarrow> Plan" where
  "computePlan current desired f =
     (let cur = dedup current; des = dedup desired
      in \<lparr> pl_Family = f,
           pl_Add = sortPrefixes (filter (\<lambda>p. p \<notin> set cur) des),
           pl_Remove = sortPrefixes (filter (\<lambda>p. p \<notin> set des) cur) \<rparr>)"

definition filterByFamily :: "prefix list \<Rightarrow> Family \<Rightarrow> prefix list" where
  "filterByFamily xs f = filter (\<lambda>p. (f = FamilyV4 \<and> is4 (paddr p)) \<or> (f = FamilyV6 \<and> \<not> is4 (paddr p))) xs"

definition renderDiff :: "Plan \<Rightarrow> string" where
  "renderDiff p =
     (if Empty p then ''(no changes)'' @ nl
      else ''# family='' @ Family_String (pl_Family p) @ '' add='' @ show_nat (length (pl_Add p)) @
           '' remove='' @ show_nat (length (pl_Remove p)) @ nl @ diff_lines p)"

text \<open>The router returned when routing is disabled, and the constructor that always returns it.\<close>

definition noop_Plan :: "prefix list \<Rightarrow> Family \<Rightarrow> Plan" where
  "noop_Plan desired f = \<lparr> pl_Family = f, pl_Add = [], pl_Remove = [] \<rparr>"

definition noop_Snapshot :: RouterState where
  "noop_Snapshot = zero_state\<lparr> rs_Backend := ''none'' \<rparr>"

definition noop_DryRun :: "prefix list \<Rightarrow> Family \<Rightarrow> Plan \<times> string" where
  "noop_DryRun desired f = (noop_Plan desired f, ''(routing disabled)'' @ nl)"

section \<open>State files\<close>

text \<open>
  \<open>encoding/json\<close> of a \<open>RouterState\<close>: prefixes by their text (the zero prefix as the empty
  string), the time by its instant.
\<close>

definition prefix_text :: "prefix \<Rightarrow> string" where
  "prefix_text p = (if p = prefix_zero then [] else prefix_string p)"

definition text_prefix :: "string \<Rightarrow> prefix result" where
  "text_prefix s = (if s = [] then Inr prefix_zero else ParsePrefix s)"

definition marshal_state :: "RouterState \<Rightarrow> anyv" where
  "marshal_state s = VMap
     [(''backend'', VStr (rs_Backend s)), (''applied_at'', VInt (rs_AppliedAt s)),
      (''v4_prefixes'', VList (map (\<lambda>p. VStr (prefix_text p)) (rs_V4 s))),
      (''v6_prefixes'', VList (map (\<lambda>p. VStr (prefix_text p)) (rs_V6 s)))]"

fun decode_string :: "anyv option \<Rightarrow> string result" where
  "decode_string (Some (VStr s)) = Inr s"
| "decode_string (Some VNull) = Inr []"
| "decode_string None = Inr []"
| "decode_string _ = Inl ''json: cannot unmarshal into string''"

fun decode_time :: "anyv option \<Rightarrow> int result" where
  "decode_time (Some (VInt i)) = Inr i"
| "decode_time (Some VNull) = Inr 0"
| "decode_time None = Inr 0"
| "decode_time _ = Inl ''json: cannot unmarshal into time''"

fun decode_prefix_list :: "anyv list \<Rightarrow> prefix list result" where
  "decode_prefix_list [] = Inr []"
| "decode_prefix_list (VStr s # vs) =
     bind_result (text_prefix s) (\<lambda>p. bind_result (decode_prefix_list vs) (\<lambda>ps. Inr (p # ps)))"
| "decode_prefix_list (VNull # vs) = bind_result (decode_prefix_list vs) (\<lambda>ps. Inr (prefix_zero # ps))"
| "decode_prefix_list (_ # vs) = Inl ''json: cannot unmarshal into netip.Prefix''"

fun decode_prefixes :: "anyv option \<Rightarrow> prefix list result" where
  "decode_prefixes (Some (VList vs)) = decode_prefix_list vs"
| "decode_prefixes (Some VNull) = Inr []"
| "decode_prefixes None = Inr []"
| "decode_prefixes _ = Inl ''json: cannot unmarshal into []netip.Prefix''"

fun unmarshal_state :: "anyv \<Rightarrow> RouterState result" where
  "unmarshal_state (VMap kvs) =
     bind_result (decode_string (map_of kvs ''backend'')) (\<lambda>b.
     bind_result (decode_time (map_of kvs ''applied_at'')) (\<lambda>t.
     bind_result (decode_prefixes (map_of kvs ''v4_prefixes'')) (\<lambda>v4.
     bind_result (decode_prefixes (map_of kvs ''v6_prefixes'')) (\<lambda>v6.
       Inr \<lparr> rs_Backend = b, rs_AppliedAt = t, rs_V4 = v4, rs_V6 = v6 \<rparr>))))"
| "unmarshal_state VNull = Inr zero_state"
| "unmarshal_state _ = Inl ''json: cannot unmarshal into routing.RouterState''"

definition loadState :: "fs \<Rightarrow> string \<Rightarrow> RouterState result" where
  "loadState s pth =
     (case ReadFile s pth of
        Inl ErrNotExist \<Rightarrow> Inr zero_state
      | Inl ErrIO \<Rightarrow> Inl ''routing: read state''
      | Inr (FText b) \<Rightarrow> Inl ''routing: parse state''
      | Inr (FJson j) \<Rightarrow> wrap_err ''routing: parse state'' (unmarshal_state j))"

definition saveState :: "string \<Rightarrow> RouterState \<Rightarrow> fs \<Rightarrow> error option \<times> fs" where
  "saveState pth st s =
     (if pth = [] then (Some ''routing: empty state path'', s)
      else case MkdirAll s (Dir pth) of
        Some e \<Rightarrow> (Some (''routing: mkdir state dir: '' @ e), s)
      | None \<Rightarrow> replace_file (pth @ ''.tmp'') pth (FJson (marshal_state st)) s)"

definition policyStatePath :: "string \<Rightarrow> string \<Rightarrow> string" where
  "policyStatePath stateDir policyName = Join stateDir (policyName @ ''.json'')"

definition loadPolicyState :: "fs \<Rightarrow> string \<Rightarrow> string \<Rightarrow> RouterState result" where
  "loadPolicyState s stateDir policyName = loadState s (policyStatePath stateDir policyName)"

definition savePolicyState :: "string \<Rightarrow> string \<Rightarrow> RouterState \<Rightarrow> fs \<Rightarrow> error option \<times> fs" where
  "savePolicyState stateDir policyName st s =
     (case MkdirAll s stateDir of
        Some e \<Rightarrow> (Some (''mkdir state dir: '' @ e), s)
      | None \<Rightarrow> saveState (policyStatePath stateDir policyName) st s)"

text \<open>\<open>state, _ := loadPolicyState(...)\<close>: an unreadable state counts as the zero state.\<close>

definition state_or_zero :: "RouterState result \<Rightarrow> RouterState" where
  "state_or_zero r = (case r of Inl _ \<Rightarrow> zero_state | Inr st \<Rightarrow> st)"

section \<open>Plans are the difference of two sets\<close>

lemma prefix_before_less: "prefix_before p q \<longleftrightarrow> p < q"
  by (auto simp: prefix_before_def less_prefix_def less_eq_prefix_def)

interpretation prefix_order: slice_less prefix_before
  by unfold_locales (auto simp: prefix_before_less)

lemma sortPrefixes_sorted: "distinct xs \<Longrightarrow> sortPrefixes xs = sorted_list_of_set (set xs)"
proof (rule sorted_distinct_set_unique)
  have "(\<lambda>x y. \<not> prefix_before y x) = (\<le>)"
    by (auto simp: prefix_before_less fun_eq_iff not_less)
  then show "sorted (sortPrefixes xs)"
    using prefix_order.sorted_sort_slice [of xs] by (simp add: sortPrefixes_def)
qed (simp_all add: sortPrefixes_def)

lemma dedup_sorted: "dedup xs = sorted_list_of_set (set xs)"
  by (cases "xs = []") (simp_all add: dedup_def sortPrefixes_sorted)

lemma set_dedup [simp]: "set (dedup xs) = set xs" and distinct_dedup [simp]: "distinct (dedup xs)"
  by (simp_all add: dedup_sorted)

lemma set_sortPrefixes [simp]: "set (sortPrefixes xs) = set xs"
  by (simp add: sortPrefixes_def)

text \<open>
  the plan of the transactional routers is the set difference in canonical form: what to
  add and what to remove, each sorted and without duplicates, whatever the order and the
  multiplicity of the inputs.
\<close>

theorem computePlan_difference:
  "computePlan current desired f =
     \<lparr> pl_Family = f, pl_Add = sorted_list_of_set (set desired - set current),
       pl_Remove = sorted_list_of_set (set current - set desired) \<rparr>"
proof -
  have "set (filter (\<lambda>p. p \<notin> set ys) xs) = set xs - set ys" for xs ys :: "prefix list" by auto
  then show ?thesis
    by (simp add: computePlan_def sortPrefixes_sorted Let_def)
qed

text \<open>Executing a plan on a set of prefixes.\<close>

definition apply_plan :: "Plan \<Rightarrow> prefix set \<Rightarrow> prefix set" where
  "apply_plan p S = (S - set (pl_Remove p)) \<union> set (pl_Add p)"

lemma buildPlan_sets:
  assumes "list_all prefix_ok current" and "list_all prefix_ok desired"
  shows "set (pl_Add (buildPlan current desired f)) = set desired - set current"
    and "set (pl_Remove (buildPlan current desired f)) = set current - set desired"
  using assms by (auto simp: buildPlan_def Let_def list_all_iff dest: inj_onD [OF prefix_string_inj])

text \<open>
  the plan of the policy routers, which compares prefixes by their text, and the plan of
  the transactional routers, which compares them as values and sorts, add and remove the
  same prefixes; executing either on the current set yields exactly the desired set.
\<close>

theorem buildPlan_refines_computePlan:
  assumes "list_all prefix_ok current" and "list_all prefix_ok desired"
  shows "set (pl_Add (buildPlan current desired f)) = set (pl_Add (computePlan current desired f)) \<and>
    set (pl_Remove (buildPlan current desired f)) = set (pl_Remove (computePlan current desired f)) \<and>
    apply_plan (buildPlan current desired f) (set current) = set desired \<and>
    apply_plan (computePlan current desired f) (set current) = set desired"
  using buildPlan_sets [OF assms, of f] by (auto simp: computePlan_difference apply_plan_def)

theorem buildPlan_refines_computePlan_witness:
  "set (pl_Add (buildPlan [Prefix (Addr4 0x0A000000) 8] [Prefix (Addr6 0) 128] FamilyV4)) =
     set (pl_Add (computePlan [Prefix (Addr4 0x0A000000) 8] [Prefix (Addr6 0) 128] FamilyV4))"
  using buildPlan_refines_computePlan [of "[Prefix (Addr4 0x0A000000) 8]" "[Prefix (Addr6 0) 128]" FamilyV4]
  by (simp add: prefix_ok_def)

lemma buildPlan_unchanged: "Empty (buildPlan xs xs f)"
  by (auto simp: buildPlan_def Empty_def Let_def filter_empty_conv)

lemma buildPlan_order:
  "\<exists>P. pl_Add (buildPlan current desired f) = filter P desired"
  by (auto simp: buildPlan_def Let_def)

section \<open>State files hold what was saved\<close>

definition prefix_storable :: "prefix \<Rightarrow> bool" where
  "prefix_storable p \<longleftrightarrow> prefix_ok p \<or> p = prefix_zero"

definition state_storable :: "RouterState \<Rightarrow> bool" where
  "state_storable st \<longleftrightarrow> list_all prefix_storable (rs_V4 st) \<and> list_all prefix_storable (rs_V6 st)"

lemma prefix_string_Nil: "prefix_ok p \<Longrightarrow> prefix_string p \<noteq> []"
  by (simp add: prefix_string_def prefix_ok_def)

lemma text_prefix_text: "prefix_storable p \<Longrightarrow> text_prefix (prefix_text p) = Inr p"
proof -
  assume *: "prefix_storable p"
  have "\<not> prefix_ok prefix_zero" by (simp add: prefix_ok_def prefix_zero_def)
  with * show ?thesis
    using prefix_string_Nil [of p] ParsePrefix_prefix_string [of p]
    by (auto simp: prefix_storable_def prefix_text_def text_prefix_def)
qed

lemma decode_prefixes_marshal:
  "list_all prefix_storable ps \<Longrightarrow> decode_prefix_list (map (\<lambda>p. VStr (prefix_text p)) ps) = Inr ps"
  by (induction ps) (simp_all add: text_prefix_text)

lemma unmarshal_marshal: "state_storable st \<Longrightarrow> unmarshal_state (marshal_state st) = Inr st"
  by (cases st) (simp add: marshal_state_def state_storable_def decode_prefixes_marshal)

lemma loadState_cong:
  "fs_files s p = fs_files s' p \<Longrightarrow> fs_fault s = fs_fault s' \<Longrightarrow> loadState s p = loadState s' p"
  by (simp add: loadState_def ReadFile_def)

lemma saveState_fault [simp]: "fs_fault (snd (saveState p st s)) = fs_fault s"
  by (auto simp: saveState_def split: option.splits)

lemma saveState_ok:
  assumes "saveState p st s = (None, s')" and "state_storable st" and "\<not> fs_fault s OpRead p"
  shows "loadState s' p = Inr st"
proof -
  have "replace_file (p @ ''.tmp'') p (FJson (marshal_state st)) s = (None, s')"
    using assms(1) by (auto simp: saveState_def split: if_splits option.splits)
  from replace_file_ok [OF this] have "s' = s\<lparr> fs_files := (fs_files s)(p @ ''.tmp'' := None, p \<mapsto> FJson (marshal_state st)) \<rparr>"
    by simp
  then show ?thesis using assms(2,3)
    by (simp add: loadState_def ReadFile_def unmarshal_marshal)
qed

lemma saveState_error:
  assumes "saveState p st s = (Some e, s')"
  shows "loadState s' p = loadState s p"
proof (rule loadState_cong)
  show "fs_fault s' = fs_fault s" using saveState_fault [of p st s] assms by simp
  show "fs_files s' p = fs_files s p"
    using assms replace_file_error [of "p @ ''.tmp''" p "FJson (marshal_state st)" s _ s' p]
    by (auto simp: saveState_def split: if_splits option.splits)
qed

lemma replace_file_other:
  assumes "q \<noteq> tmp" and "q \<noteq> p"
  shows "fs_files (snd (replace_file tmp p c s)) q = fs_files s q"
proof (cases "fst (replace_file tmp p c s)")
  case None
  show ?thesis
  proof (cases "tmp = p")
    case False
    with None replace_file_ok [of tmp p c s "snd (replace_file tmp p c s)"] assms show ?thesis
      by (cases "replace_file tmp p c s") auto
  next
    case True
    then show ?thesis using assms
      by (auto simp: replace_file_def WriteFile_def Rename_def Remove_def split: prod.splits option.splits if_splits)
  qed
next
  case (Some e)
  then show ?thesis using replace_file_error [of tmp p c s e "snd (replace_file tmp p c s)" q] assms
    by (cases "replace_file tmp p c s") auto
qed

lemma saveState_other:
  "q \<noteq> p \<Longrightarrow> q \<noteq> p @ ''.tmp'' \<Longrightarrow> loadState (snd (saveState p st s)) q = loadState s q"
  by (rule loadState_cong)
     (auto simp: saveState_def replace_file_other split: option.splits)

lemma policyStatePath_inj: "policyStatePath d m = policyStatePath d n \<longleftrightarrow> m = n"
  by (auto simp: policyStatePath_def Join_def)

lemma policyStatePath_tmp: "policyStatePath d m \<noteq> policyStatePath d n @ ''.tmp''"
proof
  assume "policyStatePath d m = policyStatePath d n @ ''.tmp''"
  then have "last (policyStatePath d m) = last (policyStatePath d n @ ''.tmp'')" by (rule arg_cong)
  then show False by (auto simp: policyStatePath_def Join_def split: if_splits)
qed

lemma savePolicyState_fault [simp]: "fs_fault (snd (savePolicyState d n st s)) = fs_fault s"
  by (auto simp: savePolicyState_def split: option.splits)

lemma saved_state_loads:
  assumes "savePolicyState d n st s = (None, s')" and "state_storable st"
    and "\<not> fs_fault s OpRead (policyStatePath d n)"
  shows "loadPolicyState s' d n = Inr st"
  using assms saveState_ok [of "policyStatePath d n" st s s']
  by (auto simp: savePolicyState_def loadPolicyState_def split: option.splits)

lemma save_error_own:
  "savePolicyState d n st s = (Some e, s') \<Longrightarrow> loadPolicyState s' d n = loadPolicyState s d n"
  using saveState_error [of "policyStatePath d n" st s _ s']
  by (auto simp: savePolicyState_def loadPolicyState_def split: option.splits)

lemma save_other_loads:
  "savePolicyState d n st s = (r, s') \<Longrightarrow> m \<noteq> n \<Longrightarrow> loadPolicyState s' d m = loadPolicyState s d m"
  using saveState_other [of "policyStatePath d m" "policyStatePath d n" st s]
  by (auto simp: savePolicyState_def loadPolicyState_def policyStatePath_inj policyStatePath_tmp split: option.splits)

lemma save_error_loads:
  "savePolicyState d n st s = (Some e, s') \<Longrightarrow> loadPolicyState s' d m = loadPolicyState s d m"
  by (cases "m = n") (auto dest: save_error_own save_other_loads)

text \<open>
  C35: saving the state of a policy is all or nothing, whatever file operation fails: on
  success the saved state is what is loaded, on an error the old state is still loaded, and
  the states of the other policies of the directory are never touched.
\<close>

theorem save_policy_state_atomic:
  assumes "savePolicyState d n st s = (r, s')" and "state_storable st"
    and "\<not> fs_fault s OpRead (policyStatePath d n)"
  shows "(if r = None then loadPolicyState s' d n = Inr st else loadPolicyState s' d n = loadPolicyState s d n) \<and>
    (m \<noteq> n \<longrightarrow> loadPolicyState s' d m = loadPolicyState s d m)"
  using assms by (cases r) (auto dest: saved_state_loads save_error_own save_other_loads)

definition example_state :: RouterState where
  "example_state = \<lparr> rs_Backend = BackendNFTables, rs_AppliedAt = 7,
     rs_V4 = [Prefix (Addr4 0x0A000000) 8], rs_V6 = [Prefix (Addr6 0) 128] \<rparr>"

definition empty_fs :: fs where
  "empty_fs = \<lparr> fs_files = Map.empty, fs_fault = (\<lambda>_ _. False) \<rparr>"

theorem save_policy_state_atomic_witness:
  "loadPolicyState (snd (savePolicyState ''/var'' ''p'' example_state empty_fs)) ''/var'' ''p'' = Inr example_state"
proof -
  have "savePolicyState ''/var'' ''p'' example_state empty_fs =
    (None, snd (savePolicyState ''/var'' ''p'' example_state empty_fs))"
    by (simp add: savePolicyState_def saveState_def replace_file_def WriteFile_def Rename_def MkdirAll_def
        empty_fs_def policyStatePath_def Join_def)
  from save_policy_state_atomic [OF this, of "''p''"] show ?thesis
    by (simp add: example_state_def state_storable_def prefix_storable_def prefix_ok_def empty_fs_def)
qed

end
