(* ===== verification/Policy_Router.thy ===== *)
theory Policy_Router
  imports Routing
begin

text \<open>
  The policy routers of \<open>internal/routing\<close>: \<open>policy_iproute2.go\<close>, \<open>policy_nftables.go\<close>,
  \<open>policy_composite\<close> dispatch in \<open>composite_router.go\<close> and \<open>validator.go\<close>. The commands
  \<open>ip\<close> and \<open>nft\<close> are an argument \<open>run\<close> of the operations: it maps the argument vector and
  the kernel state to an error (or none) and the next kernel state. What the code relies on
  is stated as hypotheses on \<open>run\<close> (\<open>ip_route_semantics\<close>, \<open>nft_semantics\<close>). The contract the
  pipeline uses is the locale \<open>policy_router\<close>, interpreted on all three routers.
\<close>

section \<open>Commands\<close>

type_synonym 'k runner = "string list \<Rightarrow> 'k \<Rightarrow> error option \<times> 'k"

record 'k sys =
  sys_fs :: fs
  sys_kernel :: 'k

text \<open>One command for each prefix, in order; the first failure ends the loop.\<close>

fun run_each :: "'k runner \<Rightarrow> (prefix \<Rightarrow> string list) \<Rightarrow> string \<Rightarrow> prefix list \<Rightarrow> 'k \<Rightarrow> error option \<times> 'k" where
  "run_each run cmd what [] k = (None, k)"
| "run_each run cmd what (p # ps) k =
     (case run (cmd p) k of
        (Some e, k') \<Rightarrow> (Some (what @ prefix_string p @ '': '' @ e), k')
      | (None, k') \<Rightarrow> run_each run cmd what ps k')"

section \<open>The iproute2 policy router\<close>

definition table_arg :: "PolicyConfig \<Rightarrow> string" where
  "table_arg policy = show_int (pol_TableID policy)"

definition route_del_cmd :: "PolicyConfig \<Rightarrow> prefix \<Rightarrow> string list" where
  "route_del_cmd policy p = [''ip'', ''route'', ''del'', prefix_string p, ''table'', table_arg policy]"

definition route_add_cmd :: "PolicyConfig \<Rightarrow> prefix \<Rightarrow> string list" where
  "route_add_cmd policy p =
     [''ip'', ''route'', ''add'', prefix_string p, ''dev'', pol_Iface policy, ''table'', table_arg policy]"

definition iproute2_Caps :: "'k runner \<Rightarrow> PolicyConfig \<Rightarrow> 'k sys \<Rightarrow> error option \<times> 'k sys" where
  "iproute2_Caps run policy s =
     (case run [''ip'', ''route'', ''show'', ''table'', table_arg policy] (sys_kernel s) of
        (Some e, k) \<Rightarrow> (Some (''iproute2 cap check failed: '' @ e), s\<lparr> sys_kernel := k \<rparr>)
      | (None, k) \<Rightarrow> (None, s\<lparr> sys_kernel := k \<rparr>))"

definition iproute2_applyFamily :: "'k runner \<Rightarrow> PolicyConfig \<Rightarrow> Plan \<Rightarrow> 'k \<Rightarrow> error option \<times> 'k" where
  "iproute2_applyFamily run policy plan k =
     (case run_each run (route_del_cmd policy) ''del route '' (pl_Remove plan) k of
        (Some e, k') \<Rightarrow> (Some e, k')
      | (None, k') \<Rightarrow> run_each run (route_add_cmd policy) ''add route '' (pl_Add plan) k')"

text \<open>
  Both routers apply the two families in order and then save the state; they differ in the
  function that applies one family, the error contexts and the backend recorded.
\<close>

definition save_applied :: "string \<Rightarrow> PolicyConfig \<Rightarrow> RoutingBackend \<Rightarrow> int \<Rightarrow> prefix list \<Rightarrow> prefix list \<Rightarrow>
    'k sys \<Rightarrow> error option \<times> 'k sys" where
  "save_applied stateDir policy backend now v4 v6 s =
     (let st = \<lparr> rs_Backend = backend, rs_AppliedAt = now, rs_V4 = v4, rs_V6 = v6 \<rparr>;
          (r, f) = savePolicyState stateDir (pol_Name policy) st (sys_fs s)
      in (r, s\<lparr> sys_fs := f \<rparr>))"

definition iproute2_ApplyPolicy :: "'k runner \<Rightarrow> string \<Rightarrow> int \<Rightarrow> PolicyConfig \<Rightarrow> prefix list \<Rightarrow> prefix list \<Rightarrow>
    'k sys \<Rightarrow> error option \<times> 'k sys" where
  "iproute2_ApplyPolicy run stateDir now policy v4 v6 s =
     (let state = state_or_zero (loadPolicyState (sys_fs s) stateDir (pol_Name policy));
          planV4 = buildPlan (rs_V4 state) v4 FamilyV4;
          planV6 = buildPlan (rs_V6 state) v6 FamilyV6
      in case iproute2_applyFamily run policy planV4 (sys_kernel s) of
           (Some e, k) \<Rightarrow> (Some (''apply v4: '' @ e), s\<lparr> sys_kernel := k \<rparr>)
         | (None, k) \<Rightarrow>
             (case iproute2_applyFamily run policy planV6 k of
                (Some e, k') \<Rightarrow> (Some (''apply v6: '' @ e), s\<lparr> sys_kernel := k' \<rparr>)
              | (None, k') \<Rightarrow> save_applied stateDir policy BackendIProute2 now v4 v6 (s\<lparr> sys_kernel := k' \<rparr>)))"

definition policy_DryRun :: "string \<Rightarrow> PolicyConfig \<Rightarrow> prefix list \<Rightarrow> prefix list \<Rightarrow> 'k sys \<Rightarrow>
    Plan \<times> Plan \<times> string \<times> string" where
  "policy_DryRun stateDir policy v4 v6 s =
     (let state = state_or_zero (loadPolicyState (sys_fs s) stateDir (pol_Name policy));
          v4Plan = buildPlan (rs_V4 state) v4 FamilyV4;
          v6Plan = buildPlan (rs_V6 state) v6 FamilyV6
      in (v4Plan, v6Plan, diffString v4Plan, diffString v6Plan))"

definition policy_Snapshot :: "string \<Rightarrow> string \<Rightarrow> 'k sys \<Rightarrow> RouterState" where
  "policy_Snapshot stateDir policyName s = state_or_zero (loadPolicyState (sys_fs s) stateDir policyName)"

text \<open>\<open>RollbackPolicy\<close> reads the state and, as written, removes nothing.\<close>

definition policy_Rollback :: "string \<Rightarrow> string \<Rightarrow> 'k sys \<Rightarrow> error option \<times> 'k sys" where
  "policy_Rollback stateDir policyName s =
     (case loadPolicyState (sys_fs s) stateDir policyName of
        Inl e \<Rightarrow> (Some e, s)
      | Inr state \<Rightarrow> (None, s))"

section \<open>The nftables policy router\<close>

definition nft_Caps :: "'k runner \<Rightarrow> PolicyConfig \<Rightarrow> 'k sys \<Rightarrow> error option \<times> 'k sys" where
  "nft_Caps run policy s =
     (case run [''nft'', ''list'', ''table'', pol_NFTTable policy] (sys_kernel s) of
        (None, k) \<Rightarrow> (None, s\<lparr> sys_kernel := k \<rparr>)
      | (Some e, k) \<Rightarrow>
          (Some (''nftables cap check failed for table '' @ pol_NFTTable policy @ '': '' @ e), s\<lparr> sys_kernel := k \<rparr>))"

definition nft_flush_cmd :: "string \<Rightarrow> string \<Rightarrow> string list" where
  "nft_flush_cmd table st = [''nft'', ''flush'', ''set'', ''inet'', table, st]"

definition nft_add_cmd :: "string \<Rightarrow> string \<Rightarrow> prefix list \<Rightarrow> string list" where
  "nft_add_cmd table st ps = [''nft'', ''add'', ''element'', ''inet'', table, st] @ map prefix_string ps"

definition nft_applySet :: "'k runner \<Rightarrow> string \<Rightarrow> string \<Rightarrow> Plan \<Rightarrow> 'k \<Rightarrow> error option \<times> 'k" where
  "nft_applySet run table st plan k =
     (case run (nft_flush_cmd table st) k of
        (Some e, k') \<Rightarrow> (Some (''flush set '' @ st @ '': '' @ e), k')
      | (None, k') \<Rightarrow>
          if 0 < length (pl_Add plan) then
            (case run (nft_add_cmd table st (pl_Add plan)) k' of
               (Some e, k'') \<Rightarrow> (Some (''add elements to '' @ st @ '': '' @ e), k'')
             | (None, k'') \<Rightarrow> (None, k''))
          else (None, k'))"

definition nft_ApplyPolicy :: "'k runner \<Rightarrow> string \<Rightarrow> int \<Rightarrow> PolicyConfig \<Rightarrow> prefix list \<Rightarrow> prefix list \<Rightarrow>
    'k sys \<Rightarrow> error option \<times> 'k sys" where
  "nft_ApplyPolicy run stateDir now policy v4 v6 s =
     (let state = state_or_zero (loadPolicyState (sys_fs s) stateDir (pol_Name policy));
          planV4 = buildPlan (rs_V4 state) v4 FamilyV4;
          planV6 = buildPlan (rs_V6 state) v6 FamilyV6
      in case nft_applySet run (pol_NFTTable policy) (pol_NFTSetV4 policy) planV4 (sys_kernel s) of
           (Some e, k) \<Rightarrow> (Some (''apply v4 set: '' @ e), s\<lparr> sys_kernel := k \<rparr>)
         | (None, k) \<Rightarrow>
             (case nft_applySet run (pol_NFTTable policy) (pol_NFTSetV6 policy) planV6 k of
                (Some e, k') \<Rightarrow> (Some (''apply v6 set: '' @ e), s\<lparr> sys_kernel := k' \<rparr>)
              | (None, k') \<Rightarrow> save_applied stateDir policy BackendNFTables now v4 v6 (s\<lparr> sys_kernel := k' \<rparr>)))"

definition nft_DryRunPolicy :: "string \<Rightarrow> PolicyConfig \<Rightarrow> prefix list \<Rightarrow> prefix list \<Rightarrow> 'k sys \<Rightarrow>
    Plan \<times> Plan \<times> string \<times> string" where
  "nft_DryRunPolicy stateDir policy v4 v6 s =
     (let state = state_or_zero (loadPolicyState (sys_fs s) stateDir (pol_Name policy));
          v4Plan = buildPlan (rs_V4 state) v4 FamilyV4;
          v6Plan = buildPlan (rs_V6 state) v6 FamilyV6
      in (v4Plan, v6Plan, diffString v4Plan, diffString v6Plan))"

definition nft_SnapshotPolicy :: "string \<Rightarrow> string \<Rightarrow> 'k sys \<Rightarrow> RouterState" where
  "nft_SnapshotPolicy stateDir policyName s = state_or_zero (loadPolicyState (sys_fs s) stateDir policyName)"

text \<open>The comment speaks of emptying the sets; as written, no set is touched.\<close>

definition nft_RollbackPolicy :: "string \<Rightarrow> string \<Rightarrow> 'k sys \<Rightarrow> error option \<times> 'k sys" where
  "nft_RollbackPolicy stateDir policyName s =
     (case loadPolicyState (sys_fs s) stateDir policyName of
        Inl e \<Rightarrow> (Some e, s)
      | Inr state \<Rightarrow> (None, s))"

section \<open>The validator\<close>

text \<open>The health results by backend. \<open>look\<close> stands for \<open>exec.LookPath\<close>.\<close>

type_synonym Validator = "RoutingBackend \<rightharpoonup> bool"

definition NewValidator :: Validator where
  "NewValidator = Map.empty"

definition IsHealthy :: "Validator \<Rightarrow> RoutingBackend \<Rightarrow> bool" where
  "IsHealthy v backend = (case v backend of Some healthy \<Rightarrow> healthy | None \<Rightarrow> True)"

definition validateNftables :: "(string \<Rightarrow> bool) \<Rightarrow> 'k runner \<Rightarrow> Validator \<times> 'k \<Rightarrow> error option \<times> (Validator \<times> 'k)" where
  "validateNftables look run vk =
     (let (v, k) = vk in
      if \<not> look ''nft'' then (Some ''nftables binary not found in PATH'', (v(BackendNFTables \<mapsto> False), k))
      else case run [''nft'', ''list'', ''tables''] k of
        (Some e, k') \<Rightarrow> (Some (''nftables kernel subsystem unresponsive: '' @ e), (v(BackendNFTables \<mapsto> False), k'))
      | (None, k') \<Rightarrow> (None, (v(BackendNFTables \<mapsto> True), k')))"

definition validateIProute2 :: "(string \<Rightarrow> bool) \<Rightarrow> 'k runner \<Rightarrow> Validator \<times> 'k \<Rightarrow> error option \<times> (Validator \<times> 'k)" where
  "validateIProute2 look run vk =
     (let (v, k) = vk in
      if \<not> look ''ip'' then (Some ''iproute2 binary not found in PATH'', (v(BackendIProute2 \<mapsto> False), k))
      else case run [''ip'', ''route'', ''show''] k of
        (Some e, k') \<Rightarrow> (Some (''iproute2 kernel subsystem unresponsive: '' @ e), (v(BackendIProute2 \<mapsto> False), k'))
      | (None, k') \<Rightarrow> (None, (v(BackendIProute2 \<mapsto> True), k')))"

definition validateBackend :: "(string \<Rightarrow> bool) \<Rightarrow> 'k runner \<Rightarrow> RoutingBackend \<Rightarrow> Validator \<times> 'k \<Rightarrow>
    error option \<times> (Validator \<times> 'k)" where
  "validateBackend look run backend vk =
     (if backend = BackendNFTables then validateNftables look run vk
      else if backend = BackendIProute2 then validateIProute2 look run vk
      else (Some (''unsupported backend: '' @ backend), vk))"

text \<open>\<open>order\<close> is the order in which Go's map iteration visits the needed backends.\<close>

definition needed_backends :: "PolicyConfig list \<Rightarrow> RoutingBackend set" where
  "needed_backends policies = pol_Backend ` set (filter pol_Enabled policies)"

fun validate_each :: "(string \<Rightarrow> bool) \<Rightarrow> 'k runner \<Rightarrow> RoutingBackend list \<Rightarrow> error option \<Rightarrow> Validator \<times> 'k \<Rightarrow>
    error option \<times> (Validator \<times> 'k)" where
  "validate_each look run [] firstErr vk = (firstErr, vk)"
| "validate_each look run (b # bs) firstErr vk =
     (let (err, vk') = validateBackend look run b vk
      in validate_each look run bs (if err \<noteq> None \<and> firstErr = None then err else firstErr) vk')"

definition Validator_Validate :: "(string \<Rightarrow> bool) \<Rightarrow> 'k runner \<Rightarrow> RoutingBackend list \<Rightarrow> PolicyConfig list \<Rightarrow>
    Validator \<times> 'k \<Rightarrow> error option \<times> (Validator \<times> 'k)" where
  "Validator_Validate look run order policies vk =
     (if needed_backends policies = {} then (None, vk) else validate_each look run order None vk)"

section \<open>The composite router\<close>

record CompositeRouter =
  cr_stateDir :: string
  cr_validator :: "Validator option"

definition NewCompositeRouter :: "RoutingConfig \<Rightarrow> CompositeRouter" where
  "NewCompositeRouter cfg = \<lparr> cr_stateDir = rt_StateDir cfg, cr_validator = None \<rparr>"

definition SetValidator :: "Validator \<Rightarrow> CompositeRouter \<Rightarrow> CompositeRouter" where
  "SetValidator v c = c\<lparr> cr_validator := Some v \<rparr>"

definition composite_Caps :: "'k runner \<Rightarrow> CompositeRouter \<Rightarrow> PolicyConfig \<Rightarrow> 'k sys \<Rightarrow> error option \<times> 'k sys" where
  "composite_Caps run c policy s =
     (if pol_Backend policy = BackendIProute2 then iproute2_Caps run policy s
      else if pol_Backend policy = BackendNFTables then
        (case nft_Caps run policy s of
           (Some e, s') \<Rightarrow>
             (case cr_validator c of
                Some v \<Rightarrow> if IsHealthy v BackendNFTables then (None, s') else (Some e, s')
              | None \<Rightarrow> (Some e, s'))
         | (None, s') \<Rightarrow> (None, s'))
      else (Some (''unsupported backend: '' @ pol_Backend policy), s))"

definition composite_ApplyPolicy :: "'k runner \<Rightarrow> CompositeRouter \<Rightarrow> int \<Rightarrow> PolicyConfig \<Rightarrow> prefix list \<Rightarrow> prefix list \<Rightarrow>
    'k sys \<Rightarrow> error option \<times> 'k sys" where
  "composite_ApplyPolicy run c now policy v4 v6 s =
     (if pol_Backend policy = BackendIProute2 then iproute2_ApplyPolicy run (cr_stateDir c) now policy v4 v6 s
      else if pol_Backend policy = BackendNFTables then nft_ApplyPolicy run (cr_stateDir c) now policy v4 v6 s
      else (Some (''unsupported backend: '' @ pol_Backend policy), s))"

definition composite_DryRunPolicy :: "CompositeRouter \<Rightarrow> PolicyConfig \<Rightarrow> prefix list \<Rightarrow> prefix list \<Rightarrow>
    'k sys \<Rightarrow> (Plan \<times> Plan \<times> string \<times> string) result" where
  "composite_DryRunPolicy c policy v4 v6 s =
     (if pol_Backend policy = BackendIProute2 then Inr (policy_DryRun (cr_stateDir c) policy v4 v6 s)
      else if pol_Backend policy = BackendNFTables then Inr (nft_DryRunPolicy (cr_stateDir c) policy v4 v6 s)
      else Inl (''unsupported backend: '' @ pol_Backend policy))"

definition composite_RollbackPolicy :: "CompositeRouter \<Rightarrow> string \<Rightarrow> 'k sys \<Rightarrow> error option \<times> 'k sys" where
  "composite_RollbackPolicy c policyName s =
     (case loadPolicyState (sys_fs s) (cr_stateDir c) policyName of
        Inl e \<Rightarrow> (Some e, s)
      | Inr state \<Rightarrow>
          if rs_Backend state = BackendIProute2 then policy_Rollback (cr_stateDir c) policyName s
          else if rs_Backend state = BackendNFTables then nft_RollbackPolicy (cr_stateDir c) policyName s
          else (Some (''unknown backend in state: '' @ rs_Backend state), s))"

definition composite_SnapshotPolicy :: "CompositeRouter \<Rightarrow> string \<Rightarrow> 'k sys \<Rightarrow> RouterState" where
  "composite_SnapshotPolicy c policyName s = state_or_zero (loadPolicyState (sys_fs s) (cr_stateDir c) policyName)"

section \<open>The contract of a policy router\<close>

text \<open>Policies applied one after the other, as a pipeline run does; errors do not stop the loop.\<close>

fun apply_seq :: "(PolicyConfig \<Rightarrow> prefix list \<Rightarrow> prefix list \<Rightarrow> 's \<Rightarrow> error option \<times> 's) \<Rightarrow>
    (PolicyConfig \<times> prefix list \<times> prefix list) list \<Rightarrow> 's \<Rightarrow> error option list \<times> 's" where
  "apply_seq app [] s = ([], s)"
| "apply_seq app ((p, v4, v6) # jobs) s =
     (let (r, s1) = app p v4 v6 s; (rs, s2) = apply_seq app jobs s1 in (r # rs, s2))"

lemma length_apply_seq [simp]: "length (fst (apply_seq app jobs s)) = length jobs"
  by (induction app jobs s rule: apply_seq.induct) (auto split: prod.splits)

locale policy_router =
  fixes app :: "PolicyConfig \<Rightarrow> prefix list \<Rightarrow> prefix list \<Rightarrow> 's \<Rightarrow> error option \<times> 's"
    and dry :: "PolicyConfig \<Rightarrow> prefix list \<Rightarrow> prefix list \<Rightarrow> 's \<Rightarrow> (Plan \<times> Plan \<times> string \<times> string) result"
    and snap :: "string \<Rightarrow> 's \<Rightarrow> RouterState"
    and readable :: "string \<Rightarrow> 's \<Rightarrow> bool"
  assumes apply_ok: "app p v4 v6 s = (None, s') \<Longrightarrow> list_all prefix_storable (v4 @ v6) \<Longrightarrow>
      readable (pol_Name p) s \<Longrightarrow> rs_V4 (snap (pol_Name p) s') = v4 \<and> rs_V6 (snap (pol_Name p) s') = v6"
    and apply_error: "app p v4 v6 s = (Some e, s') \<Longrightarrow> snap n s' = snap n s"
    and apply_other: "n \<noteq> pol_Name p \<Longrightarrow> snap n (snd (app p v4 v6 s)) = snap n s"
    and apply_readable: "readable n (snd (app p v4 v6 s)) = readable n s"
    and dry_plans: "dry p v4 v6 s = Inr (a, b, da, db) \<Longrightarrow>
      a = buildPlan (rs_V4 (snap (pol_Name p) s)) v4 FamilyV4 \<and>
      b = buildPlan (rs_V6 (snap (pol_Name p) s)) v6 FamilyV6 \<and> da = diffString a \<and> db = diffString b"
begin

lemma dry_after_apply:
  assumes "app p v4 v6 s = (None, s')" and "list_all prefix_storable (v4 @ v6)"
    and "readable (pol_Name p) s" and "dry p v4 v6 s' = Inr (a, b, da, db)"
  shows "Empty a \<and> Empty b \<and> da = ''(no changes)'' @ nl \<and> db = ''(no changes)'' @ nl"
proof -
  have e: "Empty a \<and> Empty b" and d: "da = diffString a" "db = diffString b"
    using dry_plans [OF assms(4)] apply_ok [OF assms(1-3)] buildPlan_unchanged by auto
  from e have "diffString a = ''(no changes)'' @ nl" "diffString b = ''(no changes)'' @ nl"
    by (simp_all add: diffString_def diff_lines_def Empty_def)
  with e d show ?thesis by simp
qed

lemma seq_other:
  "n \<notin> (pol_Name \<circ> fst) ` set jobs \<Longrightarrow> snap n (snd (apply_seq app jobs s)) = snap n s"
proof (induction jobs arbitrary: s)
  case (Cons job jobs)
  obtain p v4 v6 where job: "job = (p, v4, v6)" by (cases job)
  obtain r s1 where a: "app p v4 v6 s = (r, s1)" by fastforce
  have "snap n s1 = snap n s"
    using apply_other [of n p v4 v6 s] Cons.prems job a by auto
  moreover have "snap n (snd (apply_seq app jobs s1)) = snap n s1"
    using Cons.IH [of s1] Cons.prems by auto
  ultimately show ?case using job a by (auto split: prod.splits)
qed simp

lemma seq_installs:
  assumes "distinct (map (pol_Name \<circ> fst) jobs)" and "i < length jobs"
    and "jobs ! i = (p, v4, v6)" and "list_all prefix_storable (v4 @ v6)" and "readable (pol_Name p) s"
    and "fst (apply_seq app jobs s) ! i = None"
  shows "rs_V4 (snap (pol_Name p) (snd (apply_seq app jobs s))) = v4 \<and>
    rs_V6 (snap (pol_Name p) (snd (apply_seq app jobs s))) = v6"
  using assms
proof (induction jobs arbitrary: s i)
  case (Cons job jobs)
  obtain q w4 w6 where job: "job = (q, w4, w6)" by (cases job)
  obtain r s1 where a: "app q w4 w6 s = (r, s1)" by fastforce
  have seq: "snd (apply_seq app (job # jobs) s) = snd (apply_seq app jobs s1)"
    "fst (apply_seq app (job # jobs) s) = r # fst (apply_seq app jobs s1)"
    using job a by (auto split: prod.splits)
  show ?case
  proof (cases i)
    case 0
    with Cons.prems job have pq: "q = p" "w4 = v4" "w6 = v6" and n: "pol_Name p \<notin> (pol_Name \<circ> fst) ` set jobs"
      by auto
    have "r = None" using Cons.prems(6) 0 by (simp add: seq)
    with apply_ok [of p v4 v6 s s1] a pq Cons.prems(4,5) seq_other [OF n, of s1] show ?thesis
      unfolding seq by simp
  next
    case (Suc j)
    have "readable (pol_Name p) s1"
      using apply_readable [of "pol_Name p" q w4 w6 s] a Cons.prems(5) by simp
    with Cons.IH [of j s1] Cons.prems Suc show ?thesis unfolding seq by simp
  qed
qed simp

end

lemma save_applied_kernel: "save_applied d policy b now v4 v6 s = (r, s') \<Longrightarrow> sys_kernel s' = sys_kernel s"
  by (auto simp: save_applied_def Let_def split: prod.splits)

lemma save_applied_fs:
  "save_applied d policy b now v4 v6 s = (r, s') \<Longrightarrow>
     savePolicyState d (pol_Name policy) \<lparr> rs_Backend = b, rs_AppliedAt = now, rs_V4 = v4, rs_V6 = v6 \<rparr> (sys_fs s) = (r, sys_fs s')"
  by (auto simp: save_applied_def Let_def split: prod.splits)

text \<open>What an apply does to the files: nothing before the last step, which saves the state.\<close>

lemma apply_cases:
  assumes "iproute2_ApplyPolicy run d now policy v4 v6 s = (r, s') \<or> nft_ApplyPolicy run d now policy v4 v6 s = (r, s')"
  obtains "r \<noteq> None" "sys_fs s' = sys_fs s"
  | b where "savePolicyState d (pol_Name policy) \<lparr> rs_Backend = b, rs_AppliedAt = now, rs_V4 = v4, rs_V6 = v6 \<rparr>
      (sys_fs s) = (r, sys_fs s')"
  using assms
  by (auto simp: iproute2_ApplyPolicy_def nft_ApplyPolicy_def Let_def split: prod.splits option.splits
      dest!: save_applied_fs)

definition state_readable :: "string \<Rightarrow> string \<Rightarrow> 'k sys \<Rightarrow> bool" where
  "state_readable d n s \<longleftrightarrow> \<not> fs_fault (sys_fs s) OpRead (policyStatePath d n)"

lemma snapshot_cong: "sys_fs s' = sys_fs s \<Longrightarrow> policy_Snapshot d n s' = policy_Snapshot d n s"
  by (simp add: policy_Snapshot_def)

lemma saved_readable:
  "savePolicyState d m st (sys_fs s) = (r, sys_fs s') \<Longrightarrow> state_readable d n s' = state_readable d n s"
  using savePolicyState_fault [of d m st "sys_fs s"] by (simp add: state_readable_def)

lemma apply_contract:
  assumes "iproute2_ApplyPolicy run d now policy v4 v6 s = (r, s') \<or> nft_ApplyPolicy run d now policy v4 v6 s = (r, s')"
  shows "r = None \<Longrightarrow> list_all prefix_storable (v4 @ v6) \<Longrightarrow> state_readable d (pol_Name policy) s \<Longrightarrow>
      rs_V4 (policy_Snapshot d (pol_Name policy) s') = v4 \<and> rs_V6 (policy_Snapshot d (pol_Name policy) s') = v6"
    and "r = Some e \<Longrightarrow> policy_Snapshot d n s' = policy_Snapshot d n s"
    and "n \<noteq> pol_Name policy \<Longrightarrow> policy_Snapshot d n s' = policy_Snapshot d n s"
    and "state_readable d n s' = state_readable d n s"
proof -
  from assms have *: "(r \<noteq> None \<and> sys_fs s' = sys_fs s) \<or>
    (\<exists>b. savePolicyState d (pol_Name policy) \<lparr> rs_Backend = b, rs_AppliedAt = now, rs_V4 = v4, rs_V6 = v6 \<rparr>
      (sys_fs s) = (r, sys_fs s'))"
    by (rule apply_cases) auto
  show "rs_V4 (policy_Snapshot d (pol_Name policy) s') = v4 \<and> rs_V6 (policy_Snapshot d (pol_Name policy) s') = v6"
    if "r = None" "list_all prefix_storable (v4 @ v6)" "state_readable d (pol_Name policy) s"
  proof -
    from * that obtain b where sv: "savePolicyState d (pol_Name policy)
        \<lparr> rs_Backend = b, rs_AppliedAt = now, rs_V4 = v4, rs_V6 = v6 \<rparr> (sys_fs s) = (None, sys_fs s')"
      by auto
    show ?thesis
      using that saved_state_loads [OF sv] by (simp add: policy_Snapshot_def state_or_zero_def state_storable_def state_readable_def)
  qed
  show "policy_Snapshot d n s' = policy_Snapshot d n s" if "r = Some e"
    using * that snapshot_cong save_error_loads by (auto simp: policy_Snapshot_def)
  show "policy_Snapshot d n s' = policy_Snapshot d n s" if "n \<noteq> pol_Name policy"
    using * that snapshot_cong save_other_loads by (auto simp: policy_Snapshot_def)
  show "state_readable d n s' = state_readable d n s"
    using * by (elim disjE conjE exE) (simp add: state_readable_def, erule saved_readable)
qed

interpretation ipr: policy_router "iproute2_ApplyPolicy run d now" "\<lambda>p v4 v6 s. Inr (policy_DryRun d p v4 v6 s)"
  "policy_Snapshot d" "state_readable d"
proof unfold_locales
  fix p v4 v6 and s s' :: "'a sys" and n e a b da db
  show "rs_V4 (policy_Snapshot d (pol_Name p) s') = v4 \<and> rs_V6 (policy_Snapshot d (pol_Name p) s') = v6"
    if "iproute2_ApplyPolicy run d now p v4 v6 s = (None, s')" "list_all prefix_storable (v4 @ v6)"
      "state_readable d (pol_Name p) s"
    using that apply_contract(1) by blast
  show "policy_Snapshot d n s' = policy_Snapshot d n s"
    if "iproute2_ApplyPolicy run d now p v4 v6 s = (Some e, s')"
    using that apply_contract(2) by blast
  show "policy_Snapshot d n (snd (iproute2_ApplyPolicy run d now p v4 v6 s)) = policy_Snapshot d n s"
    if "n \<noteq> pol_Name p"
    using that apply_contract(3) by (metis prod.collapse)
  show "state_readable d n (snd (iproute2_ApplyPolicy run d now p v4 v6 s)) = state_readable d n s"
    using apply_contract(4) by (metis prod.collapse)
qed (auto simp: policy_DryRun_def policy_Snapshot_def Let_def)

lemma nft_snapshot [simp]: "nft_SnapshotPolicy = policy_Snapshot"
  by (intro ext) (simp add: nft_SnapshotPolicy_def policy_Snapshot_def)

interpretation nftr: policy_router "nft_ApplyPolicy run d now" "\<lambda>p v4 v6 s. Inr (nft_DryRunPolicy d p v4 v6 s)"
  "nft_SnapshotPolicy d" "state_readable d"
  unfolding nft_snapshot
proof unfold_locales
  fix p v4 v6 and s s' :: "'a sys" and n e a b da db
  show "rs_V4 (policy_Snapshot d (pol_Name p) s') = v4 \<and> rs_V6 (policy_Snapshot d (pol_Name p) s') = v6"
    if "nft_ApplyPolicy run d now p v4 v6 s = (None, s')" "list_all prefix_storable (v4 @ v6)"
      "state_readable d (pol_Name p) s"
    using that apply_contract(1) by blast
  show "policy_Snapshot d n s' = policy_Snapshot d n s"
    if "nft_ApplyPolicy run d now p v4 v6 s = (Some e, s')"
    using that apply_contract(2) by blast
  show "policy_Snapshot d n (snd (nft_ApplyPolicy run d now p v4 v6 s)) = policy_Snapshot d n s"
    if "n \<noteq> pol_Name p"
    using that apply_contract(3) by (metis prod.collapse)
  show "state_readable d n (snd (nft_ApplyPolicy run d now p v4 v6 s)) = state_readable d n s"
    using apply_contract(4) by (metis prod.collapse)
qed (auto simp: nft_DryRunPolicy_def policy_Snapshot_def Let_def)

interpretation comp: policy_router "composite_ApplyPolicy run c now" "composite_DryRunPolicy c"
  "composite_SnapshotPolicy c" "state_readable (cr_stateDir c)"
proof unfold_locales
  fix p v4 v6 and s s' :: "'a sys" and n e a b da db
  have name: "composite_SnapshotPolicy c m t = policy_Snapshot (cr_stateDir c) m t" for m and t :: "'a sys"
    by (simp add: composite_SnapshotPolicy_def policy_Snapshot_def)
  have disp: "composite_ApplyPolicy run c now p v4 v6 s = iproute2_ApplyPolicy run (cr_stateDir c) now p v4 v6 s \<or>
      composite_ApplyPolicy run c now p v4 v6 s = nft_ApplyPolicy run (cr_stateDir c) now p v4 v6 s \<or>
      (\<exists>e. composite_ApplyPolicy run c now p v4 v6 s = (Some e, s))" for p v4 v6
    by (simp add: composite_ApplyPolicy_def)
  show "rs_V4 (composite_SnapshotPolicy c (pol_Name p) s') = v4 \<and> rs_V6 (composite_SnapshotPolicy c (pol_Name p) s') = v6"
    if "composite_ApplyPolicy run c now p v4 v6 s = (None, s')" "list_all prefix_storable (v4 @ v6)"
      "state_readable (cr_stateDir c) (pol_Name p) s"
    using that disp [of p v4 v6] ipr.apply_ok nftr.apply_ok [unfolded nft_snapshot] unfolding name by (metis option.distinct(1) prod.inject)
  show "composite_SnapshotPolicy c n s' = composite_SnapshotPolicy c n s"
    if "composite_ApplyPolicy run c now p v4 v6 s = (Some e, s')"
    using that disp [of p v4 v6] ipr.apply_error nftr.apply_error [unfolded nft_snapshot] unfolding name by (metis prod.inject)
  show "composite_SnapshotPolicy c n (snd (composite_ApplyPolicy run c now p v4 v6 s)) = composite_SnapshotPolicy c n s"
    if "n \<noteq> pol_Name p"
    using that disp [of p v4 v6] ipr.apply_other nftr.apply_other [unfolded nft_snapshot] unfolding name by (metis snd_conv)
  show "state_readable (cr_stateDir c) n (snd (composite_ApplyPolicy run c now p v4 v6 s)) = state_readable (cr_stateDir c) n s"
    using disp [of p v4 v6] ipr.apply_readable nftr.apply_readable by (metis snd_conv)
  show "a = buildPlan (rs_V4 (composite_SnapshotPolicy c (pol_Name p) s)) v4 FamilyV4 \<and>
      b = buildPlan (rs_V6 (composite_SnapshotPolicy c (pol_Name p) s)) v6 FamilyV6 \<and> da = diffString a \<and> db = diffString b"
    if "composite_DryRunPolicy c p v4 v6 s = Inr (a, b, da, db)"
    using that by (auto simp: composite_DryRunPolicy_def policy_DryRun_def nft_DryRunPolicy_def name policy_Snapshot_def Let_def split: if_splits)
qed

text \<open>
  C9: after a successful apply of a policy through the composite router, on either backend, a
  dry run for the same prefixes plans nothing for both families and reports no changes.
\<close>

theorem dry_run_after_apply:
  assumes "composite_ApplyPolicy run c now p v4 v6 s = (None, s')" and "list_all prefix_storable (v4 @ v6)"
    and "state_readable (cr_stateDir c) (pol_Name p) s"
    and "composite_DryRunPolicy c p v4 v6 s' = Inr (a, b, da, db)"
  shows "Empty a \<and> Empty b \<and> da = ''(no changes)'' @ nl \<and> db = ''(no changes)'' @ nl"
  by (rule comp.dry_after_apply [OF assms])


section \<open>iproute2 against the kernel\<close>

text \<open>
  What the code relies on of \<open>ip route\<close>: an \<open>add\<close> that succeeds adds a route that was absent
  from the table, a \<open>del\<close> that succeeds removes one that was present, and a failing command
  changes nothing. (\<open>add\<close> of a present route reports "File exists", \<open>del\<close> of an absent one
  "No such process".) \<open>routes\<close> reads the prefixes of a table from the kernel state.
\<close>

definition ip_route_semantics :: "'k runner \<Rightarrow> ('k \<Rightarrow> string \<Rightarrow> string set) \<Rightarrow> bool" where
  "ip_route_semantics run routes \<longleftrightarrow>
     (\<forall>p d t k. case run [''ip'', ''route'', ''add'', p, ''dev'', d, ''table'', t] k of
        (None, k') \<Rightarrow> p \<notin> routes k t \<and> routes k' = (routes k)(t := insert p (routes k t))
      | (Some e, k') \<Rightarrow> routes k' = routes k) \<and>
     (\<forall>p t k. case run [''ip'', ''route'', ''del'', p, ''table'', t] k of
        (None, k') \<Rightarrow> p \<in> routes k t \<and> routes k' = (routes k)(t := routes k t - {p})
      | (Some e, k') \<Rightarrow> routes k' = routes k)"

abbreviation strs :: "prefix set \<Rightarrow> string set" where
  "strs S \<equiv> prefix_string ` S"

lemma ip_addD:
  assumes "ip_route_semantics run routes" and "run (route_add_cmd pol p) k = (r, k')"
  shows "if r = None then prefix_string p \<notin> routes k (table_arg pol) \<and>
      routes k' = (routes k)(table_arg pol := insert (prefix_string p) (routes k (table_arg pol)))
    else routes k' = routes k"
proof -
  have "case run (route_add_cmd pol p) k of
      (None, k') \<Rightarrow> prefix_string p \<notin> routes k (table_arg pol) \<and>
        routes k' = (routes k)(table_arg pol := insert (prefix_string p) (routes k (table_arg pol)))
    | (Some e, k') \<Rightarrow> routes k' = routes k"
    using assms(1) [unfolded ip_route_semantics_def, THEN conjunct1, rule_format, where p = "prefix_string p" and d = "pol_Iface pol" and t = "table_arg pol" and k = k] by (simp add: route_add_cmd_def)
  with assms(2) show ?thesis by (cases r) auto
qed

lemma ip_delD:
  assumes "ip_route_semantics run routes" and "run (route_del_cmd pol p) k = (r, k')"
  shows "if r = None then prefix_string p \<in> routes k (table_arg pol) \<and>
      routes k' = (routes k)(table_arg pol := routes k (table_arg pol) - {prefix_string p})
    else routes k' = routes k"
proof -
  have "case run (route_del_cmd pol p) k of
      (None, k') \<Rightarrow> prefix_string p \<in> routes k (table_arg pol) \<and>
        routes k' = (routes k)(table_arg pol := routes k (table_arg pol) - {prefix_string p})
    | (Some e, k') \<Rightarrow> routes k' = routes k"
    using assms(1) [unfolded ip_route_semantics_def, THEN conjunct2, rule_format, where p = "prefix_string p" and t = "table_arg pol" and k = k] by (simp add: route_del_cmd_def)
  with assms(2) show ?thesis by (cases r) auto
qed

lemma run_each_del:
  assumes "ip_route_semantics run routes" and "run_each run (route_del_cmd pol) what ps k = (r, k')"
  shows "\<exists>qs. set qs \<subseteq> set ps \<and> (r = None \<longrightarrow> qs = ps) \<and> strs (set qs) \<subseteq> routes k (table_arg pol) \<and>
    routes k' = (routes k)(table_arg pol := routes k (table_arg pol) - strs (set qs))"
  using assms(2)
proof (induction ps arbitrary: k)
  case Nil
  then show ?case by (intro exI [of _ "[]"]) auto
next
  case (Cons p ps)
  obtain r1 k1 where r1: "run (route_del_cmd pol p) k = (r1, k1)" by fastforce
  note d = ip_delD [OF assms(1) r1]
  show ?case
  proof (cases r1)
    case (Some e)
    then show ?thesis using Cons.prems r1 d by (intro exI [of _ "[]"]) auto
  next
    case None
    with Cons.prems r1 have "run_each run (route_del_cmd pol) what ps k1 = (r, k')" by simp
    from Cons.IH [OF this] obtain qs where "set qs \<subseteq> set ps" "r = None \<longrightarrow> qs = ps"
      "strs (set qs) \<subseteq> routes k1 (table_arg pol)"
      "routes k' = (routes k1)(table_arg pol := routes k1 (table_arg pol) - strs (set qs))" by blast
    then show ?thesis using None d by (intro exI [of _ "p # qs"]) (auto simp flip: Diff_insert2)
  qed
qed

lemma run_each_add:
  assumes "ip_route_semantics run routes" and "run_each run (route_add_cmd pol) what ps k = (r, k')"
  shows "\<exists>qs. set qs \<subseteq> set ps \<and> (r = None \<longrightarrow> qs = ps) \<and>
    routes k' = (routes k)(table_arg pol := routes k (table_arg pol) \<union> strs (set qs))"
  using assms(2)
proof (induction ps arbitrary: k)
  case Nil
  then show ?case by (intro exI [of _ "[]"]) auto
next
  case (Cons p ps)
  obtain r1 k1 where r1: "run (route_add_cmd pol p) k = (r1, k1)" by fastforce
  note d = ip_addD [OF assms(1) r1]
  show ?case
  proof (cases r1)
    case (Some e)
    then show ?thesis using Cons.prems r1 d by (intro exI [of _ "[]"]) auto
  next
    case None
    with Cons.prems r1 have "run_each run (route_add_cmd pol) what ps k1 = (r, k')" by simp
    from Cons.IH [OF this] obtain qs where "set qs \<subseteq> set ps" "r = None \<longrightarrow> qs = ps"
      "routes k' = (routes k1)(table_arg pol := routes k1 (table_arg pol) \<union> strs (set qs))" by blast
    then show ?thesis using None d by (intro exI [of _ "p # qs"]) auto
  qed
qed

lemma applyFamily_routes:
  assumes "ip_route_semantics run routes" and "iproute2_applyFamily run pol plan k = (r, k')"
  shows "\<exists>ds as. set ds \<subseteq> set (pl_Remove plan) \<and> set as \<subseteq> set (pl_Add plan) \<and>
    strs (set ds) \<subseteq> routes k (table_arg pol) \<and>
    (r = None \<longrightarrow> ds = pl_Remove plan \<and> as = pl_Add plan) \<and>
    routes k' = (routes k)(table_arg pol := (routes k (table_arg pol) - strs (set ds)) \<union> strs (set as))"
proof -
  obtain r1 k1 where r1: "run_each run (route_del_cmd pol) ''del route '' (pl_Remove plan) k = (r1, k1)" by fastforce
  from run_each_del [OF assms(1) r1] obtain ds where ds: "set ds \<subseteq> set (pl_Remove plan)"
    "r1 = None \<longrightarrow> ds = pl_Remove plan" "strs (set ds) \<subseteq> routes k (table_arg pol)"
    "routes k1 = (routes k)(table_arg pol := routes k (table_arg pol) - strs (set ds))" by blast
  show ?thesis
  proof (cases r1)
    case (Some e)
    with assms(2) r1 have "r \<noteq> None" "k' = k1" by (auto simp: iproute2_applyFamily_def)
    with ds show ?thesis by (intro exI [of _ ds] exI [of _ "[]"]) auto
  next
    case None
    with assms(2) r1 have "run_each run (route_add_cmd pol) ''add route '' (pl_Add plan) k1 = (r, k')"
      by (simp add: iproute2_applyFamily_def)
    from run_each_add [OF assms(1) this] obtain as where "set as \<subseteq> set (pl_Add plan)"
      "r = None \<longrightarrow> as = pl_Add plan"
      "routes k' = (routes k1)(table_arg pol := routes k1 (table_arg pol) \<union> strs (set as))" by blast
    with ds None show ?thesis by (intro exI [of _ ds] exI [of _ as]) auto
  qed
qed

lemma applyFamily_bound:
  assumes "ip_route_semantics run routes" and "iproute2_applyFamily run pol (buildPlan cur ps f) k = (r, k')"
  shows "routes k' (table_arg pol) \<subseteq> routes k (table_arg pol) \<union> strs (set ps)"
proof -
  from applyFamily_routes [OF assms] obtain ds as where "set as \<subseteq> set (pl_Add (buildPlan cur ps f))"
    "routes k' = (routes k)(table_arg pol := (routes k (table_arg pol) - strs (set ds)) \<union> strs (set as))" by blast
  moreover have "set (pl_Add (buildPlan cur ps f)) \<subseteq> set ps" by (auto simp: buildPlan_def Let_def)
  ultimately have "strs (set as) \<subseteq> strs (set ps)" by (intro image_mono) auto
  with \<open>routes k' = _\<close> show ?thesis by auto
qed

text \<open>The two families of a policy: IPv4 and IPv6 prefixes the package can print.\<close>

definition families_ok :: "prefix list \<Rightarrow> prefix list \<Rightarrow> bool" where
  "families_ok v4 v6 \<longleftrightarrow>
     list_all (\<lambda>p. prefix_ok p \<and> is4 (paddr p)) v4 \<and> list_all (\<lambda>p. prefix_ok p \<and> is6 (paddr p)) v6"

lemma families_okD:
  assumes "families_ok a4 a6" and "families_ok d4 d6"
  shows "list_all prefix_ok a4" "list_all prefix_ok a6" "list_all prefix_ok d4" "list_all prefix_ok d6"
    "(set a4 \<union> set d4) \<inter> (set a6 \<union> set d6) = {}"
proof -
  have "\<not> (is4 a \<and> is6 a)" for a by (cases a) auto
  with assms show "list_all prefix_ok a4" "list_all prefix_ok a6" "list_all prefix_ok d4" "list_all prefix_ok d6"
    "(set a4 \<union> set d4) \<inter> (set a6 \<union> set d6) = {}"
    by (auto simp: families_ok_def list_all_iff)
qed

lemma strs_diff:
  assumes "\<forall>p\<in>A \<union> B. prefix_ok p"
  shows "strs A - strs B = strs (A - B)"
  using assms inj_on_image_set_diff [OF prefix_string_inj, of A B] by auto

lemma iproute2_installs:
  assumes "ip_route_semantics run routes"
    and "iproute2_ApplyPolicy run d now policy v4 v6 s = (None, s')"
    and "st = policy_Snapshot d (pol_Name policy) s"
    and "families_ok (rs_V4 st) (rs_V6 st)" and "families_ok v4 v6"
    and "routes (sys_kernel s) (table_arg policy) = prefix_string ` (set (rs_V4 st) \<union> set (rs_V6 st))"
  shows "routes (sys_kernel s') = (routes (sys_kernel s))(table_arg policy := prefix_string ` (set v4 \<union> set v6))"
proof -
  let ?t = "table_arg policy" and ?p4 = "buildPlan (rs_V4 st) v4 FamilyV4" and ?p6 = "buildPlan (rs_V6 st) v6 FamilyV6"
  let ?A4 = "set (rs_V4 st)" and ?A6 = "set (rs_V6 st)" and ?D4 = "set v4" and ?D6 = "set v6"
  obtain k1 k2 where k1: "iproute2_applyFamily run policy ?p4 (sys_kernel s) = (None, k1)"
    and k2: "iproute2_applyFamily run policy ?p6 k1 = (None, k2)" and s': "sys_kernel s' = k2"
    using assms(2) unfolding iproute2_ApplyPolicy_def assms(3) policy_Snapshot_def Let_def
    by (auto split: prod.splits option.splits dest!: save_applied_kernel)
  note ok = families_okD [OF assms(4,5)]
  from ok have all: "\<forall>p\<in>?A4 \<union> ?A6 \<union> ?D4 \<union> ?D6. prefix_ok p" by (auto simp: list_all_iff)
  note b4 = buildPlan_sets [OF ok(1,3), of FamilyV4] and b6 = buildPlan_sets [OF ok(2,4), of FamilyV6]
  have r1: "routes k1 = (routes (sys_kernel s))(?t := strs (?A4 \<union> ?A6) - strs (?A4 - ?D4) \<union> strs (?D4 - ?A4))"
    using applyFamily_routes [OF assms(1) k1] b4 assms(6) by auto
  have r2: "routes k2 = (routes k1)(?t := routes k1 ?t - strs (?A6 - ?D6) \<union> strs (?D6 - ?A6))"
    using applyFamily_routes [OF assms(1) k2] b6 by auto
  have "strs (?A4 \<union> ?A6) - strs (?A4 - ?D4) \<union> strs (?D4 - ?A4) = strs ((?A4 \<union> ?A6) - (?A4 - ?D4) \<union> (?D4 - ?A4))"
    using all by (subst strs_diff) (auto simp: image_Un)
  also have "(?A4 \<union> ?A6) - (?A4 - ?D4) \<union> (?D4 - ?A4) = ?D4 \<union> ?A6" using ok(5) by auto
  finally have m: "routes k1 ?t = strs (?D4 \<union> ?A6)" by (simp add: r1)
  have "strs (?D4 \<union> ?A6) - strs (?A6 - ?D6) \<union> strs (?D6 - ?A6) = strs ((?D4 \<union> ?A6) - (?A6 - ?D6) \<union> (?D6 - ?A6))"
    using all by (subst strs_diff) (auto simp: image_Un)
  also have "(?D4 \<union> ?A6) - (?A6 - ?D6) \<union> (?D6 - ?A6) = ?D4 \<union> ?D6" using ok(5) by auto
  finally show ?thesis using m by (simp add: r2 r1 s')
qed

lemma apply_routes_bound:
  assumes "ip_route_semantics run routes" and "iproute2_ApplyPolicy run d now policy v4 v6 s = (r, s')"
  shows "routes (sys_kernel s') (table_arg policy) \<subseteq>
    routes (sys_kernel s) (table_arg policy) \<union> strs (set v4) \<union> strs (set v6)"
proof -
  let ?st = "policy_Snapshot d (pol_Name policy) s"
  let ?p4 = "buildPlan (rs_V4 ?st) v4 FamilyV4" and ?p6 = "buildPlan (rs_V6 ?st) v6 FamilyV6"
  obtain r1 k1 where k1: "iproute2_applyFamily run policy ?p4 (sys_kernel s) = (r1, k1)" by fastforce
  obtain r2 k2 where k2: "iproute2_applyFamily run policy ?p6 k1 = (r2, k2)" by fastforce
  have "sys_kernel s' = k1 \<or> sys_kernel s' = k2"
    using assms(2) k1 k2 unfolding iproute2_ApplyPolicy_def policy_Snapshot_def Let_def
    by (auto split: prod.splits option.splits dest!: save_applied_kernel)
  with applyFamily_bound [OF assms(1) k1] applyFamily_bound [OF assms(1) k2] show ?thesis by auto
qed

lemma missing_route_fails:
  assumes "ip_route_semantics run routes" and "p \<in> set (rs_V4 (policy_Snapshot d (pol_Name policy) s))"
    and "prefix_string p \<notin> routes (sys_kernel s) (table_arg policy)" and "prefix_string p \<notin> strs (set v4)"
    and "iproute2_ApplyPolicy run d now policy v4 v6 s = (r, s')"
  shows "r \<noteq> None"
proof
  let ?st = "policy_Snapshot d (pol_Name policy) s" 
  let ?p4 = "buildPlan (rs_V4 ?st) v4 FamilyV4"
  assume "r = None"
  then obtain k1 where k1: "iproute2_applyFamily run policy ?p4 (sys_kernel s) = (None, k1)"
    using assms(5) unfolding iproute2_ApplyPolicy_def policy_Snapshot_def Let_def
    by (auto split: prod.splits option.splits)
  have "p \<in> set (pl_Remove ?p4)" using assms(2,4) by (auto simp: buildPlan_def Let_def)
  with applyFamily_routes [OF assms(1) k1] assms(3) show False by blast
qed

text \<open>
  an apply that stops half-way is not repaired by retrying. Once a recorded IPv4 route is
  gone from the table (an earlier apply deleted it and then failed, so the state file still
  lists it), every later apply of the policy whose prefixes do not bring it back fails too,
  whatever is asked for, because it starts by deleting the missing route.
\<close>

theorem iproute2_never_recovers:
  assumes "ip_route_semantics run routes"
    and "p \<in> set (rs_V4 (policy_Snapshot d (pol_Name policy) s))"
    and "prefix_string p \<notin> routes (sys_kernel s) (table_arg policy)"
    and "\<forall>job\<in>set jobs. case job of (q, v4, v6) \<Rightarrow> q = policy \<and> prefix_string p \<notin> prefix_string ` (set v4 \<union> set v6)"
  shows "None \<notin> set (fst (apply_seq (iproute2_ApplyPolicy run d now) jobs s))"
  using assms(2-4)
proof (induction jobs arbitrary: s)
  case (Cons job jobs)
  obtain q v4 v6 where job: "job = (q, v4, v6)" by (cases job)
  obtain r s1 where a: "iproute2_ApplyPolicy run d now policy v4 v6 s = (r, s1)" by fastforce
  from Cons.prems(3) job have q: "q = policy" and n: "prefix_string p \<notin> strs (set v4)" "prefix_string p \<notin> strs (set v6)"
    by auto
  have r: "r \<noteq> None" by (rule missing_route_fails [OF assms(1) Cons.prems(1,2) n(1) a])
  then have "policy_Snapshot d (pol_Name policy) s1 = policy_Snapshot d (pol_Name policy) s"
    using ipr.apply_error a by auto
  moreover have "prefix_string p \<notin> routes (sys_kernel s1) (table_arg policy)"
    using apply_routes_bound [OF assms(1) a] Cons.prems(2) n by blast
  ultimately have "None \<notin> set (fst (apply_seq (iproute2_ApplyPolicy run d now) jobs s1))"
    using Cons.IH [of s1] Cons.prems by auto
  then show ?case using r job q a by (auto split: prod.splits)
qed simp

text \<open>
  a rollback does not undo an apply. After a successful apply through iproute2, rolling the
  policy back reports success and leaves the routes of both families installed.
\<close>

theorem rollback_removes_nothing:
  assumes "ip_route_semantics run routes"
    and "composite_ApplyPolicy run c now policy v4 v6 s = (None, s1)" and "pol_Backend policy = BackendIProute2"
    and "st = composite_SnapshotPolicy c (pol_Name policy) s"
    and "families_ok (rs_V4 st) (rs_V6 st)" and "families_ok v4 v6"
    and "routes (sys_kernel s) (table_arg policy) = prefix_string ` (set (rs_V4 st) \<union> set (rs_V6 st))"
    and "composite_RollbackPolicy c (pol_Name policy) s1 = (None, s2)"
  shows "routes (sys_kernel s2) (table_arg policy) = prefix_string ` (set v4 \<union> set v6)"
proof -
  have "iproute2_ApplyPolicy run (cr_stateDir c) now policy v4 v6 s = (None, s1)"
    using assms(2,3) by (simp add: composite_ApplyPolicy_def)
  then have "routes (sys_kernel s1) = (routes (sys_kernel s))(table_arg policy := prefix_string ` (set v4 \<union> set v6))"
    using iproute2_installs [OF assms(1) _ _ assms(5,6,7)] assms(4) by (simp add: composite_SnapshotPolicy_def policy_Snapshot_def)
  moreover have "s2 = s1"
    using assms(8) by (auto simp: composite_RollbackPolicy_def policy_Rollback_def nft_RollbackPolicy_def split: sum.splits if_splits)
  ultimately show ?thesis by simp
qed

section \<open>nftables against the kernel\<close>

text \<open>
  What the code relies on of \<open>nft\<close>: \<open>flush set\<close> empties the named set and \<open>add element\<close> adds
  the listed elements to it. \<open>elems\<close> reads the elements of a set of a table.
\<close>

definition nft_semantics :: "'k runner \<Rightarrow> ('k \<Rightarrow> string \<times> string \<Rightarrow> string set) \<Rightarrow> bool" where
  "nft_semantics run elems \<longleftrightarrow>
     (\<forall>t st k k'. run (nft_flush_cmd t st) k = (None, k') \<longrightarrow> elems k' = (elems k)((t, st) := {})) \<and>
     (\<forall>t st ps k k'. run (nft_add_cmd t st ps) k = (None, k') \<longrightarrow>
        elems k' = (elems k)((t, st) := elems k (t, st) \<union> prefix_string ` set ps))"

lemma nft_applySet_elems:
  assumes "nft_semantics run elems" and "nft_applySet run t st plan k = (None, k')"
  shows "elems k' = (elems k)((t, st) := strs (set (pl_Add plan)))"
proof -
  from assms(2) obtain k1 where k1: "run (nft_flush_cmd t st) k = (None, k1)"
    and k2: "if 0 < length (pl_Add plan) then run (nft_add_cmd t st (pl_Add plan)) k1 = (None, k') else k' = k1"
    by (auto simp: nft_applySet_def split: prod.splits option.splits if_splits)
  from assms(1) k1 have e1: "elems k1 = (elems k)((t, st) := {})"
    unfolding nft_semantics_def by blast
  show ?thesis
  proof (cases "pl_Add plan = []")
    case False
    with k2 have "run (nft_add_cmd t st (pl_Add plan)) k1 = (None, k')" by simp
    with assms(1) have "elems k' = (elems k1)((t, st) := elems k1 (t, st) \<union> strs (set (pl_Add plan)))"
      unfolding nft_semantics_def by blast
    with e1 show ?thesis by simp
  qed (use k2 e1 in simp)
qed

lemma nft_apply_elems:
  assumes "nft_semantics run elems" and "nft_ApplyPolicy run d now policy v4 v6 s = (None, s')"
    and "st = policy_Snapshot d (pol_Name policy) s" and "pol_NFTSetV4 policy \<noteq> pol_NFTSetV6 policy"
  shows "elems (sys_kernel s') (pol_NFTTable policy, pol_NFTSetV4 policy) = strs (set (pl_Add (buildPlan (rs_V4 st) v4 FamilyV4)))"
    and "elems (sys_kernel s') (pol_NFTTable policy, pol_NFTSetV6 policy) = strs (set (pl_Add (buildPlan (rs_V6 st) v6 FamilyV6)))"
proof -
  obtain k1 k2 where
    k1: "nft_applySet run (pol_NFTTable policy) (pol_NFTSetV4 policy) (buildPlan (rs_V4 st) v4 FamilyV4) (sys_kernel s) = (None, k1)"
    and k2: "nft_applySet run (pol_NFTTable policy) (pol_NFTSetV6 policy) (buildPlan (rs_V6 st) v6 FamilyV6) k1 = (None, k2)"
    and s': "sys_kernel s' = k2"
    using assms(2) unfolding nft_ApplyPolicy_def assms(3) policy_Snapshot_def Let_def
    by (auto split: prod.splits option.splits dest!: save_applied_kernel)
  from nft_applySet_elems [OF assms(1) k1] nft_applySet_elems [OF assms(1) k2] assms(4)
  show "elems (sys_kernel s') (pol_NFTTable policy, pol_NFTSetV4 policy) = strs (set (pl_Add (buildPlan (rs_V4 st) v4 FamilyV4)))"
    and "elems (sys_kernel s') (pol_NFTTable policy, pol_NFTSetV6 policy) = strs (set (pl_Add (buildPlan (rs_V6 st) v6 FamilyV6)))"
    by (simp_all add: s')
qed

text \<open>
  C40: the nftables policy router flushes a set and then adds only the difference to the
  recorded state. Applying a policy twice with the same prefixes therefore empties both sets
  the second time, while the recorded state still lists every prefix as installed.
\<close>

theorem nft_second_apply_empties:
  assumes "nft_semantics run elems"
    and "nft_ApplyPolicy run d now policy v4 v6 s = (None, s1)"
    and "nft_ApplyPolicy run d now' policy v4 v6 s1 = (None, s2)"
    and "list_all prefix_storable (v4 @ v6)" and "state_readable d (pol_Name policy) s"
    and "pol_NFTSetV4 policy \<noteq> pol_NFTSetV6 policy"
  shows "elems (sys_kernel s2) (pol_NFTTable policy, pol_NFTSetV4 policy) = {} \<and>
    elems (sys_kernel s2) (pol_NFTTable policy, pol_NFTSetV6 policy) = {} \<and>
    rs_V4 (policy_Snapshot d (pol_Name policy) s2) = v4 \<and> rs_V6 (policy_Snapshot d (pol_Name policy) s2) = v6"
proof -
  have s1: "rs_V4 (policy_Snapshot d (pol_Name policy) s1) = v4" "rs_V6 (policy_Snapshot d (pol_Name policy) s1) = v6"
    using nftr.apply_ok [OF assms(2,4,5)] by simp_all
  have "state_readable d (pol_Name policy) s1"
    using nftr.apply_readable [of d "pol_Name policy" run now policy v4 v6 s] assms(2,5) by simp
  then have "rs_V4 (policy_Snapshot d (pol_Name policy) s2) = v4 \<and> rs_V6 (policy_Snapshot d (pol_Name policy) s2) = v6"
    using nftr.apply_ok [OF assms(3,4)] by simp
  moreover have "pl_Add (buildPlan v4 v4 FamilyV4) = []" "pl_Add (buildPlan v6 v6 FamilyV6) = []"
    using buildPlan_unchanged [of v4] buildPlan_unchanged [of v6] by (simp_all add: Empty_def)
  ultimately show ?thesis
    using nft_apply_elems [OF assms(1) assms(3) refl assms(6)] s1 by simp
qed

section \<open>The validator\<close>

lemma validateBackend_ok:
  "validateBackend look run b (v, k) = (None, (v', k')) \<Longrightarrow>
     b \<in> {BackendNFTables, BackendIProute2} \<and> v' = v(b \<mapsto> True)"
  by (auto simp: validateBackend_def validateNftables_def validateIProute2_def split: if_splits prod.splits option.splits)

lemma validate_each_first: "validate_each look run bs (Some e) vk = (r, vk') \<Longrightarrow> r = Some e"
  by (induction bs arbitrary: vk) (auto split: prod.splits)

lemma validate_each_ok:
  "validate_each look run bs None (v, k) = (None, (v', k')) \<Longrightarrow>
     (\<forall>b\<in>set bs. b \<in> {BackendNFTables, BackendIProute2} \<and> v' b = Some True) \<and> (\<forall>b. b \<notin> set bs \<longrightarrow> v' b = v b)"
proof (induction bs arbitrary: v k)
  case (Cons b bs)
  obtain r v1 k1 where r: "validateBackend look run b (v, k) = (r, (v1, k1))" by (metis prod.exhaust)
  have "r = None"
    using Cons.prems r validate_each_first [of look run bs _ "(v1, k1)"] by (cases r) auto
  with Cons.prems r have "validate_each look run bs None (v1, k1) = (None, (v', k'))" by simp
  from Cons.IH [OF this] validateBackend_ok [OF r [unfolded \<open>r = None\<close>]] show ?case by auto
qed simp

text \<open>
  validation without an error means that every backend an enabled policy needs is one of
  the two supported ones and is recorded healthy; the health of other backends is unchanged.
\<close>

theorem validator_sound:
  assumes "Validator_Validate look run order policies (v, k) = (None, (v', k'))"
    and "set order = needed_backends policies"
  shows "(\<forall>p\<in>set policies. pol_Enabled p \<longrightarrow>
      pol_Backend p \<in> {BackendNFTables, BackendIProute2} \<and> IsHealthy v' (pol_Backend p)) \<and>
    (\<forall>b. b \<notin> needed_backends policies \<longrightarrow> IsHealthy v' b = IsHealthy v b)"
proof (cases "needed_backends policies = {}")
  case True
  with assms(1) show ?thesis by (auto simp: Validator_Validate_def needed_backends_def filter_empty_conv)
next
  case False
  with assms(1) have "validate_each look run order None (v, k) = (None, (v', k'))"
    by (simp add: Validator_Validate_def)
  from validate_each_ok [OF this] show ?thesis
    unfolding assms(2) by (auto simp: IsHealthy_def needed_backends_def)
qed

section \<open>A simulated kernel\<close>

text \<open>Concrete commands that satisfy the hypotheses, for the witnesses.\<close>

definition ip_sim :: "(string \<Rightarrow> string set) runner" where
  "ip_sim cmd k =
     (if length cmd = 8 \<and> cmd ! 2 = ''add'' then
        (if cmd ! 3 \<in> k (cmd ! 7) then (Some ''File exists'', k)
         else (None, k(cmd ! 7 := insert (cmd ! 3) (k (cmd ! 7)))))
      else if length cmd = 6 \<and> cmd ! 2 = ''del'' then
        (if cmd ! 3 \<in> k (cmd ! 5) then (None, k(cmd ! 5 := k (cmd ! 5) - {cmd ! 3}))
         else (Some ''No such process'', k))
      else (None, k))"

lemma ip_sim_semantics: "ip_route_semantics ip_sim (\<lambda>k. k)"
  by (auto simp: ip_route_semantics_def ip_sim_def)

definition nft_sim :: "(string \<times> string \<Rightarrow> string set) runner" where
  "nft_sim cmd k =
     (if cmd ! 1 = ''flush'' then (None, k((cmd ! 4, cmd ! 5) := {}))
      else if cmd ! 1 = ''add'' then (None, k((cmd ! 4, cmd ! 5) := k (cmd ! 4, cmd ! 5) \<union> set (drop 6 cmd)))
      else (None, k))"

lemma nft_sim_semantics: "nft_semantics nft_sim (\<lambda>k. k)"
  by (auto simp: nft_semantics_def nft_sim_def nft_flush_cmd_def nft_add_cmd_def)

definition example_policy :: PolicyConfig where
  "example_policy = \<lparr> pol_Name = ''p'', pol_Enabled = True, pol_Categories = [''geosite:ru''],
     pol_Backend = BackendIProute2, pol_TableID = 100, pol_Iface = ''eth0'', pol_NFTTable = ''d2ip'',
     pol_NFTSetV4 = ''v4'', pol_NFTSetV6 = ''v6'', pol_DryRun = False, pol_ExportFormat = [], pol_Aggregation = None \<rparr>"

definition example_composite :: CompositeRouter where
  "example_composite = \<lparr> cr_stateDir = ''/var'', cr_validator = None \<rparr>"

abbreviation ex_v4 :: prefix where "ex_v4 \<equiv> Prefix (Addr4 0x0A000000) 8"
abbreviation ex_v6 :: prefix where "ex_v6 \<equiv> Prefix (Addr6 0) 128"

definition empty_sys :: "(string \<Rightarrow> string set) sys" where
  "empty_sys = \<lparr> sys_fs = empty_fs, sys_kernel = (\<lambda>_. {}) \<rparr>"

lemmas run_defs = composite_ApplyPolicy_def iproute2_ApplyPolicy_def nft_ApplyPolicy_def iproute2_applyFamily_def
  nft_applySet_def save_applied_def savePolicyState_def saveState_def replace_file_def WriteFile_def Rename_def
  MkdirAll_def policyStatePath_def Join_def buildPlan_def state_or_zero_def loadPolicyState_def loadState_def
  ReadFile_def zero_state_def

lemmas example_defs = example_policy_def example_composite_def empty_sys_def empty_fs_def

lemma ex_strings: "prefix_string ex_v4 \<noteq> prefix_string ex_v6" "prefix_string ex_v6 \<noteq> prefix_string ex_v4"
  using inj_onD [OF prefix_string_inj, of ex_v4 ex_v6] by (auto simp: prefix_ok_def)

lemma ex_apply:
  "fst (composite_ApplyPolicy ip_sim example_composite 1 example_policy [ex_v4] [ex_v6] empty_sys) = None"
  by (simp add: run_defs example_defs Let_def ip_sim_def route_add_cmd_def ex_strings)

lemma ex_apply_nft:
  "fst (nft_ApplyPolicy nft_sim ''/var'' 1 example_policy [ex_v4] [ex_v6]
     \<lparr> sys_fs = empty_fs, sys_kernel = (\<lambda>_. {}) \<rparr>) = None"
  by (simp add: run_defs example_defs Let_def nft_sim_def nft_flush_cmd_def nft_add_cmd_def)

lemma ex_snapshot: "policy_Snapshot ''/var'' n empty_sys = zero_state"
  by (simp add: policy_Snapshot_def run_defs example_defs)

abbreviation ex_s1 :: "(string \<Rightarrow> string set) sys" where
  "ex_s1 \<equiv> snd (composite_ApplyPolicy ip_sim example_composite 1 example_policy [ex_v4] [ex_v6] empty_sys)"

lemma ex_s1_apply:
  "composite_ApplyPolicy ip_sim example_composite 1 example_policy [ex_v4] [ex_v6] empty_sys = (None, ex_s1)"
  using ex_apply by (metis prod.collapse)

lemma ex_storable: "list_all prefix_storable [ex_v4, ex_v6]" "families_ok [ex_v4] [ex_v6]"
  by (simp_all add: prefix_storable_def prefix_ok_def families_ok_def)

lemma ex_readable: "state_readable d n empty_sys"
  by (simp add: state_readable_def example_defs)

lemma ex_policy [simp]: "pol_Name example_policy = ''p''" "pol_Backend example_policy = BackendIProute2"
  "cr_stateDir example_composite = ''/var''" "sys_kernel empty_sys = (\<lambda>_. {})"
  by (simp_all add: example_policy_def example_composite_def empty_sys_def)

lemma ex_s1_state:
  "loadPolicyState (sys_fs ex_s1) ''/var'' ''p'' =
     Inr \<lparr> rs_Backend = BackendIProute2, rs_AppliedAt = 1, rs_V4 = [ex_v4], rs_V6 = [ex_v6] \<rparr>"
  using ex_storable
  by (simp add: run_defs example_defs Let_def ip_sim_def route_add_cmd_def ex_strings unmarshal_marshal state_storable_def
      del: unmarshal_state.simps)

lemma apply_seq_single: "app p v4 v6 s = (r, s') \<Longrightarrow> apply_seq app [(p, v4, v6)] s = ([r], s')"
  by simp

theorem dry_run_after_apply_witness:
  "case composite_DryRunPolicy example_composite example_policy [ex_v4] [ex_v6] ex_s1 of
     Inr (a, b, da, db) \<Rightarrow> Empty a \<and> Empty b \<and> da = ''(no changes)'' @ nl | Inl _ \<Rightarrow> False"
proof -
  obtain a b da db where r: "composite_DryRunPolicy example_composite example_policy [ex_v4] [ex_v6] ex_s1 = Inr (a, b, da, db)"
    by (simp add: composite_DryRunPolicy_def policy_DryRun_def nft_DryRunPolicy_def example_policy_def Let_def)
  from dry_run_after_apply [OF ex_s1_apply _ ex_readable r] ex_storable show ?thesis
    unfolding r by simp
qed




theorem iproute2_never_recovers_witness:
  "None \<notin> set (fst (apply_seq (iproute2_ApplyPolicy ip_sim ''/var'' 2)
     [(example_policy, [], []), (example_policy, [], [])] (ex_s1\<lparr> sys_kernel := (\<lambda>_. {}) \<rparr>)))"
  by (rule iproute2_never_recovers [OF ip_sim_semantics, of ex_v4 "''/var''" example_policy])
     (simp_all add: policy_Snapshot_def ex_s1_state state_or_zero_def)

theorem rollback_removes_nothing_witness:
  "sys_kernel ex_s1 (table_arg example_policy) = prefix_string ` {ex_v4, ex_v6}"
proof -
  have rb: "composite_RollbackPolicy example_composite (pol_Name example_policy) ex_s1 = (None, ex_s1)"
    by (simp add: composite_RollbackPolicy_def policy_Rollback_def nft_RollbackPolicy_def ex_s1_state)
  from rollback_removes_nothing [OF ip_sim_semantics ex_s1_apply _ refl _ _ _ rb] ex_storable show ?thesis
    by (simp add: composite_SnapshotPolicy_def policy_Snapshot_def [symmetric] ex_snapshot zero_state_def families_ok_def insert_commute)
qed

abbreviation ex_nft0 :: "(string \<times> string \<Rightarrow> string set) sys" where
  "ex_nft0 \<equiv> \<lparr> sys_fs = empty_fs, sys_kernel = (\<lambda>_. {}) \<rparr>"

abbreviation ex_nft1 :: "(string \<times> string \<Rightarrow> string set) sys" where
  "ex_nft1 \<equiv> snd (nft_ApplyPolicy nft_sim ''/var'' 1 example_policy [ex_v4] [ex_v6] ex_nft0)"

abbreviation ex_nft2 :: "(string \<times> string \<Rightarrow> string set) sys" where
  "ex_nft2 \<equiv> snd (nft_ApplyPolicy nft_sim ''/var'' 2 example_policy [ex_v4] [ex_v6] ex_nft1)"

lemma ex_nft_fault: "fs_fault (sys_fs ex_nft1) = (\<lambda>_ _. False)"
  by (simp add: run_defs example_defs Let_def nft_sim_def nft_flush_cmd_def nft_add_cmd_def)

lemma ex_nft2_ok:
  "nft_ApplyPolicy nft_sim ''/var'' 2 example_policy [ex_v4] [ex_v6] ex_nft1 = (None, ex_nft2)"
proof -
  let ?s = ex_nft1
  have "fst (nft_ApplyPolicy nft_sim ''/var'' 2 example_policy [ex_v4] [ex_v6] s) = None"
    if "fs_fault (sys_fs s) = (\<lambda>_ _. False)" for s
    using that
    by (simp add: nft_ApplyPolicy_def nft_applySet_def save_applied_def savePolicyState_def saveState_def replace_file_def
        WriteFile_def Rename_def MkdirAll_def policyStatePath_def Join_def Let_def nft_sim_def nft_flush_cmd_def nft_add_cmd_def)
  from this [OF ex_nft_fault] show ?thesis by (metis prod.collapse)
qed

theorem nft_second_apply_empties_witness:
  "sys_kernel ex_nft2 (''d2ip'', ''v4'') = {} \<and> rs_V4 (policy_Snapshot ''/var'' ''p'' ex_nft2) = [ex_v4]"
proof -
  have a: "nft_ApplyPolicy nft_sim ''/var'' 1 example_policy [ex_v4] [ex_v6] ex_nft0 = (None, ex_nft1)"
    using ex_apply_nft by (metis prod.collapse)
  from nft_second_apply_empties [OF nft_sim_semantics a ex_nft2_ok] ex_storable show ?thesis
    by (simp add: state_readable_def empty_fs_def example_policy_def)
qed

theorem validator_sound_witness:
  "IsHealthy (fst (snd (Validator_Validate (\<lambda>_. True) ip_sim [BackendIProute2] [example_policy] (NewValidator, \<lambda>_. {})))) BackendIProute2"
proof -
  let ?r = "Validator_Validate (\<lambda>_. True) ip_sim [BackendIProute2] [example_policy] (NewValidator, \<lambda>_. {})"
  have "?r = (None, (fst (snd ?r), snd (snd ?r)))"
    by (simp add: Validator_Validate_def validateBackend_def validateIProute2_def ip_sim_def Let_def)
  from validator_sound [OF this] show ?thesis
    by (simp add: needed_backends_def example_policy_def)
qed

end
