(* ===== verification/Kernel_Router.thy ===== *)
theory Kernel_Router
  imports Policy_Router
begin

text \<open>
  The transactional single-policy routers of \<open>internal/routing\<close>: \<open>nftables.go\<close> and
  \<open>iproute2.go\<close>. They read the installed prefixes back from the kernel, apply a plan as one
  script and reconcile a state file. A command is an argument \<open>exec\<close> of the operations: it
  maps the argument vector, the standard input and the kernel state to an error (or none),
  the standard output, the standard error and the next kernel state; \<open>look\<close> is
  \<open>exec.LookPath\<close> and \<open>json\<close> the JSON syntax of \<open>encoding/json\<close>.
\<close>

type_synonym 'k executor = "string list \<Rightarrow> string \<Rightarrow> 'k \<Rightarrow> error option \<times> string \<times> string \<times> 'k"

section \<open>Parsing what the kernel tools print\<close>

definition parsePrefixLoose :: "string \<Rightarrow> prefix result" where
  "parsePrefixLoose s =
     (if Contains s ''/'' then ParsePrefix s
      else bind_result (ParseAddr s) (\<lambda>a. addr_prefix a (if is6 a then 128 else 32)))"

definition cut_blank :: "string \<Rightarrow> string" where
  "cut_blank s = takeWhile (\<lambda>c. c \<noteq> CHR '' '' \<and> of_char c \<noteq> (9 :: nat)) s"

fun parse_elements :: "string list \<Rightarrow> prefix list result" where
  "parse_elements [] = Inr []"
| "parse_elements (raw # raws) =
     (let s = TrimSpace raw in
      if s = [] then parse_elements raws
      else case parsePrefixLoose (cut_blank s) of
        Inl e \<Rightarrow> Inl (''routing/nft: parse element '' @ cut_blank s @ '': '' @ e)
      | Inr p \<Rightarrow> bind_result (parse_elements raws) (\<lambda>ps. Inr (p # ps)))"

definition parseNftSet :: "string \<Rightarrow> prefix list result" where
  "parseNftSet text =
     (case Index text ''elements'' of
        None \<Rightarrow> Inr []
      | Some i \<Rightarrow>
          (case (Index (drop i text) ''{'', Index (drop i text) ''}'') of
             (Some opn, Some cls) \<Rightarrow>
               if cls < opn then Inr []
               else parse_elements (SplitChar CHR '','' (take (cls - (opn + 1)) (drop (i + opn + 1) text)))
           | _ \<Rightarrow> Inr []))"

text \<open>The JSON listing: the types \<open>NftJSONOutput\<close>, \<open>NftObject\<close>, \<open>NftSet\<close>, \<open>NftElem\<close>, \<open>NftPrefix\<close>.\<close>

record NftPrefix =
  np_Addr :: string
  np_Len :: int

record NftElem =
  ne_Prefix :: "NftPrefix option"
  ne_Val :: string

record NftSet =
  ns_Family :: string
  ns_Table :: string
  ns_Name :: string
  ns_Type :: string
  ns_Flags :: "string list"
  ns_Elem :: "NftElem list"

fun decode_int :: "anyv option \<Rightarrow> int result" where
  "decode_int (Some (VInt i)) = (if int64_min \<le> i \<and> i \<le> int64_max then Inr i else Inl ''json: number out of range'')"
| "decode_int (Some VNull) = Inr 0"
| "decode_int None = Inr 0"
| "decode_int _ = Inl ''json: cannot unmarshal into int''"

fun decode_list :: "(anyv \<Rightarrow> 'a result) \<Rightarrow> anyv list \<Rightarrow> 'a list result" where
  "decode_list f [] = Inr []"
| "decode_list f (v # vs) = bind_result (f v) (\<lambda>x. bind_result (decode_list f vs) (\<lambda>xs. Inr (x # xs)))"

fun decode_slice :: "(anyv \<Rightarrow> 'a result) \<Rightarrow> anyv option \<Rightarrow> 'a list result" where
  "decode_slice f (Some (VList vs)) = decode_list f vs"
| "decode_slice f (Some VNull) = Inr []"
| "decode_slice f None = Inr []"
| "decode_slice f _ = Inl ''json: cannot unmarshal into slice''"

fun decode_nft_prefix :: "anyv option \<Rightarrow> NftPrefix option result" where
  "decode_nft_prefix None = Inr None"
| "decode_nft_prefix (Some VNull) = Inr None"
| "decode_nft_prefix (Some (VMap kvs)) =
     bind_result (decode_string (map_of kvs ''addr'')) (\<lambda>a.
     bind_result (decode_int (map_of kvs ''len'')) (\<lambda>l.
       Inr (Some \<lparr> np_Addr = a, np_Len = l \<rparr>)))"
| "decode_nft_prefix _ = Inl ''json: cannot unmarshal into NftPrefix''"

fun decode_nft_elem :: "anyv \<Rightarrow> NftElem result" where
  "decode_nft_elem (VMap kvs) =
     bind_result (decode_nft_prefix (map_of kvs ''prefix'')) (\<lambda>p.
     bind_result (decode_string (map_of kvs ''val'')) (\<lambda>v.
       Inr \<lparr> ne_Prefix = p, ne_Val = v \<rparr>))"
| "decode_nft_elem VNull = Inr \<lparr> ne_Prefix = None, ne_Val = [] \<rparr>"
| "decode_nft_elem _ = Inl ''json: cannot unmarshal into NftElem''"

fun decode_nft_set :: "anyv option \<Rightarrow> NftSet option result" where
  "decode_nft_set None = Inr None"
| "decode_nft_set (Some VNull) = Inr None"
| "decode_nft_set (Some (VMap kvs)) =
     bind_result (decode_string (map_of kvs ''family'')) (\<lambda>f.
     bind_result (decode_string (map_of kvs ''table'')) (\<lambda>t.
     bind_result (decode_string (map_of kvs ''name'')) (\<lambda>n.
     bind_result (decode_string (map_of kvs ''type'')) (\<lambda>ty.
     bind_result (decode_slice (\<lambda>v. decode_string (Some v)) (map_of kvs ''flags'')) (\<lambda>fl.
     bind_result (decode_slice decode_nft_elem (map_of kvs ''elem'')) (\<lambda>es.
       Inr (Some \<lparr> ns_Family = f, ns_Table = t, ns_Name = n, ns_Type = ty, ns_Flags = fl, ns_Elem = es \<rparr>)))))))"
| "decode_nft_set _ = Inl ''json: cannot unmarshal into NftSet''"

fun decode_nft_object :: "anyv \<Rightarrow> NftSet option result" where
  "decode_nft_object (VMap kvs) = decode_nft_set (map_of kvs ''set'')"
| "decode_nft_object VNull = Inr None"
| "decode_nft_object _ = Inl ''json: cannot unmarshal into NftObject''"

fun decode_nft_output :: "anyv \<Rightarrow> NftSet option list result" where
  "decode_nft_output (VMap kvs) = decode_slice decode_nft_object (map_of kvs ''nftables'')"
| "decode_nft_output VNull = Inr []"
| "decode_nft_output _ = Inl ''json: cannot unmarshal into NftJSONOutput''"

fun nft_elem_prefixes :: "NftElem list \<Rightarrow> prefix list result" where
  "nft_elem_prefixes [] = Inr []"
| "nft_elem_prefixes (e # es) =
     (case ne_Prefix e of
        Some p \<Rightarrow>
          bind_result (wrap_err ''parse prefix'' (ParsePrefix (np_Addr p @ ''/'' @ show_int (np_Len p)))) (\<lambda>x.
          bind_result (nft_elem_prefixes es) (\<lambda>xs. Inr (x # xs)))
      | None \<Rightarrow>
          if ne_Val e \<noteq> [] then
            bind_result (wrap_err ''parse val'' (parsePrefixLoose (ne_Val e))) (\<lambda>x.
            bind_result (nft_elem_prefixes es) (\<lambda>xs. Inr (x # xs)))
          else nft_elem_prefixes es)"

fun nft_object_prefixes :: "NftSet option list \<Rightarrow> prefix list result" where
  "nft_object_prefixes [] = Inr []"
| "nft_object_prefixes (None # objs) = nft_object_prefixes objs"
| "nft_object_prefixes (Some st # objs) =
     bind_result (nft_elem_prefixes (ns_Elem st)) (\<lambda>xs.
     bind_result (nft_object_prefixes objs) (\<lambda>ys. Inr (xs @ ys)))"

definition parseNftSetJSON :: "(string \<Rightarrow> anyv result) \<Rightarrow> string \<Rightarrow> prefix list result" where
  "parseNftSetJSON json jsonData =
     bind_result (wrap_err ''unmarshal nft JSON'' (bind_result (json jsonData) decode_nft_output)) nft_object_prefixes"

fun parse_route_lines :: "string list \<Rightarrow> Family \<Rightarrow> prefix list" where
  "parse_route_lines [] f = []"
| "parse_route_lines (raw # raws) f =
     (let line = TrimSpace raw in
      if line = [] \<or> length (Fields line) = 0 then parse_route_lines raws f
      else
        let tok = hd (Fields line) in
        if tok = ''default'' then parse_route_lines raws f
        else case parsePrefixLoose tok of
          Inl _ \<Rightarrow> parse_route_lines raws f
        | Inr p \<Rightarrow>
            if f = FamilyV4 \<and> \<not> is4 (paddr p) then parse_route_lines raws f
            else if f = FamilyV6 \<and> is4 (paddr p) then parse_route_lines raws f
            else p # parse_route_lines raws f)"

text \<open>The list is returned even when the scanner stops with an error.\<close>

definition parseIPRouteShow :: "string \<Rightarrow> Family \<Rightarrow> prefix list \<times> error option" where
  "parseIPRouteShow text f =
     (let (ls, bad) = scan_lines text
      in (parse_route_lines ls f, if bad then Some ''bufio.Scanner: token too long'' else None))"

section \<open>Reconciling the recorded state\<close>

text \<open>
  The set of a \<open>refreshState\<close> call, as Go collects it in a map (its iteration order is
  forgotten by the sort) and stores it back.
\<close>

definition reconcile :: "prefix list \<Rightarrow> Plan \<Rightarrow> prefix list" where
  "reconcile xs p = sortPrefixes (keep_first id (filter (\<lambda>x. x \<notin> set (pl_Remove p)) xs @ pl_Add p))"

definition reconcile_family :: "RouterState \<Rightarrow> Plan \<Rightarrow> RouterState" where
  "reconcile_family s p = (if pl_Family p = FamilyV4 then s\<lparr> rs_V4 := reconcile (rs_V4 s) p \<rparr>
     else s\<lparr> rs_V6 := reconcile (rs_V6 s) p \<rparr>)"

section \<open>The nftables router\<close>

record nftRouter =
  nr_cfg :: PolicyConfig
  nr_statePath :: string
  nr_state :: RouterState

definition newNFTRouter :: "PolicyConfig \<Rightarrow> string \<Rightarrow> fs \<Rightarrow> nftRouter" where
  "newNFTRouter cfg statePath f =
     \<lparr> nr_cfg = cfg, nr_statePath = statePath, nr_state = state_or_zero (loadState f statePath) \<rparr>"

definition ErrNoCapability :: error where
  "ErrNoCapability = ''routing: missing CAP_NET_ADMIN or required binary''"

definition nr_Caps :: "(string \<Rightarrow> bool) \<Rightarrow> nftRouter \<Rightarrow> error option" where
  "nr_Caps look r = (if \<not> look ''nft'' then Some (ErrNoCapability @ '': nft not found'') else None)"

definition tableArgs :: "PolicyConfig \<Rightarrow> string \<times> string" where
  "tableArgs cfg = (case Fields (pol_NFTTable cfg) of [a, b] \<Rightarrow> (a, b) | _ \<Rightarrow> (''inet'', ''d2ip''))"

definition setName :: "PolicyConfig \<Rightarrow> Family \<Rightarrow> string" where
  "setName cfg f = (if f = FamilyV6 then pol_NFTSetV6 cfg else pol_NFTSetV4 cfg)"

definition joinPrefixes :: "prefix list \<Rightarrow> string" where
  "joinPrefixes ps = join_with '', '' (map prefix_string ps)"

definition writeAdd :: "PolicyConfig \<Rightarrow> Family \<Rightarrow> prefix list \<Rightarrow> string" where
  "writeAdd cfg f prefixes =
     (if prefixes = [] then []
      else let (fam, name) = tableArgs cfg in
        ''add element '' @ fam @ '' '' @ name @ '' '' @ setName cfg f @ '' { '' @ joinPrefixes prefixes @ '' }'' @ nl)"

definition writeRemove :: "PolicyConfig \<Rightarrow> Family \<Rightarrow> prefix list \<Rightarrow> string" where
  "writeRemove cfg f prefixes =
     (if prefixes = [] then []
      else let (fam, name) = tableArgs cfg in
        ''delete element '' @ fam @ '' '' @ name @ '' '' @ setName cfg f @ '' { '' @ joinPrefixes prefixes @ '' }'' @ nl)"

definition buildScript :: "PolicyConfig \<Rightarrow> Plan \<Rightarrow> string" where
  "buildScript cfg p = writeRemove cfg (pl_Family p) (pl_Remove p) @ writeAdd cfg (pl_Family p) (pl_Add p)"

definition runScript :: "'k executor \<Rightarrow> PolicyConfig \<Rightarrow> string \<Rightarrow> 'k \<Rightarrow> error option \<times> 'k" where
  "runScript exec cfg script k =
     (if TrimSpace script = [] then (None, k)
      else case exec ([''nft''] @ (if pol_DryRun cfg then [''-c''] else []) @ [''-f'', ''-'']) script k of
        (Some e, out, errb, k') \<Rightarrow> (Some (TrimSpace (errb @ '' | '' @ e)), k')
      | (None, out, errb, k') \<Rightarrow> (None, k'))"

definition ensureTable :: "'k executor \<Rightarrow> PolicyConfig \<Rightarrow> 'k \<Rightarrow> error option \<times> 'k" where
  "ensureTable exec cfg k =
     (let (fam, name) = tableArgs cfg in
      runScript exec cfg
        (''add table '' @ fam @ '' '' @ name @ nl @
         ''add set '' @ fam @ '' '' @ name @ '' '' @ pol_NFTSetV4 cfg @ '' { type ipv4_addr; flags interval; }'' @ nl @
         ''add set '' @ fam @ '' '' @ name @ '' '' @ pol_NFTSetV6 cfg @ '' { type ipv6_addr; flags interval; }'' @ nl) k)"

definition nr_listSet :: "'k executor \<Rightarrow> (string \<Rightarrow> anyv result) \<Rightarrow> PolicyConfig \<Rightarrow> Family \<Rightarrow> 'k \<Rightarrow> prefix list result \<times> 'k" where
  "nr_listSet exec json cfg f k =
     (let (fam, name) = tableArgs cfg;
          (e1, out1, err1, k1) = exec [''nft'', ''--json'', ''list'', ''set'', fam, name, setName cfg f] [] k
      in case (if e1 = None \<and> out1 \<noteq> [] then parseNftSetJSON json out1 else Inl []) of
           Inr ps \<Rightarrow> (Inr ps, k1)
         | Inl _ \<Rightarrow>
             (case exec [''nft'', ''list'', ''set'', fam, name, setName cfg f] [] k1 of
                (Some e, out, errb, k2) \<Rightarrow>
                  (if Contains errb ''No such file'' \<or> Contains errb ''does not exist'' then Inr []
                   else Inl (''routing/nft: list set: '' @ e @ '': '' @ errb), k2)
              | (None, out, errb, k2) \<Rightarrow> (parseNftSet out, k2)))"

definition nr_Plan :: "'k executor \<Rightarrow> (string \<Rightarrow> anyv result) \<Rightarrow> nftRouter \<Rightarrow> prefix list \<Rightarrow> Family \<Rightarrow> 'k \<Rightarrow> Plan result \<times> 'k" where
  "nr_Plan exec json r desired f k =
     (let desired' = filterByFamily desired f; (cur, k') = nr_listSet exec json (nr_cfg r) f k
      in (bind_result cur (\<lambda>current. Inr (computePlan current desired' f)), k'))"

definition nr_refreshState :: "int \<Rightarrow> nftRouter \<Rightarrow> Plan \<Rightarrow> fs \<Rightarrow> error option \<times> nftRouter \<times> fs" where
  "nr_refreshState now r p f =
     (let s = reconcile_family ((nr_state r)\<lparr> rs_Backend := BackendNFTables, rs_AppliedAt := now \<rparr>) p
      in case saveState (nr_statePath r) s f of
           (Some e, f') \<Rightarrow> (Some e, r, f')
         | (None, f') \<Rightarrow> (None, r\<lparr> nr_state := s \<rparr>, f'))"

definition nr_refresh_sys :: "int \<Rightarrow> nftRouter \<Rightarrow> Plan \<Rightarrow> 'k sys \<Rightarrow> error option \<times> nftRouter \<times> 'k sys" where
  "nr_refresh_sys now r p s = (let (e, r', f) = nr_refreshState now r p (sys_fs s) in (e, r', s\<lparr> sys_fs := f \<rparr>))"

definition nr_Apply :: "'k executor \<Rightarrow> int \<Rightarrow> nftRouter \<Rightarrow> Plan \<Rightarrow> 'k sys \<Rightarrow> error option \<times> nftRouter \<times> 'k sys" where
  "nr_Apply exec now r p s =
     (case ensureTable exec (nr_cfg r) (sys_kernel s) of
        (Some e, k) \<Rightarrow> (Some e, r, s\<lparr> sys_kernel := k \<rparr>)
      | (None, k) \<Rightarrow>
          if Empty p then nr_refresh_sys now r p (s\<lparr> sys_kernel := k \<rparr>)
          else case runScript exec (nr_cfg r) (buildScript (nr_cfg r) p) k of
            (Some e, k') \<Rightarrow> (Some (''routing/nft: apply: '' @ e), r, s\<lparr> sys_kernel := k' \<rparr>)
          | (None, k') \<Rightarrow> nr_refresh_sys now r p (s\<lparr> sys_kernel := k' \<rparr>))"

definition nr_Snapshot :: "nftRouter \<Rightarrow> RouterState" where
  "nr_Snapshot r = nr_state r"

definition nr_Rollback :: "'k executor \<Rightarrow> int \<Rightarrow> nftRouter \<Rightarrow> 'k sys \<Rightarrow> error option \<times> nftRouter \<times> 'k sys" where
  "nr_Rollback exec now r s =
     (let st = nr_state r in
      if rs_V4 st = [] \<and> rs_V6 st = [] then (None, r, s)
      else case ensureTable exec (nr_cfg r) (sys_kernel s) of
        (Some e, k) \<Rightarrow> (Some e, r, s\<lparr> sys_kernel := k \<rparr>)
      | (None, k) \<Rightarrow>
          let script = writeRemove (nr_cfg r) FamilyV4 (rs_V4 st) @ writeRemove (nr_cfg r) FamilyV6 (rs_V6 st) in
          if length script = 0 then (None, r, s\<lparr> sys_kernel := k \<rparr>)
          else case runScript exec (nr_cfg r) script k of
            (Some e, k') \<Rightarrow> (Some (''routing/nft: rollback: '' @ e), r, s\<lparr> sys_kernel := k' \<rparr>)
          | (None, k') \<Rightarrow>
              let st' = zero_state\<lparr> rs_Backend := BackendNFTables, rs_AppliedAt := now \<rparr>;
                  (e, f) = saveState (nr_statePath r) st' (sys_fs s)
              in (e, r\<lparr> nr_state := st' \<rparr>, \<lparr> sys_fs = f, sys_kernel = k' \<rparr>))"

definition nr_DryRun :: "'k executor \<Rightarrow> (string \<Rightarrow> anyv result) \<Rightarrow> nftRouter \<Rightarrow> prefix list \<Rightarrow> Family \<Rightarrow> 'k \<Rightarrow>
    (Plan \<times> string) result \<times> 'k" where
  "nr_DryRun exec json r desired f k =
     (let (pr, k') = nr_Plan exec json r desired f k in (bind_result pr (\<lambda>p. Inr (p, renderDiff p)), k'))"

section \<open>The iproute2 router\<close>

record iproute2Router =
  ir_cfg :: PolicyConfig
  ir_statePath :: string
  ir_iface :: string
  ir_netns :: string
  ir_state :: RouterState

definition newIProute2Router :: "PolicyConfig \<Rightarrow> string \<Rightarrow> fs \<Rightarrow> iproute2Router" where
  "newIProute2Router cfg statePath f =
     \<lparr> ir_cfg = cfg, ir_statePath = statePath, ir_iface = pol_Iface cfg, ir_netns = [],
       ir_state = state_or_zero (loadState f statePath) \<rparr>"

definition ipCommand :: "iproute2Router \<Rightarrow> string list \<Rightarrow> string list" where
  "ipCommand r args = (if ir_netns r \<noteq> [] then [''ip'', ''netns'', ''exec'', ir_netns r, ''ip''] @ args else ''ip'' # args)"

definition SetIface :: "string \<Rightarrow> iproute2Router \<Rightarrow> iproute2Router" where
  "SetIface name r = r\<lparr> ir_iface := name \<rparr>"

definition ir_Caps :: "(string \<Rightarrow> bool) \<Rightarrow> 'k executor \<Rightarrow> iproute2Router \<Rightarrow> 'k \<Rightarrow> error option \<times> 'k" where
  "ir_Caps look exec r k =
     (if \<not> look ''ip'' then (Some (ErrNoCapability @ '': ip not found''), k)
      else if ir_netns r \<noteq> [] then
        (case exec [''ip'', ''netns'', ''pids'', ir_netns r] [] k of
           (Some e, out, errb, k') \<Rightarrow> (Some (ErrNoCapability @ '': netns not found: '' @ e), k')
         | (None, out, errb, k') \<Rightarrow> (None, k'))
      else (None, k))"

definition ipFam :: "Family \<Rightarrow> string" where
  "ipFam f = (if f = FamilyV6 then ''-6'' else ''-4'')"

definition listRoutes :: "'k executor \<Rightarrow> iproute2Router \<Rightarrow> Family \<Rightarrow> 'k \<Rightarrow> prefix list result \<times> 'k" where
  "listRoutes exec r f k =
     (case exec (ipCommand r [ipFam f, ''route'', ''show'', ''table'', table_arg (ir_cfg r)]) [] k of
        (Some e, out, errb, k') \<Rightarrow>
          (if Contains errb ''does not exist'' \<or> Contains errb ''invalid argument'' then Inr []
           else Inl (''routing/iproute2: list: '' @ e @ '': '' @ errb), k')
      | (None, out, errb, k') \<Rightarrow>
          (case parseIPRouteShow out f of (ps, None) \<Rightarrow> Inr ps | (ps, Some e) \<Rightarrow> Inl e, k'))"

definition ir_Plan :: "'k executor \<Rightarrow> iproute2Router \<Rightarrow> prefix list \<Rightarrow> Family \<Rightarrow> 'k \<Rightarrow> Plan result \<times> 'k" where
  "ir_Plan exec r desired f k =
     (let desired' = filterByFamily desired f; (cur, k') = listRoutes exec r f k
      in (bind_result cur (\<lambda>current. Inr (computePlan current desired' f)), k'))"

definition batch_line :: "string \<Rightarrow> iproute2Router \<Rightarrow> prefix \<Rightarrow> string" where
  "batch_line verb r p =
     ''route '' @ verb @ '' '' @ prefix_string p @ '' dev '' @ ir_iface r @ '' table '' @ table_arg (ir_cfg r) @ '' proto static'' @ nl"

definition runBatch :: "'k executor \<Rightarrow> iproute2Router \<Rightarrow> string \<Rightarrow> Family \<Rightarrow> 'k \<Rightarrow> error option \<times> 'k" where
  "runBatch exec r batch fam k =
     (if TrimSpace batch = [] then (None, k)
      else case exec (ipCommand r [ipFam fam, ''-batch'', ''-'']) batch k of
        (Some e, out, errb, k') \<Rightarrow> (Some (TrimSpace errb @ nl @ ''Command failed '' @ nl @ '' | '' @ e), k')
      | (None, out, errb, k') \<Rightarrow> (None, k'))"

definition ir_refreshState :: "int \<Rightarrow> iproute2Router \<Rightarrow> Plan \<Rightarrow> fs \<Rightarrow> error option \<times> iproute2Router \<times> fs" where
  "ir_refreshState now r p f =
     (let s = reconcile_family ((ir_state r)\<lparr> rs_Backend := BackendIProute2, rs_AppliedAt := now \<rparr>) p
      in case saveState (ir_statePath r) s f of
           (Some e, f') \<Rightarrow> (Some e, r, f')
         | (None, f') \<Rightarrow> (None, r\<lparr> ir_state := s \<rparr>, f'))"

definition ir_refresh_sys :: "int \<Rightarrow> iproute2Router \<Rightarrow> Plan \<Rightarrow> 'k sys \<Rightarrow> error option \<times> iproute2Router \<times> 'k sys" where
  "ir_refresh_sys now r p s = (let (e, r', f) = ir_refreshState now r p (sys_fs s) in (e, r', s\<lparr> sys_fs := f \<rparr>))"

definition ir_Apply :: "'k executor \<Rightarrow> int \<Rightarrow> iproute2Router \<Rightarrow> Plan \<Rightarrow> 'k sys \<Rightarrow> error option \<times> iproute2Router \<times> 'k sys" where
  "ir_Apply exec now r p s =
     (if ir_iface r = [] then (Some ''routing/iproute2: no iface configured; refusing to apply'', r, s)
      else if Empty p then ir_refresh_sys now r p s
      else
        let batch = concat (map (batch_line ''del'' r) (pl_Remove p)) @ concat (map (batch_line ''add'' r) (pl_Add p)) in
        if pol_DryRun (ir_cfg r) then ir_refresh_sys now r p s
        else case runBatch exec r batch (pl_Family p) (sys_kernel s) of
          (Some e, k) \<Rightarrow> (Some (''routing/iproute2: apply: '' @ e), r, s\<lparr> sys_kernel := k \<rparr>)
        | (None, k) \<Rightarrow> ir_refresh_sys now r p (s\<lparr> sys_kernel := k \<rparr>))"

definition ir_Snapshot :: "iproute2Router \<Rightarrow> RouterState" where
  "ir_Snapshot r = ir_state r"

definition ir_Rollback :: "'k executor \<Rightarrow> int \<Rightarrow> iproute2Router \<Rightarrow> 'k sys \<Rightarrow> error option \<times> iproute2Router \<times> 'k sys" where
  "ir_Rollback exec now r s =
     (if ir_iface r = [] then (Some ''routing/iproute2: no iface configured; cannot rollback'', r, s)
      else
        let v4Sb = concat (map (batch_line ''del'' r) (rs_V4 (ir_state r)));
            v6Sb = concat (map (batch_line ''del'' r) (rs_V6 (ir_state r)))
        in if length v4Sb = 0 \<and> length v6Sb = 0 then (None, r, s)
           else case (if 0 < length v4Sb then runBatch exec r v4Sb FamilyV4 (sys_kernel s) else (None, sys_kernel s)) of
             (Some e, k) \<Rightarrow> (Some (''routing/iproute2: rollback v4: '' @ e), r, s\<lparr> sys_kernel := k \<rparr>)
           | (None, k) \<Rightarrow>
               (case (if 0 < length v6Sb then runBatch exec r v6Sb FamilyV6 k else (None, k)) of
                  (Some e, k') \<Rightarrow> (Some (''routing/iproute2: rollback v6: '' @ e), r, s\<lparr> sys_kernel := k' \<rparr>)
                | (None, k') \<Rightarrow>
                    let st' = zero_state\<lparr> rs_Backend := BackendIProute2, rs_AppliedAt := now \<rparr>;
                        (e, f) = saveState (ir_statePath r) st' (sys_fs s)
                    in (e, r\<lparr> ir_state := st' \<rparr>, \<lparr> sys_fs = f, sys_kernel = k' \<rparr>)))"

definition ir_DryRun :: "'k executor \<Rightarrow> iproute2Router \<Rightarrow> prefix list \<Rightarrow> Family \<Rightarrow> 'k \<Rightarrow> (Plan \<times> string) result \<times> 'k" where
  "ir_DryRun exec r desired f k =
     (let (pr, k') = ir_Plan exec r desired f k in (bind_result pr (\<lambda>p. Inr (p, renderDiff p)), k'))"

section \<open>Reading back what the kernel prints\<close>

text \<open>
  How the tools print an element: a prefix as \<open>netip\<close> prints it, a host address possibly
  without its length.
\<close>

definition elem_text :: "bool \<Rightarrow> prefix \<Rightarrow> string" where
  "elem_text short p = (if short \<and> pbits p = int (bit_len (paddr p)) then addr_string (paddr p) else prefix_string p)"

lemma addr_string_Nil: "is_valid a \<Longrightarrow> addr_string a \<noteq> []"
  using ParseAddr_addr_string [of a] by (auto simp: ParseAddr_def)

lemma elem_text_chars: "prefix_ok p \<Longrightarrow> c \<in> set (elem_text short p) \<Longrightarrow> addr_char c \<or> c = CHR ''/''"
  using addr_string_chars prefix_string_chars by (auto simp: elem_text_def prefix_ok_def split: if_splits)

lemma elem_text_Nil: "prefix_ok p \<Longrightarrow> elem_text short p \<noteq> []"
  using addr_string_Nil prefix_string_Nil by (simp add: elem_text_def prefix_ok_def)

lemma mask_full: "is_valid a \<Longrightarrow> mask_addr a (bit_len a) = a"
  by (cases a) simp_all

lemma parsePrefixLoose_elem: "prefix_ok p \<Longrightarrow> parsePrefixLoose (elem_text short p) = Inr p"
proof (cases "short \<and> pbits p = int (bit_len (paddr p))")
  case False
  then have "elem_text short p = prefix_string p" by (auto simp: elem_text_def)
  moreover assume *: "prefix_ok p"
  moreover have "CHR ''/'' \<in> set (prefix_string p)" using * by (simp add: prefix_string_def prefix_ok_def)
  ultimately show ?thesis using Contains_char [of "prefix_string p" "CHR ''/''"]
    by (simp add: parsePrefixLoose_def ParsePrefix_prefix_string)
next
  case True
  assume *: "prefix_ok p"
  then have v: "is_valid (paddr p)" by (simp add: prefix_ok_def)
  have "CHR ''/'' \<notin> set (addr_string (paddr p))"
    using addr_string_chars [OF v, of "CHR ''/''"] by (auto simp: addr_char_def)
  moreover have "(if is6 (paddr p) then 128 else 32) = int (bit_len (paddr p))"
    using v by (cases "paddr p") auto
  moreover have "addr_prefix (paddr p) (int (bit_len (paddr p))) = Inr p"
    using v True by (cases p) (simp add: addr_prefix_def prefix_from_def mask_full)
  ultimately show ?thesis using True v Contains_char [of "addr_string (paddr p)" "CHR ''/''"]
    by (simp add: parsePrefixLoose_def elem_text_def ParseAddr_addr_string)
qed

lemma cut_blank_elem: "prefix_ok p \<Longrightarrow> cut_blank (elem_text short p) = elem_text short p"
  unfolding cut_blank_def using elem_text_chars addr_char_facts(6,7) by (subst takeWhile_eq_all_conv) blast

lemma space_blank: "is_space CHR '' ''"
  by (simp add: is_space_def)

lemma TrimSpace_elem:
  assumes "prefix_ok p"
  shows "TrimSpace (CHR '' '' # elem_text short p) = elem_text short p"
    and "TrimSpace (CHR '' '' # elem_text short p @ '' '') = elem_text short p"
proof -
  have "\<forall>c\<in>set (elem_text short p). \<not> is_space c"
    using elem_text_chars [OF assms] addr_char_facts(1) by blast
  from TrimSpace_core [OF elem_text_Nil [OF assms] this, of "'' ''" "[]"]
    TrimSpace_core [OF elem_text_Nil [OF assms] this, of "'' ''" "'' ''"]
  show "TrimSpace (CHR '' '' # elem_text short p) = elem_text short p"
    and "TrimSpace (CHR '' '' # elem_text short p @ '' '') = elem_text short p"
    by (simp_all add: space_blank)
qed

lemma parse_elements_printed:
  "ps \<noteq> [] \<Longrightarrow> list_all prefix_ok ps \<Longrightarrow>
     parse_elements (SplitChar CHR '','' (CHR '' '' # join_with '', '' (map (elem_text short) ps) @ '' '')) = Inr ps"
proof (induction ps)
  case (Cons p ps)
  then have p: "prefix_ok p" by simp
  have c: "CHR '','' \<notin> set (elem_text short p)" using elem_text_chars [OF p] addr_char_facts(2) by blast
  note elem = TrimSpace_elem [OF p] elem_text_Nil [OF p] parsePrefixLoose_elem [OF p] cut_blank_elem [OF p]
  show ?case
  proof (cases ps)
    case Nil
    then show ?thesis using SplitChar_none [of "CHR '',''" "CHR '' '' # elem_text short p @ '' ''"] c elem by simp
  next
    case (Cons q qs)
    have "SplitChar CHR '','' ((CHR '' '' # elem_text short p) @ CHR '','' # CHR '' '' # join_with '', '' (map (elem_text short) ps) @ '' '') =
      (CHR '' '' # elem_text short p) # SplitChar CHR '','' (CHR '' '' # join_with '', '' (map (elem_text short) ps) @ '' '')"
      by (rule SplitChar_app) (use c in simp)
    with Cons Cons.IH Cons.prems elem show ?thesis by simp
  qed
qed simp

text \<open>
  C33: the fallback parser of \<open>nft list set\<close> reads back exactly the printed elements, in
  order, whether hosts are printed with or without their length and whatever surrounds the
  element list.
\<close>

theorem parseNftSet_printed:
  assumes "Index text ''elements'' = Some i"
    and "drop i text = ''elements = { '' @ join_with '', '' (map (elem_text short) ps) @ '' }'' @ post"
    and "ps \<noteq> []" and "list_all prefix_ok ps"
  shows "parseNftSet text = Inr ps"
proof -
  let ?j = "join_with '', '' (map (elem_text short) ps)"
  have noclose: "CHR ''}'' \<notin> set ?j" if "list_all prefix_ok qs" for qs
  proof -
    have "c \<in> set (join_with '', '' (map (elem_text short) qs)) \<Longrightarrow> c = CHR '','' \<or> c = CHR '' '' \<or> addr_char c \<or> c = CHR ''/''"
      if "list_all prefix_ok qs" for c qs
      using that by (induction qs rule: induct_list012) (auto dest: elem_text_chars)
    from this [OF assms(4)] show ?thesis using addr_char_facts(4) by fastforce
  qed
  have o: "Index (drop i text) ''{'' = Some 11"
    using Index_char [of "CHR ''{''" "''elements = ''" "CHR '' '' # ?j @ '' }'' @ post"] assms(2) by simp
  have "Index ((''elements = { '' @ ?j @ '' '') @ CHR ''}'' # post) ''}'' = Some (length (''elements = { '' @ ?j @ '' ''))"
    by (rule Index_char) (use noclose [OF assms(4)] in simp)
  then have c: "Index (drop i text) ''}'' = Some (14 + length ?j)" using assms(2) by simp
  have "take (14 + length ?j - (11 + 1)) (drop (i + 11 + 1) text) = take (2 + length ?j) (drop 12 (drop i text))"
    by (simp add: add.commute)
  also have "\<dots> = CHR '' '' # ?j @ '' ''" unfolding assms(2) by simp
  finally have body: "take (14 + length ?j - (11 + 1)) (drop (i + 11 + 1) text) = CHR '' '' # ?j @ '' ''" .
  have "parseNftSet text = (if 14 + length ?j < 11 then Inr []
      else parse_elements (SplitChar CHR '','' (take (14 + length ?j - (11 + 1)) (drop (i + 11 + 1) text))))"
    by (simp only: parseNftSet_def assms(1) option.case o c prod.case)
  then show ?thesis unfolding body using parse_elements_printed [OF assms(3,4), of short] by simp
qed

theorem parseNftSet_printed_witness:
  "parseNftSet ''set d2ip_v4 { elements = { 10.0.0.0/8, 192.0.2.1 } }'' =
     Inr [Prefix (Addr4 0x0A000000) 8, Prefix (Addr4 0xC0000201) 32]"
proof (rule parseNftSet_printed)
  show "Index ''set d2ip_v4 { elements = { 10.0.0.0/8, 192.0.2.1 } }'' ''elements'' = Some 14"
    by (simp add: HasPrefix_def)
  have "elem_text True (Prefix (Addr4 0x0A000000) 8) = ''10.0.0.0/8''"
    "elem_text True (Prefix (Addr4 0xC0000201) 32) = ''192.0.2.1''"
    by code_simp+
  then show "drop 14 ''set d2ip_v4 { elements = { 10.0.0.0/8, 192.0.2.1 } }'' =
    ''elements = { '' @ join_with '', '' (map (elem_text True) [Prefix (Addr4 0x0A000000) 8, Prefix (Addr4 0xC0000201) 32]) @ '' }'' @ '' }''"
    by simp
qed (simp_all add: prefix_ok_def)

text \<open>The listing of a routing table: one line for each route, the destination first.\<close>

definition route_line :: "bool \<Rightarrow> (prefix \<Rightarrow> string) \<Rightarrow> prefix \<Rightarrow> string" where
  "route_line short tail p = elem_text short p @ tail p"

definition tail_ok :: "bool \<Rightarrow> (prefix \<Rightarrow> string) \<Rightarrow> prefix \<Rightarrow> bool" where
  "tail_ok short tail p \<longleftrightarrow> newline \<notin> set (tail p) \<and> char_of (13 :: nat) \<notin> set (tail p) \<and>
     (tail p = [] \<or> is_space (hd (tail p))) \<and> length (route_line short tail p) \<le> 65535"

lemma route_line_parses:
  assumes "prefix_ok p" and "tail_ok short tail p"
  shows "parse_route_lines (route_line short tail p # ls) f =
    (if (f = FamilyV4 \<and> is4 (paddr p)) \<or> (f = FamilyV6 \<and> \<not> is4 (paddr p)) then p # parse_route_lines ls f
     else parse_route_lines ls f)"
proof -
  let ?e = "elem_text short p"
  have ns: "\<forall>c\<in>set ?e. \<not> is_space c" using elem_text_chars [OF assms(1)] addr_char_facts(1) by blast
  have ne: "?e \<noteq> []" by (rule elem_text_Nil [OF assms(1)])
  obtain n where n: "TrimSpace (?e @ tail p) = ?e @ take n (tail p)" using TrimSpace_head [OF ne ns] by blast
  have "take n (tail p) = [] \<or> is_space (hd (take n (tail p)))"
    using assms(2) by (cases n; cases "tail p") (auto simp: tail_ok_def)
  note hd = hd_Fields [OF ne ns this]
  have "?e \<noteq> ''default''"
  proof
    assume "?e = ''default''"
    then have "CHR ''u'' \<in> set ?e" by simp
    then show False using elem_text_chars [OF assms(1), of "CHR ''u''"] by (simp add: addr_char_def hex_val_def)
  qed
  moreover have "f = FamilyV4 \<or> f = FamilyV6" by (cases f) auto
  ultimately show ?thesis
    using hd ne parsePrefixLoose_elem [OF assms(1), of short]
    by (auto simp: route_line_def n Let_def)
qed

lemma parse_route_lines_printed:
  "list_all prefix_ok ps \<Longrightarrow> list_all (tail_ok short tail) ps \<Longrightarrow>
     parse_route_lines (map (route_line short tail) ps) f = filterByFamily ps f"
  by (induction ps) (simp_all add: route_line_parses filterByFamily_def del: parse_route_lines.simps(2))

lemma printed_routes:
  assumes "list_all prefix_ok ps" and "list_all (tail_ok short tail) ps"
  shows "parseIPRouteShow (concat (map (\<lambda>p. route_line short tail p @ nl) ps)) f = (filterByFamily ps f, None)"
proof -
  let ?ls = "map (route_line short tail) ps"
  have ok: "newline \<notin> set l \<and> length l \<le> 65535 \<and> drop_cr l = l" if "l \<in> set ?ls" for l
  proof -
    from that obtain p where p: "p \<in> set ps" "l = elem_text short p @ tail p" by (auto simp: route_line_def)
    with assms have pk: "prefix_ok p" "tail_ok short tail p" by (auto simp: list_all_iff)
    have cr: "of_char c = (13 :: nat) \<Longrightarrow> c = char_of (13 :: nat)" for c by (metis char_of_char)
    have sp: "is_space (char_of (13 :: nat))" by (simp add: is_space_def)
    have "newline \<notin> set (elem_text short p)" and "char_of (13 :: nat) \<notin> set (elem_text short p)"
      using elem_text_chars [OF pk(1)] addr_char_facts(1,5) sp by blast+
    then have "newline \<notin> set l" and "char_of (13 :: nat) \<notin> set l"
      using pk(2) p(2) by (auto simp: tail_ok_def)
    moreover from this(2) have "drop_cr l = l"
      unfolding drop_cr_def using cr [of "last l"] last_in_set [of l] by auto
    ultimately show ?thesis
      using pk(2) p(2) by (simp add: tail_ok_def route_line_def)
  qed
  have "SplitChar newline (concat (map (\<lambda>p. route_line short tail p @ nl) ps)) = ?ls @ [[]]"
    using SplitChar_lines [of ?ls newline] ok by (simp add: nl_def comp_def)
  then have raw: "raw_lines (concat (map (\<lambda>p. route_line short tail p @ nl) ps)) = ?ls"
    by (simp add: raw_lines_def)
  have tw: "takeWhile (\<lambda>l. length l \<le> 65535) ?ls = ?ls" and dc: "map drop_cr ?ls = ?ls"
    using ok by (auto simp: takeWhile_eq_all_conv intro!: map_idI)
  show ?thesis
    unfolding parseIPRouteShow_def scan_lines_def Let_def raw tw dc
    using parse_route_lines_printed [OF assms, of f] by simp
qed

text \<open>
  the parser of \<open>ip route show\<close> reads back exactly the printed destinations of the asked
  family, in order and without an error, whatever the rest of each line says.
\<close>

theorem parseIPRouteShow_printed:
  assumes "list_all prefix_ok ps" and "list_all (tail_ok short tail) ps"
  shows "parseIPRouteShow (concat (map (\<lambda>p. route_line short tail p @ nl) ps)) f = (filterByFamily ps f, None)"
  by (rule printed_routes [OF assms])

theorem parseIPRouteShow_printed_witness:
  "parseIPRouteShow (''10.0.0.0/8 dev eth0 proto static'' @ nl) FamilyV4 = ([Prefix (Addr4 0x0A000000) 8], None)"
proof -
  have e: "elem_text True (Prefix (Addr4 0x0A000000) 8) = ''10.0.0.0/8''" by code_simp
  have "newline \<notin> set '' dev eth0 proto static''" "char_of (13 :: nat) \<notin> set '' dev eth0 proto static''" "is_space CHR '' ''"
    by code_simp+
  then have "list_all (tail_ok True (\<lambda>_. '' dev eth0 proto static'')) [Prefix (Addr4 0x0A000000) 8]"
    by (simp add: tail_ok_def route_line_def e)
  from parseIPRouteShow_printed [OF _ this, of FamilyV4] show ?thesis
    by (simp add: prefix_ok_def route_line_def e filterByFamily_def)
qed

section \<open>Plans of the kernel, states of the plans\<close>

lemma reconcile_set: "reconcile xs p = sorted_list_of_set (apply_plan p (set xs))"
proof -
  have "set (filter (\<lambda>x. x \<notin> set (pl_Remove p)) xs @ pl_Add p) = apply_plan p (set xs)"
    by (auto simp: apply_plan_def)
  then show ?thesis by (simp only: reconcile_def sortPrefixes_sorted distinct_keep_first_id set_keep_first_id)
qed

text \<open>
  the plan of the iproute2 router against a table whose listing prints the routes
  \<open>installed\<close> is the exact difference for the asked family, so that executing it on that
  family of the table gives the desired prefixes of the family.
\<close>

theorem ir_Plan_reaches_desired:
  assumes "exec (ipCommand r [ipFam f, ''route'', ''show'', ''table'', table_arg (ir_cfg r)]) [] k =
      (None, concat (map (\<lambda>p. route_line short tail p @ nl) installed), errb, k')"
    and "list_all prefix_ok installed" and "list_all (tail_ok short tail) installed"
  shows "\<exists>plan. ir_Plan exec r desired f k = (Inr plan, k') \<and>
    apply_plan plan (set (filterByFamily installed f)) = set (filterByFamily desired f) \<and>
    set (pl_Remove plan) \<subseteq> set installed \<and> set (pl_Add plan) \<inter> set installed = {}"
proof -
  have list: "listRoutes exec r f k = (Inr (filterByFamily installed f), k')"
    using assms(1) printed_routes [OF assms(2,3)] by (simp add: listRoutes_def)
  let ?plan = "computePlan (filterByFamily installed f) (filterByFamily desired f) f"
  have "ir_Plan exec r desired f k = (Inr ?plan, k')"
    by (simp add: ir_Plan_def list)
  then show ?thesis
    by (intro exI [of _ ?plan]) (auto simp: computePlan_difference apply_plan_def filterByFamily_def)
qed

lemma reconcile_storable:
  "list_all prefix_storable xs \<Longrightarrow> list_all prefix_storable (pl_Add p) \<Longrightarrow> list_all prefix_storable (reconcile xs p)"
  by (auto simp: reconcile_set apply_plan_def list_all_iff)

definition plan_storable :: "RouterState \<Rightarrow> Plan \<Rightarrow> bool" where
  "plan_storable st p \<longleftrightarrow> state_storable st \<and> list_all prefix_storable (pl_Add p)"

lemma reconcile_family_storable:
  "plan_storable st p \<Longrightarrow> state_storable (reconcile_family (st\<lparr> rs_Backend := b, rs_AppliedAt := t \<rparr>) p)"
  using reconcile_storable by (auto simp: plan_storable_def state_storable_def reconcile_family_def)

lemma nr_refresh_cases:
  assumes "nr_refresh_sys now r p s = (e, r', s')"
  shows "(e = None \<longrightarrow> nr_state r' = reconcile_family ((nr_state r)\<lparr> rs_Backend := BackendNFTables, rs_AppliedAt := now \<rparr>) p \<and>
      saveState (nr_statePath r) (nr_state r') (sys_fs s) = (None, sys_fs s')) \<and>
    (e \<noteq> None \<longrightarrow> r' = r \<and> (\<exists>st. saveState (nr_statePath r) st (sys_fs s) = (e, sys_fs s')))"
  using assms by (auto simp: nr_refresh_sys_def nr_refreshState_def Let_def split: prod.splits option.splits)

text \<open>
  a successful apply of the nftables router leaves in memory and on disk the old prefixes
  of the plan's family without the removed and with the added ones, sorted; on any error the
  in-memory state and the loadable state file stay as they were.
\<close>

theorem nr_Apply_state:
  assumes "nr_Apply exec now r p s = (e, r', s')" and "plan_storable (nr_state r) p"
    and "\<not> fs_fault (sys_fs s) OpRead (nr_statePath r)"
  shows "if e = None
    then loadState (sys_fs s') (nr_statePath r) = Inr (nr_Snapshot r') \<and>
      rs_V4 (nr_Snapshot r') = (if pl_Family p = FamilyV4 then sorted_list_of_set (apply_plan p (set (rs_V4 (nr_Snapshot r))))
        else rs_V4 (nr_Snapshot r)) \<and>
      rs_V6 (nr_Snapshot r') = (if pl_Family p = FamilyV4 then rs_V6 (nr_Snapshot r)
        else sorted_list_of_set (apply_plan p (set (rs_V6 (nr_Snapshot r)))))
    else nr_Snapshot r' = nr_Snapshot r \<and> loadState (sys_fs s') (nr_statePath r) = loadState (sys_fs s) (nr_statePath r)"
proof -
  have "(e \<noteq> None \<and> r' = r \<and> sys_fs s' = sys_fs s) \<or> (\<exists>k. nr_refresh_sys now r p (s\<lparr> sys_kernel := k \<rparr>) = (e, r', s'))"
    using assms(1) by (auto simp: nr_Apply_def split: prod.splits option.splits if_splits)
  then consider "e \<noteq> None" "r' = r" "sys_fs s' = sys_fs s"
    | k where "nr_refresh_sys now r p (s\<lparr> sys_kernel := k \<rparr>) = (e, r', s')" by blast
  then show ?thesis
  proof cases
    case 1
    then show ?thesis by (auto simp: nr_Snapshot_def)
  next
    case 2
    note c = nr_refresh_cases [OF this]
    show ?thesis
    proof (cases e)
      case None
      with c have st: "nr_state r' = reconcile_family ((nr_state r)\<lparr> rs_Backend := BackendNFTables, rs_AppliedAt := now \<rparr>) p"
        and sv: "saveState (nr_statePath r) (nr_state r') (sys_fs s) = (None, sys_fs s')" by auto
      have "state_storable (nr_state r')" unfolding st by (rule reconcile_family_storable [OF assms(2)])
      with saveState_ok [OF sv] assms(3) have "loadState (sys_fs s') (nr_statePath r) = Inr (nr_state r')" by simp
      then show ?thesis using None st by (simp add: nr_Snapshot_def reconcile_family_def reconcile_set)
    next
      case (Some m)
      with c show ?thesis using saveState_error by (auto simp: nr_Snapshot_def)
    qed
  qed
qed

text \<open>
  in dry-run mode the iproute2 router runs no command, and still records the plan as
  applied: the state file afterwards lists prefixes the kernel was never asked to install.
\<close>

theorem ir_dry_run_records:
  assumes "ir_Apply exec now r p s = (None, r', s')" and "pol_DryRun (ir_cfg r)"
    and "plan_storable (ir_state r) p" and "\<not> fs_fault (sys_fs s) OpRead (ir_statePath r)"
    and "pl_Family p = FamilyV4"
  shows "sys_kernel s' = sys_kernel s \<and>
    (\<exists>st. loadState (sys_fs s') (ir_statePath r) = Inr st \<and> set (pl_Add p) \<subseteq> set (rs_V4 st))"
proof -
  from assms(1,2) have rf: "ir_refresh_sys now r p s = (None, r', s')"
    by (auto simp: ir_Apply_def Let_def split: if_splits)
  let ?st = "reconcile_family ((ir_state r)\<lparr> rs_Backend := BackendIProute2, rs_AppliedAt := now \<rparr>) p"
  from rf have sv: "saveState (ir_statePath r) ?st (sys_fs s) = (None, sys_fs s')" and k: "sys_kernel s' = sys_kernel s"
    by (auto simp: ir_refresh_sys_def ir_refreshState_def Let_def split: prod.splits option.splits)
  have "loadState (sys_fs s') (ir_statePath r) = Inr ?st"
    by (rule saveState_ok [OF sv reconcile_family_storable [OF assms(3)] assms(4)])
  moreover have "set (pl_Add p) \<subseteq> set (rs_V4 ?st)"
    using assms(5) by (auto simp: reconcile_family_def reconcile_set apply_plan_def)
  ultimately show ?thesis using k by blast
qed

definition example_ir :: iproute2Router where
  "example_ir = newIProute2Router (example_policy\<lparr> pol_DryRun := True \<rparr>) ''/state.json'' empty_fs"

definition example_nr :: nftRouter where
  "example_nr = newNFTRouter example_policy ''/state.json'' empty_fs"

definition example_plan :: Plan where
  "example_plan = \<lparr> pl_Family = FamilyV4, pl_Add = [ex_v4], pl_Remove = [] \<rparr>"

definition exec_sim :: "string \<Rightarrow> nat executor" where
  "exec_sim out cmd stdin k = (None, out, [], k + 1)"

definition example_sys :: "nat sys" where
  "example_sys = \<lparr> sys_fs = empty_fs, sys_kernel = 0 \<rparr>"

lemma example_storable: "plan_storable zero_state example_plan"
  by (simp add: plan_storable_def state_storable_def zero_state_def example_plan_def prefix_storable_def prefix_ok_def)

lemma example_states: "ir_state example_ir = zero_state" "nr_state example_nr = zero_state"
  by (simp_all add: example_ir_def example_nr_def newIProute2Router_def newNFTRouter_def loadState_def ReadFile_def
      empty_fs_def state_or_zero_def)

theorem ir_Plan_reaches_desired_witness:
  "\<exists>plan. ir_Plan (exec_sim (''10.0.0.0/8 dev eth0'' @ nl)) example_ir [ex_v6] FamilyV4 0 = (Inr plan, 1) \<and>
    apply_plan plan {ex_v4} = {}"
proof -
  have e: "elem_text True ex_v4 = ''10.0.0.0/8''" by code_simp
  have "newline \<notin> set '' dev eth0''" "char_of (13 :: nat) \<notin> set '' dev eth0''" "is_space CHR '' ''"
    by code_simp+
  then have t: "list_all (tail_ok True (\<lambda>_. '' dev eth0'')) [ex_v4]"
    by (simp add: tail_ok_def route_line_def e)
  have x: "exec_sim (''10.0.0.0/8 dev eth0'' @ nl) c [] 0 =
      (None, concat (map (\<lambda>p. route_line True (\<lambda>_. '' dev eth0'') p @ nl) [ex_v4]), [], 1)" for c
    by (simp add: exec_sim_def route_line_def e)
  have ok: "list_all prefix_ok [ex_v4]" by (simp add: prefix_ok_def)
  show ?thesis
    using ir_Plan_reaches_desired [where r = example_ir and f = FamilyV4 and desired = "[ex_v6]" and short = True
        and exec = "exec_sim (''10.0.0.0/8 dev eth0'' @ nl)" and tail = "\<lambda>_. '' dev eth0''" and installed = "[ex_v4]",
        OF x [of "ipCommand example_ir [ipFam FamilyV4, ''route'', ''show'', ''table'', table_arg (ir_cfg example_ir)]"] ok t]
    by (simp add: filterByFamily_def) blast
qed

theorem nr_Apply_state_witness:
  "loadState (sys_fs (snd (snd (nr_Apply (exec_sim []) 5 example_nr example_plan example_sys)))) ''/state.json'' =
     Inr (nr_Snapshot (fst (snd (nr_Apply (exec_sim []) 5 example_nr example_plan example_sys))))"
proof -
  let ?r = "nr_Apply (exec_sim []) 5 example_nr example_plan example_sys"
  have "fst ?r = None"
    by (simp add: nr_Apply_def ensureTable_def runScript_def exec_sim_def nr_refresh_sys_def nr_refreshState_def
        saveState_def replace_file_def WriteFile_def Rename_def MkdirAll_def example_sys_def empty_fs_def
        example_nr_def newNFTRouter_def Let_def split: prod.splits)
  then have "?r = (None, fst (snd ?r), snd (snd ?r))" by (metis prod.collapse)
  from nr_Apply_state [OF this] example_storable show ?thesis
    by (simp add: example_states example_sys_def empty_fs_def) (simp add: example_nr_def newNFTRouter_def)
qed

theorem ir_dry_run_records_witness:
  "\<exists>st. loadState (sys_fs (snd (snd (ir_Apply (exec_sim []) 5 example_ir example_plan example_sys)))) ''/state.json'' = Inr st \<and>
     ex_v4 \<in> set (rs_V4 st)"
proof -
  let ?r = "ir_Apply (exec_sim []) 5 example_ir example_plan example_sys"
  have "fst ?r = None"
    by (simp add: ir_Apply_def ir_refresh_sys_def ir_refreshState_def
        saveState_def replace_file_def WriteFile_def Rename_def MkdirAll_def example_sys_def empty_fs_def
        example_ir_def newIProute2Router_def example_policy_def example_plan_def Empty_def Let_def)
  then have r: "?r = (None, fst (snd ?r), snd (snd ?r))" by (metis prod.collapse)
  have "pol_DryRun (ir_cfg example_ir)" "ir_statePath example_ir = ''/state.json''"
    by (simp_all add: example_ir_def newIProute2Router_def)
  with ir_dry_run_records [OF r] example_storable show ?thesis
    by (simp add: example_states example_sys_def empty_fs_def) (auto simp: example_plan_def)
qed

end
