(* ===== verification/Store.thy ===== *)
theory Store
  imports Routing
begin

text \<open>
  The local copy of a downloaded data file (\<open>internal/source/store.go\<close>): conditional requests,
  the fallback to the cached file, the atomic replacement and the metadata sidecar. The server
  is a function from the conditional headers to an answer, the digest a function of the
  content. The zero time is 0.
\<close>

section \<open>Types\<close>

record Version =
  sv_SHA256 :: string
  sv_Size :: int
  sv_FetchedAt :: int
  sv_ETag :: string
  sv_LastModified :: string

definition zero_version :: Version where
  "zero_version = \<lparr> sv_SHA256 = [], sv_Size = 0, sv_FetchedAt = 0, sv_ETag = [], sv_LastModified = [] \<rparr>"

record HTTPStore =
  hs_url :: string
  hs_cachePath :: string
  hs_timeout :: duration
  hs_current :: Version

record req_headers =
  rq_IfNoneMatch :: "string option"
  rq_IfModifiedSince :: "string option"

record response =
  rp_Status :: int
  rp_Body :: "string \<times> error option"
  rp_ETag :: string
  rp_LastModified :: string

text \<open>The address is not a URL, the request fails, or the server answers.\<close>

datatype http_outcome = BadRequest error | NoAnswer error | Answer response

type_synonym server = "req_headers \<Rightarrow> http_outcome"

section \<open>Metadata\<close>

definition marshal_version :: "Version \<Rightarrow> anyv" where
  "marshal_version v = VMap
     ([(''sha256'', VStr (sv_SHA256 v)), (''size'', VInt (sv_Size v)), (''fetched_at'', VInt (sv_FetchedAt v))] @
      (if sv_ETag v = [] then [] else [(''etag'', VStr (sv_ETag v))]) @
      (if sv_LastModified v = [] then [] else [(''last_modified'', VStr (sv_LastModified v))]))"

fun unmarshal_version :: "anyv \<Rightarrow> Version result" where
  "unmarshal_version (VMap kvs) =
     bind_result (decode_string (map_of kvs ''sha256'')) (\<lambda>d.
     bind_result (decode_time (map_of kvs ''size'')) (\<lambda>n.
     bind_result (decode_time (map_of kvs ''fetched_at'')) (\<lambda>t.
     bind_result (decode_string (map_of kvs ''etag'')) (\<lambda>e.
     bind_result (decode_string (map_of kvs ''last_modified'')) (\<lambda>m.
       Inr \<lparr> sv_SHA256 = d, sv_Size = n, sv_FetchedAt = t, sv_ETag = e, sv_LastModified = m \<rparr>)))))"
| "unmarshal_version VNull = Inr zero_version"
| "unmarshal_version _ = Inl ''json: cannot unmarshal into source.Version''"

definition meta_path :: "string \<Rightarrow> string" where
  "meta_path cachePath = cachePath @ ''.meta.json''"

text \<open>
  \<open>loadMetadata\<close> prints the first 16 characters of the digest it read; a shorter one is an index
  out of range, which ends the program.
\<close>

datatype 'a run = Returns 'a | Panics error

definition loadMetadata :: "fs \<Rightarrow> HTTPStore \<Rightarrow> (error option \<times> HTTPStore) run" where
  "loadMetadata s st =
     (case ReadFile s (meta_path (hs_cachePath st)) of
        Inl _ \<Rightarrow> Returns (Some ''read metadata'', st)
      | Inr (FText _) \<Rightarrow> Returns (Some ''json: invalid'', st)
      | Inr (FJson j) \<Rightarrow>
          (case unmarshal_version j of
             Inl e \<Rightarrow> Returns (Some e, st)
           | Inr v \<Rightarrow>
               if length (sv_SHA256 v) < 16 then Panics ''slice bounds out of range''
               else Returns (None, st\<lparr> hs_current := v \<rparr>)))"

definition saveMetadata :: "HTTPStore \<Rightarrow> fs \<Rightarrow> error option \<times> fs" where
  "saveMetadata st s = WriteFile (meta_path (hs_cachePath st)) (FJson (marshal_version (hs_current st))) s"

definition NewHTTPStore :: "string \<Rightarrow> string \<Rightarrow> duration \<Rightarrow> fs \<Rightarrow> HTTPStore result run" where
  "NewHTTPStore url cachePath timeout s =
     (if url = [] then Returns (Inl ''source: url cannot be empty'')
      else if cachePath = [] then Returns (Inl ''source: cachePath cannot be empty'')
      else
        let st = \<lparr> hs_url = url, hs_cachePath = cachePath, hs_timeout = timeout, hs_current = zero_version \<rparr>
        in case loadMetadata s st of Panics e \<Rightarrow> Panics e | Returns (_, st') \<Rightarrow> Returns (Inr st'))"

section \<open>Fetching\<close>

definition Stat :: "fs \<Rightarrow> string \<Rightarrow> bool" where
  "Stat s p \<longleftrightarrow> fs_files s p \<noteq> None \<and> \<not> fs_fault s OpRead p"

definition store_fallback :: "error \<Rightarrow> HTTPStore \<Rightarrow> fs \<Rightarrow> (string \<times> Version) result" where
  "store_fallback e st s = (if Stat s (hs_cachePath st) then Inr (hs_cachePath st, hs_current st) else Inl e)"

text \<open>
  \<open>downloadToFile\<close>: a body that breaks off leaves what was received, a full disk an empty file.
\<close>

definition downloadToFile :: "string \<times> error option \<Rightarrow> error option \<Rightarrow> string \<Rightarrow> fs \<Rightarrow> error option \<times> fs" where
  "downloadToFile body sync_err p s =
     (case MkdirAll s (Dir p) of
        Some e \<Rightarrow> (Some e, s)
      | None \<Rightarrow>
          (case WriteFile p (FText (fst body)) s of
             (Some e, s1) \<Rightarrow> (Some e, s1)
           | (None, s1) \<Rightarrow>
               (case snd body of Some e \<Rightarrow> (Some e, s1) | None \<Rightarrow> (sync_err, s1))))"

definition request_headers :: "Version \<Rightarrow> req_headers" where
  "request_headers v = \<lparr> rq_IfNoneMatch = (if sv_ETag v \<noteq> [] then Some (sv_ETag v) else None),
     rq_IfModifiedSince = (if sv_LastModified v \<noteq> [] then Some (sv_LastModified v) else None) \<rparr>"

definition fetchLocked ::
    "(string \<Rightarrow> string) \<Rightarrow> server \<Rightarrow> error option \<Rightarrow> int \<Rightarrow> HTTPStore \<Rightarrow> fs \<Rightarrow> (string \<times> Version) result \<times> HTTPStore \<times> fs" where
  "fetchLocked sha srv sync_err now st s =
     (case srv (request_headers (hs_current st)) of
        BadRequest e \<Rightarrow> (store_fallback (''source: create request: '' @ e) st s, st, s)
      | NoAnswer e \<Rightarrow> (store_fallback (''source: http request: '' @ e) st s, st, s)
      | Answer resp \<Rightarrow>
          if rp_Status resp = 304 then
            (if Stat s (hs_cachePath st) then Inr (hs_cachePath st, hs_current st)
             else Inl ''source: 304 response but no local file'', st, s)
          else if rp_Status resp \<noteq> 200 then
            (store_fallback (''source: http '' @ show_int (rp_Status resp) @ '' from '' @ hs_url st) st s, st, s)
          else
            let tempPath = hs_cachePath st @ ''.tmp'' in
            (case downloadToFile (rp_Body resp) sync_err tempPath s of
               (Some e, s1) \<Rightarrow>
                 (let s2 = snd (Remove tempPath s1) in (store_fallback (''source: download failed: '' @ e) st s2, st, s2))
             | (None, s1) \<Rightarrow>
                 (case Rename tempPath (hs_cachePath st) s1 of
                    (Some e, s2) \<Rightarrow>
                      (let s3 = snd (Remove tempPath s2) in (store_fallback (''source: atomic rename failed: '' @ e) st s3, st, s3))
                  | (None, s2) \<Rightarrow>
                      let body = fst (rp_Body resp);
                          st1 = st\<lparr> hs_current := \<lparr> sv_SHA256 = sha body, sv_Size = int (length body), sv_FetchedAt = now,
                                     sv_ETag = rp_ETag resp, sv_LastModified = rp_LastModified resp \<rparr> \<rparr>;
                          s3 = snd (saveMetadata st1 s2)
                      in (Inr (hs_cachePath st, hs_current st1), st1, s3))))"

definition store_Get ::
    "(string \<Rightarrow> string) \<Rightarrow> server \<Rightarrow> error option \<Rightarrow> int \<Rightarrow> duration \<Rightarrow> HTTPStore \<Rightarrow> fs \<Rightarrow> (string \<times> Version) result \<times> HTTPStore \<times> fs" where
  "store_Get sha srv sync_err now maxAge st s =
     (if maxAge = 0 then
        ((if Stat s (hs_cachePath st) then Inr (hs_cachePath st, hs_current st)
          else Inl ''source: no cached file available''), st, s)
      else if sv_FetchedAt (hs_current st) \<noteq> 0 \<and> now - sv_FetchedAt (hs_current st) < maxAge \<and> Stat s (hs_cachePath st) then
        (Inr (hs_cachePath st, hs_current st), st, s)
      else fetchLocked sha srv sync_err now st s)"

definition ForceRefresh ::
    "(string \<Rightarrow> string) \<Rightarrow> server \<Rightarrow> error option \<Rightarrow> int \<Rightarrow> HTTPStore \<Rightarrow> fs \<Rightarrow> (string \<times> Version) result \<times> HTTPStore \<times> fs" where
  "ForceRefresh sha srv sync_err now st s = fetchLocked sha srv sync_err now st s"

definition store_Info :: "HTTPStore \<Rightarrow> Version" where
  "store_Info st = hs_current st"

section \<open>Facts\<close>

lemma unmarshal_marshal_version: "unmarshal_version (marshal_version v) = Inr v"
  by (cases v) (simp add: marshal_version_def)

text \<open>The recorded digest is that of the file, where there is a file.\<close>

definition digest_matches :: "(string \<Rightarrow> string) \<Rightarrow> HTTPStore \<Rightarrow> fs \<Rightarrow> bool" where
  "digest_matches sha st s \<longleftrightarrow>
     (\<forall>c. fs_files s (hs_cachePath st) = Some (FText c) \<longrightarrow> sv_SHA256 (hs_current st) = sha c)"

lemma other_paths [simp]: "p @ ''.tmp'' \<noteq> meta_path p" "meta_path p \<noteq> p" "p \<noteq> meta_path p" "meta_path p \<noteq> p @ ''.tmp''"
  by (simp_all add: meta_path_def)

lemma download_other:
  assumes "downloadToFile body sync_err p s = (e, s1)"
  shows "q \<noteq> p \<Longrightarrow> fs_files s1 q = fs_files s q" and "fs_fault s1 = fs_fault s"
    and "e = None \<Longrightarrow> fs_files s1 p = Some (FText (fst body)) \<and> snd body = None"
proof -
  have w: "fs_fault s' = fs_fault s" "q \<noteq> p \<Longrightarrow> fs_files s' q = fs_files s q" if "WriteFile p c s = (r, s')" for r s' c q
    using that fs_fault_ops(1) [of p c s] WriteFile_other [of q p c s] by simp_all
  show "q \<noteq> p \<Longrightarrow> fs_files s1 q = fs_files s q" and "fs_fault s1 = fs_fault s"
    using assms w by (auto simp: downloadToFile_def split: option.splits prod.splits)
  show "e = None \<Longrightarrow> fs_files s1 p = Some (FText (fst body)) \<and> snd body = None"
    using assms by (auto simp: downloadToFile_def dest!: WriteFile_ok split: option.splits prod.splits)
qed

lemma Rename_error: "Rename a b s = (Some e, s') \<Longrightarrow> s' = s"
  by (auto simp: Rename_def split: if_splits option.splits)

lemma fallback_ok: "store_fallback e st s = Inr (p, v) \<Longrightarrow> p = hs_cachePath st \<and> fs_files s p \<noteq> None \<and> v = hs_current st"
  by (auto simp: store_fallback_def Stat_def split: if_splits)

lemma fallback_kept: "store_fallback e st s = Inr (p, v) \<Longrightarrow> p = hs_cachePath st \<and> fs_files s p \<noteq> None"
  using fallback_ok by blast

text \<open>The outcome of a fetch: nothing changed but the temporary file, or the whole new body.\<close>

lemma fetch_cases:
  assumes "fetchLocked sha srv sync_err now st s = (r, st', s')"
  obtains (kept) "st' = st" and "fs_files s' (hs_cachePath st) = fs_files s (hs_cachePath st)"
      and "\<And>p v. r = Inr (p, v) \<Longrightarrow> p = hs_cachePath st \<and> fs_files s' p \<noteq> None"
  | (fresh) resp body where "srv (request_headers (hs_current st)) = Answer resp" and "rp_Status resp = 200" and "rp_Body resp = (body, None)"
      and "fs_files s' (hs_cachePath st) = Some (FText body)" and "hs_cachePath st' = hs_cachePath st"
      and "sv_SHA256 (hs_current st') = sha body" and "r = Inr (hs_cachePath st, hs_current st')"
proof (cases "\<exists>resp. srv (request_headers (hs_current st)) = Answer resp \<and> rp_Status resp = 200")
  case False
  show ?thesis
  proof (rule kept)
    show "st' = st" "fs_files s' (hs_cachePath st) = fs_files s (hs_cachePath st)"
      using assms False by (auto simp: fetchLocked_def split: http_outcome.splits if_splits)
    show "p = hs_cachePath st \<and> fs_files s' p \<noteq> None" if "r = Inr (p, v)" for p v
      using assms False that by (auto simp: fetchLocked_def Stat_def dest!: fallback_ok split: http_outcome.splits if_splits)
  qed
next
  case True
  then obtain resp where resp: "srv (request_headers (hs_current st)) = Answer resp" "rp_Status resp = 200" by blast
  let ?tmp = "hs_cachePath st @ ''.tmp''"
  obtain e s1 where d: "downloadToFile (rp_Body resp) sync_err ?tmp s = (e, s1)" by (rule prod.exhaust)
  have keep1: "fs_files s1 (hs_cachePath st) = fs_files s (hs_cachePath st)" by (rule download_other(1) [OF d]) simp
  show ?thesis
  proof (cases e)
    case (Some e1)
    let ?s2 = "snd (Remove ?tmp s1)"
    have r: "(r, st', s') = (store_fallback (''source: download failed: '' @ e1) st ?s2, st, ?s2)"
      unfolding assms [symmetric] using resp d Some by (simp add: fetchLocked_def Let_def)
    have "fs_files ?s2 (hs_cachePath st) = fs_files s (hs_cachePath st)" using keep1 Remove_other [of "hs_cachePath st" ?tmp s1] by simp
    moreover have "p = hs_cachePath st \<and> fs_files ?s2 p \<noteq> None" if "r = Inr (p, v)" for p v
      by (rule fallback_kept [of "''source: download failed: '' @ e1" st ?s2 p v]) (use r that in simp)
    ultimately show ?thesis using r by (intro kept) simp_all
  next
    case None
    obtain e2 s2 where n: "Rename ?tmp (hs_cachePath st) s1 = (e2, s2)" by (rule prod.exhaust)
    show ?thesis
    proof (cases e2)
      case (Some e1)
      let ?s3 = "snd (Remove ?tmp s2)"
      have r: "(r, st', s') = (store_fallback (''source: atomic rename failed: '' @ e1) st ?s3, st, ?s3)"
        unfolding assms [symmetric] using resp d None n Some by (simp add: fetchLocked_def Let_def)
      have "s2 = s1" using n Some Rename_error by simp
      then have "fs_files ?s3 (hs_cachePath st) = fs_files s (hs_cachePath st)" using keep1 Remove_other [of "hs_cachePath st" ?tmp s2] by simp
      moreover have "p = hs_cachePath st \<and> fs_files ?s3 p \<noteq> None" if "r = Inr (p, v)" for p v
        by (rule fallback_kept [of "''source: atomic rename failed: '' @ e1" st ?s3 p v]) (use r that in simp)
      ultimately show ?thesis using r by (intro kept) simp_all
    next
      case None': None
      let ?st1 = "st\<lparr> hs_current := \<lparr> sv_SHA256 = sha (fst (rp_Body resp)), sv_Size = int (length (fst (rp_Body resp))), sv_FetchedAt = now,
          sv_ETag = rp_ETag resp, sv_LastModified = rp_LastModified resp \<rparr> \<rparr>"
      have r: "(r, st', s') = (Inr (hs_cachePath st, hs_current ?st1), ?st1, snd (saveMetadata ?st1 s2))"
        unfolding assms [symmetric] using resp d None n None' by (simp add: fetchLocked_def Let_def)
      have tmp: "fs_files s1 ?tmp = Some (FText (fst (rp_Body resp)))" "snd (rp_Body resp) = None"
        using download_other(3) [OF d None] by simp_all
      have "fs_files s2 (hs_cachePath st) = Some (FText (fst (rp_Body resp)))"
        using n None' tmp(1) by (auto simp: Rename_def split: if_splits)
      then have "fs_files (snd (saveMetadata ?st1 s2)) (hs_cachePath st) = Some (FText (fst (rp_Body resp)))"
        unfolding saveMetadata_def by (subst WriteFile_other) simp_all
      with r resp tmp(2) show ?thesis by (intro fresh [of resp "fst (rp_Body resp)"]) (auto simp: prod_eq_iff)
    qed
  qed
qed

section \<open>Properties\<close>


text \<open>
  once the cached file is gone while its entity tag is still recorded, a server that answers
  304 to the conditional request makes every \<open>Get\<close> fail and nothing ever changes: the tag is
  sent again each time.
\<close>

theorem store_304_stuck:
  assumes "fs_files s (hs_cachePath st) = None" and "maxAge \<noteq> 0"
    and "srv (request_headers (hs_current st)) = Answer resp" and "rp_Status resp = 304"
  shows "((\<lambda>(r :: (string \<times> Version) result, st, s). store_Get sha srv sync_err now maxAge st s) ^^ Suc n) (Inr ([], zero_version), st, s) =
    (Inl ''source: 304 response but no local file'', st, s)"
proof -
  have one: "store_Get sha srv sync_err now maxAge st s = (Inl ''source: 304 response but no local file'', st, s)"
    using assms by (simp add: store_Get_def fetchLocked_def Stat_def)
  show ?thesis by (induction n) (simp_all only: funpow.simps comp_apply id_apply prod.case one)
qed

text \<open>a metadata file whose digest has fewer than 16 characters ends the program when the store is opened.\<close>

theorem short_digest_panics:
  assumes "url \<noteq> []" and "cachePath \<noteq> []" and "ReadFile s (meta_path cachePath) = Inr (FJson j)"
    and "unmarshal_version j = Inr v" and "length (sv_SHA256 v) < 16"
  shows "NewHTTPStore url cachePath timeout s = Panics ''slice bounds out of range''"
  using assms by (simp add: NewHTTPStore_def loadMetadata_def)

section \<open>Witnesses\<close>

definition ex_body :: response where
  "ex_body = \<lparr> rp_Status = 200, rp_Body = (''data'', None), rp_ETag = ''e1'', rp_LastModified = [] \<rparr>"

definition ex_server :: server where
  "ex_server h = Answer (if rq_IfNoneMatch h = Some ''e1'' then ex_body\<lparr> rp_Status := 304, rp_Body := ([], None) \<rparr> else ex_body)"

definition ex_store :: "Version \<Rightarrow> HTTPStore" where
  "ex_store v = \<lparr> hs_url = ''http://x'', hs_cachePath = ''d/dlc.dat'', hs_timeout = 30 * Second, hs_current = v \<rparr>"

definition no_files :: fs where
  "no_files = \<lparr> fs_files = Map.empty, fs_fault = (\<lambda>_ _. False) \<rparr>"


theorem store_304_stuck_witness:
  "((\<lambda>(r :: (string \<times> Version) result, st, s). store_Get id ex_server None 5 1 st s) ^^ Suc 3) (Inr ([], zero_version), ex_store (zero_version\<lparr> sv_ETag := ''e1'' \<rparr>), no_files) =
    (Inl ''source: 304 response but no local file'', ex_store (zero_version\<lparr> sv_ETag := ''e1'' \<rparr>), no_files)"
  by (rule store_304_stuck [where resp = "ex_body\<lparr> rp_Status := 304, rp_Body := ([], None) \<rparr>"])
     (simp_all add: no_files_def ex_server_def ex_store_def request_headers_def)

theorem short_digest_panics_witness:
  "NewHTTPStore ''http://x'' ''d'' 0 (no_files\<lparr> fs_files := [''d.meta.json'' \<mapsto> FJson (VMap [])] \<rparr>) = Panics ''slice bounds out of range''"
  by (rule short_digest_panics [where j = "VMap []" and v = zero_version])
     (simp_all add: no_files_def ReadFile_def meta_path_def zero_version_def)

end
