(* ===== verification/Domainlist.thy ===== *)
theory Domainlist
  imports Config "HOL-Library.AList" "HOL-Library.Char_ord" "HOL-Library.List_Lexorder"
begin

text \<open>
  The domain lists of \<open>dlc.dat\<close> (\<open>internal/domainlist\<close>): categories, attribute filters, the
  conversion and normalisation of rules. The protobuf messages are records; decoding the file
  and the conversion of international names to ASCII are arguments.
\<close>

section \<open>Messages\<close>

datatype pb_type = Domain_Plain | Domain_Regex | Domain_RootDomain | Domain_Full | Domain_Other int

datatype attr_value = BoolValue bool | IntValue int | NoValue

record pb_domain =
  dm_Type :: pb_type
  dm_Value :: string
  dm_Attribute :: "(string \<times> attr_value) list"

record geosite =
  gs_CountryCode :: string
  gs_Domain :: "pb_domain list"

section \<open>types.go\<close>

datatype RuleType = RuleFull | RuleRootDomain | RulePlain | RuleRegex

fun RuleType_code :: "RuleType \<Rightarrow> nat" where
  "RuleType_code RuleFull = 0"
| "RuleType_code RuleRootDomain = 1"
| "RuleType_code RulePlain = 2"
| "RuleType_code RuleRegex = 3"

fun RuleType_String :: "RuleType \<Rightarrow> string" where
  "RuleType_String RuleFull = ''full''"
| "RuleType_String RuleRootDomain = ''root''"
| "RuleType_String RulePlain = ''plain''"
| "RuleType_String RuleRegex = ''regex''"

definition IsResolvable :: "RuleType \<Rightarrow> bool" where
  "IsResolvable t \<longleftrightarrow> t = RuleFull \<or> t = RuleRootDomain"

record Rule =
  ru_Type :: RuleType
  ru_Value :: string
  ru_Attrs :: "(string \<times> attr_value) list"
  ru_Cat :: string

record CategorySelector =
  sel_Code :: string
  sel_Attrs :: "string list"

section \<open>normalize.go\<close>

type_synonym idna = "string \<Rightarrow> string result"

definition normalizeDomain :: "idna \<Rightarrow> string \<Rightarrow> string" where
  "normalizeDomain toASCII domain =
     (let d = TrimSuffix (ToLower domain) ''.''
      in case toASCII d of Inl _ \<Rightarrow> d | Inr punycode \<Rightarrow> punycode)"

section \<open>parser.go\<close>

text \<open>The map of the attributes with a value, the last one of a key.\<close>

fun attr_map :: "(string \<times> attr_value) list \<Rightarrow> (string \<times> attr_value) list" where
  "attr_map attrs = fold (\<lambda>(k, v) m. if v = NoValue then m else AList.update k v m) attrs []"

fun truthy :: "attr_value option \<Rightarrow> bool" where
  "truthy (Some (BoolValue b)) = b"
| "truthy (Some (IntValue i)) = (i \<noteq> 0)"
| "truthy _ = False"

definition matchesAttrs :: "pb_domain \<Rightarrow> string list \<Rightarrow> bool" where
  "matchesAttrs domain requiredAttrs \<longleftrightarrow>
     (if requiredAttrs = [] then True
      else let attrs = attr_map (dm_Attribute domain) in list_all (\<lambda>key. truthy (map_of attrs key)) requiredAttrs)"

fun rule_type :: "pb_type \<Rightarrow> RuleType" where
  "rule_type Domain_Full = RuleFull"
| "rule_type Domain_RootDomain = RuleRootDomain"
| "rule_type Domain_Plain = RulePlain"
| "rule_type Domain_Regex = RuleRegex"
| "rule_type (Domain_Other _) = RuleFull"

definition convertDomain :: "idna \<Rightarrow> pb_domain \<Rightarrow> string \<Rightarrow> Rule" where
  "convertDomain toASCII domain category =
     (let ruleType = rule_type (dm_Type domain);
          value = (if ruleType = RuleFull \<or> ruleType = RuleRootDomain then normalizeDomain toASCII (dm_Value domain) else dm_Value domain)
      in \<lparr> ru_Type = ruleType, ru_Value = value, ru_Attrs = attr_map (dm_Attribute domain), ru_Cat = category \<rparr>)"

definition rule_key :: "Rule \<Rightarrow> string" where
  "rule_key r = show_nat (RuleType_code (ru_Type r)) @ '':'' @ ru_Value r"

definition deduplicate :: "Rule list \<Rightarrow> Rule list" where
  "deduplicate rules = keep_first rule_key rules"

text \<open>The provider: its map of categories, in some order of the keys.\<close>

type_synonym dl_provider = "(string \<times> geosite) list"

definition NewProvider :: dl_provider where
  "NewProvider = []"

definition dl_load :: "geosite list \<Rightarrow> dl_provider" where
  "dl_load entries = fold (\<lambda>site m. AList.update (ToLower (gs_CountryCode site)) site m) entries []"

definition dl_Categories :: "dl_provider \<Rightarrow> string list" where
  "dl_Categories p = sort (map fst p)"

fun select_rules :: "idna \<Rightarrow> dl_provider \<Rightarrow> CategorySelector list \<Rightarrow> Rule list result" where
  "select_rules toASCII p [] = Inr []"
| "select_rules toASCII p (sel # sels) =
     (let code = TrimPrefix (ToLower (sel_Code sel)) ''geosite:'' in
      case map_of p code of
        None \<Rightarrow> Inl (''domainlist: unknown category '' @ sel_Code sel)
      | Some site \<Rightarrow>
          bind_result (select_rules toASCII p sels) (\<lambda>rest.
            Inr (map (\<lambda>d. convertDomain toASCII d code) (filter (\<lambda>d. matchesAttrs d (sel_Attrs sel)) (gs_Domain site)) @ rest)))"

definition Select :: "idna \<Rightarrow> dl_provider \<Rightarrow> CategorySelector list \<Rightarrow> Rule list result" where
  "Select toASCII p sels = bind_result (select_rules toASCII p sels) (\<lambda>rules. Inr (deduplicate rules))"

section \<open>Facts\<close>

lemma show_code: "show_nat (RuleType_code t) = [digit_char (RuleType_code t)]"
  by (cases t) (simp_all add: show_nat_def show_base.simps)

text \<open>The printed key identifies the type and the value.\<close>

lemma rule_key_eq: "rule_key r = rule_key r' \<longleftrightarrow> ru_Type r = ru_Type r' \<and> ru_Value r = ru_Value r'"
proof -
  have "digit_char (RuleType_code t) = digit_char (RuleType_code t') \<longleftrightarrow> t = t'" for t t'
    by (cases t; cases t') (simp_all add: digit_char_def)
  then show ?thesis by (auto simp: rule_key_def show_code)
qed

lemma deduplicate_keys: "(\<lambda>r. (ru_Type r, ru_Value r)) ` set (deduplicate rules) = (\<lambda>r. (ru_Type r, ru_Value r)) ` set rules"
proof (intro equalityI subsetI)
  fix x assume "x \<in> (\<lambda>r. (ru_Type r, ru_Value r)) ` set (deduplicate rules)"
  then show "x \<in> (\<lambda>r. (ru_Type r, ru_Value r)) ` set rules"
    using keep_first_subset [of rule_key rules] by (auto simp: deduplicate_def)
next
  fix x assume "x \<in> (\<lambda>r. (ru_Type r, ru_Value r)) ` set rules"
  then obtain r where r: "r \<in> set rules" "x = (ru_Type r, ru_Value r)" by auto
  then have "rule_key r \<in> rule_key ` set (keep_first rule_key rules)" by (simp add: keep_first_keys)
  then obtain r' where "r' \<in> set (deduplicate rules)" "rule_key r' = rule_key r" by (auto simp: deduplicate_def)
  moreover from this(2) r(2) have "x = (ru_Type r', ru_Value r')" by (simp add: rule_key_eq)
  ultimately show "x \<in> (\<lambda>r. (ru_Type r, ru_Value r)) ` set (deduplicate rules)" by (intro image_eqI [of _ _ r']) simp_all
qed

lemma deduplicate_distinct: "distinct (map (\<lambda>r. (ru_Type r, ru_Value r)) (deduplicate rules))"
proof -
  have "distinct (map rule_key (deduplicate rules))" by (simp add: deduplicate_def keep_first_distinct)
  then show ?thesis by (auto simp: distinct_map inj_on_def rule_key_eq)
qed

lemma dl_load_keys: "distinct (map fst (dl_load entries)) \<and> fst ` set (dl_load entries) = (ToLower \<circ> gs_CountryCode) ` set entries"
proof -
  have "distinct (map fst (fold (\<lambda>site m. AList.update (ToLower (gs_CountryCode site)) site m) entries m)) \<and>
      fst ` set (fold (\<lambda>site m. AList.update (ToLower (gs_CountryCode site)) site m) entries m) =
        (ToLower \<circ> gs_CountryCode) ` set entries \<union> fst ` set m" if "distinct (map fst m)" for m
    using that
  proof (induction entries arbitrary: m)
    case (Cons e entries)
    have "distinct (map fst (AList.update (ToLower (gs_CountryCode e)) e m))"
      using Cons.prems by (rule distinct_update)
    from Cons.IH [OF this] show ?case by (simp add: dom_update)
  qed simp
  from this [of "[]"] show ?thesis by (simp add: dl_load_def)
qed

end
