(* ===== verification/Durations.thy ===== *)
theory Durations
  imports Config
begin

text \<open>
  \<open>time.ParseDuration\<close> and the duration parser of the configuration (\<open>internal/config/load.go\<close>).
  The fraction of a number is scaled exactly, where Go rounds through a float.
\<close>

section \<open>time.ParseDuration\<close>

definition two63 :: int where "two63 = 2 ^ 63"

definition is_digit :: "char \<Rightarrow> bool" where
  "is_digit c \<longleftrightarrow> is_dec c"

fun leadingInt :: "int \<Rightarrow> string \<Rightarrow> (int \<times> string) option" where
  "leadingInt x [] = Some (x, [])"
| "leadingInt x (c # s) =
     (if \<not> is_digit c then Some (x, c # s)
      else if two63 div 10 < x then None
      else let y = x * 10 + int (dec_val c) in if two63 < y then None else leadingInt y s)"

text \<open>Digits beyond an overflow are read and dropped.\<close>

fun leadingFraction :: "int \<Rightarrow> int \<Rightarrow> bool \<Rightarrow> string \<Rightarrow> int \<times> int \<times> string" where
  "leadingFraction x scale ovf [] = (x, scale, [])"
| "leadingFraction x scale ovf (c # s) =
     (if \<not> is_digit c then (x, scale, c # s)
      else if ovf then leadingFraction x scale True s
      else if (two63 - 1) div 10 < x then leadingFraction x scale True s
      else let y = x * 10 + int (dec_val c) in
           if two63 < y then leadingFraction x scale True s else leadingFraction y (scale * 10) False s)"

definition unit_value :: "string \<Rightarrow> int option" where
  "unit_value u =
     (if u = ''ns'' then Some 1
      else if u = ''us'' \<or> map of_char u = [194, 181, 115 :: nat] \<or> map of_char u = [206, 188, 115 :: nat] then Some 1000
      else if u = ''ms'' then Some Millisecond
      else if u = ''s'' then Some Second
      else if u = ''m'' then Some Minute
      else if u = ''h'' then Some Hour
      else None)"

definition number_char :: "char \<Rightarrow> bool" where
  "number_char c \<longleftrightarrow> c = CHR ''.'' \<or> is_digit c"

text \<open>One number with its unit: the nanoseconds and the rest of the text.\<close>

definition duration_item :: "string \<Rightarrow> (int \<times> string) option" where
  "duration_item s =
     (if \<not> number_char (hd s) then None
      else case leadingInt 0 s of
        None \<Rightarrow> None
      | Some (v, s1) \<Rightarrow>
          let pre = (length s1 < length s);
              (f, scale, s2, post) = (if s1 \<noteq> [] \<and> hd s1 = CHR ''.''
                then case leadingFraction 0 1 False (tl s1) of (f, scale, s2) \<Rightarrow> (f, scale, s2, length s2 < length (tl s1))
                else (0, 1, s1, False))
          in if \<not> pre \<and> \<not> post then None
             else
               let u = takeWhile (\<lambda>c. \<not> number_char c) s2; s3 = dropWhile (\<lambda>c. \<not> number_char c) s2 in
               if u = [] then None
               else case unit_value u of
                 None \<Rightarrow> None
               | Some unt \<Rightarrow>
                   if two63 div unt < v then None
                   else let w = v * unt + (if 0 < f then f * unt div scale else 0) in
                        if two63 < w then None else Some (w, s3))"

lemma leadingInt_length: "leadingInt x s = Some (v, r) \<Longrightarrow> length r \<le> length s"
  by (induction x s rule: leadingInt.induct) (auto simp: Let_def split: if_splits)

lemma leadingFraction_length: "leadingFraction x sc o' s = (f, sc', r) \<Longrightarrow> length r \<le> length s"
  by (induction x sc o' s rule: leadingFraction.induct) (auto simp: Let_def split: if_splits)

lemma duration_item_length: "duration_item s = Some (w, r) \<Longrightarrow> s \<noteq> [] \<Longrightarrow> length r < length s"
proof -
  assume a: "duration_item s = Some (w, r)" and ne: "s \<noteq> []"
  have drop: "length (dropWhile P xs) < length xs" if "takeWhile P xs \<noteq> []" for P :: "char \<Rightarrow> bool" and xs
    using that by (metis dropWhile_eq_drop length_drop diff_less length_greater_0_conv takeWhile.simps(1))
  from a obtain v s1 where li: "leadingInt 0 s = Some (v, s1)"
    by (auto simp: duration_item_def split: if_splits option.splits)
  have l1: "length s1 \<le> length s" using leadingInt_length [OF li] .
  show ?thesis
  proof (cases "s1 \<noteq> [] \<and> hd s1 = CHR ''.''")
    case True
    obtain f scale s2 where lf: "leadingFraction 0 1 False (tl s1) = (f, scale, s2)" by (rule prod_cases3)
    have "length s2 \<le> length (tl s1)" using leadingFraction_length [OF lf] .
    with True l1 drop [of "\<lambda>c. \<not> number_char c" s2] a li lf show ?thesis
      by (auto simp: duration_item_def Let_def split: if_splits option.splits)
  next
    case False
    with l1 drop [of "\<lambda>c. \<not> number_char c" s1] a li show ?thesis
      by (auto simp: duration_item_def Let_def split: if_splits option.splits)
  qed
qed

function duration_loop :: "int \<Rightarrow> string \<Rightarrow> int option" where
  "duration_loop d s =
     (if s = [] then Some d
      else case duration_item s of
        None \<Rightarrow> None
      | Some (w, r) \<Rightarrow> if two63 < d + w then None else duration_loop (d + w) r)"
  by pat_completeness auto
termination by (relation "measure (length \<circ> snd)") (auto dest: duration_item_length)

declare duration_loop.simps [simp del]

definition ParseDuration :: "string \<Rightarrow> int option" where
  "ParseDuration orig =
     (let neg = (orig \<noteq> [] \<and> hd orig = CHR ''-'');
          s = (if orig \<noteq> [] \<and> (hd orig = CHR ''-'' \<or> hd orig = CHR ''+'') then tl orig else orig)
      in if s = ''0'' then Some 0
         else if s = [] then None
         else case duration_loop 0 s of
           None \<Rightarrow> None
         | Some d \<Rightarrow> if neg then Some (- d) else if two63 - 1 < d then None else Some d)"

section \<open>parseDuration\<close>

text \<open>
  \<open>fmt.Sscanf(s, "%d", &n)\<close> into an \<open>int64\<close>: an optional sign and the longest run of digits;
  what follows it is not read.
\<close>

definition Sscanf_d :: "string \<Rightarrow> int result" where
  "Sscanf_d s =
     (let neg = (s \<noteq> [] \<and> hd s = CHR ''-'');
          body = (if s \<noteq> [] \<and> (hd s = CHR ''-'' \<or> hd s = CHR ''+'') then tl s else s);
          ds = takeWhile is_digit body
      in if ds = [] then Inl ''expected integer''
         else case read_dec 0 ds of
           None \<Rightarrow> Inl ''expected integer''
         | Some n \<Rightarrow>
             let v = (if neg then - int n else int n) in
             if v < int64_min \<or> int64_max < v then Inl ''integer overflow on token'' else Inr v)"

definition cfg_parseDuration :: "string \<Rightarrow> duration result" where
  "cfg_parseDuration s0 =
     (let s = TrimSpace s0 in
      if s = [] then Inl ''empty duration''
      else case ParseDuration s of
        Some d \<Rightarrow> Inr d
      | None \<Rightarrow>
          (case Sscanf_d s of
             Inl e \<Rightarrow> Inl (''invalid duration '' @ s @ '': '' @ e)
           | Inr n \<Rightarrow> if Second \<le> n then Inr n else Inr (sint (word_of_int (n * Second) :: 64 word))))"

section \<open>Facts\<close>

lemma ParseDuration_examples:
  "ParseDuration ''1h30m'' = Some (Hour + 30 * Minute)" "ParseDuration ''1.5s'' = Some (1500 * Millisecond)"
  "ParseDuration ''-2ms'' = Some (- 2 * Millisecond)" "ParseDuration ''5x'' = None" "ParseDuration ''5'' = None"
  by code_simp+

lemma trailing_text_accepted: "cfg_parseDuration ''5x'' = Inr (5 * Second)"
  by code_simp

end
