(* ===== verification/Exporter.thy ===== *)
theory Exporter
  imports Files
begin

text \<open>
  File export (\<open>internal/exporter\<close>): the replacement of \<open>ipv4.txt\<close> and \<open>ipv6.txt\<close> guarded by a
  digest in a sidecar file, and the per-policy exports in their formats. The digest function
  (SHA-256 in hexadecimal) and the name of the temporary file are arguments, and so are the
  results of the calls that only ask for durability or permissions. \<open>formatPrefixes\<close>, which
  only the tests call, is not modelled.
\<close>

section \<open>exporter.go\<close>

record ExportReport =
  er_IPv4Path :: string
  er_IPv6Path :: string
  er_IPv4Count :: nat
  er_IPv6Count :: nat
  er_IPv4Digest :: string
  er_IPv6Digest :: string
  er_Unchanged :: bool

record durability =
  du_sync :: "string \<Rightarrow> error option"
  du_chmod :: "string \<Rightarrow> error option"
  du_fsyncDir :: "string \<Rightarrow> error option"

definition New_exporter :: "string \<Rightarrow> fs \<Rightarrow> string result" where
  "New_exporter baseDir s = (case MkdirAll s baseDir of
     Some e \<Rightarrow> Inl (''create base dir: '' @ e) | None \<Rightarrow> Inr baseDir)"

definition prefix_lines :: "prefix list \<Rightarrow> string" where
  "prefix_lines ps = concat (map (\<lambda>p. prefix_string p @ [newline]) ps)"

text \<open>Steps 1 to 3: the temporary file is removed again when writing or syncing it fails.\<close>

definition write_temp :: "durability \<Rightarrow> string \<Rightarrow> prefix list \<Rightarrow> fs \<Rightarrow> error option \<times> fs" where
  "write_temp du tmp prefixes s =
     (if fs_fault s OpOpen tmp then (Some ''create temp: permission denied'', s)
      else if prefixes \<noteq> [] \<and> fs_fault s OpWrite tmp then
        (Some ''write prefix: no space left on device'',
         snd (Remove tmp (s\<lparr> fs_files := (fs_files s)(tmp \<mapsto> FText []) \<rparr>)))
      else
        let s1 = s\<lparr> fs_files := (fs_files s)(tmp \<mapsto> FText (prefix_lines prefixes)) \<rparr> in
        case du_sync du tmp of
          Some e \<Rightarrow> (Some (''sync temp: '' @ e), snd (Remove tmp s1))
        | None \<Rightarrow> (None, s1))"

definition sidecar :: "string \<Rightarrow> string" where
  "sidecar finalPath = finalPath @ ''.sha256''"

definition previous_digest :: "fs \<Rightarrow> string \<Rightarrow> string" where
  "previous_digest s shaPath = (case ReadFile s shaPath of Inr (FText d) \<Rightarrow> d | _ \<Rightarrow> [])"

text \<open>Step 5: the rename and what follows it.\<close>

definition install :: "durability \<Rightarrow> string \<Rightarrow> string \<Rightarrow> string \<Rightarrow> fs \<Rightarrow> error option \<times> fs" where
  "install du baseDir tmp finalPath s =
     (case Rename tmp finalPath s of
        (Some e, s1) \<Rightarrow> (Some (''rename temp to final: '' @ e), s1)
      | (None, s1) \<Rightarrow>
          (case du_chmod du finalPath of
             Some e \<Rightarrow> (Some (''chmod final: '' @ e), s1)
           | None \<Rightarrow>
               (case du_fsyncDir du baseDir of
                  Some e \<Rightarrow> (Some (''fsync parent: '' @ e), s1)
                | None \<Rightarrow> (None, s1))))"

definition writeFamily ::
    "(string \<Rightarrow> string) \<Rightarrow> durability \<Rightarrow> string \<Rightarrow> error option \<Rightarrow> string \<Rightarrow> string \<Rightarrow> prefix list \<Rightarrow> fs \<Rightarrow>
       (string \<times> bool) result \<times> fs" where
  "writeFamily sha du baseDir ctx_err tmp finalPath prefixes s =
     (case ctx_err of
        Some e \<Rightarrow> (Inl e, s)
      | None \<Rightarrow>
          (case write_temp du tmp prefixes s of
             (Some e, s1) \<Rightarrow> (Inl e, s1)
           | (None, s1) \<Rightarrow>
               let digest = sha (prefix_lines prefixes);
                   shaPath = sidecar finalPath;
                   changed = (digest \<noteq> previous_digest s1 shaPath)
               in case (if changed then install du baseDir tmp finalPath s1 else (None, snd (Remove tmp s1))) of
                    (Some e, s2) \<Rightarrow> (Inl e, s2)
                  | (None, s2) \<Rightarrow>
                      (case WriteFile shaPath (FText digest) s2 of
                         (Some e, s3) \<Rightarrow> (Inl (''write sha sidecar: '' @ e), s3)
                       | (None, s3) \<Rightarrow> (Inr (digest, changed), s3))))"

definition empty_report :: ExportReport where
  "empty_report = \<lparr> er_IPv4Path = [], er_IPv6Path = [], er_IPv4Count = 0, er_IPv6Count = 0,
     er_IPv4Digest = [], er_IPv6Digest = [], er_Unchanged = False \<rparr>"

definition Export_Write ::
    "(string \<Rightarrow> string) \<Rightarrow> durability \<Rightarrow> string \<Rightarrow> (string \<Rightarrow> error option) \<Rightarrow> (string \<Rightarrow> string) \<Rightarrow> prefix list \<Rightarrow> prefix list \<Rightarrow> fs \<Rightarrow>
       ExportReport \<times> error option \<times> fs" where
  "Export_Write sha du baseDir ctx_err tmp v4 v6 s =
     (let v4Path = Join baseDir ''ipv4.txt''; v6Path = Join baseDir ''ipv6.txt'' in
      case writeFamily sha du baseDir (ctx_err ''ipv4'') (tmp ''ipv4'') v4Path v4 s of
        (Inl e, s1) \<Rightarrow> (empty_report, Some (''write ipv4: '' @ e), s1)
      | (Inr (v4Digest, v4Changed), s1) \<Rightarrow>
          let r4 = empty_report\<lparr> er_IPv4Path := v4Path, er_IPv4Count := length v4, er_IPv4Digest := v4Digest \<rparr> in
          (case writeFamily sha du baseDir (ctx_err ''ipv6'') (tmp ''ipv6'') v6Path v6 s1 of
             (Inl e, s2) \<Rightarrow> (r4, Some (''write ipv6: '' @ e), s2)
           | (Inr (v6Digest, v6Changed), s2) \<Rightarrow>
               (r4\<lparr> er_IPv6Path := v6Path, er_IPv6Count := length v6, er_IPv6Digest := v6Digest,
                    er_Unchanged := (\<not> v4Changed \<and> \<not> v6Changed) \<rparr>, None, s2)))"

section \<open>policy\_exporter.go\<close>

record PolicyExportReport =
  pe_PolicyName :: string
  pe_Format :: string
  pe_IPv4Path :: string
  pe_IPv6Path :: string
  pe_IPv4Count :: nat
  pe_IPv6Count :: nat
  pe_Unchanged :: bool

definition extForFormat :: "string \<Rightarrow> string" where
  "extForFormat format = (if format \<in> set [''ipset'', ''json'', ''nft'', ''iptables'', ''bgp'', ''yaml''] then format else ''txt'')"

definition join_lines :: "string list \<Rightarrow> string" where
  "join_lines ls = join_with [newline] ls @ [newline]"

definition formatPlain :: "prefix list \<Rightarrow> string" where
  "formatPlain prefixes = join_lines (map prefix_string prefixes)"

definition formatIPSet :: "string \<Rightarrow> string \<Rightarrow> prefix list \<Rightarrow> string" where
  "formatIPSet policyName family prefixes =
     (let setName = policyName @ ''_'' @ family
      in join_lines (map (\<lambda>p. ''add '' @ setName @ '' '' @ prefix_string p) prefixes))"

definition prefixStrings :: "prefix list \<Rightarrow> anyv" where
  "prefixStrings prefixes = (if prefixes = [] then VNull else VList (map (\<lambda>p. VStr (prefix_string p)) prefixes))"

definition formatJSON :: "string \<Rightarrow> string \<Rightarrow> prefix list \<Rightarrow> anyv" where
  "formatJSON policyName family prefixes =
     VMap [(''family'', VStr family), (''policy'', VStr policyName), (''prefixes'', prefixStrings prefixes)]"

definition formatNFT :: "string \<Rightarrow> string \<Rightarrow> prefix list \<Rightarrow> string" where
  "formatNFT policyName family prefixes =
     join_lines (map (\<lambda>p. ''add elements inet d2ip '' @ policyName @ ''_'' @ family @ '' { '' @ prefix_string p @ '' }'') prefixes)"

definition formatIPTables :: "string \<Rightarrow> prefix list \<Rightarrow> string" where
  "formatIPTables family prefixes =
     (let cmd = (if family = ''v6'' then ''ip6tables'' else ''iptables'')
      in join_lines (map (\<lambda>p. cmd @ '' -A OUTPUT -d '' @ prefix_string p @ '' -j DROP'') prefixes))"

definition formatBGP :: "prefix list \<Rightarrow> string" where
  "formatBGP prefixes = join_lines (map (\<lambda>p. ''network '' @ prefix_string p) prefixes)"

definition formatYAML :: "string \<Rightarrow> string \<Rightarrow> prefix list \<Rightarrow> string" where
  "formatYAML policyName family prefixes =
     ''policy: '' @ policyName @ [newline] @ ''family: '' @ family @ [newline] @
     ''count: '' @ show_nat (length prefixes) @ [newline] @ ''prefixes:'' @ [newline] @
     concat (map (\<lambda>p. ''  - '' @ prefix_string p @ [newline]) prefixes)"

definition formatPrefixesForPolicy :: "string \<Rightarrow> string \<Rightarrow> prefix list \<Rightarrow> string \<Rightarrow> file_content" where
  "formatPrefixesForPolicy format policyName prefixes family =
     (if format = ''ipset'' then FText (formatIPSet policyName family prefixes)
      else if format = ''json'' then FJson (formatJSON policyName family prefixes)
      else if format = ''nft'' then FText (formatNFT policyName family prefixes)
      else if format = ''iptables'' then FText (formatIPTables family prefixes)
      else if format = ''bgp'' then FText (formatBGP prefixes)
      else if format = ''yaml'' then FText (formatYAML policyName family prefixes)
      else FText (formatPlain prefixes))"

definition export_format :: "PolicyConfig \<Rightarrow> string" where
  "export_format policy = (if pol_ExportFormat policy = [] then ''plain'' else pol_ExportFormat policy)"

definition export_path :: "string \<Rightarrow> PolicyConfig \<Rightarrow> string \<Rightarrow> string" where
  "export_path baseDir policy family = Join (Join baseDir (pol_Name policy)) (family @ ''.'' @ extForFormat (export_format policy))"

definition WritePolicy :: "string \<Rightarrow> PolicyConfig \<Rightarrow> prefix list \<Rightarrow> prefix list \<Rightarrow> fs \<Rightarrow> PolicyExportReport result \<times> fs" where
  "WritePolicy baseDir policy v4 v6 s =
     (case MkdirAll s (Join baseDir (pol_Name policy)) of
        Some e \<Rightarrow> (Inl e, s)
      | None \<Rightarrow>
          let format = export_format policy;
              v4Path = export_path baseDir policy ''ipv4''; v6Path = export_path baseDir policy ''ipv6''
          in case WriteFile v4Path (formatPrefixesForPolicy format (pol_Name policy) v4 ''v4'') s of
               (Some e, s1) \<Rightarrow> (Inl (''write v4: '' @ e), s1)
             | (None, s1) \<Rightarrow>
                 (case WriteFile v6Path (formatPrefixesForPolicy format (pol_Name policy) v6 ''v6'') s1 of
                    (Some e, s2) \<Rightarrow> (Inl (''write v6: '' @ e), s2)
                  | (None, s2) \<Rightarrow>
                      (Inr \<lparr> pe_PolicyName = pol_Name policy, pe_Format = format, pe_IPv4Path = v4Path, pe_IPv6Path = v6Path,
                             pe_IPv4Count = length v4, pe_IPv6Count = length v6, pe_Unchanged = False \<rparr>, s2)))"

section \<open>The digest guard\<close>

text \<open>A sidecar that holds a digest holds the digest of the file beside it.\<close>

definition sidecar_ok :: "(string \<Rightarrow> string) \<Rightarrow> string \<Rightarrow> fs \<Rightarrow> bool" where
  "sidecar_ok sha finalPath s \<longleftrightarrow>
     (\<forall>d. previous_digest s (sidecar finalPath) = d \<longrightarrow> d \<noteq> [] \<longrightarrow> (\<exists>c. fs_files s finalPath = Some (FText c) \<and> sha c = d))"

lemma sidecar_neq [simp]: "sidecar p \<noteq> p" "p \<noteq> sidecar p"
  by (simp_all add: sidecar_def)

lemma write_temp_ok:
  "write_temp du tmp ps s = (None, s1) \<Longrightarrow> s1 = s\<lparr> fs_files := (fs_files s)(tmp \<mapsto> FText (prefix_lines ps)) \<rparr>"
  by (auto simp: write_temp_def Let_def split: if_splits option.splits)

lemma install_ok:
  "install du dir tmp p s = (None, s1) \<Longrightarrow> \<exists>c. fs_files s tmp = Some c \<and> s1 = s\<lparr> fs_files := (fs_files s)(tmp := None, p \<mapsto> c) \<rparr>"
  by (auto simp: install_def Rename_def split: prod.splits option.splits if_splits)

lemma previous_digest_other: "q \<noteq> p \<Longrightarrow> previous_digest (s\<lparr> fs_files := (fs_files s)(q := v) \<rparr>) p = previous_digest s p"
  by (simp add: previous_digest_def ReadFile_def)

lemma Remove_files: "fs_files (snd (Remove p s)) = (if fs_fault s OpRemove p then fs_files s else (fs_files s)(p := None))"
  by (auto simp: Remove_def)

lemma writeFamily_fault:
  assumes "writeFamily sha du dir c tmp p ps s = (r, s')"
  shows "fs_fault s' = fs_fault s"
proof -
  have 1: "fs_fault s1 = fs_fault s0" if "write_temp du tmp ps s0 = (e, s1)" for e s0 s1
    using that by (auto simp: write_temp_def Let_def split: if_splits option.splits)
  have 2: "fs_fault s1 = fs_fault s0" if "install du dir tmp p s0 = (e, s1)" for e s0 s1
    using that fs_fault_ops(2) [of tmp p s0] by (auto simp: install_def simp del: fs_fault_ops split: prod.splits option.splits)
  have 3: "fs_fault s1 = fs_fault s0" if "WriteFile q x s0 = (e, s1)" for q x e s0 s1
    using that fs_fault_ops(1) [of q x s0] by simp
  have 4: "fs_fault (snd (Remove tmp s0)) = fs_fault s0" for s0 by simp
  show ?thesis using assms
    by (auto simp: writeFamily_def Let_def split: option.splits prod.splits if_splits dest!: 1 2 3)
qed

text \<open>What a successful run of \<open>writeFamily\<close> leaves.\<close>

lemma writeFamily_ok:
  assumes "writeFamily sha du dir None tmp p ps s = (Inr (d, changed), s')"
    and "sidecar_ok sha p s" and "inj sha" and "\<And>c. sha c \<noteq> []" and "tmp \<noteq> p" and "tmp \<noteq> sidecar p"
  shows "fs_files s' p = Some (FText (prefix_lines ps)) \<and> fs_files s' (sidecar p) = Some (FText d) \<and> d = sha (prefix_lines ps) \<and>
    (changed \<longleftrightarrow> d \<noteq> previous_digest s (sidecar p)) \<and> (\<forall>q. q \<notin> {p, sidecar p, tmp} \<longrightarrow> fs_files s' q = fs_files s q)"
proof -
  let ?c = "prefix_lines ps"
  from assms(1) obtain s1 where t: "write_temp du tmp ps s = (None, s1)"
    and rest: "(case (if sha ?c \<noteq> previous_digest s1 (sidecar p) then install du dir tmp p s1 else (None, snd (Remove tmp s1))) of
        (Some e, s2) \<Rightarrow> (Inl e, s2)
      | (None, s2) \<Rightarrow> (case WriteFile (sidecar p) (FText (sha ?c)) s2 of
           (Some e, s3) \<Rightarrow> (Inl (''write sha sidecar: '' @ e), s3)
         | (None, s3) \<Rightarrow> (Inr (sha ?c, sha ?c \<noteq> previous_digest s1 (sidecar p)), s3))) = (Inr (d, changed), s')"
    by (auto simp: writeFamily_def Let_def split: prod.splits option.splits)
  note s1 = write_temp_ok [OF t]
  have prev: "previous_digest s1 (sidecar p) = previous_digest s (sidecar p)"
    unfolding s1 by (rule previous_digest_other) (use assms(6) in simp)
  show ?thesis
  proof (cases "sha ?c \<noteq> previous_digest s (sidecar p)")
    case True
    with rest prev obtain s2 where i: "install du dir tmp p s1 = (None, s2)"
      and w: "WriteFile (sidecar p) (FText (sha ?c)) s2 = (None, s')" and d: "d = sha ?c" "changed"
      by (auto split: prod.splits option.splits)
    obtain c where c: "fs_files s1 tmp = Some c" "s2 = s1\<lparr> fs_files := (fs_files s1)(tmp := None, p \<mapsto> c) \<rparr>"
      using install_ok [OF i] by blast
    then have "s2 = s1\<lparr> fs_files := (fs_files s1)(tmp := None, p \<mapsto> FText ?c) \<rparr>" using s1 by simp
    with WriteFile_ok [OF w] s1 d True assms(5,6) show ?thesis by auto
  next
    case False
    with rest prev have w: "WriteFile (sidecar p) (FText (sha ?c)) (snd (Remove tmp s1)) = (None, s')" and d: "d = sha ?c" "\<not> changed"
      by (auto split: prod.splits option.splits)
    from False assms(2,4) obtain c where c: "fs_files s p = Some (FText c)" "sha c = sha ?c"
      by (auto simp: sidecar_ok_def)
    with assms(3) have "c = ?c" by (auto dest: injD)
    with WriteFile_ok [OF w] s1 d False c assms(5,6) show ?thesis
      by (auto simp: Remove_files split: if_splits)
  qed
qed

text \<open>A system on which nothing fails.\<close>

definition no_faults :: "fs \<Rightarrow> bool" where
  "no_faults s \<longleftrightarrow> (\<forall>op p. \<not> fs_fault s op p)"

definition durable :: durability where
  "durable = \<lparr> du_sync = (\<lambda>_. None), du_chmod = (\<lambda>_. None), du_fsyncDir = (\<lambda>_. None) \<rparr>"

lemma write_temp_no_faults:
  "no_faults s \<Longrightarrow> du_sync du tmp = None \<Longrightarrow> write_temp du tmp ps s = (None, s\<lparr> fs_files := (fs_files s)(tmp \<mapsto> FText (prefix_lines ps)) \<rparr>)"
  by (simp add: write_temp_def no_faults_def Let_def)

lemma Rename_no_faults: "no_faults s \<Longrightarrow> fs_files s a = Some c \<Longrightarrow> Rename a b s = (None, s\<lparr> fs_files := (fs_files s)(a := None, b \<mapsto> c) \<rparr>)"
  by (simp add: Rename_def no_faults_def)

lemma WriteFile_no_faults: "no_faults s \<Longrightarrow> WriteFile p c s = (None, s\<lparr> fs_files := (fs_files s)(p \<mapsto> c) \<rparr>)"
  by (simp add: WriteFile_def no_faults_def)

lemma no_faults_files [simp]: "no_faults (s\<lparr> fs_files := f \<rparr>) = no_faults s"
  by (simp add: no_faults_def)

text \<open>
  When the permissions cannot be set after the rename, the new file is in place and the sidecar
  still holds the digest of the old one.
\<close>

lemma half_done:
  assumes "no_faults s" and "du_sync du tmp = None" and "du_chmod du p = Some e" and "tmp \<noteq> p" and "tmp \<noteq> sidecar p"
    and "previous_digest s (sidecar p) = sha (prefix_lines old)" and "sha (prefix_lines new) \<noteq> sha (prefix_lines old)"
  shows "writeFamily sha du dir None tmp p new s =
    (Inl (''chmod final: '' @ e), s\<lparr> fs_files := (fs_files s)(tmp := None, p \<mapsto> FText (prefix_lines new)) \<rparr>)"
proof -
  let ?s1 = "s\<lparr> fs_files := (fs_files s)(tmp \<mapsto> FText (prefix_lines new)) \<rparr>"
  have "previous_digest ?s1 (sidecar p) = sha (prefix_lines old)"
    using previous_digest_other [of tmp "sidecar p" s] assms(5,6) by simp
  moreover have "install du dir tmp p ?s1 =
      (Some (''chmod final: '' @ e), s\<lparr> fs_files := (fs_files s)(tmp := None, p \<mapsto> FText (prefix_lines new)) \<rparr>)"
    using assms(1,3) Rename_no_faults [of ?s1 tmp _ p] by (simp add: install_def)
  ultimately show ?thesis
    using assms(7) write_temp_no_faults [OF assms(1,2), of new] by (simp add: writeFamily_def Let_def)
qed

section \<open>Properties\<close>

lemma Export_Write_ok:
  assumes "Export_Write sha du dir (\<lambda>_. None) tmp v4 v6 s = (r, None, s')"
    and "sidecar_ok sha (Join dir ''ipv4.txt'') s" and "sidecar_ok sha (Join dir ''ipv6.txt'') s"
    and "inj sha" and "\<And>c. sha c \<noteq> []"
    and "{tmp ''ipv4'', tmp ''ipv6''} \<inter> {Join dir ''ipv4.txt'', sidecar (Join dir ''ipv4.txt''), Join dir ''ipv6.txt'', sidecar (Join dir ''ipv6.txt'')} = {}"
  shows "fs_files s' (Join dir ''ipv4.txt'') = Some (FText (prefix_lines v4)) \<and> fs_files s' (Join dir ''ipv6.txt'') = Some (FText (prefix_lines v6)) \<and>
    sidecar_ok sha (Join dir ''ipv4.txt'') s' \<and> sidecar_ok sha (Join dir ''ipv6.txt'') s' \<and>
    (er_Unchanged r \<longleftrightarrow> previous_digest s (sidecar (Join dir ''ipv4.txt'')) = sha (prefix_lines v4) \<and>
       previous_digest s (sidecar (Join dir ''ipv6.txt'')) = sha (prefix_lines v6))"
proof -
  let ?p4 = "Join dir ''ipv4.txt''" and ?p6 = "Join dir ''ipv6.txt''"
  have neq: "?p4 \<noteq> ?p6" "?p4 \<noteq> sidecar ?p6" "?p6 \<noteq> sidecar ?p4" "sidecar ?p4 \<noteq> sidecar ?p6"
    by (simp_all add: Join_def sidecar_def)
  from assms(1) obtain d4 c4 s1 d6 c6 where
    w4: "writeFamily sha du dir None (tmp ''ipv4'') ?p4 v4 s = (Inr (d4, c4), s1)"
    and w6: "writeFamily sha du dir None (tmp ''ipv6'') ?p6 v6 s1 = (Inr (d6, c6), s')"
    and u: "er_Unchanged r = (\<not> c4 \<and> \<not> c6)"
    by (auto simp: Export_Write_def Let_def split: prod.splits sum.splits)
  have t: "tmp ''ipv4'' \<noteq> ?p4" "tmp ''ipv4'' \<noteq> sidecar ?p4" "tmp ''ipv4'' \<noteq> ?p6" "tmp ''ipv4'' \<noteq> sidecar ?p6"
    "tmp ''ipv6'' \<noteq> ?p4" "tmp ''ipv6'' \<noteq> sidecar ?p4" "tmp ''ipv6'' \<noteq> ?p6" "tmp ''ipv6'' \<noteq> sidecar ?p6"
    using assms(6) by auto
  note f4 = writeFamily_ok [OF w4 assms(2,4,5) t(1,2)]
  then have same6: "fs_files s1 ?p6 = fs_files s ?p6" "fs_files s1 (sidecar ?p6) = fs_files s (sidecar ?p6)"
    using neq t(3,4) by auto
  have fault: "fs_fault s1 = fs_fault s"
    by (rule writeFamily_fault [OF w4])
  have prev6: "previous_digest s1 (sidecar ?p6) = previous_digest s (sidecar ?p6)"
    by (simp add: previous_digest_def ReadFile_def fault same6)
  have "sidecar_ok sha ?p6 s1" using assms(3) prev6 same6 by (simp add: sidecar_ok_def)
  note f6 = writeFamily_ok [OF w6 this assms(4,5) t(7,8)]
  from f6 neq t(5,6) have same4: "fs_files s' ?p4 = fs_files s1 ?p4" "fs_files s' (sidecar ?p4) = fs_files s1 (sidecar ?p4)"
    by auto
  have fault': "fs_fault s' = fs_fault s1" by (rule writeFamily_fault [OF w6])
  have ok: "sidecar_ok sha p s'" if "fs_files s' p = Some (FText c)" "fs_files s' (sidecar p) = Some (FText (sha c))" for p c
    using that by (auto simp: sidecar_ok_def previous_digest_def ReadFile_def)
  have v4: "fs_files s' ?p4 = Some (FText (prefix_lines v4))" "fs_files s' (sidecar ?p4) = Some (FText (sha (prefix_lines v4)))"
    using f4 same4 by simp_all
  have v6: "fs_files s' ?p6 = Some (FText (prefix_lines v6))" "fs_files s' (sidecar ?p6) = Some (FText (sha (prefix_lines v6)))"
    using f6 by simp_all
  have un: "er_Unchanged r \<longleftrightarrow> previous_digest s (sidecar ?p4) = sha (prefix_lines v4) \<and>
      previous_digest s (sidecar ?p6) = sha (prefix_lines v6)"
    unfolding u using f4 f6 prev6 by metis
  show ?thesis by (intro conjI v4(1) v6(1) ok [OF v4] ok [OF v6] un)
qed

text \<open>
  a successful \<open>Write\<close> leaves exactly the given prefixes in both files and their digests in
  both sidecars, whether or not it rewrote a file, and reports \<open>Unchanged\<close> exactly when both
  digests were already recorded; the digest is taken to be free of collisions.
\<close>

theorem export_written:
  assumes "Export_Write sha du dir (\<lambda>_. None) tmp v4 v6 s = (r, None, s')"
    and "sidecar_ok sha (Join dir ''ipv4.txt'') s" and "sidecar_ok sha (Join dir ''ipv6.txt'') s"
    and "inj sha" and "\<And>c. sha c \<noteq> []"
    and "{tmp ''ipv4'', tmp ''ipv6''} \<inter> {Join dir ''ipv4.txt'', sidecar (Join dir ''ipv4.txt''), Join dir ''ipv6.txt'', sidecar (Join dir ''ipv6.txt'')} = {}"
  shows "fs_files s' (Join dir ''ipv4.txt'') = Some (FText (prefix_lines v4)) \<and> fs_files s' (Join dir ''ipv6.txt'') = Some (FText (prefix_lines v6)) \<and>
    sidecar_ok sha (Join dir ''ipv4.txt'') s' \<and> sidecar_ok sha (Join dir ''ipv6.txt'') s' \<and>
    (er_Unchanged r \<longleftrightarrow> previous_digest s (sidecar (Join dir ''ipv4.txt'')) = sha (prefix_lines v4) \<and>
       previous_digest s (sidecar (Join dir ''ipv6.txt'')) = sha (prefix_lines v6))"
  by (rule Export_Write_ok [OF assms])

text \<open>
  a \<open>Write\<close> that fails between the rename and the sidecar breaks the guard: the next \<open>Write\<close>
  of the previous list takes the file for unchanged and leaves the other list in it.
\<close>

theorem export_stale:
  assumes "no_faults s" and "du_sync du tmp = None" and "du_chmod du p = Some e" and "tmp \<noteq> p" and "tmp \<noteq> sidecar p"
    and "fs_files s (sidecar p) = Some (FText (sha (prefix_lines old)))" and "sha (prefix_lines new) \<noteq> sha (prefix_lines old)"
  shows "\<exists>e1 s1 s2. writeFamily sha du dir None tmp p new s = (Inl e1, s1) \<and>
    writeFamily sha durable dir None tmp p old s1 = (Inr (sha (prefix_lines old), False), s2) \<and>
    fs_files s2 p = Some (FText (prefix_lines new))"
proof -
  have prev: "previous_digest s (sidecar p) = sha (prefix_lines old)"
    using assms(1,6) by (simp add: previous_digest_def ReadFile_def no_faults_def)
  let ?s1 = "s\<lparr> fs_files := (fs_files s)(tmp := None, p \<mapsto> FText (prefix_lines new)) \<rparr>"
  let ?t = "?s1\<lparr> fs_files := (fs_files ?s1)(tmp \<mapsto> FText (prefix_lines old)) \<rparr>"
  have nf: "no_faults ?s1" using assms(1) by simp
  have "previous_digest ?t (sidecar p) = sha (prefix_lines old)"
    using assms(1,4,5,6) by (simp add: previous_digest_def ReadFile_def no_faults_def)
  moreover have "write_temp durable tmp old ?s1 = (None, ?t)"
    by (rule write_temp_no_faults [OF nf]) (simp add: durable_def)
  moreover have "no_faults (snd (Remove tmp ?t))" using assms(1) by (auto simp: no_faults_def)
  ultimately have "writeFamily sha durable dir None tmp p old ?s1 = (Inr (sha (prefix_lines old), False),
      (snd (Remove tmp ?t))\<lparr> fs_files := (fs_files (snd (Remove tmp ?t)))(sidecar p \<mapsto> FText (sha (prefix_lines old))) \<rparr>)"
    using WriteFile_no_faults by (simp add: writeFamily_def Let_def)
  moreover have "fs_files (snd (Remove tmp ?t)) p = Some (FText (prefix_lines new))"
    using assms(4) by (simp add: Remove_files)
  ultimately show ?thesis
    using half_done [where sha = sha, OF assms(1-5) prev assms(7)] by auto
qed

section \<open>Witnesses\<close>

definition ex_sha :: "string \<Rightarrow> string" where "ex_sha c = CHR ''x'' # c"

definition ex_dir_fs :: fs where
  "ex_dir_fs = \<lparr> fs_files = [''out/ipv4.txt.sha256'' \<mapsto> FText (ex_sha (prefix_lines []))], fs_fault = (\<lambda>_ _. False) \<rparr>"

definition ex_tmp :: "string \<Rightarrow> string" where "ex_tmp f = ''out/'' @ f @ ''-1.tmp''"

theorem export_stale_witness:
  "\<exists>e1 s1 s2. writeFamily ex_sha (durable\<lparr> du_chmod := (\<lambda>_. Some ''operation not permitted'') \<rparr>) ''out'' None (ex_tmp ''ipv4'') ''out/ipv4.txt''
       [Prefix (Addr4 0x0A000000) 8] ex_dir_fs = (Inl e1, s1) \<and>
     writeFamily ex_sha durable ''out'' None (ex_tmp ''ipv4'') ''out/ipv4.txt'' [] s1 = (Inr (ex_sha (prefix_lines []), False), s2) \<and>
     fs_files s2 ''out/ipv4.txt'' = Some (FText (prefix_lines [Prefix (Addr4 0x0A000000) 8]))"
  by (rule export_stale) (simp_all add: no_faults_def ex_dir_fs_def durable_def ex_tmp_def sidecar_def ex_sha_def prefix_lines_def)

theorem export_written_witness:
  "\<exists>r s'. Export_Write ex_sha durable ''out'' (\<lambda>_. None) ex_tmp [Prefix (Addr4 0x0A000000) 8] [] \<lparr> fs_files = Map.empty, fs_fault = (\<lambda>_ _. False) \<rparr> = (r, None, s') \<and>
     fs_files s' ''out/ipv4.txt'' = Some (FText (prefix_lines [Prefix (Addr4 0x0A000000) 8]))"
proof -
  let ?s = "\<lparr> fs_files = Map.empty, fs_fault = (\<lambda>_ _. False) \<rparr>" and ?v4 = "[Prefix (Addr4 0x0A000000) 8]"
  obtain r e s' where r: "Export_Write ex_sha durable ''out'' (\<lambda>_. None) ex_tmp ?v4 [] ?s = (r, e, s')"
    by (rule prod_cases3)
  then have "e = None"
    by (simp add: Export_Write_def writeFamily_def write_temp_def previous_digest_def ReadFile_def durable_def install_def
        Rename_def WriteFile_def ex_sha_def sidecar_def Join_def ex_tmp_def prefix_lines_def Let_def)
  with r have r': "Export_Write ex_sha durable ''out'' (\<lambda>_. None) ex_tmp ?v4 [] ?s = (r, None, s')" by simp
  have "fs_files s' (Join ''out'' ''ipv4.txt'') = Some (FText (prefix_lines ?v4))"
    using export_written [OF r']
    by (simp add: sidecar_ok_def previous_digest_def ReadFile_def ex_sha_def inj_def sidecar_def Join_def ex_tmp_def)
  with r' show ?thesis by (auto simp: Join_def)
qed

end
