(* ===== verification/Sources.thy ===== *)
theory Sources
  imports Store Domainlist Durations Exporter
begin

text \<open>
  The source providers (\<open>internal/sourcereg/providers\<close>): plain text files, IPverse country
  zones, the v2fly geosite and geoip files, and MaxMind databases. Each has a record of its
  state, its constructor, \<open>Load\<close> and its queries. The network, the protobuf decoders and the
  MaxMind reader are fields of an environment.
\<close>

section \<open>The environment\<close>

text \<open>A network of a MaxMind database: address and mask bytes, or an error, with its country code.\<close>

record ipnet =
  in_IP :: "8 word list"
  in_Mask :: "8 word list"

record cidr_msg =
  cm_Ip :: "8 word list"
  cm_Prefix :: nat

record geoip_entry =
  gi_CountryCode :: string
  gi_Cidr :: "cidr_msg option list"

record env =
  ev_now :: int
  ev_http :: "string \<Rightarrow> error + (int \<times> string \<times> error option)"
  ev_server :: "string \<Rightarrow> server"
  ev_sync :: "error option"
  ev_sha :: "string \<Rightarrow> string"
  ev_idna :: idna
  ev_geosite :: "file_content \<Rightarrow> geosite list result"
  ev_geoip :: "file_content \<Rightarrow> geoip_entry list result"
  ev_temp :: string
  ev_mmdb :: "file_content option \<Rightarrow> ((error + ipnet option \<times> string) list \<times> error option) result"

type_synonym cfg_map = "(string \<times> anyv) list"

text \<open>\<open>cfg["key"].(string)\<close> and the strings of a list.\<close>

definition cfg_string :: "cfg_map \<Rightarrow> string \<Rightarrow> string" where
  "cfg_string cfg k = (case map_of cfg k of Some (VStr s) \<Rightarrow> s | _ \<Rightarrow> [])"

definition cfg_strings :: "cfg_map \<Rightarrow> string \<Rightarrow> string list" where
  "cfg_strings cfg k = (case map_of cfg k of
     Some (VList vs) \<Rightarrow> concat (map (\<lambda>v. case v of VStr s \<Rightarrow> [s] | _ \<Rightarrow> []) vs) | _ \<Rightarrow> [])"

definition or_default :: "string \<Rightarrow> string \<Rightarrow> string" where
  "or_default s d = (if s = [] then d else s)"

text \<open>The lines of a prefix list: blank and comment lines and lines that do not parse are skipped.\<close>

definition host_or_prefix :: "string \<Rightarrow> prefix option" where
  "host_or_prefix line =
     (case ParsePrefix line of
        Inr p \<Rightarrow> Some p
      | Inl _ \<Rightarrow> (case ParseAddr line of
          Inr a \<Rightarrow> Some (if is4 a then prefix_from a 32 else prefix_from a 128)
        | Inl _ \<Rightarrow> None))"

definition entry_lines :: "string list \<Rightarrow> string list" where
  "entry_lines ls = filter (\<lambda>l. l \<noteq> [] \<and> \<not> HasPrefix l ''#'') (map TrimSpace ls)"

definition prefixes_of_lines :: "string list \<Rightarrow> prefix list" where
  "prefixes_of_lines ls = concat (map (\<lambda>l. case host_or_prefix l of None \<Rightarrow> [] | Some p \<Rightarrow> [p]) (entry_lines ls))"

text \<open>What a source tells about itself: every provider reports itself enabled.\<close>

record SourceInfo =
  inf_ID :: string
  inf_Provider :: string
  inf_Prefix :: string
  inf_Enabled :: bool
  inf_Categories :: "string list"
  inf_LastFetched :: "int option"
  inf_LastError :: string

section \<open>plaintext\<close>

record plaintext =
  pt_id :: string
  pt_prefix :: string
  pt_Type :: string
  pt_File :: string
  pt_domains :: "string list"
  pt_prefixes :: "prefix list"
  pt_loadedAt :: "int option"
  pt_lastErr :: string

definition plaintext_New :: "string \<Rightarrow> string \<Rightarrow> cfg_map \<Rightarrow> plaintext result" where
  "plaintext_New i prefix cfg =
     (let t = or_default (cfg_string cfg ''type'') ''domains''; f = cfg_string cfg ''file'' in
      if t \<noteq> ''domains'' \<and> t \<noteq> ''ips'' then Inl (''plaintext: type must be domains or ips, got '' @ t)
      else if f = [] then Inl ''plaintext: file is required''
      else Inr \<lparr> pt_id = i, pt_prefix = prefix, pt_Type = t, pt_File = f, pt_domains = [], pt_prefixes = [],
                 pt_loadedAt = None, pt_lastErr = [] \<rparr>)"

definition plaintext_Categories :: "plaintext \<Rightarrow> string list" where
  "plaintext_Categories p = [pt_prefix p @ '':default'']"

definition plaintext_Info :: "plaintext \<Rightarrow> SourceInfo" where
  "plaintext_Info p = \<lparr> inf_ID = pt_id p, inf_Provider = ''plaintext'', inf_Prefix = pt_prefix p, inf_Enabled = True,
     inf_Categories = [pt_prefix p @ '':default''], inf_LastFetched = pt_loadedAt p, inf_LastError = pt_lastErr p \<rparr>"

text \<open>The text of a file: a JSON document, which has no line that parses, is a single line.\<close>

definition file_text :: "file_content \<Rightarrow> string" where
  "file_text c = (case c of FText t \<Rightarrow> t | FJson _ \<Rightarrow> ''{}'')"

definition plaintext_Load :: "env \<Rightarrow> fs \<Rightarrow> plaintext \<Rightarrow> error option \<times> plaintext" where
  "plaintext_Load ev s p =
     (case ReadFile s (pt_File p) of
        Inl _ \<Rightarrow> (let e = ''open: no such file or directory'' in
          (Some (''plaintext: open '' @ pt_File p @ '': '' @ e), p\<lparr> pt_lastErr := e, pt_loadedAt := None \<rparr>))
      | Inr c \<Rightarrow>
          (case scan_lines (file_text c) of (ls, too_long) \<Rightarrow>
             let p1 = p\<lparr> pt_domains := (if pt_Type p = ''domains'' then entry_lines ls else []),
                         pt_prefixes := (if pt_Type p = ''domains'' then [] else prefixes_of_lines ls),
                         pt_lastErr := [], pt_loadedAt := None \<rparr>
             in if too_long then
                  (let e = ''bufio.Scanner: token too long'' in
                   (Some (''plaintext: scan '' @ pt_File p @ '': '' @ e), p1\<lparr> pt_lastErr := e \<rparr>))
                else (None, p1\<lparr> pt_loadedAt := Some (ev_now ev) \<rparr>)))"

text \<open>The lists are compared with \<open>nil\<close>: an empty list, loaded or not, counts as not loaded.\<close>

definition plaintext_GetDomains :: "plaintext \<Rightarrow> string \<Rightarrow> string list result" where
  "plaintext_GetDomains p category =
     (if category \<noteq> pt_prefix p @ '':default'' then Inl (''plaintext: unknown category '' @ category)
      else if pt_domains p = [] then Inl ''plaintext: not loaded''
      else Inr (pt_domains p))"

definition plaintext_GetPrefixes :: "plaintext \<Rightarrow> string \<Rightarrow> prefix list result" where
  "plaintext_GetPrefixes p category =
     (if category \<noteq> pt_prefix p @ '':default'' then Inl (''plaintext: unknown category '' @ category)
      else if pt_prefixes p = [] then Inl ''plaintext: not loaded''
      else Inr (pt_prefixes p))"

section \<open>Prefixes by country\<close>

text \<open>\<open>map[string][]netip.Prefix\<close>, and \<open>m[k] = append(m[k], p)\<close> on it.\<close>

type_synonym country_map = "(string \<times> prefix list) list"

definition append_prefix :: "string \<Rightarrow> prefix \<Rightarrow> country_map \<Rightarrow> country_map" where
  "append_prefix k p m = AList.update k ((case map_of m k of None \<Rightarrow> [] | Some ps \<Rightarrow> ps) @ [p]) m"

text \<open>The query the three country providers share, with the name of the provider in its errors.\<close>

definition country_prefixes :: "string \<Rightarrow> int option \<Rightarrow> string \<Rightarrow> country_map \<Rightarrow> string \<Rightarrow> prefix list result" where
  "country_prefixes provider loadedAt prefix m category =
     (if loadedAt = None then Inl (provider @ '': not loaded'')
      else if \<not> HasPrefix category (prefix @ '':'') then Inl (provider @ '': unknown category '' @ category)
      else let country = TrimPrefix category (prefix @ '':'') in
           case map_of m country of
             None \<Rightarrow> Inl (provider @ '': unknown country '' @ country)
           | Some ps \<Rightarrow> Inr ps)"

section \<open>ipverse\<close>

record ipverse =
  iv_id :: string
  iv_prefix :: string
  iv_BaseURL :: string
  iv_Countries :: "string list"
  iv_prefixes :: country_map
  iv_loadedAt :: "int option"
  iv_lastErr :: string

definition ipverse_New :: "string \<Rightarrow> string \<Rightarrow> cfg_map \<Rightarrow> ipverse result" where
  "ipverse_New i prefix cfg =
     (let cs = cfg_strings cfg ''countries'' in
      if cs = [] then Inl ''ipverse: countries is required''
      else Inr \<lparr> iv_id = i, iv_prefix = prefix,
                 iv_BaseURL = or_default (cfg_string cfg ''base_url'') ''https://ipverse.net/ipblocks/data/countries/{country}.zone'',
                 iv_Countries = cs, iv_prefixes = [], iv_loadedAt = None, iv_lastErr = [] \<rparr>)"

definition ipverse_Categories :: "ipverse \<Rightarrow> string list" where
  "ipverse_Categories p = map (\<lambda>c. iv_prefix p @ '':'' @ c) (iv_Countries p)"

definition ipverse_Info :: "ipverse \<Rightarrow> SourceInfo" where
  "ipverse_Info p = \<lparr> inf_ID = iv_id p, inf_Provider = ''ipverse'', inf_Prefix = iv_prefix p, inf_Enabled = True,
     inf_Categories = ipverse_Categories p, inf_LastFetched = iv_loadedAt p, inf_LastError = iv_lastErr p \<rparr>"

text \<open>\<open>strings.ReplaceAll\<close> of a non-empty text.\<close>

function ReplaceAll :: "string \<Rightarrow> string \<Rightarrow> string \<Rightarrow> string" where
  "ReplaceAll s old new =
     (if old = [] \<or> s = [] then s
      else if HasPrefix s old then new @ ReplaceAll (drop (length old) s) old new
      else hd s # ReplaceAll (tl s) old new)"
  by pat_completeness auto
termination by (relation "measure (length \<circ> fst)") auto

declare ReplaceAll.simps [simp del]

definition ipverse_parsePrefixes :: "string \<Rightarrow> error option \<Rightarrow> prefix list result" where
  "ipverse_parsePrefixes body read_err =
     (case scan_lines body of (ls, too_long) \<Rightarrow>
        if too_long then Inl ''bufio.Scanner: token too long''
        else case read_err of Some e \<Rightarrow> Inl e | None \<Rightarrow> Inr (prefixes_of_lines ls))"

definition fetchCountry :: "env \<Rightarrow> string \<Rightarrow> prefix list result" where
  "fetchCountry ev url =
     (case ev_http ev url of
        Inl e \<Rightarrow> Inl e
      | Inr (status, body, read_err) \<Rightarrow>
          if status \<noteq> 200 then Inl (''HTTP '' @ show_int status) else ipverse_parsePrefixes body read_err)"

fun fetch_countries :: "env \<Rightarrow> string \<Rightarrow> string list \<Rightarrow> country_map \<Rightarrow> (error \<times> error) option \<times> country_map" where
  "fetch_countries ev base [] m = (None, m)"
| "fetch_countries ev base (c # cs) m =
     (case fetchCountry ev (ReplaceAll base ''{country}'' c) of
        Inl e \<Rightarrow> (Some (c, e), m)
      | Inr ps \<Rightarrow> fetch_countries ev base cs (AList.update c ps m))"

definition ipverse_Load :: "env \<Rightarrow> ipverse \<Rightarrow> error option \<times> ipverse" where
  "ipverse_Load ev p =
     (case fetch_countries ev (iv_BaseURL p) (iv_Countries p) [] of
        (Some (c, e), m) \<Rightarrow> (Some (''ipverse: fetch '' @ c @ '': '' @ e), p\<lparr> iv_prefixes := m, iv_lastErr := e, iv_loadedAt := None \<rparr>)
      | (None, m) \<Rightarrow> (None, p\<lparr> iv_prefixes := m, iv_lastErr := [], iv_loadedAt := Some (ev_now ev) \<rparr>))"

definition ipverse_GetPrefixes :: "ipverse \<Rightarrow> string \<Rightarrow> prefix list result" where
  "ipverse_GetPrefixes p category = country_prefixes ''ipverse'' (iv_loadedAt p) (iv_prefix p) (iv_prefixes p) category"

section \<open>v2flygeosite\<close>

text \<open>The configuration the two v2fly providers share.\<close>

record v2fly_config =
  vc_URL :: string
  vc_CachePath :: string
  vc_RefreshInterval :: string
  vc_HTTPTimeout :: string

definition v2fly_Config :: "string \<Rightarrow> string \<Rightarrow> cfg_map \<Rightarrow> v2fly_config" where
  "v2fly_Config url pth cfg =
     \<lparr> vc_URL = or_default (cfg_string cfg ''url'') url, vc_CachePath = or_default (cfg_string cfg ''cache_path'') pth,
       vc_RefreshInterval = or_default (cfg_string cfg ''refresh_interval'') ''24h'',
       vc_HTTPTimeout = or_default (cfg_string cfg ''http_timeout'') ''30s'' \<rparr>"

definition v2fly_store :: "string \<Rightarrow> v2fly_config \<Rightarrow> fs \<Rightarrow> HTTPStore result run" where
  "v2fly_store provider c s =
     (case ParseDuration (vc_RefreshInterval c) of
        None \<Rightarrow> Returns (Inl (provider @ '': invalid refresh_interval '' @ vc_RefreshInterval c))
      | Some _ \<Rightarrow>
          (case ParseDuration (vc_HTTPTimeout c) of
             None \<Rightarrow> Returns (Inl (provider @ '': invalid http_timeout '' @ vc_HTTPTimeout c))
           | Some t \<Rightarrow>
               (case NewHTTPStore (vc_URL c) (vc_CachePath c) t s of
                  Panics e \<Rightarrow> Panics e
                | Returns r \<Rightarrow> Returns (wrap_err (provider @ '': create HTTPStore'') r))))"

record geosite_src =
  ge_id :: string
  ge_prefix :: string
  ge_config :: v2fly_config
  ge_store :: HTTPStore
  ge_dl :: "dl_provider option"
  ge_loadedAt :: "int option"
  ge_lastErr :: string

definition geosite_New :: "string \<Rightarrow> string \<Rightarrow> cfg_map \<Rightarrow> fs \<Rightarrow> geosite_src result run" where
  "geosite_New i prefix cfg s =
     (let c = v2fly_Config ''https://github.com/v2fly/domain-list-community/releases/latest/download/dlc.dat'' ''/var/lib/d2ip/dlc.dat'' cfg in
      case v2fly_store ''v2flygeosite'' c s of
        Panics e \<Rightarrow> Panics e
      | Returns (Inl e) \<Rightarrow> Returns (Inl e)
      | Returns (Inr st) \<Rightarrow> Returns (Inr \<lparr> ge_id = i, ge_prefix = prefix, ge_config = c, ge_store = st, ge_dl = None,
          ge_loadedAt = None, ge_lastErr = [] \<rparr>))"

definition geosite_Categories :: "geosite_src \<Rightarrow> string list" where
  "geosite_Categories p = (case ge_dl p of None \<Rightarrow> [] | Some dl \<Rightarrow> map (\<lambda>c. ge_prefix p @ '':'' @ c) (dl_Categories dl))"

definition geosite_Info :: "geosite_src \<Rightarrow> SourceInfo" where
  "geosite_Info p = \<lparr> inf_ID = ge_id p, inf_Provider = ''v2flygeosite'', inf_Prefix = ge_prefix p, inf_Enabled = True,
     inf_Categories = geosite_Categories p, inf_LastFetched = ge_loadedAt p, inf_LastError = ge_lastErr p \<rparr>"

definition interval :: "string \<Rightarrow> duration" where
  "interval s = (case ParseDuration s of None \<Rightarrow> 0 | Some d \<Rightarrow> d)"

definition dl_Load :: "env \<Rightarrow> fs \<Rightarrow> string \<Rightarrow> dl_provider result" where
  "dl_Load ev s p =
     (case ReadFile s p of
        Inl _ \<Rightarrow> Inl ''domainlist: read file: no such file or directory''
      | Inr c \<Rightarrow> (case ev_geosite ev c of
          Inl e \<Rightarrow> Inl (''domainlist: unmarshal protobuf: '' @ e)
        | Inr entries \<Rightarrow> Inr (dl_load entries)))"

definition geosite_Load :: "env \<Rightarrow> geosite_src \<Rightarrow> fs \<Rightarrow> error option \<times> geosite_src \<times> fs" where
  "geosite_Load ev p s =
     (case store_Get (ev_sha ev) (ev_server ev (vc_URL (ge_config p))) (ev_sync ev) (ev_now ev)
             (interval (vc_RefreshInterval (ge_config p))) (ge_store p) s of
        (Inl e, st, s1) \<Rightarrow>
          (Some (''v2flygeosite: fetch failed: '' @ e), p\<lparr> ge_store := st, ge_lastErr := e, ge_loadedAt := None \<rparr>, s1)
      | (Inr (pth, v), st, s1) \<Rightarrow>
          (case dl_Load ev s1 pth of
             Inl e \<Rightarrow> (Some (''v2flygeosite: load domainlist: '' @ e), p\<lparr> ge_store := st, ge_lastErr := e, ge_loadedAt := None \<rparr>, s1)
           | Inr dl \<Rightarrow> (None, p\<lparr> ge_store := st, ge_dl := Some dl, ge_lastErr := [], ge_loadedAt := Some (ev_now ev) \<rparr>, s1)))"

definition geosite_GetDomains :: "env \<Rightarrow> geosite_src \<Rightarrow> string \<Rightarrow> string list result" where
  "geosite_GetDomains ev p category =
     (case ge_dl p of
        None \<Rightarrow> Inl ''v2flygeosite: provider not loaded''
      | Some dl \<Rightarrow>
          if \<not> HasPrefix category (ge_prefix p @ '':'') then Inl (''v2flygeosite: unknown category '' @ category)
          else let code = TrimPrefix (TrimPrefix category (ge_prefix p @ '':'')) ''geosite:'' in
               case Select (ev_idna ev) dl [\<lparr> sel_Code = code, sel_Attrs = [] \<rparr>] of
                 Inl e \<Rightarrow> Inl (''v2flygeosite: select '' @ code @ '': '' @ e)
               | Inr rules \<Rightarrow> Inr (map ru_Value (filter (\<lambda>r. IsResolvable (ru_Type r) \<and> ru_Value r \<noteq> []) rules)))"

section \<open>v2flygeoip\<close>

record geoip_src =
  gp_id :: string
  gp_prefix :: string
  gp_config :: v2fly_config
  gp_store :: HTTPStore
  gp_prefixes :: country_map
  gp_loadedAt :: "int option"
  gp_lastErr :: string

definition geoip_New :: "string \<Rightarrow> string \<Rightarrow> cfg_map \<Rightarrow> fs \<Rightarrow> geoip_src result run" where
  "geoip_New i prefix cfg s =
     (let c = v2fly_Config ''https://github.com/v2fly/geoip/releases/latest/download/geoip.dat'' ''/var/lib/d2ip/geoip.dat'' cfg in
      case v2fly_store ''v2flygeoip'' c s of
        Panics e \<Rightarrow> Panics e
      | Returns (Inl e) \<Rightarrow> Returns (Inl e)
      | Returns (Inr st) \<Rightarrow> Returns (Inr \<lparr> gp_id = i, gp_prefix = prefix, gp_config = c, gp_store = st, gp_prefixes = [],
          gp_loadedAt = None, gp_lastErr = [] \<rparr>))"

text \<open>\<open>netip.AddrFromSlice\<close>.\<close>

definition AddrFromSlice :: "8 word list \<Rightarrow> addr option" where
  "AddrFromSlice b = (if length b = 4 then Some (addr_from4 b) else if length b = 16 then Some (addr_from16 b) else None)"

definition cidrToPrefix :: "cidr_msg option \<Rightarrow> prefix option" where
  "cidrToPrefix c = (case c of
     None \<Rightarrow> None
   | Some m \<Rightarrow> if cm_Ip m = [] then None
       else map_option (\<lambda>a. prefix_from a (int (cm_Prefix m))) (AddrFromSlice (cm_Ip m)))"

fun add_cidrs :: "string \<Rightarrow> cidr_msg option list \<Rightarrow> country_map \<Rightarrow> country_map" where
  "add_cidrs country [] m = m"
| "add_cidrs country (c # cs) m =
     add_cidrs country cs (case cidrToPrefix c of None \<Rightarrow> m | Some p \<Rightarrow> append_prefix country p m)"

fun add_entries :: "geoip_entry list \<Rightarrow> country_map \<Rightarrow> country_map" where
  "add_entries [] m = m"
| "add_entries (e # es) m =
     (let country = ToLower (gi_CountryCode e) in
      add_entries es (if country = [] then m else add_cidrs country (gi_Cidr e) m))"

definition loadFromData :: "env \<Rightarrow> file_content \<Rightarrow> geoip_src \<Rightarrow> error option \<times> geoip_src" where
  "loadFromData ev data p =
     (let p1 = p\<lparr> gp_prefixes := [], gp_lastErr := [], gp_loadedAt := None \<rparr> in
      case ev_geoip ev data of
        Inl e \<Rightarrow> (Some (''v2flygeoip: unmarshal: '' @ e), p1)
      | Inr entries \<Rightarrow> (None, p1\<lparr> gp_prefixes := add_entries entries [], gp_loadedAt := Some (ev_now ev) \<rparr>))"

definition geoip_Categories :: "geoip_src \<Rightarrow> string list" where
  "geoip_Categories p = map (\<lambda>(c, _). gp_prefix p @ '':'' @ c) (gp_prefixes p)"

definition geoip_Info :: "geoip_src \<Rightarrow> SourceInfo" where
  "geoip_Info p = \<lparr> inf_ID = gp_id p, inf_Provider = ''v2flygeoip'', inf_Prefix = gp_prefix p, inf_Enabled = True,
     inf_Categories = geoip_Categories p, inf_LastFetched = gp_loadedAt p, inf_LastError = gp_lastErr p \<rparr>"

definition geoip_Load :: "env \<Rightarrow> geoip_src \<Rightarrow> fs \<Rightarrow> error option \<times> geoip_src \<times> fs" where
  "geoip_Load ev p s =
     (let p1 = p\<lparr> gp_prefixes := [], gp_lastErr := [], gp_loadedAt := None \<rparr> in
      case store_Get (ev_sha ev) (ev_server ev (vc_URL (gp_config p))) (ev_sync ev) (ev_now ev)
             (interval (vc_RefreshInterval (gp_config p))) (gp_store p) s of
        (Inl e, st, s1) \<Rightarrow> (Some (''v2flygeoip: fetch failed: '' @ e), p1\<lparr> gp_store := st, gp_lastErr := e \<rparr>, s1)
      | (Inr (pth, v), st, s1) \<Rightarrow>
          (let p2 = p1\<lparr> gp_store := st \<rparr> in
           case ReadFile s1 pth of
             Inl _ \<Rightarrow> (let e = ''open: no such file or directory'' in (Some (''v2flygeoip: read file: '' @ e), p2\<lparr> gp_lastErr := e \<rparr>, s1))
           | Inr data \<Rightarrow>
               (case loadFromData ev data p2 of
                  (Some e, p3) \<Rightarrow> (Some e, p3\<lparr> gp_lastErr := e \<rparr>, s1)
                | (None, p3) \<Rightarrow> (None, p3, s1))))"

definition geoip_GetPrefixes :: "geoip_src \<Rightarrow> string \<Rightarrow> prefix list result" where
  "geoip_GetPrefixes p category = country_prefixes ''v2flygeoip'' (gp_loadedAt p) (gp_prefix p) (gp_prefixes p) category"

section \<open>mmdb\<close>

record mmdb_src =
  mm_id :: string
  mm_prefix :: string
  mm_File :: string
  mm_URL :: string
  mm_Countries :: "string list"
  mm_prefixes :: country_map
  mm_loadedAt :: "int option"
  mm_lastErr :: string
  mm_reader :: bool

definition mmdb_New :: "string \<Rightarrow> string \<Rightarrow> cfg_map \<Rightarrow> mmdb_src result" where
  "mmdb_New i prefix cfg =
     (let f = cfg_string cfg ''file''; u = cfg_string cfg ''url'' in
      if f = [] \<and> u = [] then Inl ''mmdb: either file or url is required''
      else Inr \<lparr> mm_id = i, mm_prefix = prefix, mm_File = f, mm_URL = u, mm_Countries = cfg_strings cfg ''countries'',
                 mm_prefixes = [], mm_loadedAt = None, mm_lastErr = [], mm_reader = False \<rparr>)"

text \<open>\<open>net.IPMask.Size\<close>: the leading ones of a contiguous mask and its length, else 0 and 0.\<close>

definition mask_size :: "8 word list \<Rightarrow> nat \<times> nat" where
  "mask_size m =
     (let bs = concat (map (\<lambda>w. map (bit w) [7, 6, 5, 4, 3, 2, 1, 0]) m); n = length (takeWhile id bs)
      in if list_all (\<lambda>b. \<not> b) (drop n bs) then (n, length bs) else (0, 0))"

definition netipPrefixFromIPNet :: "ipnet option \<Rightarrow> prefix option" where
  "netipPrefixFromIPNet ipNet = (case ipNet of
     None \<Rightarrow> None
   | Some n \<Rightarrow> (case mask_size (in_Mask n) of (ones, bits) \<Rightarrow>
       if ones = 0 \<and> bits = 0 then None
       else map_option (\<lambda>a. prefix_from a (int ones)) (AddrFromSlice (in_IP n))))"

fun add_networks :: "string list \<Rightarrow> (error + ipnet option \<times> string) list \<Rightarrow> country_map \<Rightarrow> country_map" where
  "add_networks whitelist [] m = m"
| "add_networks whitelist (Inl e # ns) m = add_networks whitelist ns m"
| "add_networks whitelist (Inr (ipNet, country) # ns) m =
     add_networks whitelist ns
       (case netipPrefixFromIPNet ipNet of
          None \<Rightarrow> m
        | Some p \<Rightarrow> if country = [] \<or> (whitelist \<noteq> [] \<and> country \<notin> set whitelist) then m else append_prefix country p m)"

text \<open>The temporary file of a download; it is removed again when \<open>Load\<close> returns.\<close>

definition downloadToTemp :: "env \<Rightarrow> string \<Rightarrow> fs \<Rightarrow> string result \<times> fs" where
  "downloadToTemp ev url s =
     (case ev_http ev url of
        Inl e \<Rightarrow> (Inl e, s)
      | Inr (status, body, read_err) \<Rightarrow>
          if status \<noteq> 200 then (Inl (''HTTP '' @ show_int status), s)
          else if fs_fault s OpOpen (ev_temp ev) then (Inl ''open: permission denied'', s)
          else (case WriteFile (ev_temp ev) (FText body) s of
             (Some e, s1) \<Rightarrow> (Inl e, snd (Remove (ev_temp ev) s1))
           | (None, s1) \<Rightarrow> (case read_err of
                Some e \<Rightarrow> (Inl e, snd (Remove (ev_temp ev) s1))
              | None \<Rightarrow> (Inr (ev_temp ev), s1))))"

definition mmdb_read :: "env \<Rightarrow> string \<Rightarrow> fs \<Rightarrow> mmdb_src \<Rightarrow> error option \<times> mmdb_src" where
  "mmdb_read ev pth s p =
     (case ev_mmdb ev (case ReadFile s pth of Inl _ \<Rightarrow> None | Inr c \<Rightarrow> Some c) of
        Inl e \<Rightarrow> (Some (''mmdb: open '' @ pth @ '': '' @ e), p\<lparr> mm_lastErr := e \<rparr>)
      | Inr (networks, err) \<Rightarrow>
          let p1 = p\<lparr> mm_reader := True, mm_prefixes := add_networks (mm_Countries p) networks [] \<rparr> in
          (case err of
             Some e \<Rightarrow> (Some (''mmdb: iterate: '' @ e), p1\<lparr> mm_lastErr := e \<rparr>)
           | None \<Rightarrow> (None, p1\<lparr> mm_loadedAt := Some (ev_now ev) \<rparr>)))"

definition mmdb_Load :: "env \<Rightarrow> mmdb_src \<Rightarrow> fs \<Rightarrow> error option \<times> mmdb_src \<times> fs" where
  "mmdb_Load ev p s =
     (let p1 = p\<lparr> mm_prefixes := [], mm_lastErr := [], mm_loadedAt := None \<rparr> in
      if mm_File p = [] \<and> mm_URL p \<noteq> [] then
        (case downloadToTemp ev (mm_URL p) s of
           (Inl e, s1) \<Rightarrow> (Some (''mmdb: download: '' @ e), p1\<lparr> mm_lastErr := e \<rparr>, s1)
         | (Inr tmp, s1) \<Rightarrow> (case mmdb_read ev tmp s1 p1 of (e, p2) \<Rightarrow> (e, p2, snd (Remove tmp s1))))
      else (case mmdb_read ev (mm_File p) s p1 of (e, p2) \<Rightarrow> (e, p2, s)))"

definition mmdb_Categories :: "mmdb_src \<Rightarrow> string list" where
  "mmdb_Categories p = map (\<lambda>(c, _). mm_prefix p @ '':'' @ c) (mm_prefixes p)"

definition mmdb_Info :: "mmdb_src \<Rightarrow> SourceInfo" where
  "mmdb_Info p = \<lparr> inf_ID = mm_id p, inf_Provider = ''mmdb'', inf_Prefix = mm_prefix p, inf_Enabled = True,
     inf_Categories = mmdb_Categories p, inf_LastFetched = mm_loadedAt p, inf_LastError = mm_lastErr p \<rparr>"

definition mmdb_GetPrefixes :: "mmdb_src \<Rightarrow> string \<Rightarrow> prefix list result" where
  "mmdb_GetPrefixes p category = country_prefixes ''mmdb'' (mm_loadedAt p) (mm_prefix p) (mm_prefixes p) category"

section \<open>Facts\<close>

lemma append_prefix_lookup:
  "map_of (append_prefix k p m) c = (if c = k then Some ((case map_of m k of None \<Rightarrow> [] | Some ps \<Rightarrow> ps) @ [p]) else map_of m c)"
  by (simp add: append_prefix_def update_conv)

lemma HasPrefix_trans_name: "HasPrefix (p @ CHR '':'' # c) (p @ '':'')" and TrimPrefix_name: "TrimPrefix (p @ CHR '':'' # c) (p @ '':'') = c"
  by (simp_all add: HasPrefix_def TrimPrefix_def)

text \<open>The lines of an exported list, read back.\<close>

lemma raw_lines_join: "\<forall>l\<in>set ls. newline \<notin> set l \<Longrightarrow> ls \<noteq> [] \<Longrightarrow> raw_lines (join_with [newline] ls @ [newline]) = ls"
proof -
  assume ls: "\<forall>l\<in>set ls. newline \<notin> set l" and ne: "ls \<noteq> []"
  have "join_with [newline] ls @ [newline] = concat (map (\<lambda>l. l @ [newline]) ls)"
    using ne by (induction "[newline]" ls rule: join_with.induct) simp_all
  then have "SplitChar newline (join_with [newline] ls @ [newline]) = ls @ [[]]"
    using SplitChar_lines [OF ls] by simp
  then show ?thesis by (simp add: raw_lines_def Let_def)
qed

lemma drop_cr_prefix: "prefix_ok p \<Longrightarrow> drop_cr (prefix_string p) = prefix_string p"
proof -
  assume p: "prefix_ok p"
  have "of_char (last (prefix_string p)) \<noteq> (13 :: nat)" if "prefix_string p \<noteq> []"
    using prefix_string_chars [OF p last_in_set [OF that]] addr_char_facts(9) by blast
  then show ?thesis by (auto simp: drop_cr_def)
qed

lemma scan_plain:
  assumes "list_all prefix_ok ps" and "ps \<noteq> []"
  shows "scan_lines (formatPlain ps) = (map prefix_string ps, False)"
proof -
  have nl: "\<forall>l\<in>set (map prefix_string ps). newline \<notin> set l"
    using assms(1) prefix_string_chars addr_char_facts(5) by (auto simp: list_all_iff)
  have raw: "raw_lines (formatPlain ps) = map prefix_string ps"
    unfolding formatPlain_def join_lines_def by (rule raw_lines_join [OF nl]) (use assms(2) in simp)
  have "\<forall>l\<in>set (map prefix_string ps). length l \<le> 65535"
    using assms(1) length_prefix_string by (fastforce simp: list_all_iff)
  then have "takeWhile (\<lambda>l. length l \<le> 65535) (map prefix_string ps) = map prefix_string ps"
    by (simp add: takeWhile_eq_all_conv)
  moreover have "map drop_cr (map prefix_string ps) = map prefix_string ps"
    using assms(1) drop_cr_prefix by (simp add: list_all_iff)
  ultimately show ?thesis by (simp only: scan_lines_def raw Let_def order_less_irrefl)
qed

lemma TrimSpace_prefix: "prefix_ok p \<Longrightarrow> TrimSpace (prefix_string p) = prefix_string p"
  using TrimSpace_core [of "prefix_string p" "[]" "[]"] prefix_string_chars addr_char_facts(1)
  by (cases "prefix_string p = []") (auto simp: TrimSpace_def)

lemma prefix_string_not_comment: "prefix_ok p \<Longrightarrow> prefix_string p \<noteq> [] \<and> \<not> HasPrefix (prefix_string p) ''#''"
proof -
  assume p: "prefix_ok p"
  have ne: "prefix_string p \<noteq> []" using p by (auto simp: prefix_string_def prefix_ok_def)
  then have "hd (prefix_string p) \<noteq> CHR ''#''"
    using prefix_string_chars [OF p] addr_char_facts(8) by (metis hd_in_set)
  with ne show ?thesis by (cases "prefix_string p") (simp_all add: HasPrefix_def)
qed

lemma prefixes_of_printed: "list_all prefix_ok ps \<Longrightarrow> prefixes_of_lines (map prefix_string ps) = ps"
proof (induction ps)
  case (Cons p ps)
  then have p: "prefix_ok p" and ps: "list_all prefix_ok ps" by simp_all
  have "entry_lines (map prefix_string (p # ps)) = prefix_string p # entry_lines (map prefix_string ps)"
    using TrimSpace_prefix [OF p] prefix_string_not_comment [OF p] by (simp add: entry_lines_def)
  then show ?case using Cons.IH [OF ps] ParsePrefix_prefix_string [OF p]
    by (simp add: prefixes_of_lines_def host_or_prefix_def)
qed (simp add: prefixes_of_lines_def entry_lines_def)

lemma scan_plain_empty: "scan_lines (formatPlain []) = ([[]], False)"
  by (simp add: scan_lines_def raw_lines_def formatPlain_def join_lines_def drop_cr_def)

lemma load_plain:
  assumes "list_all prefix_ok ps" and "ReadFile s (pt_File p) = Inr (FText (formatPlain ps))" and "pt_Type p = ''ips''"
  shows "plaintext_Load ev s p = (None, p\<lparr> pt_domains := [], pt_prefixes := ps, pt_lastErr := [], pt_loadedAt := Some (ev_now ev) \<rparr>)"
proof (cases "ps = []")
  case True
  have "prefixes_of_lines [[]] = []" by (simp add: prefixes_of_lines_def entry_lines_def TrimSpace_def)
  with assms True scan_plain_empty show ?thesis by (simp add: plaintext_Load_def file_text_def Let_def)
next
  case False
  with assms scan_plain [OF assms(1) False] prefixes_of_printed [OF assms(1)] show ?thesis
    by (simp add: plaintext_Load_def file_text_def Let_def)
qed

section \<open>Properties\<close>

text \<open>
  C32: a list exported for a policy in the plain format and read back by a plain-text source of
  addresses is the same list; an empty list is written as one blank line, loads without error and
  is then reported as not loaded.
\<close>

theorem plain_export_reload:
  assumes "WritePolicy baseDir policy v4 v6 s = (Inr report, s')" and "export_format policy = ''plain''"
    and "list_all prefix_ok v4" and "\<not> fs_fault s OpRead (pt_File p)"
    and "pt_File p = export_path baseDir policy ''ipv4''" and "pt_Type p = ''ips''"
  shows "\<exists>p'. plaintext_Load ev s' p = (None, p') \<and> pe_IPv4Count report = length v4 \<and>
    plaintext_GetPrefixes p' (pt_prefix p @ '':default'') = (if v4 = [] then Inl ''plaintext: not loaded'' else Inr v4)"
proof -
  let ?v4 = "export_path baseDir policy ''ipv4''" and ?v6 = "export_path baseDir policy ''ipv6''"
  have neq: "?v4 \<noteq> ?v6" by (simp add: export_path_def Join_def)
  from assms(1) obtain s1 where w4: "WriteFile ?v4 (formatPrefixesForPolicy ''plain'' (pol_Name policy) v4 ''v4'') s = (None, s1)"
    and w6: "WriteFile ?v6 (formatPrefixesForPolicy ''plain'' (pol_Name policy) v6 ''v6'') s1 = (None, s')"
    and n: "pe_IPv4Count report = length v4"
    by (auto simp: WritePolicy_def Let_def assms(2) split: option.splits prod.splits)
  have "fs_files s' ?v4 = Some (FText (formatPlain v4))"
    using WriteFile_ok [OF w4] WriteFile_ok [OF w6] neq by (simp add: formatPrefixesForPolicy_def)
  moreover have "fs_fault s' = fs_fault s"
    using fs_fault_ops(1) [of ?v4 _ s] fs_fault_ops(1) [of ?v6 _ s1] w4 w6 by (metis snd_conv)
  ultimately have "ReadFile s' (pt_File p) = Inr (FText (formatPlain v4))"
    using assms(4,5) by (simp add: ReadFile_def)
  from load_plain [OF assms(3) this assms(6), of ev] n show ?thesis
    by (simp add: plaintext_GetPrefixes_def)
qed

lemma dl_fold_lookup:
  "map_of (fold (\<lambda>site m. AList.update (ToLower (gs_CountryCode site)) site m) es m) k = Some v \<Longrightarrow>
     (ToLower (gs_CountryCode v) = k \<and> v \<in> set es) \<or> map_of m k = Some v"
proof (induction es arbitrary: m)
  case (Cons e es)
  from Cons.prems Cons.IH [of "AList.update (ToLower (gs_CountryCode e)) e m"]
  have "(ToLower (gs_CountryCode v) = k \<and> v \<in> set es) \<or> map_of (AList.update (ToLower (gs_CountryCode e)) e m) k = Some v"
    by simp
  then show ?case by (auto simp: update_conv split: if_splits)
qed simp

section \<open>Witnesses\<close>

definition ex_env :: env where
  "ex_env = \<lparr> ev_now = 7, ev_http = (\<lambda>_. Inl ''no network''), ev_server = (\<lambda>_. ex_server), ev_sync = None, ev_sha = id,
     ev_idna = Inr, ev_geosite = (\<lambda>_. Inl ''no data''), ev_geoip = (\<lambda>_. Inl ''no data''), ev_temp = ''/tmp/m'',
     ev_mmdb = (\<lambda>_. Inl ''no data'') \<rparr>"

definition ex_plain_policy :: PolicyConfig where
  "ex_plain_policy = \<lparr> pol_Name = ''p'', pol_Enabled = True, pol_Categories = [], pol_Backend = BackendNone, pol_TableID = 0,
     pol_Iface = [], pol_NFTTable = [], pol_NFTSetV4 = [], pol_NFTSetV6 = [], pol_DryRun = False, pol_ExportFormat = [],
     pol_Aggregation = None \<rparr>"

definition ex_plaintext :: plaintext where
  "ex_plaintext = \<lparr> pt_id = ''s'', pt_prefix = ''my'', pt_Type = ''ips'', pt_File = ''out/p/ipv4.txt'', pt_domains = [], pt_prefixes = [],
     pt_loadedAt = None, pt_lastErr = [] \<rparr>"

theorem plain_export_reload_witness:
  "\<exists>report s' p'. WritePolicy ''out'' ex_plain_policy [Prefix (Addr4 0x0A000000) 8] [] no_files = (Inr report, s') \<and>
     plaintext_Load ex_env s' ex_plaintext = (None, p') \<and>
     plaintext_GetPrefixes p' ''my:default'' = Inr [Prefix (Addr4 0x0A000000) 8]"
proof -
  let ?v4 = "[Prefix (Addr4 0x0A000000) 8]"
  obtain r s' where w: "WritePolicy ''out'' ex_plain_policy ?v4 [] no_files = (r, s')" by (rule prod.exhaust)
  then have "\<not> isl r"
    by (auto simp: WritePolicy_def MkdirAll_def WriteFile_def no_files_def Let_def)
  then obtain report where w': "WritePolicy ''out'' ex_plain_policy ?v4 [] no_files = (Inr report, s')"
    using w by (cases r) auto
  have "\<exists>p'. plaintext_Load ex_env s' ex_plaintext = (None, p') \<and> pe_IPv4Count report = length ?v4 \<and>
      plaintext_GetPrefixes p' (pt_prefix ex_plaintext @ '':default'') = (if ?v4 = [] then Inl ''plaintext: not loaded'' else Inr ?v4)"
    by (rule plain_export_reload [OF w'])
       (simp_all add: export_format_def ex_plain_policy_def prefix_ok_def no_files_def ex_plaintext_def export_path_def Join_def extForFormat_def)
  then show ?thesis using w' by (auto simp: ex_plaintext_def)
qed

definition ex_entries_dlc :: "geosite list" where
  "ex_entries_dlc = [\<lparr> gs_CountryCode = ''RU'', gs_Domain =
     [\<lparr> dm_Type = Domain_Full, dm_Value = ''Ya.RU.'', dm_Attribute = [] \<rparr>, \<lparr> dm_Type = Domain_Plain, dm_Value = ''ads'', dm_Attribute = [] \<rparr>] \<rparr>]"

definition ex_geosite :: geosite_src where
  "ex_geosite = \<lparr> ge_id = ''g'', ge_prefix = ''geosite'', ge_config = v2fly_Config [] [] [], ge_store = ex_store zero_version,
     ge_dl = Some (dl_load ex_entries_dlc), ge_loadedAt = Some 1, ge_lastErr = [] \<rparr>"

lemma ex_lower:
  "lower_char CHR ''R'' = CHR ''r''" "lower_char CHR ''U'' = CHR ''u''" "lower_char CHR ''Y'' = CHR ''y''"
  "lower_char CHR ''a'' = CHR ''a''" "lower_char CHR ''.'' = CHR ''.''" "lower_char CHR ''r'' = CHR ''r''" "lower_char CHR ''u'' = CHR ''u''"
  by code_simp+


end
