(* ===== verification/Cache.thy ===== *)
theory Cache
  imports Cidr_Aggregate Config "HOL-Library.Char_ord" "HOL-Library.List_Lexorder"
begin

text \<open>
  The SQLite cache (\<open>internal/cache\<close>). The tables are lists of rows, in insertion order, and
  every SQL statement of the sources is a definition on them with its uniqueness, foreign-key
  and check constraints. A connection numbers the calls of \<open>database/sql\<close>; an arbitrary
  function says which of them fail, where the delivery of rows breaks off, and how many
  parameters a statement may have. A transaction that does not commit leaves the tables as
  they were. Logging is not modelled.
\<close>

section \<open>Statuses and results\<close>

datatype cache_Status = CStatusValid | CStatusFailed | CStatusNXDomain | CStatusUnknown

fun cache_Status_String :: "cache_Status \<Rightarrow> string" where
  "cache_Status_String CStatusValid = ''valid''"
| "cache_Status_String CStatusFailed = ''failed''"
| "cache_Status_String CStatusNXDomain = ''nxdomain''"
| "cache_Status_String CStatusUnknown = ''unknown''"

text \<open>Times are in nanoseconds since the epoch; \<open>Unix()\<close> rounds down to seconds.\<close>

definition Unix :: "int \<Rightarrow> int" where
  "Unix t = t div Second"

record cache_result =
  cr_Domain :: string
  cr_IPv4 :: "addr list"
  cr_IPv6 :: "addr list"
  cr_Status :: cache_Status
  cr_ResolvedAt :: int

section \<open>Tables\<close>

record domain_row =
  dr_id :: int
  dr_name :: string
  dr_status :: string
  dr_last :: int

record record_row =
  rr_id :: int
  rr_domain :: int
  rr_ip :: string
  rr_type :: string
  rr_updated :: int
  rr_status :: string

record db =
  tb_domains :: "domain_row list"
  tb_records :: "record_row list"
  tb_kv :: "(string \<times> string) list"

definition empty_db :: db where
  "empty_db = \<lparr> tb_domains = [], tb_records = [], tb_kv = [] \<rparr>"

text \<open>The rowid SQLite gives to a new row of a table with an \<open>INTEGER PRIMARY KEY\<close>.\<close>

definition next_id :: "int list \<Rightarrow> int" where
  "next_id ids = foldr max ids 0 + 1"

section \<open>Connections\<close>

record 'd conn =
  cn_db :: 'd
  cn_calls :: nat
  cn_fault :: "nat \<Rightarrow> bool"
  cn_cut :: "nat \<Rightarrow> nat option"
  cn_max_vars :: nat

type_synonym ('a, 'd) stmt = "'d \<Rightarrow> ('a \<times> 'd) result"

text \<open>One call with \<open>n\<close> placeholders.\<close>

definition exec :: "nat \<Rightarrow> ('a, 'd) stmt \<Rightarrow> 'd conn \<Rightarrow> 'a result \<times> 'd conn" where
  "exec n f c =
     (let k = cn_calls c; c1 = c\<lparr> cn_calls := Suc k \<rparr> in
      if cn_fault c k then (Inl ''database error'', c1)
      else if cn_max_vars c < n then (Inl ''too many SQL variables'', c1)
      else case f (cn_db c) of Inl e \<Rightarrow> (Inl e, c1) | Inr (x, d) \<Rightarrow> (Inr x, c1\<lparr> cn_db := d \<rparr>))"

text \<open>
  A query: the call, then the rows with \<open>rows.Next\<close> and \<open>rows.Err\<close>. The pair holds the rows
  the loop sees and whether the iteration ended with an error.
\<close>

definition query :: "nat \<Rightarrow> ('d \<Rightarrow> 'r list) \<Rightarrow> 'd conn \<Rightarrow> ('r list \<times> bool) result \<times> 'd conn" where
  "query n sel c =
     (let k = cn_calls c in
      case exec n (\<lambda>d. Inr (sel d, d)) c of
        (Inl e, c1) \<Rightarrow> (Inl e, c1)
      | (Inr rows, c1) \<Rightarrow>
          (case cn_cut c k of
             None \<Rightarrow> (Inr (rows, False), c1)
           | Some m \<Rightarrow> (Inr (take m rows, True), c1)))"

text \<open>\<open>QueryRowContext\<close> with \<open>Scan\<close> of an aggregate, which always has one row.\<close>

definition query_row :: "('d \<Rightarrow> 'a) \<Rightarrow> 'd conn \<Rightarrow> 'a result \<times> 'd conn" where
  "query_row f c = exec 0 (\<lambda>d. Inr (f d, d)) c"

definition begin_or_commit :: "'d conn \<Rightarrow> unit result \<times> 'd conn" where
  "begin_or_commit c = exec 0 (\<lambda>d. Inr ((), d)) c"

definition in_tx :: "string \<Rightarrow> string \<Rightarrow> ('d conn \<Rightarrow> 'a result \<times> 'd conn) \<Rightarrow> 'd conn \<Rightarrow> 'a result \<times> 'd conn" where
  "in_tx begin_msg commit_msg body c =
     (case begin_or_commit c of
        (Inl e, c1) \<Rightarrow> (wrap_err begin_msg (Inl e), c1)
      | (Inr _, c1) \<Rightarrow>
          (case body c1 of
             (Inl e, c2) \<Rightarrow> (Inl e, c2\<lparr> cn_db := cn_db c1 \<rparr>)
           | (Inr x, c2) \<Rightarrow>
               (case begin_or_commit c2 of
                  (Inl e, c3) \<Rightarrow> (wrap_err commit_msg (Inl e), c3\<lparr> cn_db := cn_db c1 \<rparr>)
                | (Inr _, c3) \<Rightarrow> (Inr x, c3))))"

text \<open>A loop that stops at the first error.\<close>

fun for_each :: "('x \<Rightarrow> 'd conn \<Rightarrow> unit result \<times> 'd conn) \<Rightarrow> 'x list \<Rightarrow> 'd conn \<Rightarrow> unit result \<times> 'd conn" where
  "for_each f [] c = (Inr (), c)"
| "for_each f (x # xs) c =
     (case f x c of (Inl e, c1) \<Rightarrow> (Inl e, c1) | (Inr _, c1) \<Rightarrow> for_each f xs c1)"

text \<open>The batches \<open>xs[i:min(i+n, len(xs))]\<close> for \<open>i\<close> = 0, n, 2n, ...\<close>

function batches :: "nat \<Rightarrow> 'x list \<Rightarrow> 'x list list" where
  "batches n xs = (if n = 0 \<or> xs = [] then [] else take n xs # batches n (drop n xs))"
  by pat_completeness auto
termination by (relation "measure (length \<circ> snd)") auto

declare batches.simps [simp del]

definition maxParamsPerStmt :: nat where "maxParamsPerStmt = 900"
definition maxRowsPerTx :: nat where "maxRowsPerTx = 1000"

section \<open>Statements on the domains table\<close>

text \<open>\<open>INSERT INTO domains(name) VALUES (?),... ON CONFLICT(name) DO NOTHING\<close>, with the column defaults of the second migration.\<close>

definition insert_domain :: "string \<Rightarrow> db \<Rightarrow> db" where
  "insert_domain name d =
     (if name \<in> dr_name ` set (tb_domains d) then d
      else d\<lparr> tb_domains := tb_domains d @
        [\<lparr> dr_id = next_id (map dr_id (tb_domains d)), dr_name = name, dr_status = ''unknown'', dr_last = 0 \<rparr>] \<rparr>)"

definition insert_domains :: "string list \<Rightarrow> (unit, db) stmt" where
  "insert_domains names d = Inr ((), fold insert_domain names d)"

text \<open>\<open>UPDATE domains SET resolve_status=?, last_resolved_at=? WHERE name=?\<close>, with the check of the column.\<close>

definition resolve_statuses :: "string list" where
  "resolve_statuses = [''unknown'', ''valid'', ''failed'', ''nxdomain'']"

definition set_domain_status :: "string \<Rightarrow> string \<Rightarrow> int \<Rightarrow> db \<Rightarrow> db" where
  "set_domain_status name st t d = d\<lparr> tb_domains := map (\<lambda>r. if dr_name r = name
     then r\<lparr> dr_status := st, dr_last := t \<rparr> else r) (tb_domains d) \<rparr>"

definition update_domain :: "string \<Rightarrow> string \<Rightarrow> int \<Rightarrow> (unit, db) stmt" where
  "update_domain name st t d =
     (if name \<in> dr_name ` set (tb_domains d) \<and> st \<notin> set resolve_statuses then Inl ''CHECK constraint failed''
      else Inr ((), set_domain_status name st t d))"

text \<open>\<open>SELECT id, name FROM domains WHERE name IN (...)\<close>.\<close>

definition select_ids :: "string list \<Rightarrow> db \<Rightarrow> (int \<times> string) list" where
  "select_ids names d = map (\<lambda>r. (dr_id r, dr_name r)) (filter (\<lambda>r. dr_name r \<in> set names) (tb_domains d))"

section \<open>domains.go\<close>

record domainStatus =
  ds_name :: string
  ds_resolveStatus :: string
  ds_lastResolvedAt :: int

definition insert_batch :: "string list \<Rightarrow> db conn \<Rightarrow> unit result \<times> db conn" where
  "insert_batch batch c =
     (case exec (length batch) (insert_domains batch) c of (r, c1) \<Rightarrow> (wrap_err ''insert domains batch'' r, c1))"

definition update_status :: "domainStatus \<Rightarrow> db conn \<Rightarrow> unit result \<times> db conn" where
  "update_status ds c =
     (case exec 3 (update_domain (ds_name ds) (ds_resolveStatus ds) (ds_lastResolvedAt ds)) c of
        (r, c1) \<Rightarrow> (wrap_err ''update domain status'' r, c1))"

fun select_batches :: "string list list \<Rightarrow> (string \<rightharpoonup> int) \<Rightarrow> db conn \<Rightarrow> (string \<rightharpoonup> int) result \<times> db conn" where
  "select_batches [] idMap c = (Inr idMap, c)"
| "select_batches (batch # bs) idMap c =
     (case query (length batch) (select_ids batch) c of
        (Inl e, c1) \<Rightarrow> (wrap_err ''select domain ids batch'' (Inl e), c1)
      | (Inr (rows, broken), c1) \<Rightarrow>
          if broken then (Inl ''iterate domain rows'', c1)
          else select_batches bs (fold (\<lambda>(i, name) m. m(name \<mapsto> i)) rows idMap) c1)"

definition ensureAllDomainsWithStatus ::
    "string list \<Rightarrow> domainStatus list \<Rightarrow> db conn \<Rightarrow> (string \<rightharpoonup> int) result \<times> db conn" where
  "ensureAllDomainsWithStatus domains statuses c =
     (if domains = [] then (Inr Map.empty, c)
      else in_tx ''begin tx for domains'' ''commit domains tx'' (\<lambda>c1.
        case for_each insert_batch (batches maxParamsPerStmt domains) c1 of
          (Inl e, c2) \<Rightarrow> (Inl e, c2)
        | (Inr _, c2) \<Rightarrow>
            (case for_each update_status statuses c2 of
               (Inl e, c3) \<Rightarrow> (Inl e, c3)
             | (Inr _, c3) \<Rightarrow> select_batches (batches maxParamsPerStmt domains) Map.empty c3)) c)"

section \<open>records.go\<close>

record row =
  row_domain :: string
  row_ip :: string
  row_typ :: string
  row_updatedAt :: int
  row_status :: string

definition expand_result :: "cache_result \<Rightarrow> row list" where
  "expand_result r =
     (let recStatus = (if cr_Status r \<noteq> CStatusValid then ''failed'' else ''valid'');
          updatedAt = Unix (cr_ResolvedAt r);
          mk = (\<lambda>typ a. \<lparr> row_domain = cr_Domain r, row_ip = addr_string a, row_typ = typ,
                          row_updatedAt = updatedAt, row_status = recStatus \<rparr>)
      in map (mk ''A'') (cr_IPv4 r) @ map (mk ''AAAA'') (cr_IPv6 r))"

definition expandResultsWithDomain :: "cache_result list \<Rightarrow> row list" where
  "expandResultsWithDomain results = concat (map expand_result results)"

definition buildDomainStatuses :: "cache_result list \<Rightarrow> domainStatus list" where
  "buildDomainStatuses results =
     map (\<lambda>r. \<lparr> ds_name = cr_Domain r, ds_resolveStatus = cache_Status_String (cr_Status r),
               ds_lastResolvedAt = Unix (cr_ResolvedAt r) \<rparr>) results"

text \<open>
  \<open>INSERT INTO records ... ON CONFLICT(domain_id, ip, type) DO UPDATE SET updated_at, status\<close>,
  one row; a row that breaks a check or the foreign key fails the whole statement.
\<close>

definition rr_key :: "record_row \<Rightarrow> int \<times> string \<times> string" where
  "rr_key r = (rr_domain r, rr_ip r, rr_type r)"

type_synonym rec_args = "int \<times> string \<times> string \<times> int \<times> string"

fun args_key :: "rec_args \<Rightarrow> int \<times> string \<times> string" where
  "args_key (did, ip, typ, t, st) = (did, ip, typ)"

fun upsert_record :: "rec_args \<Rightarrow> record_row list \<Rightarrow> record_row list" where
  "upsert_record (did, ip, typ, t, st) rs =
     (if (did, ip, typ) \<in> rr_key ` set rs
      then map (\<lambda>r. if rr_key r = (did, ip, typ) then r\<lparr> rr_updated := t, rr_status := st \<rparr> else r) rs
      else rs @ [\<lparr> rr_id = next_id (map rr_id rs), rr_domain = did, rr_ip = ip, rr_type = typ,
                   rr_updated = t, rr_status = st \<rparr>])"

fun args_ok :: "db \<Rightarrow> rec_args \<Rightarrow> bool" where
  "args_ok d (did, ip, typ, t, st) \<longleftrightarrow>
     did \<in> dr_id ` set (tb_domains d) \<and> typ \<in> {''A'', ''AAAA''} \<and> st \<in> {''valid'', ''failed''}"

definition upsert_records :: "rec_args list \<Rightarrow> (unit, db) stmt" where
  "upsert_records as d =
     (if list_all (args_ok d) as then Inr ((), d\<lparr> tb_records := fold upsert_record as (tb_records d) \<rparr>)
      else Inl ''constraint failed'')"

fun build_args :: "(string \<rightharpoonup> int) \<Rightarrow> row list \<Rightarrow> rec_args list result" where
  "build_args idMap [] = Inr []"
| "build_args idMap (r # rs) =
     (case idMap (row_domain r) of
        None \<Rightarrow> Inl (''domain '' @ row_domain r @ '' missing from idMap after ensureDomains'')
      | Some did \<Rightarrow> bind_result (build_args idMap rs)
          (\<lambda>as. Inr ((did, row_ip r, row_typ r, row_updatedAt r, row_status r) # as)))"

definition upsert_rows :: "(string \<rightharpoonup> int) \<Rightarrow> row list \<Rightarrow> db conn \<Rightarrow> unit result \<times> db conn" where
  "upsert_rows idMap batch = in_tx ''begin tx'' ''commit tx''
     (\<lambda>c. case build_args idMap batch of
        Inl e \<Rightarrow> (Inl e, c)
      | Inr as \<Rightarrow> (case exec (5 * length batch) (upsert_records as) c of (r, c1) \<Rightarrow> (wrap_err ''upsert records'' r, c1)))"

definition UpsertBatch :: "cache_result list \<Rightarrow> db conn \<Rightarrow> unit result \<times> db conn" where
  "UpsertBatch results c =
     (if results = [] then (Inr (), c)
      else
        let rows = expandResultsWithDomain results;
            domainStatuses = buildDomainStatuses results;
            allDomains = keep_first id (map ds_name domainStatuses)
        in case ensureAllDomainsWithStatus allDomains domainStatuses c of
             (Inl e, c1) \<Rightarrow> (wrap_err ''ensure domains'' (Inl e), c1)
           | (Inr idMap, c1) \<Rightarrow> for_each (upsert_rows idMap) (batches maxRowsPerTx rows) c1)"

section \<open>snapshot.go\<close>

text \<open>\<open>SELECT DISTINCT ip FROM records WHERE type=? AND status='valid' ORDER BY ip\<close>.\<close>

definition select_valid_ips :: "string \<Rightarrow> db \<Rightarrow> string list" where
  "select_valid_ips typ d = sort (remdups (map rr_ip
     (filter (\<lambda>r. rr_type r = typ \<and> rr_status r = ''valid'') (tb_records d))))"

definition parse_addrs :: "string list \<Rightarrow> addr list" where
  "parse_addrs ips = concat (map (\<lambda>s. case ParseAddr s of Inl _ \<Rightarrow> [] | Inr a \<Rightarrow> [a]) ips)"

definition as16_before :: "addr \<Rightarrow> addr \<Rightarrow> bool" where
  "as16_before x y = bytes_less (as16 x) (as16 y)"

definition snapshotFamily :: "string \<Rightarrow> db conn \<Rightarrow> addr list result \<times> db conn" where
  "snapshotFamily typ c =
     (case query 1 (select_valid_ips typ) c of
        (Inl e, c1) \<Rightarrow> (wrap_err ''query'' (Inl e), c1)
      | (Inr (ips, broken), c1) \<Rightarrow>
          if broken then (Inl ''iterate'', c1)
          else (Inr (sort_slice as16_before (parse_addrs ips)), c1))"

definition Snapshot :: "db conn \<Rightarrow> (addr list \<times> addr list) result \<times> db conn" where
  "Snapshot c =
     (case snapshotFamily ''A'' c of
        (Inl e, c1) \<Rightarrow> (wrap_err ''snapshot v4'' (Inl e), c1)
      | (Inr v4, c1) \<Rightarrow>
          (case snapshotFamily ''AAAA'' c1 of
             (Inl e, c2) \<Rightarrow> (wrap_err ''snapshot v6'' (Inl e), c2)
           | (Inr v6, c2) \<Rightarrow> (Inr (v4, v6), c2)))"

text \<open>
  \<open>int64(d.Seconds())\<close>, rounded towards zero. The float in between is exact enough for
  durations below \<open>2 ^ 23\<close> seconds and for whole seconds.
\<close>

definition whole_seconds :: "duration \<Rightarrow> int" where
  "whole_seconds d = sgn d * (\<bar>d\<bar> div Second)"

type_synonym stale_set = "string \<rightharpoonup> bool"

definition row_stale :: "int \<Rightarrow> int \<Rightarrow> domain_row \<Rightarrow> bool" where
  "row_stale validThresh failedThresh r =
     (if dr_status r = ''unknown'' then True
      else
        let threshold = (if dr_status r = ''failed'' \<or> dr_status r = ''nxdomain'' then failedThresh else validThresh)
        in \<not> threshold \<le> dr_last r)"

definition select_domains :: "string list \<Rightarrow> db \<Rightarrow> domain_row list" where
  "select_domains names d = filter (\<lambda>r. dr_name r \<in> set names) (tb_domains d)"

definition checkStaleBatch ::
    "int \<Rightarrow> int \<Rightarrow> string list \<Rightarrow> stale_set \<Rightarrow> db conn \<Rightarrow> stale_set result \<times> db conn" where
  "checkStaleBatch validThresh failedThresh domains staleSet c =
     (case query (length domains) (select_domains domains) c of
        (Inl e, c1) \<Rightarrow> (wrap_err ''query batch'' (Inl e), c1)
      | (Inr (rows, broken), c1) \<Rightarrow>
          if broken then (Inl ''iterate'', c1)
          else (Inr (fold (\<lambda>r m. m(dr_name r \<mapsto> row_stale validThresh failedThresh r)) rows staleSet), c1))"

fun check_batches :: "int \<Rightarrow> int \<Rightarrow> string list list \<Rightarrow> stale_set \<Rightarrow> db conn \<Rightarrow> stale_set result \<times> db conn" where
  "check_batches vt ft [] staleSet c = (Inr staleSet, c)"
| "check_batches vt ft (b # bs) staleSet c =
     (case checkStaleBatch vt ft b staleSet c of
        (Inl e, c1) \<Rightarrow> (Inl e, c1)
      | (Inr s1, c1) \<Rightarrow> check_batches vt ft bs s1 c1)"

text \<open>
  The keys of \<open>staleSet\<close> are requested domains, so ranging over the map and sorting is
  sorting the marked domains of the request.
\<close>

definition NeedsRefresh :: "int \<Rightarrow> string list \<Rightarrow> duration \<Rightarrow> duration \<Rightarrow> db conn \<Rightarrow> string list result \<times> db conn" where
  "NeedsRefresh now_ns domains ttl failedTTL c =
     (if domains = [] then (Inr [], c)
      else
        let now = Unix now_ns;
            validThreshold = now - whole_seconds ttl;
            failedThreshold = now - whole_seconds failedTTL
        in case check_batches validThreshold failedThreshold (batches maxParamsPerStmt domains) Map.empty c of
             (Inl e, c1) \<Rightarrow> (Inl e, c1)
           | (Inr staleSet, c1) \<Rightarrow>
               let staleSet2 = fold (\<lambda>name m. if m name = None then m(name \<mapsto> True) else m) domains staleSet
               in (Inr (sort (filter (\<lambda>name. staleSet2 name = Some True) (remdups domains))), c1))"

text \<open>\<open>SELECT d.name, r.ip, r.type FROM records r JOIN domains d ON r.domain_id = d.id WHERE r.status = ? AND d.name IN (...)\<close>.\<close>

definition select_joined :: "string list \<Rightarrow> db \<Rightarrow> (string \<times> string \<times> string) list" where
  "select_joined names d = concat (map (\<lambda>r. map (\<lambda>dr. (dr_name dr, rr_ip r, rr_type r))
       (filter (\<lambda>dr. rr_domain r = dr_id dr \<and> dr_name dr \<in> set names) (tb_domains d)))
     (filter (\<lambda>r. rr_status r = ''valid'') (tb_records d)))"

fun split_rows :: "(string \<times> string \<times> string) list \<Rightarrow> addr list \<times> addr list" where
  "split_rows [] = ([], [])"
| "split_rows ((domain, ip, typ) # rows) =
     (case split_rows rows of (v4, v6) \<Rightarrow>
        (case ParseAddr ip of
           Inl _ \<Rightarrow> (v4, v6)
         | Inr a \<Rightarrow> if typ = ''A'' \<or> is4 a then (a # v4, v6) else (v4, a # v6)))"

text \<open>The two lists come with the error of the iteration, if any.\<close>

definition SnapshotForDomains :: "string list \<Rightarrow> db conn \<Rightarrow> (addr list \<times> addr list \<times> error option) \<times> db conn" where
  "SnapshotForDomains domains c =
     (if domains = [] then (([], [], None), c)
      else case query (length domains + 1) (select_joined domains) c of
        (Inl e, c1) \<Rightarrow> (([], [], Some (''cache: snapshot query: '' @ e)), c1)
      | (Inr (rows, broken), c1) \<Rightarrow>
          (case split_rows rows of (v4, v6) \<Rightarrow>
             ((v4, v6, if broken then Some ''iterate'' else None), c1)))"

section \<open>stats.go\<close>

record Stats =
  st_Domains :: int
  st_DomainsValid :: int
  st_DomainsFailed :: int
  st_DomainsNXDomain :: int
  st_RecordsTotal :: int
  st_RecordsV4 :: int
  st_RecordsV6 :: int
  st_RecordsValid :: int
  st_RecordsFail :: int
  st_RecordsNXDomain :: int
  st_Oldest :: int
  st_Newest :: int

definition zero_stats :: Stats where
  "zero_stats = \<lparr> st_Domains = 0, st_DomainsValid = 0, st_DomainsFailed = 0, st_DomainsNXDomain = 0, st_RecordsTotal = 0,
     st_RecordsV4 = 0, st_RecordsV6 = 0, st_RecordsValid = 0, st_RecordsFail = 0, st_RecordsNXDomain = 0,
     st_Oldest = 0, st_Newest = 0 \<rparr>"

definition count_rows :: "('r \<Rightarrow> bool) \<Rightarrow> 'r list \<Rightarrow> int" where
  "count_rows P rs = int (length (filter P rs))"

definition age_bounds :: "db \<Rightarrow> (int \<times> int) option" where
  "age_bounds d = (case map rr_updated (tb_records d) of
     [] \<Rightarrow> None | t # ts \<Rightarrow> Some (foldr min ts t, foldr max ts t))"

text \<open>The counting queries in order: the query, the field it is scanned into, and the text of its error.\<close>

definition count_queries :: "((db \<Rightarrow> int) \<times> (int \<Rightarrow> Stats \<Rightarrow> Stats) \<times> string) list" where
  "count_queries =
     [(\<lambda>d. count_rows (\<lambda>_. True) (tb_domains d), \<lambda>n s. s\<lparr> st_Domains := n \<rparr>, ''count domains''),
      (\<lambda>d. count_rows (\<lambda>r. dr_status r = ''valid'') (tb_domains d), \<lambda>n s. s\<lparr> st_DomainsValid := n \<rparr>, ''count domains valid''),
      (\<lambda>d. count_rows (\<lambda>r. dr_status r = ''failed'') (tb_domains d), \<lambda>n s. s\<lparr> st_DomainsFailed := n \<rparr>, ''count domains failed''),
      (\<lambda>d. count_rows (\<lambda>r. dr_status r = ''nxdomain'') (tb_domains d), \<lambda>n s. s\<lparr> st_DomainsNXDomain := n \<rparr>, ''count domains nxdomain''),
      (\<lambda>d. count_rows (\<lambda>_. True) (tb_records d), \<lambda>n s. s\<lparr> st_RecordsTotal := n \<rparr>, ''count records total''),
      (\<lambda>d. count_rows (\<lambda>r. rr_type r = ''A'') (tb_records d), \<lambda>n s. s\<lparr> st_RecordsV4 := n \<rparr>, ''count v4''),
      (\<lambda>d. count_rows (\<lambda>r. rr_type r = ''AAAA'') (tb_records d), \<lambda>n s. s\<lparr> st_RecordsV6 := n \<rparr>, ''count v6''),
      (\<lambda>d. count_rows (\<lambda>r. rr_status r = ''valid'') (tb_records d), \<lambda>n s. s\<lparr> st_RecordsValid := n \<rparr>, ''count valid''),
      (\<lambda>d. count_rows (\<lambda>r. rr_status r = ''failed'') (tb_records d), \<lambda>n s. s\<lparr> st_RecordsFail := n \<rparr>, ''count failed''),
      (\<lambda>d. count_rows (\<lambda>r. rr_status r = ''nxdomain'') (tb_records d), \<lambda>n s. s\<lparr> st_RecordsNXDomain := n \<rparr>, ''count nxdomain'')]"

fun run_counts :: "((db \<Rightarrow> int) \<times> (int \<Rightarrow> Stats \<Rightarrow> Stats) \<times> string) list \<Rightarrow> Stats \<Rightarrow> db conn \<Rightarrow> Stats \<times> error option \<times> db conn" where
  "run_counts [] s c = (s, None, c)"
| "run_counts ((f, set_field, msg) # qs) s c =
     (case query_row f c of
        (Inl e, c1) \<Rightarrow> (s, Some (msg @ '': '' @ e), c1)
      | (Inr n, c1) \<Rightarrow> run_counts qs (set_field n s) c1)"

definition cache_Stats :: "db conn \<Rightarrow> Stats \<times> error option \<times> db conn" where
  "cache_Stats c =
     (case run_counts count_queries zero_stats c of
        (s, Some e, c1) \<Rightarrow> (s, Some e, c1)
      | (s, None, c1) \<Rightarrow>
          (case query_row age_bounds c1 of
             (Inl e, c2) \<Rightarrow> (s, Some (''age bounds: '' @ e), c2)
           | (Inr None, c2) \<Rightarrow> (s, None, c2)
           | (Inr (Some (oldest, newest)), c2) \<Rightarrow> (s\<lparr> st_Oldest := oldest, st_Newest := newest \<rparr>, None, c2)))"

text \<open>
  The page counts of the database file are not part of the tables: the sizes of the
  freelist and of the file are arguments. \<open>freelist/pageCount > 0.1\<close> is exact for counts
  below \<open>2 ^ 50\<close>.
\<close>

definition delete_old :: "int \<Rightarrow> (nat, db) stmt" where
  "delete_old threshold d = Inr (length (filter (\<lambda>r. rr_updated r < threshold) (tb_records d)),
     d\<lparr> tb_records := filter (\<lambda>r. \<not> rr_updated r < threshold) (tb_records d) \<rparr>)"

definition Vacuum :: "int \<Rightarrow> int \<Rightarrow> int \<Rightarrow> duration \<Rightarrow> db conn \<Rightarrow> nat \<times> error option \<times> db conn" where
  "Vacuum freelist pageCount now_ns olderThan c =
     (let threshold = Unix (now_ns - olderThan) in
      case exec 1 (delete_old threshold) c of
        (Inl e, c1) \<Rightarrow> (0, Some (''delete old records: '' @ e), c1)
      | (Inr deleted, c1) \<Rightarrow>
          (case query_row (\<lambda>_. freelist) c1 of
             (Inl e, c2) \<Rightarrow> (deleted, Some (''freelist_count: '' @ e), c2)
           | (Inr free, c2) \<Rightarrow>
               (case query_row (\<lambda>_. pageCount) c2 of
                  (Inl e, c3) \<Rightarrow> (deleted, Some (''page_count: '' @ e), c3)
                | (Inr pages, c3) \<Rightarrow>
                    if 0 < pages \<and> pages < 10 * free
                    then (case begin_or_commit c3 of
                            (Inl e, c4) \<Rightarrow> (deleted, Some (''incremental_vacuum: '' @ e), c4)
                          | (Inr _, c4) \<Rightarrow> (deleted, None, c4))
                    else (deleted, None, c3))))"

section \<open>kv.go\<close>

definition GetAll :: "db conn \<Rightarrow> (string \<rightharpoonup> string) result \<times> db conn" where
  "GetAll c =
     (case query 0 tb_kv c of
        (Inl e, c1) \<Rightarrow> (wrap_err ''query kv_settings'' (Inl e), c1)
      | (Inr (rows, broken), c1) \<Rightarrow>
          if broken then (Inl ''iterate kv rows'', c1)
          else (Inr (fold (\<lambda>(k, v) m. m(k \<mapsto> v)) rows Map.empty), c1))"

definition upsert_kv :: "string \<Rightarrow> string \<Rightarrow> (unit, db) stmt" where
  "upsert_kv k v d = Inr ((), d\<lparr> tb_kv :=
     (if k \<in> fst ` set (tb_kv d) then map (\<lambda>(k', v'). (k', if k' = k then v else v')) (tb_kv d)
      else tb_kv d @ [(k, v)]) \<rparr>)"

definition kv_Set :: "string \<Rightarrow> string \<Rightarrow> db conn \<Rightarrow> unit result \<times> db conn" where
  "kv_Set k v c = (case exec 2 (upsert_kv k v) c of (r, c1) \<Rightarrow> (wrap_err ''upsert kv_settings'' r, c1))"

definition delete_kv :: "string \<Rightarrow> (unit, db) stmt" where
  "delete_kv k d = Inr ((), d\<lparr> tb_kv := filter (\<lambda>(k', v). k' \<noteq> k) (tb_kv d) \<rparr>)"

definition kv_Delete :: "string \<Rightarrow> db conn \<Rightarrow> unit result \<times> db conn" where
  "kv_Delete k c = (case exec 1 (delete_kv k) c of (r, c1) \<Rightarrow> (wrap_err ''delete kv_settings'' r, c1))"

section \<open>sqlite.go\<close>

text \<open>
  Migrations. The body of a migration file is SQL text, which the engine executes: \<open>run_sql\<close>
  is an argument. The tables of the schema are an arbitrary type \<open>'d\<close> beside the table of
  applied versions, which is absent (\<open>None\<close>) on a new database.
\<close>

record 'd versioned =
  v_schema :: 'd
  v_versions :: "int list option"

type_synonym 'd sql = "string \<Rightarrow> 'd versioned \<Rightarrow> 'd versioned result"

fun version_digits :: "64 word \<Rightarrow> string \<Rightarrow> 64 word option" where
  "version_digits n [] = Some n"
| "version_digits n (r # rs) =
     (if r < CHR ''0'' \<or> CHR ''9'' < r then None
      else version_digits (n * 10 + of_nat (of_char r - 48)) rs)"

definition parseMigrationVersion :: "string \<Rightarrow> int option" where
  "parseMigrationVersion name =
     (let stem = TrimSuffix name ''.sql'';
          numPart = (case IndexByte stem CHR ''_'' of None \<Rightarrow> stem | Some sep \<Rightarrow> take sep stem)
      in if numPart = [] then None else map_option sint (version_digits 0 numPart))"

definition currentSchemaVersion :: "'d versioned conn \<Rightarrow> int result \<times> 'd versioned conn" where
  "currentSchemaVersion c =
     (case exec 0 (\<lambda>d. case v_versions d of
         None \<Rightarrow> Inl ''no such table: schema_version''
       | Some vs \<Rightarrow> Inr (case vs of [] \<Rightarrow> 0 | v # ws \<Rightarrow> foldr max ws v, d)) c of
        (r, c1) \<Rightarrow> (wrap_err ''read schema_version'' r, c1))"

definition insert_version :: "int \<Rightarrow> 'd versioned \<Rightarrow> (unit \<times> 'd versioned) result" where
  "insert_version v d = (case v_versions d of
     None \<Rightarrow> Inl ''no such table: schema_version''
   | Some vs \<Rightarrow> Inr ((), if v \<in> set vs then d else d\<lparr> v_versions := Some (vs @ [v]) \<rparr>))"

definition applyMigration :: "'d sql \<Rightarrow> int \<Rightarrow> string \<Rightarrow> string \<Rightarrow> 'd versioned conn \<Rightarrow> unit result \<times> 'd versioned conn" where
  "applyMigration run_sql version name body =
     in_tx (''begin tx for '' @ name) (''commit '' @ name) (\<lambda>c.
       case exec 0 (\<lambda>d. bind_result (run_sql body d) (\<lambda>d'. Inr ((), d'))) c of
         (Inl e, c1) \<Rightarrow> (wrap_err (''exec '' @ name) (Inl e), c1)
       | (Inr _, c1) \<Rightarrow> (case exec 2 (insert_version version) c1 of (r, c2) \<Rightarrow> (wrap_err ''record version'' r, c2)))"

fun apply_files :: "'d sql \<Rightarrow> int \<Rightarrow> (string \<times> string) list \<Rightarrow> 'd versioned conn \<Rightarrow> unit result \<times> 'd versioned conn" where
  "apply_files run_sql current [] c = (Inr (), c)"
| "apply_files run_sql current ((name, body) # files) c =
     (case parseMigrationVersion name of
        None \<Rightarrow> apply_files run_sql current files c
      | Some ver \<Rightarrow>
          if ver \<le> current then apply_files run_sql current files c
          else (case applyMigration run_sql ver name body c of
                  (Inl e, c1) \<Rightarrow> (Inl e, c1)
                | (Inr _, c1) \<Rightarrow> apply_files run_sql current files c1))"

text \<open>The embedded directory is a list of names with contents; it always reads without error.\<close>

definition create_versions :: "'d versioned \<Rightarrow> (unit \<times> 'd versioned) result" where
  "create_versions d = Inr ((), if v_versions d = None then d\<lparr> v_versions := Some [] \<rparr> else d)"

definition migration_files :: "(string \<times> string) list \<Rightarrow> (string \<times> string) list" where
  "migration_files entries = sort_key fst (filter (\<lambda>(n, _). HasSuffix n ''.sql'') entries)"

definition migrate :: "'d sql \<Rightarrow> (string \<times> string) list \<Rightarrow> 'd versioned conn \<Rightarrow> unit result \<times> 'd versioned conn" where
  "migrate run_sql entries c =
     (case exec 0 create_versions c of
        (Inl e, c1) \<Rightarrow> (wrap_err ''bootstrap schema_version'' (Inl e), c1)
      | (Inr _, c1) \<Rightarrow>
          (case currentSchemaVersion c1 of
             (Inl e, c2) \<Rightarrow> (Inl e, c2)
           | (Inr current, c2) \<Rightarrow> apply_files run_sql current (migration_files entries) c2))"

definition pragma_stmts :: "string list" where
  "pragma_stmts = [''PRAGMA synchronous=NORMAL'', ''PRAGMA foreign_keys=ON'', ''PRAGMA busy_timeout=5000'', ''PRAGMA temp_store=MEMORY'']"

definition exec_pragma :: "string \<Rightarrow> string \<Rightarrow> 'd conn \<Rightarrow> unit result \<times> 'd conn" where
  "exec_pragma msg stmt c = (case begin_or_commit c of (r, c1) \<Rightarrow> (wrap_err msg r, c1))"

definition applyPragmas :: "string \<Rightarrow> 'd conn \<Rightarrow> unit result \<times> 'd conn" where
  "applyPragmas dbpath c =
     (case (if dbpath \<noteq> '':memory:'' then exec_pragma ''set journal_mode=WAL'' ''PRAGMA journal_mode=WAL'' c else (Inr (), c)) of
        (Inl e, c1) \<Rightarrow> (Inl e, c1)
      | (Inr _, c1) \<Rightarrow> for_each (\<lambda>stmt. exec_pragma stmt stmt) pragma_stmts c1)"

text \<open>\<open>buildDSN\<close>, with \<open>url.Values.Encode\<close> of the pragma parameters.\<close>

definition unreserved :: "char \<Rightarrow> bool" where
  "unreserved c \<longleftrightarrow> (CHR ''a'' \<le> c \<and> c \<le> CHR ''z'') \<or> (CHR ''A'' \<le> c \<and> c \<le> CHR ''Z'') \<or> is_dec c \<or> c \<in> set ''-_.~''"

definition QueryEscape :: "string \<Rightarrow> string" where
  "QueryEscape s = concat (map (\<lambda>c. if unreserved c then [c] else if c = CHR '' '' then ''+''
     else CHR ''%'' # ToUpper (map digit_char [of_char c div 16, of_char c mod 16])) s)"

definition buildDSN :: "string \<Rightarrow> string" where
  "buildDSN dbPath =
     (if dbPath = '':memory:'' then ''file::memory:?cache=shared&_pragma=foreign_keys(1)&_pragma=busy_timeout(5000)&_pragma=temp_store(2)''
      else ''file:'' @ dbPath @ ''?'' @ join_with ''&'' (map (\<lambda>v. ''_pragma='' @ QueryEscape v)
        [''journal_mode(WAL)'', ''synchronous(NORMAL)'', ''foreign_keys(1)'', ''busy_timeout(5000)'', ''temp_store(2)'']))"

text \<open>\<open>Open\<close>: the connection, and the handle with its \<open>closed\<close> flag.\<close>

record handle =
  h_path :: string
  h_closed :: bool

definition cache_Open :: "'d sql \<Rightarrow> (string \<times> string) list \<Rightarrow> string \<Rightarrow> 'd versioned conn \<Rightarrow> handle result \<times> 'd versioned conn" where
  "cache_Open run_sql entries dbPath c =
     (if TrimSpace dbPath = [] then (Inl ''cache.Open: empty db path'', c)
      else case applyPragmas dbPath c of
        (Inl e, c1) \<Rightarrow> (wrap_err ''cache.Open: pragmas'' (Inl e), c1)
      | (Inr _, c1) \<Rightarrow>
          (case migrate run_sql entries c1 of
             (Inl e, c2) \<Rightarrow> (wrap_err ''cache.Open: migrate'' (Inl e), c2)
           | (Inr _, c2) \<Rightarrow> (Inr \<lparr> h_path = dbPath, h_closed = False \<rparr>, c2)))"

text \<open>\<open>Close\<close>, with the error \<open>db.Close\<close> would return.\<close>

definition cache_Close :: "error option \<Rightarrow> handle \<Rightarrow> error option \<times> handle" where
  "cache_Close close_err h = (if h_closed h then (None, h) else (close_err, h\<lparr> h_closed := True \<rparr>))"

section \<open>Calls, loops and transactions\<close>

lemma exec_Inr: "exec n f c = (Inr x, c') \<Longrightarrow> f (cn_db c) = Inr (x, cn_db c')"
  by (auto simp: exec_def Let_def split: if_splits sum.splits prod.splits)

lemma exec_Inl: "exec n f c = (Inl e, c') \<Longrightarrow> cn_db c' = cn_db c"
  by (auto simp: exec_def Let_def split: if_splits sum.splits prod.splits)

lemma exec_read [simp]: "cn_db (snd (exec n (\<lambda>d. Inr (g d, d)) c)) = cn_db c"
  by (simp add: exec_def Let_def)

lemma exec_read_eq: "exec n (\<lambda>d. Inr (g d, d)) c = (r, c') \<Longrightarrow> cn_db c' = cn_db c"
  by (metis exec_read snd_conv)

lemma query_db [simp]: "cn_db (snd (query n sel c)) = cn_db c"
  by (auto simp: query_def Let_def dest: exec_read_eq split: prod.splits sum.splits option.splits)

lemma query_db_eq: "query n sel c = (r, c') \<Longrightarrow> cn_db c' = cn_db c"
  by (metis query_db snd_conv)

lemma query_full: "query n sel c = (Inr (rows, False), c') \<Longrightarrow> rows = sel (cn_db c)"
  by (auto simp: query_def Let_def dest: exec_Inr split: prod.splits sum.splits option.splits)

lemma begin_or_commit_db [simp]: "cn_db (snd (begin_or_commit c)) = cn_db c"
  using exec_read [of 0 "\<lambda>_. ()" c] by (simp add: begin_or_commit_def)

lemma begin_or_commit_eq: "begin_or_commit c = (r, c') \<Longrightarrow> cn_db c' = cn_db c"
  by (metis begin_or_commit_db snd_conv)

lemma query_row_db [simp]: "cn_db (snd (query_row f c)) = cn_db c"
  by (simp add: query_row_def)

lemma query_row_eq: "query_row f c = (r, c') \<Longrightarrow> cn_db c' = cn_db c"
  by (metis query_row_db snd_conv)

lemma in_tx_Inl: "in_tx b m body c = (Inl e, c') \<Longrightarrow> cn_db c' = cn_db c"
  by (auto simp: in_tx_def dest: begin_or_commit_eq split: prod.splits sum.splits)

lemma in_tx_Inr:
  "in_tx b m body c = (Inr x, c') \<Longrightarrow> \<exists>c1 c2. cn_db c1 = cn_db c \<and> body c1 = (Inr x, c2) \<and> cn_db c' = cn_db c2"
  by (auto simp: in_tx_def dest!: begin_or_commit_eq split: prod.splits sum.splits)

lemma concat_batches: "0 < n \<Longrightarrow> concat (batches n xs) = xs"
proof (induction n xs rule: batches.induct)
  case (1 n xs)
  then show ?case by (cases "xs = []") (simp_all add: batches.simps [of n])
qed

lemma batches_prefix:
  "0 < n \<Longrightarrow> batches n xs = bs @ cs \<Longrightarrow> \<exists>k. concat bs = take (k * n) xs"
proof (induction n xs arbitrary: bs rule: batches.induct)
  case (1 n xs)
  show ?case
  proof (cases bs)
    case (Cons b bs')
    with "1.prems" have "xs \<noteq> []" and b: "b = take n xs" and rest: "batches n (drop n xs) = bs' @ cs"
      by (auto simp: batches.simps [of n xs] split: if_splits)
    with "1.IH" [of bs'] "1.prems"(1) obtain k where "concat bs' = take (k * n) (drop n xs)" by auto
    with b Cons have "concat bs = take (Suc k * n) xs" by (simp add: take_add)
    then show ?thesis by blast
  qed (auto intro: exI [of _ 0])
qed

lemma for_each_Inr:
  assumes "\<And>x c c'. f x c = (Inr (), c') \<Longrightarrow> cn_db c' = g x (cn_db c)" and "for_each f xs c = (Inr (), c')"
  shows "cn_db c' = fold g xs (cn_db c)"
  using assms(2)
proof (induction xs arbitrary: c)
  case (Cons x xs)
  then obtain c1 where "f x c = (Inr (), c1)" "for_each f xs c1 = (Inr (), c')"
    by (auto split: prod.splits sum.splits)
  with Cons.IH assms(1) show ?case by simp
qed simp

text \<open>A loop of transactions that fails has done a prefix of its work.\<close>

lemma for_each_Inl:
  assumes "\<And>x c c'. f x c = (Inr (), c') \<Longrightarrow> cn_db c' = g x (cn_db c)"
    and "\<And>x c c' e. f x c = (Inl e, c') \<Longrightarrow> cn_db c' = cn_db c"
    and "for_each f xs c = (Inl e, c')"
  shows "\<exists>ys zs. xs = ys @ zs \<and> cn_db c' = fold g ys (cn_db c)"
  using assms(3)
proof (induction xs arbitrary: c)
  case (Cons x xs)
  show ?case
  proof (cases "f x c")
    case (Pair r c1)
    show ?thesis
    proof (cases r)
      case (Inl e')
      with Pair Cons.prems have "cn_db c' = cn_db c" using assms(2) [of x c e' c1] by simp
      then show ?thesis by (metis append_Nil fold_simps(1))
    next
      case (Inr u)
      with Pair Cons.prems obtain ys zs where "xs = ys @ zs" "cn_db c' = fold g ys (cn_db c1)"
        using Cons.IH [of c1] by auto
      moreover have "cn_db c1 = g x (cn_db c)" using assms(1) [of x c c1] Pair Inr by simp
      ultimately show ?thesis by (metis append_Cons fold_simps(2))
    qed
  qed
qed simp

lemma next_id_fresh: "next_id ids \<notin> set ids"
proof -
  have "i \<le> foldr max ids 0" if "i \<in> set ids" for i using that by (induction ids) auto
  then show ?thesis by (force simp: next_id_def)
qed

section \<open>What the tables mean\<close>

definition dom_id :: "db \<Rightarrow> string \<rightharpoonup> int" where
  "dom_id d = map_of (map (\<lambda>r. (dr_name r, dr_id r)) (tb_domains d))"

definition domain_view :: "db \<Rightarrow> string \<rightharpoonup> (string \<times> int)" where
  "domain_view d = map_of (map (\<lambda>r. (dr_name r, dr_status r, dr_last r)) (tb_domains d))"

definition rec_map :: "record_row list \<Rightarrow> (int \<times> string \<times> string) \<rightharpoonup> (int \<times> string)" where
  "rec_map rs = map_of (map (\<lambda>r. (rr_key r, rr_updated r, rr_status r)) rs)"

definition record_view :: "db \<Rightarrow> (string \<times> string \<times> string) \<rightharpoonup> (int \<times> string)" where
  "record_view d = (\<lambda>(name, ip, typ).
     case dom_id d name of None \<Rightarrow> None | Some i \<Rightarrow> rec_map (tb_records d) (i, ip, typ))"

text \<open>The constraints of the schema, as an invariant of the tables.\<close>

definition domain_row_ok :: "domain_row \<Rightarrow> bool" where
  "domain_row_ok r \<longleftrightarrow> dr_status r \<in> set resolve_statuses"

definition record_row_ok :: "db \<Rightarrow> record_row \<Rightarrow> bool" where
  "record_row_ok d r \<longleftrightarrow> rr_domain r \<in> dr_id ` set (tb_domains d) \<and>
     rr_type r \<in> {''A'', ''AAAA''} \<and> rr_status r \<in> {''valid'', ''failed''}"

definition cache_wf :: "db \<Rightarrow> bool" where
  "cache_wf d \<longleftrightarrow> distinct (map dr_id (tb_domains d)) \<and> distinct (map dr_name (tb_domains d)) \<and>
     list_all domain_row_ok (tb_domains d) \<and> distinct (map rr_id (tb_records d)) \<and>
     distinct (map rr_key (tb_records d)) \<and> list_all (record_row_ok d) (tb_records d) \<and>
     distinct (map fst (tb_kv d))"

lemma cache_wf_empty: "cache_wf empty_db"
  by (simp add: cache_wf_def empty_db_def)

lemma names_set_domain_status [simp]:
  "map dr_name (tb_domains (set_domain_status n st t d)) = map dr_name (tb_domains d)"
  "map dr_id (tb_domains (set_domain_status n st t d)) = map dr_id (tb_domains d)"
  "tb_records (set_domain_status n st t d) = tb_records d" "tb_kv (set_domain_status n st t d) = tb_kv d"
  by (simp_all add: set_domain_status_def)

lemma wf_insert_domain: "cache_wf d \<Longrightarrow> cache_wf (insert_domain n d)"
  using next_id_fresh [of "map dr_id (tb_domains d)"]
  by (auto simp: cache_wf_def insert_domain_def domain_row_ok_def resolve_statuses_def record_row_ok_def list_all_iff)

lemma ids_set_domain_status: "dr_id ` set (tb_domains (set_domain_status n st t d)) = dr_id ` set (tb_domains d)"
  by (metis list.set_map names_set_domain_status(2))

lemma wf_set_domain_status:
  assumes "cache_wf d" and "n \<in> dr_name ` set (tb_domains d) \<Longrightarrow> st \<in> set resolve_statuses"
  shows "cache_wf (set_domain_status n st t d)"
proof -
  have "list_all domain_row_ok (tb_domains (set_domain_status n st t d))"
    using assms by (auto simp: cache_wf_def set_domain_status_def domain_row_ok_def list_all_iff)
  moreover have "record_row_ok (set_domain_status n st t d) = record_row_ok d"
    by (simp add: record_row_ok_def ids_set_domain_status fun_eq_iff)
  ultimately show ?thesis using assms(1) by (simp add: cache_wf_def)
qed

lemma keys_upsert_record:
  "map rr_key (upsert_record a rs) =
     (if args_key a \<in> rr_key ` set rs then map rr_key rs else map rr_key rs @ [args_key a])"
  by (cases a) (auto simp: rr_key_def)

lemma ids_upsert_record:
  assumes "distinct (map rr_id rs)"
  shows "distinct (map rr_id (upsert_record a rs))"
proof -
  have keep: "map rr_id (map (\<lambda>r. if rr_key r = k then r\<lparr> rr_updated := t, rr_status := st \<rparr> else r) rs) = map rr_id rs"
    for k t st by simp
  obtain did ip ty t st where "a = (did, ip, ty, t, st)" by (metis prod_cases5)
  with assms keep next_id_fresh [of "map rr_id rs"] show ?thesis
    by (simp del: map_map)
qed

lemma rows_upsert_record:
  assumes "list_all (record_row_ok d) rs" and "args_ok d a"
  shows "list_all (record_row_ok d) (upsert_record a rs)"
  using assms by (cases a) (auto simp: list_all_iff record_row_ok_def)

lemma wf_fold_upsert:
  assumes "list_all (args_ok d) as" and "list_all (record_row_ok d) rs" and "distinct (map rr_id rs)" and "distinct (map rr_key rs)"
  shows "list_all (record_row_ok d) (fold upsert_record as rs) \<and> distinct (map rr_id (fold upsert_record as rs)) \<and>
     distinct (map rr_key (fold upsert_record as rs))"
  using assms
proof (induction as arbitrary: rs)
  case (Cons a as)
  have "distinct (map rr_key (upsert_record a rs))"
    using Cons.prems(4) by (auto simp: keys_upsert_record)
  then show ?case using Cons by (simp add: rows_upsert_record ids_upsert_record)
qed simp

lemma wf_upsert_records: "cache_wf d \<Longrightarrow> upsert_records as d = Inr ((), d') \<Longrightarrow> cache_wf d'"
  using wf_fold_upsert [of d as "tb_records d"]
  by (auto simp: cache_wf_def upsert_records_def record_row_ok_def list_all_iff split: if_splits)
section \<open>What a batch writes\<close>

lemma dom_insert_domain:
  "dr_name ` set (tb_domains (insert_domain n d)) = insert n (dr_name ` set (tb_domains d))"
  by (auto simp: insert_domain_def)

lemma names_fold_insert:
  "dr_name ` set (tb_domains (fold insert_domain ns d)) = set ns \<union> dr_name ` set (tb_domains d)"
  by (induction ns arbitrary: d) (auto simp: dom_insert_domain)

lemma fold_insert_present: "set ns \<subseteq> dr_name ` set (tb_domains d) \<Longrightarrow> fold insert_domain ns d = d"
  by (induction ns) (auto simp: insert_domain_def)

definition set_status :: "domainStatus \<Rightarrow> db \<Rightarrow> db" where
  "set_status ds = set_domain_status (ds_name ds) (ds_resolveStatus ds) (ds_lastResolvedAt ds)"

lemma set_status_same [simp]:
  "map dr_name (tb_domains (set_status ds d)) = map dr_name (tb_domains d)"
  "map dr_id (tb_domains (set_status ds d)) = map dr_id (tb_domains d)"
  "tb_records (set_status ds d) = tb_records d" "tb_kv (set_status ds d) = tb_kv d"
  by (simp_all add: set_status_def)

lemma fold_set_status_same [simp]:
  "map dr_name (tb_domains (fold set_status sts d)) = map dr_name (tb_domains d)"
  "map dr_id (tb_domains (fold set_status sts d)) = map dr_id (tb_domains d)"
  "tb_records (fold set_status sts d) = tb_records d" "tb_kv (fold set_status sts d) = tb_kv d"
  by (induction sts arbitrary: d) auto

lemma map_pair_zip: "map (\<lambda>r. (f r, g r)) rs = zip (map f rs) (map g rs)"
  by (induction rs) auto

lemma dom_id_cong:
  "map dr_name (tb_domains d) = map dr_name (tb_domains d') \<Longrightarrow>
     map dr_id (tb_domains d) = map dr_id (tb_domains d') \<Longrightarrow> dom_id d = dom_id d'"
  by (simp add: dom_id_def map_pair_zip)

definition write_domains :: "cache_result list \<Rightarrow> db \<Rightarrow> db" where
  "write_domains results d = fold set_status (buildDomainStatuses results)
     (fold insert_domain (keep_first id (map ds_name (buildDomainStatuses results))) d)"

definition row_args :: "(string \<rightharpoonup> int) \<Rightarrow> row \<Rightarrow> rec_args" where
  "row_args ids r = (the (ids (row_domain r)), row_ip r, row_typ r, row_updatedAt r, row_status r)"

definition put_rows :: "(string \<rightharpoonup> int) \<Rightarrow> row list \<Rightarrow> db \<Rightarrow> db" where
  "put_rows ids rows d = d\<lparr> tb_records := fold upsert_record (map (row_args ids) rows) (tb_records d) \<rparr>"

definition write_rows :: "row list \<Rightarrow> db \<Rightarrow> db" where
  "write_rows rows d = put_rows (dom_id d) rows d"

definition write_results :: "cache_result list \<Rightarrow> db \<Rightarrow> db" where
  "write_results results d = write_rows (expandResultsWithDomain results) (write_domains results d)"

lemma put_rows_same [simp]: "tb_domains (put_rows im rows d) = tb_domains d" "tb_kv (put_rows im rows d) = tb_kv d"
  by (simp_all add: put_rows_def)

lemma fold_put_rows: "fold (put_rows im) bs d = put_rows im (concat bs) d"
  by (induction bs arbitrary: d) (simp_all add: put_rows_def)

lemma names_results: "ds_name ` set (buildDomainStatuses results) = cr_Domain ` set results"
  by (force simp: buildDomainStatuses_def)

lemma dom_dom_id: "dom (dom_id d) = dr_name ` set (tb_domains d)"
  by (force simp: dom_id_def dom_map_of_conv_image_fst)

lemma rows_of_results: "row_domain ` set (expandResultsWithDomain results) \<subseteq> cr_Domain ` set results"
  by (auto simp: expandResultsWithDomain_def expand_result_def Let_def)

lemma build_args_ok:
  "build_args m rows = Inr as \<Longrightarrow> row_domain ` set rows \<subseteq> dom m \<and> as = map (row_args m) rows"
  by (induction rows arbitrary: as) (auto simp: row_args_def dest!: bind_result_InrD split: option.splits)

lemma build_args_cong: "\<forall>r\<in>set rows. m (row_domain r) = m' (row_domain r) \<Longrightarrow> map (row_args m) rows = map (row_args m') rows"
  by (simp add: row_args_def)

lemma insert_batch_ok: "insert_batch b c = (Inr (), c') \<Longrightarrow> cn_db c' = fold insert_domain b (cn_db c)"
  by (auto simp: insert_batch_def insert_domains_def dest: exec_Inr split: prod.splits)

lemma update_status_ok: "update_status ds c = (Inr (), c') \<Longrightarrow> cn_db c' = set_status ds (cn_db c)"
  by (auto simp: update_status_def update_domain_def set_status_def dest!: exec_Inr split: prod.splits if_splits)

lemma fold_concat: "fold (\<lambda>b. fold f b) bs d = fold f (concat bs) d"
  by (induction bs arbitrary: d) auto

lemma fold_ids:
  "fold (\<lambda>(i, name) m. m(name \<mapsto> i)) (map (\<lambda>r. (dr_id r, dr_name r)) rs) m = m ++ map_of (map (\<lambda>r. (dr_name r, dr_id r)) (rev rs))"
  by (induction rs arbitrary: m) (auto simp: map_add_def fun_eq_iff split: option.splits)

lemma map_of_filter_names:
  "map_of (map (\<lambda>r. (dr_name r, dr_id r)) (filter (\<lambda>r. dr_name r \<in> S) rs)) = map_of (map (\<lambda>r. (dr_name r, dr_id r)) rs) |` S"
  by (induction rs) (auto simp: restrict_map_def fun_eq_iff)

lemma map_of_rev_distinct: "distinct (map fst xs) \<Longrightarrow> map_of (rev xs) = map_of xs"
  by (subst map_of_inject_set) (simp_all add: rev_map [symmetric])

lemma selected_ids:
  assumes "distinct (map dr_name (tb_domains d))"
  shows "fold (\<lambda>(i, name) m. m(name \<mapsto> i)) (select_ids ns d) m = m ++ (dom_id d |` set ns)"
proof -
  let ?f = "\<lambda>r. (dr_name r, dr_id r)" and ?rs = "filter (\<lambda>r. dr_name r \<in> set ns) (tb_domains d)"
  have "distinct (map fst (map ?f ?rs))" using assms by (simp add: comp_def distinct_map_filter)
  then have "map_of (map ?f (rev ?rs)) = map_of (map ?f ?rs)"
    using map_of_rev_distinct [of "map ?f ?rs"] by (simp add: rev_map)
  then show ?thesis by (simp add: select_ids_def fold_ids map_of_filter_names dom_id_def)
qed

lemma add_restricted: "(m ++ (f |` S)) n = (if n \<in> S \<and> n \<in> dom f then f n else m n)"
  by (auto simp: map_add_def restrict_map_def split: option.splits)

lemma select_batches_ok:
  assumes "distinct (map dr_name (tb_domains (cn_db c)))" and "select_batches bs m c = (Inr im, c')"
  shows "cn_db c' = cn_db c \<and>
    (\<forall>n. im n = (if n \<in> set (concat bs) \<and> n \<in> dom (dom_id (cn_db c)) then dom_id (cn_db c) n else m n))"
  using assms
proof (induction bs arbitrary: m c)
  case (Cons b bs)
  then obtain rows c1 where q: "query (length b) (select_ids b) c = (Inr (rows, False), c1)"
    and rest: "select_batches bs (fold (\<lambda>(i, name) m. m(name \<mapsto> i)) rows m) c1 = (Inr im, c')"
    by (auto split: prod.splits sum.splits if_splits)
  have db: "cn_db c1 = cn_db c" using q by (rule query_db_eq)
  have "rows = select_ids b (cn_db c)" using q by (rule query_full)
  then have m1: "fold (\<lambda>(i, name) m. m(name \<mapsto> i)) rows m = m ++ (dom_id (cn_db c) |` set b)"
    using selected_ids [OF Cons.prems(1)] by simp
  have "distinct (map dr_name (tb_domains (cn_db c1)))" using Cons.prems(1) db by simp
  from Cons.IH [OF this rest] show ?case
    unfolding m1 db add_restricted by simp
qed simp
lemma wf_fold_insert: "cache_wf d \<Longrightarrow> cache_wf (fold insert_domain ns d)"
  by (induction ns arbitrary: d) (simp_all add: wf_insert_domain)

lemma wf_fold_status:
  assumes "cache_wf d" and "\<forall>ds\<in>set sts. ds_resolveStatus ds \<in> set resolve_statuses"
  shows "cache_wf (fold set_status sts d)"
  using assms by (induction sts arbitrary: d) (simp_all add: wf_set_domain_status set_status_def)

lemma built_statuses: "ds \<in> set (buildDomainStatuses results) \<Longrightarrow> ds_resolveStatus ds \<in> set resolve_statuses"
proof -
  have "cache_Status_String s \<in> set resolve_statuses" for s by (cases s) (simp_all add: resolve_statuses_def)
  then show "ds \<in> set (buildDomainStatuses results) \<Longrightarrow> ?thesis" by (auto simp: buildDomainStatuses_def)
qed

lemma wf_write_domains: "cache_wf d \<Longrightarrow> cache_wf (write_domains results d)"
  by (simp add: write_domains_def wf_fold_status wf_fold_insert built_statuses)

lemma records_write_domains [simp]: "tb_records (write_domains results d) = tb_records d" "tb_kv (write_domains results d) = tb_kv d"
proof -
  have "tb_records (fold insert_domain ns d) = tb_records d \<and> tb_kv (fold insert_domain ns d) = tb_kv d" for ns
    by (induction ns arbitrary: d) (auto simp: insert_domain_def)
  then show "tb_records (write_domains results d) = tb_records d" "tb_kv (write_domains results d) = tb_kv d"
    by (simp_all add: write_domains_def)
qed

lemma dom_write_domains: "dr_name ` set (tb_domains (write_domains results d)) = cr_Domain ` set results \<union> dr_name ` set (tb_domains d)"
proof -
  let ?d1 = "fold insert_domain (keep_first id (map ds_name (buildDomainStatuses results))) d"
  have "dr_name ` set (tb_domains (write_domains results d)) = dr_name ` set (tb_domains ?d1)"
    by (metis fold_set_status_same(1) list.set_map write_domains_def)
  then show ?thesis by (simp add: names_fold_insert names_results)
qed

lemma ensure_ok:
  assumes wf: "cache_wf (cn_db c)" and ne: "results \<noteq> []"
    and r: "ensureAllDomainsWithStatus (keep_first id (map ds_name (buildDomainStatuses results))) (buildDomainStatuses results) c = (Inr im, c')"
  shows "cn_db c' = write_domains results (cn_db c) \<and> (\<forall>n\<in>cr_Domain ` set results. im n = dom_id (cn_db c') n)"
proof -
  let ?names = "keep_first id (map ds_name (buildDomainStatuses results))"
  have names: "set ?names = cr_Domain ` set results" by (simp add: names_results)
  then have "?names \<noteq> []" using ne by (metis image_is_empty set_empty)
  with r obtain c1 c2 c3 c4 where c: "cn_db c1 = cn_db c" "cn_db c' = cn_db c4"
    and ins: "for_each insert_batch (batches maxParamsPerStmt ?names) c1 = (Inr (), c2)"
    and upd: "for_each update_status (buildDomainStatuses results) c2 = (Inr (), c3)"
    and sel: "select_batches (batches maxParamsPerStmt ?names) Map.empty c3 = (Inr im, c4)"
    by (auto simp: ensureAllDomainsWithStatus_def dest!: in_tx_Inr split: prod.splits sum.splits)
  have cc: "concat (batches maxParamsPerStmt ?names) = ?names"
    by (rule concat_batches) (simp add: maxParamsPerStmt_def)
  have "cn_db c2 = fold insert_domain ?names (cn_db c)"
    using for_each_Inr [where g = "fold insert_domain", OF insert_batch_ok ins] c(1) by (simp add: fold_concat cc)
  with for_each_Inr [where g = set_status, OF update_status_ok upd]
  have d3: "cn_db c3 = write_domains results (cn_db c)" by (simp add: write_domains_def)
  then have "distinct (map dr_name (tb_domains (cn_db c3)))" using wf_write_domains [OF wf] by (simp add: cache_wf_def)
  from select_batches_ok [OF this sel] d3 c(2) cc
  have d': "cn_db c' = write_domains results (cn_db c)"
    and im: "im n = (if n \<in> set ?names \<and> n \<in> dom (dom_id (cn_db c')) then dom_id (cn_db c') n else None)" for n
    by simp_all
  moreover have "im n = dom_id (cn_db c') n" if "n \<in> cr_Domain ` set results" for n
    using im [of n] that names dom_dom_id [of "cn_db c'"] dom_write_domains [of results "cn_db c"] d' by auto
  ultimately show ?thesis by blast
qed

lemma upsert_rows_ok:
  assumes "upsert_rows im b c = (Inr (), c')"
  shows "cn_db c' = put_rows im b (cn_db c)"
  using assms by (auto simp: upsert_rows_def put_rows_def upsert_records_def
      dest!: in_tx_Inr build_args_ok exec_Inr split: sum.splits prod.splits if_splits)

lemma upsert_rows_Inl: "upsert_rows im b c = (Inl e, c') \<Longrightarrow> cn_db c' = cn_db c"
  unfolding upsert_rows_def by (rule in_tx_Inl)

lemma put_rows_written:
  assumes "row_domain ` set rows \<subseteq> S" and "\<forall>n\<in>S. im n = dom_id d n"
  shows "put_rows im rows d = write_rows rows d"
proof -
  have "map (row_args im) rows = map (row_args (dom_id d)) rows"
    by (rule build_args_cong) (use assms in auto)
  then show ?thesis by (simp only: put_rows_def write_rows_def)
qed

lemma upsert_ok:
  assumes "cache_wf (cn_db c)" and "results \<noteq> []" and "UpsertBatch results c = (Inr (), c')"
  shows "cn_db c' = write_results results (cn_db c)"
proof -
  let ?rows = "expandResultsWithDomain results"
  from assms(2,3) obtain im c1 where
    e: "ensureAllDomainsWithStatus (keep_first id (map ds_name (buildDomainStatuses results))) (buildDomainStatuses results) c = (Inr im, c1)"
    and f: "for_each (upsert_rows im) (batches maxRowsPerTx ?rows) c1 = (Inr (), c')"
    by (auto simp: UpsertBatch_def Let_def split: prod.splits sum.splits)
  note d1 = ensure_ok [OF assms(1,2) e]
  have "concat (batches maxRowsPerTx ?rows) = ?rows" by (simp add: concat_batches maxRowsPerTx_def)
  then show ?thesis
    using for_each_Inr [where g = "put_rows im", OF upsert_rows_ok f] d1
      put_rows_written [OF rows_of_results, of results im "cn_db c1"]
    by (simp add: fold_put_rows write_results_def)
qed

text \<open>A failed batch: nothing, or the domains and a whole number of full transactions of rows.\<close>

lemma upsert_failed:
  assumes "cache_wf (cn_db c)" and "UpsertBatch results c = (Inl e, c')"
  shows "cn_db c' = cn_db c \<or>
    (\<exists>k. cn_db c' = write_rows (take (k * maxRowsPerTx) (expandResultsWithDomain results)) (write_domains results (cn_db c)))"
proof -
  let ?rows = "expandResultsWithDomain results"
  let ?E = "ensureAllDomainsWithStatus (keep_first id (map ds_name (buildDomainStatuses results))) (buildDomainStatuses results) c"
  have ne: "results \<noteq> []" using assms(2) by (auto simp: UpsertBatch_def)
  show ?thesis
  proof (cases ?E)
    case (Pair r c1)
    show ?thesis
    proof (cases r)
      case (Inl e')
      with Pair assms(2) ne have "c1 = c'" by (simp add: UpsertBatch_def)
      with Pair Inl show ?thesis
        by (auto simp: ensureAllDomainsWithStatus_def dest: in_tx_Inl split: if_splits)
    next
      case (Inr im)
      with Pair assms(2) ne have f: "for_each (upsert_rows im) (batches maxRowsPerTx ?rows) c1 = (Inl e, c')"
        by (simp add: UpsertBatch_def)
      have e: "?E = (Inr im, c1)" using Pair Inr by simp
      note d1 = ensure_ok [OF assms(1) ne e]
      obtain ys zs where split: "batches maxRowsPerTx ?rows = ys @ zs"
        and d': "cn_db c' = fold (put_rows im) ys (cn_db c1)"
        using for_each_Inl [where f = "upsert_rows im" and g = "put_rows im" and e = e, OF _ _ f]
          upsert_rows_ok upsert_rows_Inl by metis
      obtain k where k: "concat ys = take (k * maxRowsPerTx) ?rows"
        using batches_prefix [OF _ split] by (auto simp: maxRowsPerTx_def)
      have sub: "row_domain ` set (concat ys) \<subseteq> cr_Domain ` set results"
        using rows_of_results [of results] set_take_subset [of "k * maxRowsPerTx" ?rows] by (auto simp: k)
      have "cn_db c' = write_rows (concat ys) (write_domains results (cn_db c))"
        using d' d1 put_rows_written [OF sub, of im "cn_db c1"] by (simp add: fold_put_rows)
      with k show ?thesis by auto
    qed
  qed
qed
lemma rec_map_upsert: "rec_map (upsert_record (did, ip, ty, t, st) rs) = (rec_map rs)((did, ip, ty) \<mapsto> (t, st))"
proof (cases "(did, ip, ty) \<in> rr_key ` set rs")
  case True
  have "map_of (map (\<lambda>r. (rr_key r, rr_updated r, rr_status r))
      (map (\<lambda>r. if rr_key r = k then r\<lparr> rr_updated := t, rr_status := st \<rparr> else r) rs)) = (rec_map rs)(k \<mapsto> (t, st))"
    if "k \<in> rr_key ` set rs" for k
  proof -
    let ?g = "\<lambda>r. if rr_key r = k then r\<lparr> rr_updated := t, rr_status := st \<rparr> else r"
    have key: "rr_key (?g r) = rr_key r" for r by (simp add: rr_key_def)
    have "map_of (map (\<lambda>r. (rr_key r, rr_updated r, rr_status r)) (map ?g rs)) x =
        (if x = k \<and> k \<in> rr_key ` set rs then Some (t, st) else rec_map rs x)" for x
      by (induction rs) (auto simp: rec_map_def key)
    with that show ?thesis by auto
  qed
  from this [OF True] True show ?thesis by (simp add: rec_map_def del: map_map)
next
  case False
  then have "rec_map rs (did, ip, ty) = None"
    by (force simp: rec_map_def map_of_eq_None_iff)
  moreover have "rec_map (rs @ [r]) = (\<lambda>k. case rec_map rs k of None \<Rightarrow> [rr_key r \<mapsto> (rr_updated r, rr_status r)] k | Some v \<Rightarrow> Some v)" for r
    by (auto simp: rec_map_def map_add_def fun_eq_iff split: option.splits)
  ultimately show ?thesis using False by (auto simp: fun_eq_iff rr_key_def split: option.splits)
qed

definition row_key :: "row \<Rightarrow> string \<times> string \<times> string" where
  "row_key r = (row_domain r, row_ip r, row_typ r)"

definition put_row :: "row \<Rightarrow> ((string \<times> string \<times> string) \<rightharpoonup> (int \<times> string)) \<Rightarrow> (string \<times> string \<times> string) \<rightharpoonup> (int \<times> string)" where
  "put_row r m = m(row_key r \<mapsto> (row_updatedAt r, row_status r))"

definition put_domain :: "cache_result \<Rightarrow> (string \<rightharpoonup> (string \<times> int)) \<Rightarrow> string \<rightharpoonup> (string \<times> int)" where
  "put_domain r m = m(cr_Domain r \<mapsto> (cache_Status_String (cr_Status r), Unix (cr_ResolvedAt r)))"

lemma dom_id_inj:
  assumes "cache_wf d" and "dom_id d n = Some i" and "dom_id d n' = Some i"
  shows "n = n'"
proof -
  obtain r r' where "r \<in> set (tb_domains d)" "r' \<in> set (tb_domains d)"
    and "dr_name r = n" "dr_id r = i" "dr_name r' = n'" "dr_id r' = i"
    using assms(2,3) by (auto simp: dom_id_def dest!: map_of_SomeD)
  with assms(1) show ?thesis by (auto simp: cache_wf_def distinct_map dest: inj_onD)
qed

lemma dom_id_eq: "tb_domains d = tb_domains d' \<Longrightarrow> dom_id d = dom_id d'"
  by (simp add: dom_id_def)

lemma dom_id_write_rows [simp]: "dom_id (put_rows im rows d) = dom_id d"
  by (rule dom_id_eq) simp

lemma record_view_put:
  assumes inj: "\<And>n n' i. dom_id d n = Some i \<Longrightarrow> dom_id d n' = Some i \<Longrightarrow> n = n'"
    and "row_domain ` set rows \<subseteq> dom (dom_id d)"
  shows "record_view (put_rows (dom_id d) rows d) = fold put_row rows (record_view d)"
  using assms(2)
proof (induction rows rule: rev_induct)
  case Nil
  show ?case by (simp add: put_rows_def)
next
  case (snoc r rows)
  let ?d = "put_rows (dom_id d) rows d"
  obtain i where i: "dom_id d (row_domain r) = Some i" using snoc.prems by auto
  have rm: "rec_map (tb_records (put_rows (dom_id d) (rows @ [r]) d)) =
      (rec_map (tb_records ?d))((i, row_ip r, row_typ r) \<mapsto> (row_updatedAt r, row_status r))"
    using i by (simp add: put_rows_def row_args_def rec_map_upsert del: upsert_record.simps)
  have "record_view (put_rows (dom_id d) (rows @ [r]) d) (name, ip, ty) = put_row r (record_view ?d) (name, ip, ty)" for name ip ty
  proof (cases "dom_id d name")
    case None
    with i have "name \<noteq> row_domain r" by auto
    with None show ?thesis by (simp add: record_view_def put_row_def row_key_def)
  next
    case (Some j)
    show ?thesis
    proof (cases "name = row_domain r")
      case True
      with Some i show ?thesis by (simp add: record_view_def rm put_row_def row_key_def)
    next
      case False
      with Some i inj have "j \<noteq> i" by blast
      with Some False show ?thesis by (simp add: record_view_def rm put_row_def row_key_def)
    qed
  qed
  then have "record_view (put_rows (dom_id d) (rows @ [r]) d) = put_row r (record_view ?d)" by auto
  with snoc show ?case by simp
qed

lemma rec_map_None: "cache_wf d \<Longrightarrow> i \<notin> dr_id ` set (tb_domains d) \<Longrightarrow> rec_map (tb_records d) (i, ip, ty) = None"
  by (force simp: rec_map_def map_of_eq_None_iff cache_wf_def list_all_iff record_row_ok_def rr_key_def)

lemma add_single: "n \<notin> dom m \<Longrightarrow> [n \<mapsto> v] ++ m = m(n \<mapsto> v)"
  by (auto simp: map_add_def fun_eq_iff domIff split: option.splits)

lemma dom_id_insert:
  "dom_id (insert_domain n d) = (if n \<in> dr_name ` set (tb_domains d) then dom_id d
     else (dom_id d)(n \<mapsto> next_id (map dr_id (tb_domains d))))"
  using add_single [of n "dom_id d"] dom_dom_id [of d] by (simp add: insert_domain_def dom_id_def)

lemma dom_domain_view: "dom (domain_view d) = dr_name ` set (tb_domains d)"
  by (force simp: domain_view_def dom_map_of_conv_image_fst)

lemma domain_view_insert:
  "domain_view (insert_domain n d) = (if n \<in> dr_name ` set (tb_domains d) then domain_view d
     else (domain_view d)(n \<mapsto> (''unknown'', 0)))"
  using add_single [of n "domain_view d"] dom_domain_view [of d] by (simp add: insert_domain_def domain_view_def)

lemma record_view_insert:
  assumes "cache_wf d"
  shows "record_view (insert_domain n d) = record_view d"
proof -
  have tb: "tb_records (insert_domain n d) = tb_records d" by (simp add: insert_domain_def)
  have fresh: "rec_map (tb_records d) (next_id (map dr_id (tb_domains d)), ip, ty) = None" for ip ty
    by (rule rec_map_None [OF assms]) (use next_id_fresh [of "map dr_id (tb_domains d)"] in simp)
  have "dom_id d n = None" if "n \<notin> dr_name ` set (tb_domains d)"
    using that dom_dom_id [of d] by blast
  then show ?thesis
    by (auto simp: record_view_def tb dom_id_insert fresh fun_eq_iff split: option.splits)
qed

lemma record_view_fold_insert: "cache_wf d \<Longrightarrow> record_view (fold insert_domain ns d) = record_view d"
  by (induction ns arbitrary: d) (simp_all add: wf_insert_domain record_view_insert)

lemma record_view_write_domains:
  assumes "cache_wf d"
  shows "record_view (write_domains results d) = record_view d"
proof -
  have ids: "dom_id (fold set_status sts d') = dom_id d'" for sts d'
    by (rule dom_id_cong) simp_all
  have "record_view (fold set_status sts d') = record_view d'" for sts d'
    by (simp add: record_view_def ids cong: option.case_cong)
  then show ?thesis by (simp add: write_domains_def record_view_fold_insert assms)
qed

definition put_status :: "domainStatus \<Rightarrow> (string \<rightharpoonup> (string \<times> int)) \<Rightarrow> string \<rightharpoonup> (string \<times> int)" where
  "put_status ds m = m(ds_name ds \<mapsto> (ds_resolveStatus ds, ds_lastResolvedAt ds))"

lemma domain_view_set_status:
  "domain_view (set_status ds d) = (if ds_name ds \<in> dom (domain_view d)
     then put_status ds (domain_view d) else domain_view d)"
proof -
  have "map_of (map (\<lambda>r. (dr_name r, dr_status r, dr_last r)) (map (\<lambda>r. if dr_name r = n then r\<lparr> dr_status := s, dr_last := t \<rparr> else r) rs)) x =
     (if x = n \<and> n \<in> dr_name ` set rs then Some (s, t) else map_of (map (\<lambda>r. (dr_name r, dr_status r, dr_last r)) rs) x)" for rs :: "domain_row list" and n s t x
    by (induction rs) auto
  then show ?thesis
    by (simp add: put_status_def dom_domain_view set_status_def set_domain_status_def domain_view_def fun_eq_iff del: map_map)
       (simp add: dom_map_of_conv_image_fst image_image)
qed

lemma domain_view_fold_status:
  assumes "ds_name ` set sts \<subseteq> dom (domain_view d)"
  shows "domain_view (fold set_status sts d) = fold put_status sts (domain_view d)"
  using assms
proof (induction sts arbitrary: d)
  case (Cons ds sts)
  have "dom (domain_view (set_status ds d)) = dom (domain_view d)"
    using Cons.prems by (auto simp: domain_view_set_status put_status_def)
  with Cons show ?case by (simp add: domain_view_set_status)
qed simp

lemma put_domains_agree:
  assumes "\<forall>n. n \<notin> cr_Domain ` set rs \<longrightarrow> m n = m' n"
  shows "fold put_domain rs m = fold put_domain rs m'"
  using assms
proof (induction rs arbitrary: m m')
  case (Cons r rs)
  show ?case by (simp, rule Cons.IH) (use Cons.prems in \<open>auto simp: put_domain_def\<close>)
qed (simp add: fun_eq_iff)

lemma domain_view_fold_insert: "n \<notin> set ns \<Longrightarrow> domain_view (fold insert_domain ns d) n = domain_view d n"
  by (induction ns arbitrary: d) (auto simp: domain_view_insert)

lemma domain_view_write_domains: "domain_view (write_domains results d) = fold put_domain results (domain_view d)"
proof -
  let ?sts = "buildDomainStatuses results"
  let ?d1 = "fold insert_domain (keep_first id (map ds_name ?sts)) d"
  have "domain_view (write_domains results d) =
      fold put_status ?sts (domain_view ?d1)"
    unfolding write_domains_def by (rule domain_view_fold_status) (auto simp: dom_domain_view names_fold_insert)
  also have "\<dots> = fold put_domain results (domain_view ?d1)"
    by (simp add: buildDomainStatuses_def fold_map comp_def put_domain_def [abs_def] put_status_def [abs_def])
  also have "\<dots> = fold put_domain results (domain_view d)"
    by (rule put_domains_agree) (simp add: domain_view_fold_insert names_results)
  finally show ?thesis .
qed

end
