(* ===== verification/Registry.thy ===== *)
theory Registry
  imports Sources Cache
begin

text \<open>
  The source registry (\<open>internal/sourcereg\<close>): the union of the providers behind the \<open>Source\<close>
  interface, the factory, the persisted table of sources and the map of loaded sources. The map
  is a list of pairs in the order the next iteration would visit it.
\<close>

section \<open>Sources\<close>

datatype source = SrcPlaintext plaintext | SrcIPverse ipverse | SrcGeosite geosite_src | SrcGeoIP geoip_src | SrcMMDB mmdb_src

fun src_ID :: "source \<Rightarrow> string" where
  "src_ID (SrcPlaintext p) = pt_id p"
| "src_ID (SrcIPverse p) = iv_id p"
| "src_ID (SrcGeosite p) = ge_id p"
| "src_ID (SrcGeoIP p) = gp_id p"
| "src_ID (SrcMMDB p) = mm_id p"

fun src_Prefix :: "source \<Rightarrow> string" where
  "src_Prefix (SrcPlaintext p) = pt_prefix p"
| "src_Prefix (SrcIPverse p) = iv_prefix p"
| "src_Prefix (SrcGeosite p) = ge_prefix p"
| "src_Prefix (SrcGeoIP p) = gp_prefix p"
| "src_Prefix (SrcMMDB p) = mm_prefix p"

fun src_Provider :: "source \<Rightarrow> string" where
  "src_Provider (SrcPlaintext p) = ''plaintext''"
| "src_Provider (SrcIPverse p) = ''ipverse''"
| "src_Provider (SrcGeosite p) = ''v2flygeosite''"
| "src_Provider (SrcGeoIP p) = ''v2flygeoip''"
| "src_Provider (SrcMMDB p) = ''mmdb''"

fun src_Categories :: "source \<Rightarrow> string list" where
  "src_Categories (SrcPlaintext p) = plaintext_Categories p"
| "src_Categories (SrcIPverse p) = ipverse_Categories p"
| "src_Categories (SrcGeosite p) = geosite_Categories p"
| "src_Categories (SrcGeoIP p) = geoip_Categories p"
| "src_Categories (SrcMMDB p) = mmdb_Categories p"

fun src_IsDomainSource :: "source \<Rightarrow> bool" where
  "src_IsDomainSource (SrcPlaintext p) = (pt_Type p = ''domains'')"
| "src_IsDomainSource (SrcGeosite p) = True"
| "src_IsDomainSource _ = False"

fun src_IsPrefixSource :: "source \<Rightarrow> bool" where
  "src_IsPrefixSource (SrcPlaintext p) = (pt_Type p = ''ips'')"
| "src_IsPrefixSource (SrcGeosite p) = False"
| "src_IsPrefixSource _ = True"

fun src_Info :: "source \<Rightarrow> SourceInfo" where
  "src_Info (SrcPlaintext p) = plaintext_Info p"
| "src_Info (SrcIPverse p) = ipverse_Info p"
| "src_Info (SrcGeosite p) = geosite_Info p"
| "src_Info (SrcGeoIP p) = geoip_Info p"
| "src_Info (SrcMMDB p) = mmdb_Info p"

fun src_Load :: "env \<Rightarrow> source \<Rightarrow> fs \<Rightarrow> error option \<times> source \<times> fs" where
  "src_Load ev (SrcPlaintext p) s = (case plaintext_Load ev s p of (e, p') \<Rightarrow> (e, SrcPlaintext p', s))"
| "src_Load ev (SrcIPverse p) s = (case ipverse_Load ev p of (e, p') \<Rightarrow> (e, SrcIPverse p', s))"
| "src_Load ev (SrcGeosite p) s = (case geosite_Load ev p s of (e, p', s') \<Rightarrow> (e, SrcGeosite p', s'))"
| "src_Load ev (SrcGeoIP p) s = (case geoip_Load ev p s of (e, p', s') \<Rightarrow> (e, SrcGeoIP p', s'))"
| "src_Load ev (SrcMMDB p) s = (case mmdb_Load ev p s of (e, p', s') \<Rightarrow> (e, SrcMMDB p', s'))"

text \<open>\<open>AsDomainSource().GetDomains\<close> and \<open>AsPrefixSource().GetPrefixes\<close>, with \<open>None\<close> for a nil interface.\<close>

fun src_GetDomains :: "env \<Rightarrow> source \<Rightarrow> string \<Rightarrow> string list result option" where
  "src_GetDomains ev (SrcPlaintext p) c = (if pt_Type p = ''domains'' then Some (plaintext_GetDomains p c) else None)"
| "src_GetDomains ev (SrcGeosite p) c = Some (geosite_GetDomains ev p c)"
| "src_GetDomains ev _ c = None"

fun src_GetPrefixes :: "source \<Rightarrow> string \<Rightarrow> prefix list result option" where
  "src_GetPrefixes (SrcPlaintext p) c = (if pt_Type p = ''ips'' then Some (plaintext_GetPrefixes p c) else None)"
| "src_GetPrefixes (SrcIPverse p) c = Some (ipverse_GetPrefixes p c)"
| "src_GetPrefixes (SrcGeosite p) c = None"
| "src_GetPrefixes (SrcGeoIP p) c = Some (geoip_GetPrefixes p c)"
| "src_GetPrefixes (SrcMMDB p) c = Some (mmdb_GetPrefixes p c)"

section \<open>factory.go\<close>

record source_config =
  sc_ID :: string
  sc_Provider :: string
  sc_Prefix :: string
  sc_Enabled :: bool
  sc_Config :: cfg_map

definition run_map :: "('a \<Rightarrow> 'b) \<Rightarrow> 'a result run \<Rightarrow> 'b result run" where
  "run_map f r = (case r of Panics e \<Rightarrow> Panics e | Returns (Inl e) \<Rightarrow> Returns (Inl e) | Returns (Inr x) \<Rightarrow> Returns (Inr (f x)))"

text \<open>The registered factories are those of the five providers.\<close>

definition createSource :: "fs \<Rightarrow> source_config \<Rightarrow> source result run" where
  "createSource s cfg =
     (if sc_Provider cfg = ''plaintext'' then run_map SrcPlaintext (Returns (plaintext_New (sc_ID cfg) (sc_Prefix cfg) (sc_Config cfg)))
      else if sc_Provider cfg = ''ipverse'' then run_map SrcIPverse (Returns (ipverse_New (sc_ID cfg) (sc_Prefix cfg) (sc_Config cfg)))
      else if sc_Provider cfg = ''v2flygeosite'' then run_map SrcGeosite (geosite_New (sc_ID cfg) (sc_Prefix cfg) (sc_Config cfg) s)
      else if sc_Provider cfg = ''v2flygeoip'' then run_map SrcGeoIP (geoip_New (sc_ID cfg) (sc_Prefix cfg) (sc_Config cfg) s)
      else if sc_Provider cfg = ''mmdb'' then run_map SrcMMDB (Returns (mmdb_New (sc_ID cfg) (sc_Prefix cfg) (sc_Config cfg)))
      else Returns (Inl (''sourcereg: unknown provider '' @ sc_Provider cfg)))"

section \<open>registry.go\<close>

text \<open>
  A row of the table \<open>sources\<close>; its configuration is a JSON object, or another text or document,
  which does not decode.
\<close>

record source_row =
  so_id :: string
  so_provider :: string
  so_prefix :: string
  so_enabled :: int
  so_config :: "cfg_map option"

record registry =
  rg_db :: "source_row list conn"
  rg_sources :: "(string \<times> source) list"
  rg_fs :: fs

definition boolToInt :: "bool \<Rightarrow> int" where
  "boolToInt b = (if b then 1 else 0)"

text \<open>\<open>NewDBRegistry\<close>: the schema is created if it does not exist.\<close>

definition NewDBRegistry :: "source_row list conn \<Rightarrow> fs \<Rightarrow> registry result" where
  "NewDBRegistry db s = (case begin_or_commit db of
     (Inl e, db1) \<Rightarrow> Inl (''sourcereg: migrate: '' @ e)
   | (Inr _, db1) \<Rightarrow> Inr \<lparr> rg_db = db1, rg_sources = [], rg_fs = s \<rparr>)"

text \<open>\<open>INSERT INTO sources ... ON CONFLICT(id) DO UPDATE\<close>, with the unique prefix.\<close>

definition upsert_source :: "source_row \<Rightarrow> (unit, source_row list) stmt" where
  "upsert_source r rows =
     (if \<exists>q\<in>set rows. so_id q \<noteq> so_id r \<and> so_prefix q = so_prefix r then Inl ''UNIQUE constraint failed: sources.prefix''
      else Inr ((), if so_id r \<in> so_id ` set rows then map (\<lambda>q. if so_id q = so_id r then r else q) rows else rows @ [r]))"

definition delete_source :: "string \<Rightarrow> (unit, source_row list) stmt" where
  "delete_source i rows = Inr ((), filter (\<lambda>q. so_id q \<noteq> i) rows)"

definition prefix_char_ok :: "char \<Rightarrow> bool" where
  "prefix_char_ok ch \<longleftrightarrow> (CHR ''a'' \<le> ch \<and> ch \<le> CHR ''z'') \<or> (CHR ''0'' \<le> ch \<and> ch \<le> CHR ''9'') \<or> ch = CHR ''-''"

definition config_row :: "source_config \<Rightarrow> source_row" where
  "config_row cfg = \<lparr> so_id = sc_ID cfg, so_provider = sc_Provider cfg, so_prefix = sc_Prefix cfg,
     so_enabled = boolToInt (sc_Enabled cfg), so_config = Some (sc_Config cfg) \<rparr>"

text \<open>The map entry after \<open>src.Load\<close>; the error of a load is dropped.\<close>

definition load_entry :: "env \<Rightarrow> string \<times> source \<Rightarrow> fs \<Rightarrow> (string \<times> source) \<times> fs" where
  "load_entry ev e s =
     (if inf_Enabled (src_Info (snd e)) then (case src_Load ev (snd e) s of (_, src, s') \<Rightarrow> ((fst e, src), s')) else (e, s))"

definition AddSource :: "env \<Rightarrow> source_config \<Rightarrow> registry \<Rightarrow> (error option \<times> registry) run" where
  "AddSource ev cfg r =
     (if sc_ID cfg = [] then Returns (Some ''sourcereg: source id is required'', r)
      else if sc_Prefix cfg = [] then Returns (Some ''sourcereg: source prefix is required'', r)
      else if sc_Provider cfg = [] then Returns (Some ''sourcereg: source provider is required'', r)
      else if \<not> list_all prefix_char_ok (sc_Prefix cfg) then Returns (Some ''sourcereg: prefix must be lowercase alphanumeric or hyphen'', r)
      else case createSource (rg_fs r) cfg of
        Panics e \<Rightarrow> Panics e
      | Returns (Inl e) \<Rightarrow> Returns (Some e, r)
      | Returns (Inr src) \<Rightarrow>
          (case exec 5 (upsert_source (config_row cfg)) (rg_db r) of
             (Inl e, db) \<Rightarrow> Returns (Some (''sourcereg: insert source: '' @ e), r\<lparr> rg_db := db \<rparr>)
           | (Inr _, db) \<Rightarrow>
               (case load_entry ev (sc_ID cfg, src) (rg_fs r) of
                  (e, s') \<Rightarrow> Returns (None, r\<lparr> rg_db := db, rg_sources := AList.update (fst e) (snd e) (rg_sources r), rg_fs := s' \<rparr>))))"

definition RemoveSource :: "string \<Rightarrow> registry \<Rightarrow> error option \<times> registry" where
  "RemoveSource i r =
     (let r1 = r\<lparr> rg_sources := AList.delete i (rg_sources r) \<rparr> in
      case exec 1 (delete_source i) (rg_db r) of
        (Inl e, db) \<Rightarrow> (Some (''sourcereg: delete source: '' @ e), r1\<lparr> rg_db := db \<rparr>)
      | (Inr _, db) \<Rightarrow> (None, r1\<lparr> rg_db := db \<rparr>))"

definition GetSource :: "registry \<Rightarrow> string \<Rightarrow> source option" where
  "GetSource r i = map_of (rg_sources r) i"

definition ListSources :: "registry \<Rightarrow> SourceInfo list" where
  "ListSources r = map (\<lambda>(_, s). src_Info s) (rg_sources r)"

text \<open>The sources of the rows, and the number of rows that were skipped.\<close>

definition row_config :: "source_row \<Rightarrow> source_config option" where
  "row_config q = map_option (\<lambda>c. \<lparr> sc_ID = so_id q, sc_Provider = so_provider q, sc_Prefix = so_prefix q,
     sc_Enabled = (so_enabled q = 1), sc_Config = c \<rparr>) (so_config q)"

fun build_sources :: "fs \<Rightarrow> source_row list \<Rightarrow> ((string \<times> source) list \<times> nat) run" where
  "build_sources s [] = Returns ([], 0)"
| "build_sources s (q # qs) =
     (case (case row_config q of None \<Rightarrow> Returns None
            | Some cfg \<Rightarrow> (case createSource s cfg of
                Panics e \<Rightarrow> Panics e | Returns (Inl e) \<Rightarrow> Returns None | Returns (Inr src) \<Rightarrow> Returns (Some src))) of
        Panics e \<Rightarrow> Panics e
      | Returns made \<Rightarrow>
          (case build_sources s qs of
             Panics e \<Rightarrow> Panics e
           | Returns (srcs, skipped) \<Rightarrow>
               Returns (case made of None \<Rightarrow> (srcs, Suc skipped) | Some src \<Rightarrow> ((so_id q, src) # srcs, skipped))))"

fun load_sources :: "env \<Rightarrow> (string \<times> source) list \<Rightarrow> fs \<Rightarrow> (string \<times> source) list \<times> fs" where
  "load_sources ev [] s = ([], s)"
| "load_sources ev (e # es) s =
     (case load_entry ev e s of (e', s1) \<Rightarrow> (case load_sources ev es s1 of (es', s2) \<Rightarrow> (e' # es', s2)))"

definition LoadAll :: "env \<Rightarrow> registry \<Rightarrow> (error option \<times> registry) run" where
  "LoadAll ev r =
     (case query 0 (\<lambda>rows. rows) (rg_db r) of
        (Inl e, db) \<Rightarrow> Returns (Some (''sourcereg: query sources: '' @ e), r\<lparr> rg_db := db \<rparr>)
      | (Inr (rows, broken), db) \<Rightarrow>
          let r1 = r\<lparr> rg_db := db \<rparr> in
          (case build_sources (rg_fs r) rows of
             Panics e \<Rightarrow> Panics e
           | Returns (srcs, skipped) \<Rightarrow>
               if srcs = [] \<and> 0 < skipped then
                 Returns (Some (''sourcereg: all '' @ show_nat skipped @ '' source rows were malformed''), r1)
               else (case load_sources ev srcs (rg_fs r) of
                 (srcs', s') \<Rightarrow>
                   if broken then Returns (Some ''sourcereg: rows error'', r1\<lparr> rg_fs := s' \<rparr>)
                   else Returns (None, r1\<lparr> rg_sources := srcs', rg_fs := s' \<rparr>))))"

fun findSource :: "(string \<times> source) list \<Rightarrow> string \<Rightarrow> source option" where
  "findSource [] category = None"
| "findSource ((_, src) # es) category = (if category \<in> set (src_Categories src) then Some src else findSource es category)"

definition findSourceForCategory :: "registry \<Rightarrow> string \<Rightarrow> source option" where
  "findSourceForCategory r category = findSource (rg_sources r) category"

record CategoryInfo =
  ci_Name :: string
  ci_SourceID :: string
  ci_Type :: string
  ci_Count :: nat

definition category_count :: "env \<Rightarrow> source \<Rightarrow> string \<Rightarrow> nat" where
  "category_count ev src cat = (case src_GetDomains ev src cat of
     Some (Inr ds) \<Rightarrow> length ds
   | Some (Inl _) \<Rightarrow> 0
   | None \<Rightarrow> (case src_GetPrefixes src cat of Some (Inr ps) \<Rightarrow> length ps | _ \<Rightarrow> 0))"

definition ListCategories :: "env \<Rightarrow> registry \<Rightarrow> CategoryInfo list" where
  "ListCategories ev r = concat (map (\<lambda>(_, src). map (\<lambda>cat.
     \<lparr> ci_Name = cat, ci_SourceID = inf_ID (src_Info src),
       ci_Type = (if src_IsPrefixSource src then ''prefix'' else ''domain''), ci_Count = category_count ev src cat \<rparr>)
     (src_Categories src)) (rg_sources r))"

definition reg_GetDomains :: "env \<Rightarrow> registry \<Rightarrow> string \<Rightarrow> string list result" where
  "reg_GetDomains ev r category = (case findSourceForCategory r category of
     None \<Rightarrow> Inl (''sourcereg: no source found for category '' @ category)
   | Some src \<Rightarrow> (case src_GetDomains ev src category of
       None \<Rightarrow> Inl (''sourcereg: source '' @ src_ID src @ '' does not provide domains'') | Some x \<Rightarrow> x))"

definition reg_GetPrefixes :: "registry \<Rightarrow> string \<Rightarrow> prefix list result" where
  "reg_GetPrefixes r category = (case findSourceForCategory r category of
     None \<Rightarrow> Inl (''sourcereg: no source found for category '' @ category)
   | Some src \<Rightarrow> (case src_GetPrefixes src category of
       None \<Rightarrow> Inl (''sourcereg: source '' @ src_ID src @ '' does not provide prefixes'') | Some x \<Rightarrow> x))"

definition ResolveCategory :: "registry \<Rightarrow> string \<Rightarrow> (string \<times> string) option" where
  "ResolveCategory r category = (case findSourceForCategory r category of
     None \<Rightarrow> None
   | Some src \<Rightarrow> Some (src_ID src, if src_IsDomainSource src then ''domain'' else ''prefix''))"

definition reg_Close :: "registry \<Rightarrow> registry" where
  "reg_Close r = r\<lparr> rg_sources := [] \<rparr>"

section \<open>Ownership of categories\<close>

text \<open>The shape of a category: the prefix of its source, a colon and a name.\<close>

lemma category_shape: "c \<in> set (src_Categories s) \<Longrightarrow> \<exists>n. c = src_Prefix s @ CHR '':'' # n"
  by (cases s) (auto simp: plaintext_Categories_def ipverse_Categories_def geosite_Categories_def geoip_Categories_def
      mmdb_Categories_def split: option.splits)

lemma prefix_unique: "CHR '':'' \<notin> set p \<Longrightarrow> CHR '':'' \<notin> set q \<Longrightarrow> p @ CHR '':'' # a = q @ CHR '':'' # b \<Longrightarrow> p = q"
  using takeWhile_sep [of "CHR '':''" p a] takeWhile_sep [of "CHR '':''" q b] by simp

lemma load_keeps_prefix: "src_Load ev src s = (e, src', s') \<Longrightarrow> src_Prefix src' = src_Prefix src"
proof (cases src)
  case (SrcPlaintext p)
  then show "src_Load ev src s = (e, src', s') \<Longrightarrow> ?thesis"
    by (auto simp: plaintext_Load_def Let_def split: prod.splits sum.splits if_splits)
next
  case (SrcIPverse p)
  then show "src_Load ev src s = (e, src', s') \<Longrightarrow> ?thesis"
    by (auto simp: ipverse_Load_def split: prod.splits option.splits)
next
  case (SrcGeosite p)
  then show "src_Load ev src s = (e, src', s') \<Longrightarrow> ?thesis"
    by (auto simp: geosite_Load_def split: prod.splits sum.splits)
next
  case (SrcGeoIP p)
  have "gp_prefix p' = gp_prefix q" if "loadFromData ev d q = (e, p')" for d q e p'
    using that by (auto simp: loadFromData_def Let_def split: sum.splits)
  with SrcGeoIP show "src_Load ev src s = (e, src', s') \<Longrightarrow> ?thesis"
    by (auto simp: geoip_Load_def Let_def split: prod.splits sum.splits option.splits)
next
  case (SrcMMDB p)
  have "mm_prefix p' = mm_prefix q" if "mmdb_read ev f s q = (e, p')" for f s q e p'
    using that by (auto simp: mmdb_read_def Let_def split: sum.splits prod.splits option.splits)
  with SrcMMDB show "src_Load ev src s = (e, src', s') \<Longrightarrow> ?thesis"
    by (auto simp: mmdb_Load_def Let_def split: prod.splits sum.splits if_splits)
qed

lemma create_prefix: "createSource s cfg = Returns (Inr src) \<Longrightarrow> src_Prefix src = sc_Prefix cfg"
proof -
  have v: "ge_prefix g = p" if "geosite_New i p c s = Returns (Inr g)" for i p c g
    using that by (auto simp: geosite_New_def Let_def split: run.splits sum.splits)
  have w: "gp_prefix g = p" if "geoip_New i p c s = Returns (Inr g)" for i p c g
    using that by (auto simp: geoip_New_def Let_def split: run.splits sum.splits)
  show "createSource s cfg = Returns (Inr src) \<Longrightarrow> ?thesis"
    by (auto simp: createSource_def run_map_def plaintext_New_def ipverse_New_def mmdb_New_def Let_def
        split: if_splits run.splits sum.splits dest!: v w)
qed

definition rows_ok :: "source_row list \<Rightarrow> bool" where
  "rows_ok rows \<longleftrightarrow> distinct (map so_id rows) \<and> distinct (map so_prefix rows) \<and> (\<forall>q\<in>set rows. CHR '':'' \<notin> set (so_prefix q))"

definition entry_ok :: "source_row list \<Rightarrow> string \<times> source \<Rightarrow> bool" where
  "entry_ok rows e \<longleftrightarrow> (\<exists>q\<in>set rows. so_id q = fst e \<and> so_prefix q = src_Prefix (snd e))"

text \<open>The loaded sources are among the persisted ones, whose prefixes are unique.\<close>

definition reg_inv :: "registry \<Rightarrow> bool" where
  "reg_inv r \<longleftrightarrow> rows_ok (cn_db (rg_db r)) \<and> distinct (map fst (rg_sources r)) \<and>
     (\<forall>e\<in>set (rg_sources r). entry_ok (cn_db (rg_db r)) e)"

lemma upsert_source_ok:
  assumes "rows_ok rows" and "CHR '':'' \<notin> set (so_prefix r)" and "upsert_source r rows = Inr ((), rows')"
  shows "rows_ok rows' \<and> r \<in> set rows' \<and> (\<forall>q\<in>set rows. so_id q \<noteq> so_id r \<longrightarrow> q \<in> set rows')"
proof -
  from assms(3) have clash: "\<And>q. q \<in> set rows \<Longrightarrow> so_id q \<noteq> so_id r \<Longrightarrow> so_prefix q \<noteq> so_prefix r"
    by (auto simp: upsert_source_def split: if_splits)
  show ?thesis
  proof (cases "so_id r \<in> so_id ` set rows")
    case True
    let ?f = "\<lambda>q. if so_id q = so_id r then r else q"
    have rows': "rows' = map ?f rows" using assms(3) True by (auto simp: upsert_source_def split: if_splits)
    have ids: "map so_id (map ?f rows) = map so_id rows" by simp
    have di: "distinct rows" "inj_on so_id (set rows)" "inj_on so_prefix (set rows)"
      using assms(1) by (simp_all add: rows_ok_def distinct_map)
    have "inj_on (\<lambda>q. so_prefix (?f q)) (set rows)"
    proof (rule inj_onI)
      fix q1 q2 assume q: "q1 \<in> set rows" "q2 \<in> set rows" and eq: "so_prefix (?f q1) = so_prefix (?f q2)"
      show "q1 = q2"
      proof (cases "so_id q1 = so_id r"; cases "so_id q2 = so_id r")
        assume "so_id q1 = so_id r" "so_id q2 = so_id r"
        then have "so_id q1 = so_id q2" by simp
        then show ?thesis by (rule inj_onD [OF di(2) _ q])
      next
        assume "so_id q1 = so_id r" "so_id q2 \<noteq> so_id r"
        with eq clash [OF q(2)] show ?thesis by simp
      next
        assume "so_id q1 \<noteq> so_id r" "so_id q2 = so_id r"
        with eq clash [OF q(1)] show ?thesis by simp
      next
        assume "so_id q1 \<noteq> so_id r" "so_id q2 \<noteq> so_id r"
        with eq have "so_prefix q1 = so_prefix q2" by simp
        then show ?thesis by (rule inj_onD [OF di(3) _ q])
      qed
    qed
    with di(1) have "distinct (map so_prefix (map ?f rows))" by (simp add: distinct_map comp_def)
    moreover have "distinct (map so_id (map ?f rows))" unfolding ids using assms(1) by (simp add: rows_ok_def)
    moreover have "\<forall>q\<in>set (map ?f rows). CHR '':'' \<notin> set (so_prefix q)"
      using assms(1,2) by (auto simp: rows_ok_def)
    ultimately show ?thesis using True unfolding rows' rows_ok_def by auto
  next
    case False
    then have "rows' = rows @ [r]" using assms(3) by (auto simp: upsert_source_def split: if_splits)
    moreover have "so_prefix q \<noteq> so_prefix r" if "q \<in> set rows" for q
      using clash [OF that] False that by (metis image_eqI)
    moreover have "so_prefix r \<notin> so_prefix ` set rows" using calculation(2) by (metis imageE)
    ultimately show ?thesis using assms(1,2) False by (auto simp: rows_ok_def)
  qed
qed

lemma load_entry_ok: "load_entry ev e s = (e', s') \<Longrightarrow> fst e' = fst e \<and> src_Prefix (snd e') = src_Prefix (snd e)"
  by (auto simp: load_entry_def dest: load_keeps_prefix split: prod.splits if_splits)

lemma load_sources_ok: "load_sources ev es s = (es', s') \<Longrightarrow>
    map fst es' = map fst es \<and> (\<forall>e\<in>set es'. entry_ok rows e) = (\<forall>e\<in>set es. entry_ok rows e)"
proof (induction es arbitrary: s es')
  case (Cons e es)
  then obtain e1 s1 es1 where l: "load_entry ev e s = (e1, s1)" "load_sources ev es s1 = (es1, s')" "es' = e1 # es1"
    by (auto split: prod.splits)
  from Cons.IH [OF l(2)] load_entry_ok [OF l(1)] l(3) show ?case by (simp add: entry_ok_def)
qed simp

lemma build_sources_ok:
  assumes "build_sources s rows = Returns (srcs, n)" and "distinct (map so_id rows)" and "set rows \<subseteq> set all"
  shows "distinct (map fst srcs) \<and> fst ` set srcs \<subseteq> so_id ` set rows \<and> (\<forall>e\<in>set srcs. entry_ok all e)"
  using assms
proof (induction rows arbitrary: srcs n)
  case (Cons q rows)
  let ?made = "case row_config q of None \<Rightarrow> Returns None
      | Some cfg \<Rightarrow> (case createSource s cfg of Panics e \<Rightarrow> Panics e | Returns (Inl e) \<Rightarrow> Returns None | Returns (Inr src) \<Rightarrow> Returns (Some src))"
  from Cons.prems(1) obtain made srcs1 n1 where m: "?made = Returns made" and b: "build_sources s rows = Returns (srcs1, n1)"
    and srcs: "srcs = (case made of None \<Rightarrow> srcs1 | Some src \<Rightarrow> (so_id q, src) # srcs1)"
    by (auto split: run.splits prod.splits option.splits)
  note ih = Cons.IH [OF b]
  have pre: "src_Prefix src = so_prefix q" if "made = Some src" for src
    using m that by (auto simp: row_config_def dest!: create_prefix split: option.splits run.splits sum.splits)
  from ih Cons.prems pre srcs show ?case by (cases made) (auto simp: entry_ok_def)
qed simp

lemma colon_not_ok: "list_all prefix_char_ok p \<Longrightarrow> CHR '':'' \<notin> set p"
proof -
  have "\<not> prefix_char_ok CHR '':''" by code_simp
  then show "list_all prefix_char_ok p \<Longrightarrow> ?thesis" by (auto simp: list_all_iff)
qed

text \<open>The operations that change a registry.\<close>

inductive reg_step :: "registry \<Rightarrow> registry \<Rightarrow> bool" where
  add: "AddSource ev cfg r = Returns (e, r') \<Longrightarrow> reg_step r r'"
| remove: "RemoveSource i r = (e, r') \<Longrightarrow> reg_step r r'"
| load: "LoadAll ev r = Returns (e, r') \<Longrightarrow> reg_step r r'"
| close_all: "reg_step r (reg_Close r)"

lemma set_update_in: "f \<in> set (AList.update k v al) \<Longrightarrow> fst f \<noteq> k \<Longrightarrow> f \<in> set al"
  by (induction al) (auto split: if_splits)

lemma AddSource_cases:
  assumes "AddSource ev cfg r = Returns (e, r')"
  obtains (kept) "rg_sources r' = rg_sources r" "cn_db (rg_db r') = cn_db (rg_db r)"
  | (added) src db where "createSource (rg_fs r) cfg = Returns (Inr src)" "list_all prefix_char_ok (sc_Prefix cfg)"
      "exec 5 (upsert_source (config_row cfg)) (rg_db r) = (Inr (), db)"
      "r' = (case load_entry ev (sc_ID cfg, src) (rg_fs r) of
         (f, s') \<Rightarrow> r\<lparr> rg_db := db, rg_sources := AList.update (fst f) (snd f) (rg_sources r), rg_fs := s' \<rparr>)"
proof (cases "sc_ID cfg = [] \<or> sc_Prefix cfg = [] \<or> sc_Provider cfg = [] \<or> \<not> list_all prefix_char_ok (sc_Prefix cfg)")
  case True
  with assms have "r' = r" by (auto simp: AddSource_def split: if_splits)
  then show thesis by (intro kept) simp_all
next
  case False
  then have body: "AddSource ev cfg r = (case createSource (rg_fs r) cfg of
        Panics e \<Rightarrow> Panics e
      | Returns (Inl e) \<Rightarrow> Returns (Some e, r)
      | Returns (Inr src) \<Rightarrow>
          (case exec 5 (upsert_source (config_row cfg)) (rg_db r) of
             (Inl e, db) \<Rightarrow> Returns (Some (''sourcereg: insert source: '' @ e), r\<lparr> rg_db := db \<rparr>)
           | (Inr _, db) \<Rightarrow>
               (case load_entry ev (sc_ID cfg, src) (rg_fs r) of
                  (e, s') \<Rightarrow> Returns (None, r\<lparr> rg_db := db, rg_sources := AList.update (fst e) (snd e) (rg_sources r), rg_fs := s' \<rparr>))))"
    by (simp add: AddSource_def)
  show thesis
  proof (cases "createSource (rg_fs r) cfg")
    case (Panics p)
    with assms body show thesis by simp
  next
    case (Returns c)
    show thesis
    proof (cases c)
      case (Inl x)
      with assms body Returns have "r' = r" by simp
      then show thesis by (intro kept) simp_all
    next
      case (Inr src)
      obtain y db where x: "exec 5 (upsert_source (config_row cfg)) (rg_db r) = (y, db)" by (rule prod.exhaust)
      show thesis
      proof (cases y)
        case (Inl w)
        with assms body Returns Inr x have "r' = r\<lparr> rg_db := db \<rparr>" by simp
        with exec_Inl [OF x [unfolded Inl]] show thesis by (intro kept) simp_all
      next
        case (Inr u)
        with assms body Returns \<open>c = Inr src\<close> x False show thesis by (intro added) (auto split: prod.splits)
      qed
    qed
  qed
qed

lemma AddSource_inv:
  assumes "reg_inv r" and "AddSource ev cfg r = Returns (e, r')"
  shows "reg_inv r'"
  using assms(2)
proof (cases rule: AddSource_cases)
  case kept
  with assms(1) show ?thesis by (simp add: reg_inv_def)
next
  case (added src db)
  note c = added(1,2) and x = added(3)
  obtain en s' where l: "load_entry ev (sc_ID cfg, src) (rg_fs r) = (en, s')" by (rule prod.exhaust)
  have r': "r' = r\<lparr> rg_db := db, rg_sources := AList.update (fst en) (snd en) (rg_sources r), rg_fs := s' \<rparr>"
    using added(4) l by simp
  have en: "fst en = sc_ID cfg" "src_Prefix (snd en) = sc_Prefix cfg"
    using load_entry_ok [OF l] create_prefix [OF c(1)] by simp_all
  have "CHR '':'' \<notin> set (so_prefix (config_row cfg))" using colon_not_ok [OF c(2)] by (simp add: config_row_def)
  from upsert_source_ok [OF _ this exec_Inr [OF x]] assms(1)
  have rows: "rows_ok (cn_db db)" "config_row cfg \<in> set (cn_db db)"
    and old: "\<And>q. q \<in> set (cn_db (rg_db r)) \<Longrightarrow> so_id q \<noteq> sc_ID cfg \<Longrightarrow> q \<in> set (cn_db db)"
    by (auto simp: reg_inv_def config_row_def)
  have "entry_ok (cn_db db) f" if f: "f \<in> set (AList.update (fst en) (snd en) (rg_sources r))" for f
  proof (cases "fst f = sc_ID cfg")
    case True
    have "distinct (map fst (AList.update (fst en) (snd en) (rg_sources r)))"
      using assms(1) by (simp add: reg_inv_def distinct_update)
    with f have "map_of (AList.update (fst en) (snd en) (rg_sources r)) (fst f) = Some (snd f)" by simp
    with True en(1) have "snd f = snd en" by (simp add: update_conv)
    with True en have "so_id (config_row cfg) = fst f \<and> so_prefix (config_row cfg) = src_Prefix (snd f)"
      by (simp add: config_row_def)
    with rows(2) show ?thesis unfolding entry_ok_def by blast
  next
    case False
    have "f \<in> set (rg_sources r)"
      by (rule set_update_in [OF f]) (use False en(1) in simp)
    with assms(1) obtain q where q: "q \<in> set (cn_db (rg_db r))" "so_id q = fst f" "so_prefix q = src_Prefix (snd f)"
      unfolding reg_inv_def entry_ok_def by blast
    with old [OF q(1)] False show ?thesis unfolding entry_ok_def by auto
  qed
  moreover have "distinct (map fst (AList.update (fst en) (snd en) (rg_sources r)))"
    using assms(1) by (simp add: reg_inv_def distinct_update)
  ultimately show ?thesis using rows(1) unfolding reg_inv_def r' by simp
qed

lemma RemoveSource_inv:
  assumes "reg_inv r" and "RemoveSource i r = (e, r')"
  shows "reg_inv r'"
proof -
  have del: "distinct (map fst (AList.delete i (rg_sources r)))" "set (AList.delete i (rg_sources r)) \<subseteq> set (rg_sources r)"
    "\<And>f. f \<in> set (AList.delete i (rg_sources r)) \<Longrightarrow> fst f \<noteq> i"
    using assms(1) by (auto simp: reg_inv_def AList.delete_eq distinct_map inj_on_def filter_is_subset)
  obtain y db1 where x: "exec 1 (delete_source i) (rg_db r) = (y, db1)" by (rule prod.exhaust)
  have r': "rg_sources r' = AList.delete i (rg_sources r)" "rg_db r' = db1"
    using assms(2) x by (cases y; auto simp: RemoveSource_def Let_def)+
  have db: "cn_db db1 = cn_db (rg_db r) \<or> cn_db db1 = filter (\<lambda>q. so_id q \<noteq> i) (cn_db (rg_db r))"
  proof (cases y)
    case (Inl e)
    with x exec_Inl show ?thesis by blast
  next
    case (Inr u)
    have "exec 1 (delete_source i) (rg_db r) = (Inr u, db1)" using x Inr by simp
    from exec_Inr [OF this] have "delete_source i (cn_db (rg_db r)) = Inr (u, cn_db db1)" .
    then show ?thesis by (simp add: delete_source_def)
  qed
  have "rows_ok (filter (\<lambda>q. so_id q \<noteq> i) rows)" if "rows_ok rows" for rows
    using that by (auto simp: rows_ok_def distinct_map_filter)
  moreover have "entry_ok (filter (\<lambda>q. so_id q \<noteq> i) rows) f" if "entry_ok rows f" "fst f \<noteq> i" for rows f
    using that by (auto simp: entry_ok_def)
  ultimately show ?thesis using db del assms(1) unfolding reg_inv_def r' by (metis subsetD)
qed

lemma LoadAll_inv:
  assumes "reg_inv r" and "LoadAll ev r = Returns (e, r')"
  shows "reg_inv r'"
proof -
  obtain q db where q: "query 0 (\<lambda>rows. rows) (rg_db r) = (q, db)" by (rule prod.exhaust)
  have db: "cn_db db = cn_db (rg_db r)" using q by (rule query_db_eq)
  show ?thesis
  proof (cases "\<exists>rows srcs n. q = Inr (rows, False) \<and> build_sources (rg_fs r) rows = Returns (srcs, n) \<and> \<not> (srcs = [] \<and> 0 < n)")
    case False
    then have "rg_sources r' = rg_sources r \<and> cn_db (rg_db r') = cn_db (rg_db r)"
      using assms(2) q db by (auto simp: LoadAll_def Let_def split: sum.splits prod.splits run.splits if_splits)
    with assms(1) show ?thesis by (simp add: reg_inv_def)
  next
    case True
    then obtain rows srcs n where rows: "q = Inr (rows, False)" and b: "build_sources (rg_fs r) rows = Returns (srcs, n)"
      and ne: "\<not> (srcs = [] \<and> 0 < n)" by blast
    obtain srcs' s' where l: "load_sources ev srcs (rg_fs r) = (srcs', s')" by (rule prod.exhaust)
    have r': "r' = r\<lparr> rg_db := db, rg_sources := srcs', rg_fs := s' \<rparr>"
      using assms(2) q rows b ne l by (auto simp: LoadAll_def Let_def)
    have all: "rows = cn_db (rg_db r)" using q rows query_full by blast
    have "distinct (map so_id rows)" using assms(1) all by (simp add: reg_inv_def rows_ok_def)
    from build_sources_ok [OF b this, of rows] load_sources_ok [OF l, of rows] all db assms(1)
    show ?thesis by (simp add: reg_inv_def r')
  qed
qed

lemma reg_reachable_inv: "reg_step\<^sup>*\<^sup>* r0 r \<Longrightarrow> reg_inv r0 \<Longrightarrow> reg_inv r"
proof (induction rule: rtranclp_induct)
  case (step r r')
  have inv: "reg_inv r" by (rule step.IH [OF step.prems])
  from step.hyps(2) show ?case
  proof cases
    case (add ev cfg e)
    then show ?thesis by (rule AddSource_inv [OF inv])
  next
    case (remove i e)
    then show ?thesis by (rule RemoveSource_inv [OF inv])
  next
    case (load ev e)
    then show ?thesis by (rule LoadAll_inv [OF inv])
  next
    case close_all
    with inv show ?thesis by (simp add: reg_Close_def reg_inv_def)
  qed
qed

lemma owner_unique:
  assumes "reg_inv r" and "e \<in> set (rg_sources r)" and "f \<in> set (rg_sources r)"
    and "c \<in> set (src_Categories (snd e))" and "c \<in> set (src_Categories (snd f))"
  shows "e = f"
proof -
  obtain n m where "c = src_Prefix (snd e) @ CHR '':'' # n" "c = src_Prefix (snd f) @ CHR '':'' # m"
    using category_shape assms(4,5) by metis
  moreover obtain q1 q2 where q: "q1 \<in> set (cn_db (rg_db r))" "so_id q1 = fst e" "so_prefix q1 = src_Prefix (snd e)"
      "q2 \<in> set (cn_db (rg_db r))" "so_id q2 = fst f" "so_prefix q2 = src_Prefix (snd f)"
    using assms(1-3) by (auto simp: reg_inv_def entry_ok_def) metis
  moreover have ok: "rows_ok (cn_db (rg_db r))" using assms(1) by (simp add: reg_inv_def)
  moreover from ok have "\<forall>q\<in>set (cn_db (rg_db r)). CHR '':'' \<notin> set (so_prefix q)" by (simp add: rows_ok_def)
  ultimately have eq: "so_prefix q1 = so_prefix q2"
    using prefix_unique [of "so_prefix q1" "so_prefix q2" n m] by metis
  have "inj_on so_prefix (set (cn_db (rg_db r)))" using ok by (simp add: rows_ok_def distinct_map)
  from inj_onD [OF this eq q(1,4)] have "q1 = q2" .
  with q have "fst e = fst f" by simp
  with assms(1-3) show ?thesis by (auto simp: reg_inv_def distinct_map dest: inj_onD)
qed

lemma findSource_Some: "findSource es c = Some s \<Longrightarrow> \<exists>e\<in>set es. snd e = s \<and> c \<in> set (src_Categories s)"
  by (induction es c rule: findSource.induct) (auto split: if_splits)

lemma findSource_None: "findSource es c = None \<longleftrightarrow> (\<forall>e\<in>set es. c \<notin> set (src_Categories (snd e)))"
  by (induction es c rule: findSource.induct) auto

text \<open>
  C20: whatever sequence of additions, removals, reloads and closes a registry has been through, a
  category belongs to at most one loaded source: the lookup finds the same source in whatever order
  the map of sources is iterated, and it finds one exactly when some source lists the category.
\<close>

theorem category_owner_unique:
  assumes "NewDBRegistry db s = Inr r0" and "rows_ok (cn_db db)" and "reg_step\<^sup>*\<^sup>* r0 r"
    and "mset es = mset (rg_sources r)"
  shows "findSource es c = findSourceForCategory r c \<and>
    (findSourceForCategory r c = None \<longleftrightarrow> (\<forall>src\<in>snd ` set (rg_sources r). c \<notin> set (src_Categories src)))"
proof -
  have "reg_inv r0" using assms(1,2)
    by (auto simp: NewDBRegistry_def reg_inv_def begin_or_commit_def dest: exec_Inr split: sum.splits prod.splits)
  with assms(3) have inv: "reg_inv r" by (rule reg_reachable_inv)
  have set_eq: "set es = set (rg_sources r)" using assms(4) by (rule mset_eq_setD)
  have "findSource es c = findSource (rg_sources r) c"
  proof (cases "findSource es c")
    case None
    then show ?thesis by (metis findSource_None set_eq)
  next
    case (Some a)
    then obtain b where b: "findSource (rg_sources r) c = Some b" by (metis findSource_None set_eq not_Some_eq)
    obtain e f where "e \<in> set es" "snd e = a" "c \<in> set (src_Categories a)"
        "f \<in> set (rg_sources r)" "snd f = b" "c \<in> set (src_Categories b)"
      using findSource_Some [OF Some] findSource_Some [OF b] by blast
    with owner_unique [OF inv, of e f c] set_eq Some b show ?thesis by simp
  qed
  then show ?thesis by (simp add: findSourceForCategory_def findSource_None)
qed

section \<open>The enabled flag\<close>

definition run_view :: "('a \<Rightarrow> 'b) \<Rightarrow> 'a run \<Rightarrow> 'b run" where
  "run_view f r = (case r of Panics e \<Rightarrow> Panics e | Returns x \<Rightarrow> Returns (f x))"

text \<open>What a caller sees of an operation: its error, the loaded sources and the files.\<close>

definition reg_served :: "(error option \<times> registry) run \<Rightarrow> (error option \<times> (string \<times> source) list \<times> fs) run" where
  "reg_served = run_view (\<lambda>(e, r). (e, rg_sources r, rg_fs r))"

definition set_enabled :: "(source_row \<Rightarrow> int) \<Rightarrow> registry \<Rightarrow> registry" where
  "set_enabled f r = r\<lparr> rg_db := (rg_db r)\<lparr> cn_db := map (\<lambda>q. q\<lparr> so_enabled := f q \<rparr>) (cn_db (rg_db r)) \<rparr> \<rparr>"

lemma createSource_enabled: "createSource s (cfg\<lparr> sc_Enabled := b \<rparr>) = createSource s cfg"
  by (simp add: createSource_def)

lemma exec_result_cong:
  assumes "map_sum id fst (f (cn_db c)) = map_sum id fst (g (cn_db c))"
  shows "fst (exec n f c) = fst (exec n g c)"
  using assms by (auto simp: exec_def Let_def map_sum_def split: sum.splits)

lemma build_sources_enabled: "build_sources s (map (\<lambda>q. q\<lparr> so_enabled := f q \<rparr>) rows) = build_sources s rows"
proof (induction rows)
  case (Cons q rows)
  have "row_config (q\<lparr> so_enabled := f q \<rparr>) = map_option (\<lambda>c. c\<lparr> sc_Enabled := (f q = 1) \<rparr>) (row_config q)"
    by (cases "so_config q") (simp_all add: row_config_def)
  with Cons.IH show ?case by (cases "row_config q") (simp_all add: createSource_enabled split: run.split sum.split option.split)
qed simp

text \<open>
  the enabled flag has no effect. Adding a source with the flag off gives the same error, the
  same loaded sources and the same files as adding it with the flag on, and a reload gives the same
  whatever the flags of the persisted rows are, since every provider reports itself enabled.
\<close>

theorem enabled_ignored:
  "reg_served (AddSource ev (cfg\<lparr> sc_Enabled := False \<rparr>) r) = reg_served (AddSource ev (cfg\<lparr> sc_Enabled := True \<rparr>) r) \<and>
   reg_served (LoadAll ev (set_enabled f r)) = reg_served (LoadAll ev r)"
proof
  let ?x = "\<lambda>b. exec 5 (upsert_source (config_row (cfg\<lparr> sc_Enabled := b \<rparr>))) (rg_db r)"
  have x: "fst (?x False) = fst (?x True)"
    by (rule exec_result_cong) (simp add: upsert_source_def config_row_def)
  obtain y0 d0 y1 d1 where y: "?x False = (y0, d0)" "?x True = (y1, d1)" by (metis prod.exhaust)
  with x have eq: "y0 = y1" by simp
  show "reg_served (AddSource ev (cfg\<lparr> sc_Enabled := False \<rparr>) r) = reg_served (AddSource ev (cfg\<lparr> sc_Enabled := True \<rparr>) r)"
    by (simp add: AddSource_def createSource_enabled y eq reg_served_def run_view_def split: run.split sum.split prod.split)
  have q: "query 0 (\<lambda>rows. rows) (rg_db (set_enabled f r)) =
     (case query 0 (\<lambda>rows. rows) (rg_db r) of
        (Inl e, db) \<Rightarrow> (Inl e, rg_db (set_enabled f (r\<lparr> rg_db := db \<rparr>)))
      | (Inr (rows, b), db) \<Rightarrow> (Inr (map (\<lambda>q. q\<lparr> so_enabled := f q \<rparr>) rows, b), rg_db (set_enabled f (r\<lparr> rg_db := db \<rparr>))))"
    by (simp add: query_def exec_def set_enabled_def Let_def take_map split: option.split)
  obtain z db where z: "query 0 (\<lambda>rows. rows) (rg_db r) = (z, db)" by (rule prod.exhaust)
  have fs: "rg_fs (set_enabled f r) = rg_fs r" "rg_sources (set_enabled f r) = rg_sources r"
    by (simp_all add: set_enabled_def)
  show "reg_served (LoadAll ev (set_enabled f r)) = reg_served (LoadAll ev r)"
  proof (cases z)
    case (Inl e)
    with z q show ?thesis by (simp add: LoadAll_def reg_served_def run_view_def fs)
  next
    case (Inr p)
    obtain rows b where p: "p = (rows, b)" by (rule prod.exhaust)
    show ?thesis
      using z q by (simp add: LoadAll_def reg_served_def run_view_def fs Inr p Let_def build_sources_enabled
          split: run.split prod.split)
  qed
qed

section \<open>Witnesses\<close>

definition ex_registry :: registry where
  "ex_registry = \<lparr> rg_db = \<lparr> cn_db = [], cn_calls = 1, cn_fault = (\<lambda>_. False), cn_cut = (\<lambda>_. None), cn_max_vars = 32766 \<rparr>,
     rg_sources = [], rg_fs = no_files \<rparr>"

definition ex_source_config :: source_config where
  "ex_source_config = \<lparr> sc_ID = ''s'', sc_Provider = ''plaintext'', sc_Prefix = ''my'', sc_Enabled = False,
     sc_Config = [(''type'', VStr ''ips''), (''file'', VStr ''list.txt'')] \<rparr>"

theorem category_owner_unique_witness:
  "\<exists>r e. AddSource ex_env ex_source_config ex_registry = Returns (e, r) \<and> rg_sources r \<noteq> [] \<and>
     findSource (rev (rg_sources r)) ''my:default'' = findSourceForCategory r ''my:default'' \<and>
     findSourceForCategory r ''my:default'' \<noteq> None"
proof -
  let ?db = "(rg_db ex_registry)\<lparr> cn_calls := 0 \<rparr>"
  have new: "NewDBRegistry ?db no_files = Inr ex_registry" "rows_ok (cn_db ?db)"
    by (simp_all add: NewDBRegistry_def begin_or_commit_def exec_def ex_registry_def rows_ok_def)
  have ok: "list_all prefix_char_ok ''my''" by code_simp
  obtain src where c: "createSource no_files ex_source_config = Returns (Inr (SrcPlaintext src))" "pt_prefix src = ''my''"
    by (simp add: createSource_def ex_source_config_def run_map_def plaintext_New_def cfg_string_def or_default_def)
  obtain en s' where l: "load_entry ex_env (''s'', SrcPlaintext src) no_files = (en, s')" by (rule prod.exhaust)
  obtain r where r: "AddSource ex_env ex_source_config ex_registry = Returns (None, r)" "rg_sources r = [en]"
    using c ok l by (simp add: AddSource_def ex_source_config_def ex_registry_def exec_def upsert_source_def config_row_def)
  have "src_Prefix (snd en) = ''my''" "\<exists>p. snd en = SrcPlaintext p"
    using load_entry_ok [OF l] l c(2) by (auto simp: load_entry_def split: if_splits prod.splits)
  then have owns: "''my:default'' \<in> set (src_Categories (snd en))" by (auto simp: plaintext_Categories_def)
  have "reg_step\<^sup>*\<^sup>* ex_registry r" using reg_step.add [OF r(1)] by (rule r_into_rtranclp)
  from category_owner_unique [OF new this, of "rev (rg_sources r)" "''my:default''"] r owns
  show ?thesis by auto
qed

end
