(* ===== verification/Cache_Props.thy ===== *)
theory Cache_Props
  imports Cache
begin

text \<open>
  Properties of the cache: what a batch writes, on success and on failure, that writing it again
  changes nothing, what snapshots and the freshness check return, that migrations run once, and
  the key-value store as an implementation of the interface the configuration loader uses.
\<close>

text \<open>Writing the same batch again changes no row.\<close>

definition final_domain :: "(string \<rightharpoonup> (string \<times> int)) \<Rightarrow> domain_row \<Rightarrow> domain_row" where
  "final_domain m r = (case m (dr_name r) of None \<Rightarrow> r | Some (s, t) \<Rightarrow> r\<lparr> dr_status := s, dr_last := t \<rparr>)"

lemma fold_set_status_rows:
  "fold set_status sts d = d\<lparr> tb_domains := map (final_domain (fold put_status sts Map.empty)) (tb_domains d) \<rparr>"
proof (induction sts rule: rev_induct)
  case Nil
  have "final_domain Map.empty r = r" for r by (simp add: final_domain_def)
  then show ?case by simp
next
  case (snoc ds sts)
  have "(if dr_name (final_domain m r) = ds_name ds
       then (final_domain m r)\<lparr> dr_status := ds_resolveStatus ds, dr_last := ds_lastResolvedAt ds \<rparr> else final_domain m r) =
     final_domain (put_status ds m) r" for m r
    by (auto simp: final_domain_def put_status_def split: option.splits)
  with snoc show ?case by (simp add: set_status_def set_domain_status_def)
qed

lemma final_domain_twice: "final_domain m (final_domain m r) = final_domain m r"
  by (auto simp: final_domain_def split: option.splits)

lemma write_domains_twice: "write_domains results (put_rows im rows (write_domains results d)) = put_rows im rows (write_domains results d)"
proof -
  let ?sts = "buildDomainStatuses results" and ?ns = "keep_first id (map ds_name (buildDomainStatuses results))"
  let ?d2 = "put_rows im rows (write_domains results d)"
  have "fold insert_domain ?ns ?d2 = ?d2"
    by (rule fold_insert_present) (auto simp: dom_write_domains names_results)
  moreover have "fold set_status ?sts ?d2 = ?d2"
    by (simp add: fold_set_status_rows put_rows_def write_domains_def final_domain_twice comp_def)
  ultimately show ?thesis by (simp add: write_domains_def [of results ?d2])
qed

definition put_args :: "rec_args \<Rightarrow> ((int \<times> string \<times> string) \<rightharpoonup> (int \<times> string)) \<Rightarrow> (int \<times> string \<times> string) \<rightharpoonup> (int \<times> string)" where
  "put_args a m = (case a of (did, ip, ty, t, st) \<Rightarrow> m((did, ip, ty) \<mapsto> (t, st)))"

definition final_record :: "((int \<times> string \<times> string) \<rightharpoonup> (int \<times> string)) \<Rightarrow> record_row \<Rightarrow> record_row" where
  "final_record m r = (case m (rr_key r) of None \<Rightarrow> r | Some (t, s) \<Rightarrow> r\<lparr> rr_updated := t, rr_status := s \<rparr>)"

lemma rec_map_upsert_args: "rec_map (upsert_record a rs) = put_args a (rec_map rs)"
  by (cases a) (simp add: put_args_def rec_map_upsert del: upsert_record.simps)

lemma rec_map_fold: "rec_map (fold upsert_record as rs) = fold put_args as (rec_map rs)"
  by (induction as arbitrary: rs) (simp_all add: rec_map_upsert_args)

lemma fold_put_args: "fold put_args as m = m ++ fold put_args as Map.empty"
proof (induction as arbitrary: m rule: rev_induct)
  case (snoc a as)
  have "put_args a (m ++ m') = m ++ put_args a m'" for m m' by (cases a) (simp add: put_args_def)
  with snoc [of m] show ?case by simp
qed simp

lemma dom_fold_put_args: "dom (fold put_args as Map.empty) = args_key ` set as"
proof (induction as rule: rev_induct)
  case (snoc a as)
  have "dom (put_args a m) = insert (args_key a) (dom m)" for m
    by (cases a) (auto simp: put_args_def)
  with snoc show ?case by simp
qed simp

lemma keys_fold_upsert: "rr_key ` set (fold upsert_record as rs) = args_key ` set as \<union> rr_key ` set rs"
proof (induction as arbitrary: rs)
  case (Cons a as)
  have "rr_key ` set (upsert_record a rs) = insert (args_key a) (rr_key ` set rs)"
    using arg_cong [OF keys_upsert_record [of a rs], of set] by auto
  with Cons show ?case by auto
qed simp

lemma fold_upsert_present:
  assumes "args_key ` set as \<subseteq> rr_key ` set rs"
  shows "fold upsert_record as rs = map (final_record (fold put_args as Map.empty)) rs"
  using assms
proof (induction as rule: rev_induct)
  case Nil
  have "final_record Map.empty r = r" for r by (simp add: final_record_def)
  then show ?case by simp
next
  case (snoc a as)
  let ?m = "fold put_args as Map.empty"
  obtain did ip ty t st where a: "a = (did, ip, ty, t, st)" by (metis prod_cases5)
  have key: "rr_key (final_record m r) = rr_key r" for m r
    by (auto simp: final_record_def rr_key_def split: option.splits)
  have "(if rr_key (final_record ?m r) = (did, ip, ty) then (final_record ?m r)\<lparr> rr_updated := t, rr_status := st \<rparr> else final_record ?m r) =
      final_record (put_args a ?m) r" for r
    by (auto simp: a key put_args_def) (auto simp: final_record_def split: option.splits)
  moreover have "(did, ip, ty) \<in> rr_key ` set (map (final_record ?m) rs)"
    using snoc.prems by (auto simp: a image_image key)
  ultimately show ?case using snoc by (simp add: a)
qed

lemma fold_upsert_twice:
  assumes "distinct (map rr_key rs)"
  shows "fold upsert_record as (fold upsert_record as rs) = fold upsert_record as rs"
proof -
  let ?rs = "fold upsert_record as rs" and ?m = "fold put_args as Map.empty"
  have dist: "distinct (map rr_key (fold upsert_record as rs'))" if "distinct (map rr_key rs')" for rs'
    using that
  proof (induction as arbitrary: rs')
    case (Cons a as)
    from Cons.prems have "distinct (map rr_key (upsert_record a rs'))" by (auto simp: keys_upsert_record)
    with Cons.IH show ?case by simp
  qed simp
  have "final_record ?m r = r" if r: "r \<in> set ?rs" for r
  proof (cases "?m (rr_key r)")
    case (Some v)
    have "distinct (map fst (map (\<lambda>r. (rr_key r, rr_updated r, rr_status r)) ?rs))"
      using dist [OF assms] by (simp add: comp_def)
    with r have "rec_map ?rs (rr_key r) = Some (rr_updated r, rr_status r)"
      unfolding rec_map_def by (intro map_of_is_SomeI) auto
    moreover have "rec_map ?rs (rr_key r) = Some v"
      using Some by (simp add: rec_map_fold fold_put_args [of as "rec_map rs"])
    ultimately show ?thesis using Some by (simp add: final_record_def)
  qed (simp add: final_record_def)
  then have "map (final_record ?m) ?rs = ?rs" by (simp add: map_idI)
  moreover have "fold upsert_record as ?rs = map (final_record ?m) ?rs"
    by (rule fold_upsert_present) (simp add: keys_fold_upsert)
  ultimately show ?thesis by simp
qed

lemma write_results_twice:
  assumes "cache_wf d"
  shows "write_results results (write_results results d) = write_results results d"
proof -
  let ?rows = "expandResultsWithDomain results" and ?d1 = "write_domains results d"
  have "write_domains results (write_results results d) = write_results results d"
    by (simp add: write_results_def write_rows_def write_domains_twice)
  moreover have "write_rows ?rows (write_rows ?rows ?d1) = write_rows ?rows ?d1"
    using assms by (simp add: write_rows_def) (simp add: put_rows_def fold_upsert_twice cache_wf_def)
  ultimately show ?thesis by (simp add: write_results_def)
qed

lemma write_results_views:
  assumes "cache_wf d"
  shows "domain_view (write_results results d) = fold put_domain results (domain_view d)"
    and "record_view (write_results results d) = fold put_row (expandResultsWithDomain results) (record_view d)"
proof -
  let ?d1 = "write_domains results d"
  have wf: "cache_wf ?d1" by (rule wf_write_domains [OF assms])
  have "row_domain ` set (expandResultsWithDomain results) \<subseteq> dom (dom_id ?d1)"
    using rows_of_results [of results] by (auto simp: dom_dom_id dom_write_domains)
  then show "record_view (write_results results d) = fold put_row (expandResultsWithDomain results) (record_view d)"
    using record_view_put [of ?d1, OF dom_id_inj [OF wf]] record_view_write_domains [OF assms, of results]
    by (simp add: write_results_def write_rows_def)
  have "domain_view (put_rows im rows d') = domain_view d'" for im rows d' by (simp add: domain_view_def)
  then show "domain_view (write_results results d) = fold put_domain results (domain_view d)"
    by (simp add: write_results_def write_rows_def domain_view_write_domains)
qed

lemma wf_write_rows:
  assumes "cache_wf d" and "row_domain ` set rows \<subseteq> dom (dom_id d)"
    and "\<forall>r\<in>set rows. row_typ r \<in> {''A'', ''AAAA''} \<and> row_status r \<in> {''valid'', ''failed''}"
  shows "cache_wf (write_rows rows d)"
proof -
  have "args_ok d (row_args (dom_id d) r)" if "r \<in> set rows" for r
  proof -
    from that assms(2) obtain i where i: "dom_id d (row_domain r) = Some i" by auto
    then have "i \<in> dr_id ` set (tb_domains d)" by (force simp: dom_id_def dest!: map_of_SomeD)
    with i that assms(3) show ?thesis by (simp add: row_args_def)
  qed
  then have "upsert_records (map (row_args (dom_id d)) rows) d = Inr ((), write_rows rows d)"
    by (simp add: upsert_records_def list_all_iff write_rows_def put_rows_def)
  then show ?thesis by (rule wf_upsert_records [OF assms(1)])
qed

lemma rows_wf: "r \<in> set (expandResultsWithDomain results) \<Longrightarrow> row_typ r \<in> {''A'', ''AAAA''} \<and> row_status r \<in> {''valid'', ''failed''}"
  by (auto simp: expandResultsWithDomain_def expand_result_def Let_def split: if_splits)

lemma wf_write_prefix: "cache_wf d \<Longrightarrow> cache_wf (write_rows (take k (expandResultsWithDomain results)) (write_domains results d))"
proof (rule wf_write_rows)
  assume "cache_wf d"
  then show "cache_wf (write_domains results d)" by (rule wf_write_domains)
  show "row_domain ` set (take k (expandResultsWithDomain results)) \<subseteq> dom (dom_id (write_domains results d))"
    using rows_of_results [of results] set_take_subset [of k "expandResultsWithDomain results"]
    by (auto simp: dom_dom_id dom_write_domains)
  show "\<forall>r\<in>set (take k (expandResultsWithDomain results)). row_typ r \<in> {''A'', ''AAAA''} \<and> row_status r \<in> {''valid'', ''failed''}"
    using rows_wf set_take_subset [of k "expandResultsWithDomain results"] by blast
qed

lemma wf_write_results: "cache_wf d \<Longrightarrow> cache_wf (write_results results d)"
  using wf_write_prefix [of d "length (expandResultsWithDomain results)" results] by (simp add: write_results_def)

lemma upsert_preserves_wf:
  assumes "cache_wf (cn_db c)"
  shows "cache_wf (cn_db (snd (UpsertBatch results c)))"
proof (cases "UpsertBatch results c")
  case (Pair r c')
  show ?thesis
  proof (cases r)
    case (Inl e)
    with upsert_failed [OF assms] Pair assms wf_write_prefix [OF assms] show ?thesis by fastforce
  next
    case (Inr u)
    show ?thesis
    proof (cases "results = []")
      case True
      with Pair assms show ?thesis by (auto simp: UpsertBatch_def)
    next
      case False
      with upsert_ok [OF assms False] Pair Inr wf_write_results [OF assms] show ?thesis by simp
    qed
  qed
qed

section \<open>Freshness\<close>

text \<open>What \<open>NeedsRefresh\<close> decides of one domain.\<close>

definition stale_at :: "int \<Rightarrow> duration \<Rightarrow> duration \<Rightarrow> (string \<times> int) option \<Rightarrow> bool" where
  "stale_at now_ns ttl failedTTL v =
     (case v of
        None \<Rightarrow> True
      | Some (st, t) \<Rightarrow> st = ''unknown'' \<or>
          t < Unix now_ns - whole_seconds (if st = ''failed'' \<or> st = ''nxdomain'' then failedTTL else ttl))"

lemma domain_view_Some:
  assumes "distinct (map dr_name (tb_domains d))"
  shows "domain_view d n = Some v \<longleftrightarrow> (\<exists>r\<in>set (tb_domains d). dr_name r = n \<and> v = (dr_status r, dr_last r))"
proof -
  have "distinct (map fst (map (\<lambda>r. (dr_name r, dr_status r, dr_last r)) (tb_domains d)))"
    using assms by (simp add: comp_def)
  from map_of_eq_Some_iff [OF this, of n v] show ?thesis by (auto simp: domain_view_def)
qed

lemma fold_stale:
  assumes "distinct (map dr_name rs)"
  shows "fold (\<lambda>r m. m(dr_name r \<mapsto> f r)) rs m n = (if \<exists>r\<in>set rs. dr_name r = n then Some (\<exists>r\<in>set rs. dr_name r = n \<and> f r) else m n)"
  using assms
proof (induction rs arbitrary: m)
  case (Cons r rs)
  then have "dr_name r \<notin> dr_name ` set rs" by simp
  with Cons show ?case by (auto simp: image_iff)
qed simp

lemma check_batches_ok:
  assumes "cache_wf (cn_db c)"
    and "check_batches (Unix now - whole_seconds ttl) (Unix now - whole_seconds failedTTL) bs m c = (Inr m', c')"
  shows "m' n = (if n \<in> set (concat bs) \<and> n \<in> dom (domain_view (cn_db c))
      then Some (stale_at now ttl failedTTL (domain_view (cn_db c) n)) else m n)"
  using assms
proof (induction bs arbitrary: m c)
  case (Cons b bs)
  let ?st = "row_stale (Unix now - whole_seconds ttl) (Unix now - whole_seconds failedTTL)"
  from Cons.prems(2) obtain rows c1 where q: "query (length b) (select_domains b) c = (Inr (rows, False), c1)"
    and rest: "check_batches (Unix now - whole_seconds ttl) (Unix now - whole_seconds failedTTL) bs
        (fold (\<lambda>r m. m(dr_name r \<mapsto> ?st r)) rows m) c1 = (Inr m', c')"
    by (auto simp: checkStaleBatch_def split: prod.splits sum.splits if_splits)
  have db: "cn_db c1 = cn_db c" using q by (rule query_db_eq)
  have wf: "cache_wf (cn_db c1)" using Cons.prems(1) db by simp
  have dn: "distinct (map dr_name (tb_domains (cn_db c)))" using Cons.prems(1) by (simp add: cache_wf_def)
  have rows: "rows = select_domains b (cn_db c)" using q by (rule query_full)
  have one: "?st r = stale_at now ttl failedTTL (Some (dr_status r, dr_last r))" for r
    by (auto simp: row_stale_def stale_at_def Let_def)
  have "fold (\<lambda>r m. m(dr_name r \<mapsto> ?st r)) rows m n =
      (if n \<in> set b \<and> n \<in> dom (domain_view (cn_db c)) then Some (stale_at now ttl failedTTL (domain_view (cn_db c) n)) else m n)"
  proof (cases "domain_view (cn_db c) n")
    case None
    then have "\<not> (\<exists>r\<in>set (tb_domains (cn_db c)). dr_name r = n)" using dom_domain_view [of "cn_db c"] by (auto simp: domIff)
    then show ?thesis
      using None fold_stale [of rows ?st m n] dn by (auto simp: rows select_domains_def distinct_map_filter)
  next
    case (Some v)
    then obtain r where r: "r \<in> set (tb_domains (cn_db c))" "dr_name r = n" "v = (dr_status r, dr_last r)"
      using domain_view_Some [OF dn] by auto
    have uniq: "r' = r" if "r' \<in> set (tb_domains (cn_db c))" "dr_name r' = n" for r'
      using that r dn by (auto simp: distinct_map dest: inj_onD)
    have "distinct (map dr_name rows)" using dn by (simp add: rows select_domains_def distinct_map_filter)
    note f = fold_stale [OF this, of ?st m n]
    have e1: "(\<exists>r'\<in>set rows. dr_name r' = n) \<longleftrightarrow> n \<in> set b"
      using r(1,2) by (auto simp: rows select_domains_def)
    have e2: "(\<exists>r'\<in>set rows. dr_name r' = n \<and> ?st r') \<longleftrightarrow> ?st r" if "n \<in> set b"
    proof
      assume "\<exists>r'\<in>set rows. dr_name r' = n \<and> ?st r'"
      then obtain r' where r': "r' \<in> set (tb_domains (cn_db c))" "dr_name r' = n" "?st r'"
        by (auto simp: rows select_domains_def)
      from uniq [OF r'(1,2)] r'(3) show "?st r" by simp
    qed (use that r(1,2) in \<open>auto simp: rows select_domains_def\<close>)
    have e3: "stale_at now ttl failedTTL (domain_view (cn_db c) n) = ?st r"
      using Some r(3) one [of r] by simp
    show ?thesis unfolding f e1 e3 using e2 Some by (simp add: domIff)
  qed
  with Cons.IH [OF wf rest] db show ?case by auto
qed simp

lemma fold_missing:
  "fold (\<lambda>name m. if m name = None then m(name \<mapsto> True) else m) ns m n =
     (if n \<in> set ns \<and> m n = None then Some True else m n)"
  by (induction ns arbitrary: m) auto

lemma needs_refresh_ok:
  assumes "cache_wf (cn_db c)" and "NeedsRefresh now domains ttl failedTTL c = (Inr stale, c')"
  shows "stale = sorted_list_of_set {n \<in> set domains. stale_at now ttl failedTTL (domain_view (cn_db c) n)}"
proof (cases "domains = []")
  case True
  with assms(2) show ?thesis by (simp add: NeedsRefresh_def)
next
  case False
  with assms(2) obtain m c1 where
    b: "check_batches (Unix now - whole_seconds ttl) (Unix now - whole_seconds failedTTL) (batches maxParamsPerStmt domains) Map.empty c = (Inr m, c1)"
    and s: "stale = sort (filter (\<lambda>name. fold (\<lambda>name m. if m name = None then m(name \<mapsto> True) else m) domains m name = Some True) (remdups domains))"
    by (auto simp: NeedsRefresh_def Let_def split: prod.splits sum.splits)
  have cc: "concat (batches maxParamsPerStmt domains) = domains"
    by (rule concat_batches) (simp add: maxParamsPerStmt_def)
  have "fold (\<lambda>name m. if m name = None then m(name \<mapsto> True) else m) domains m n = Some True \<longleftrightarrow>
      stale_at now ttl failedTTL (domain_view (cn_db c) n)" if "n \<in> set domains" for n
    using that check_batches_ok [OF assms(1) b, of n] cc
    by (cases "domain_view (cn_db c) n") (simp_all add: fold_missing stale_at_def domIff)
  then have "{n \<in> set domains. stale_at now ttl failedTTL (domain_view (cn_db c) n)} =
      set (filter (\<lambda>name. fold (\<lambda>name m. if m name = None then m(name \<mapsto> True) else m) domains m name = Some True) (remdups domains))"
    by auto
  moreover have "sort ys = sorted_list_of_set (set ys)" if "distinct ys" for ys :: "string list"
    using that by (simp add: sorted_list_of_set_sort_remdups distinct_remdups_id)
  ultimately show ?thesis unfolding s by simp
qed

section \<open>Snapshots\<close>

definition texts :: "(addr \<Rightarrow> bool) \<Rightarrow> db \<Rightarrow> string \<Rightarrow> bool" where
  "texts P d typ \<longleftrightarrow> (\<forall>r\<in>set (tb_records d). rr_type r = typ \<longrightarrow> (\<exists>a. is_valid a \<and> P a \<and> rr_ip r = addr_string a))"

definition valid_addrs :: "string \<Rightarrow> db \<Rightarrow> addr set" where
  "valid_addrs typ d = {a. is_valid a \<and> (\<exists>name t. record_view d (name, addr_string a, typ) = Some (t, ''valid''))}"

interpretation snap: slice_less as16_before
  by unfold_locales (auto simp: as16_before_def dest: bytes_less_asym bytes_less_neg_trans [rotated 2])

lemma parse_addrs_strings: "\<forall>a\<in>set as. is_valid a \<Longrightarrow> parse_addrs (map addr_string as) = as"
  by (induction as) (auto simp: parse_addrs_def ParseAddr_addr_string)

lemma record_view_valid:
  assumes "cache_wf d"
  shows "(\<exists>name t. record_view d (name, ip, ty) = Some (t, st)) \<longleftrightarrow>
    (\<exists>r\<in>set (tb_records d). rr_ip r = ip \<and> rr_type r = ty \<and> rr_status r = st)"
proof
  assume "\<exists>name t. record_view d (name, ip, ty) = Some (t, st)"
  then show "\<exists>r\<in>set (tb_records d). rr_ip r = ip \<and> rr_type r = ty \<and> rr_status r = st"
    by (force simp: record_view_def rec_map_def rr_key_def split: option.splits dest!: map_of_SomeD)
next
  assume "\<exists>r\<in>set (tb_records d). rr_ip r = ip \<and> rr_type r = ty \<and> rr_status r = st"
  then obtain r where r: "r \<in> set (tb_records d)" "rr_ip r = ip" "rr_type r = ty" "rr_status r = st" by blast
  with assms obtain dr where dr: "dr \<in> set (tb_domains d)" "dr_id dr = rr_domain r"
    by (force simp: cache_wf_def list_all_iff record_row_ok_def)
  have "dom_id d (dr_name dr) = Some (rr_domain r)"
    unfolding dom_id_def using assms dr by (intro map_of_is_SomeI) (auto simp: cache_wf_def comp_def)
  moreover have "rec_map (tb_records d) (rr_key r) = Some (rr_updated r, rr_status r)"
    unfolding rec_map_def using assms r(1) by (intro map_of_is_SomeI) (auto simp: cache_wf_def comp_def)
  ultimately have "record_view d (dr_name dr, ip, ty) = Some (rr_updated r, st)"
    using r by (simp add: record_view_def rr_key_def)
  then show "\<exists>name t. record_view d (name, ip, ty) = Some (t, st)" by blast
qed

lemma snapshotFamily_ok:
  assumes wf: "cache_wf (cn_db c)" and "texts P (cn_db c) ty" and r: "snapshotFamily ty c = (Inr as, c')"
  shows "set as = valid_addrs ty (cn_db c) \<and> distinct as \<and> sorted_wrt (\<lambda>x y. \<not> as16_before y x) as \<and> (\<forall>a\<in>set as. P a) \<and> cn_db c' = cn_db c"
proof -
  let ?ips = "select_valid_ips ty (cn_db c)"
  from r obtain ips where q: "query 1 (select_valid_ips ty) c = (Inr (ips, False), c')"
    and as: "as = sort_slice as16_before (parse_addrs ips)"
    by (auto simp: snapshotFamily_def split: prod.splits sum.splits if_splits)
  have ips: "ips = ?ips" using q by (rule query_full)
  have sips: "set ?ips = {ip. \<exists>r\<in>set (tb_records (cn_db c)). rr_ip r = ip \<and> rr_type r = ty \<and> rr_status r = ''valid''}"
    by (auto simp: select_valid_ips_def)
  have ex: "\<exists>a. is_valid a \<and> P a \<and> ip = addr_string a" if "ip \<in> set ?ips" for ip
    using that assms(2) by (auto simp: sips texts_def)
  define g where "g ip = (SOME a. is_valid a \<and> P a \<and> ip = addr_string a)" for ip
  have g: "is_valid (g ip) \<and> P (g ip) \<and> ip = addr_string (g ip)" if "ip \<in> set ?ips" for ip
    unfolding g_def by (rule someI_ex) (rule ex [OF that])
  have "map addr_string (map g ?ips) = ?ips"
    unfolding map_map by (rule map_idI) (use g in force)
  with parse_addrs_strings [of "map g ?ips"] g have pa: "parse_addrs ?ips = map g ?ips" by simp
  have "inj_on g (set ?ips)" by (rule inj_onI) (metis g)
  then have "distinct (map g ?ips)" by (simp add: distinct_map select_valid_ips_def)
  moreover have "set (map g ?ips) = valid_addrs ty (cn_db c)"
  proof (intro equalityI subsetI)
    fix a assume "a \<in> set (map g ?ips)"
    then obtain ip where ip: "ip \<in> set ?ips" "a = g ip" by auto
    with g [OF ip(1)] have "is_valid a" "addr_string a \<in> set ?ips" by auto
    then show "a \<in> valid_addrs ty (cn_db c)"
      using record_view_valid [OF wf] by (simp add: valid_addrs_def sips)
  next
    fix a assume "a \<in> valid_addrs ty (cn_db c)"
    then have "is_valid a" "addr_string a \<in> set ?ips"
      using record_view_valid [OF wf] by (simp_all add: valid_addrs_def sips)
    moreover from this(2) have "is_valid (g (addr_string a))" "addr_string (g (addr_string a)) = addr_string a"
      using g [of "addr_string a"] by auto
    ultimately have "g (addr_string a) = a" using addr_string_inj by (auto dest: inj_onD)
    with \<open>addr_string a \<in> set ?ips\<close> show "a \<in> set (map g ?ips)" by force
  qed
  moreover have "\<forall>a\<in>set (map g ?ips). P a" using g by auto
  moreover have "cn_db c' = cn_db c" using q by (rule query_db_eq)
  ultimately show ?thesis unfolding as ips pa by (simp add: snap.sorted_sort_slice del: set_map)
qed

section \<open>Migrations\<close>

definition max_version :: "int list \<Rightarrow> int" where
  "max_version vs = (case vs of [] \<Rightarrow> 0 | v # ws \<Rightarrow> foldr max ws v)"

lemma max_version_ge: "v \<in> set vs \<Longrightarrow> v \<le> max_version vs"
proof -
  have "v \<le> foldr max ws w" if "v \<in> set (w # ws)" for w ws
    using that by (induction ws) auto
  then show "v \<in> set vs \<Longrightarrow> v \<le> max_version vs" by (cases vs) (auto simp: max_version_def)
qed

text \<open>The bodies of migrations add to the table of versions and do not remove from it.\<close>

definition keeps_versions :: "'d sql \<Rightarrow> bool" where
  "keeps_versions run_sql \<longleftrightarrow> (\<forall>body d d' vs. run_sql body d = Inr d' \<longrightarrow> v_versions d = Some vs \<longrightarrow>
     (\<exists>vs'. v_versions d' = Some vs' \<and> set vs \<subseteq> set vs'))"

lemma applyMigration_ok:
  assumes "keeps_versions run_sql" and "applyMigration run_sql ver name body c = (Inr (), c')"
    and "v_versions (cn_db c) = Some vs"
  shows "\<exists>vs'. v_versions (cn_db c') = Some vs' \<and> insert ver (set vs) \<subseteq> set vs'"
proof -
  from assms(2) obtain d vs1 where "run_sql body (cn_db c) = Inr d" "insert_version ver d = Inr ((), cn_db c')"
    by (auto simp: applyMigration_def dest!: in_tx_Inr exec_Inr bind_result_InrD split: prod.splits sum.splits)
  moreover from this(1) assms(1,3) obtain vs1 where "v_versions d = Some vs1" "set vs \<subseteq> set vs1"
    unfolding keeps_versions_def by blast
  moreover from calculation(2,3) have "cn_db c' = (if ver \<in> set vs1 then d else d\<lparr> v_versions := Some (vs1 @ [ver]) \<rparr>)"
    by (simp add: insert_version_def)
  ultimately show ?thesis by auto
qed

lemma apply_files_ok:
  assumes "keeps_versions run_sql" and "apply_files run_sql cur files c = (Inr (), c')" and "v_versions (cn_db c) = Some vs"
  shows "\<exists>vs'. v_versions (cn_db c') = Some vs' \<and> set vs \<subseteq> set vs' \<and>
    (\<forall>f\<in>set files. \<forall>ver. parseMigrationVersion (fst f) = Some ver \<longrightarrow> cur < ver \<longrightarrow> ver \<in> set vs') \<and>
    (vs' = vs \<or> (\<exists>v\<in>set vs'. cur < v))"
  using assms(2,3)
proof (induction files arbitrary: c vs)
  case (Cons f files)
  obtain name body where f: "f = (name, body)" by (cases f)
  show ?case
  proof (cases "\<exists>ver. parseMigrationVersion name = Some ver \<and> cur < ver")
    case True
    then obtain ver where ver: "parseMigrationVersion name = Some ver" "cur < ver" by blast
    with Cons.prems(1) f obtain c1 where c1: "applyMigration run_sql ver name body c = (Inr (), c1)"
      and rest: "apply_files run_sql cur files c1 = (Inr (), c')"
      by (auto split: prod.splits sum.splits if_splits)
    from applyMigration_ok [OF assms(1) c1 Cons.prems(2)] obtain vs1 where
      vs1: "v_versions (cn_db c1) = Some vs1" "insert ver (set vs) \<subseteq> set vs1" by blast
    from Cons.IH [OF rest vs1(1)] vs1(2) ver f show ?thesis by fastforce
  next
    case False
    then have rest: "apply_files run_sql cur files c = (Inr (), c')"
      using Cons.prems(1) f by (auto split: option.splits if_splits)
    from Cons.IH [OF rest Cons.prems(2)] False f show ?thesis by auto
  qed
qed simp

lemma apply_files_skip:
  "\<forall>f\<in>set files. \<forall>ver. parseMigrationVersion (fst f) = Some ver \<longrightarrow> ver \<le> cur \<Longrightarrow> apply_files run_sql cur files c = (Inr (), c)"
  by (induction files) (auto split: option.splits)

lemma current_ok: "currentSchemaVersion c = (Inr v, c') \<Longrightarrow> v_versions (cn_db c) = Some vs \<Longrightarrow> v = max_version vs \<and> cn_db c' = cn_db c"
  by (auto simp: currentSchemaVersion_def max_version_def dest!: exec_Inr split: prod.splits)

lemma current_db: "currentSchemaVersion c = (r, c') \<Longrightarrow> cn_db c' = cn_db c"
  by (auto simp: currentSchemaVersion_def exec_def Let_def split: prod.splits option.splits if_splits sum.splits)

lemma create_versions_ok: "exec 0 create_versions c = (Inr (), c') \<Longrightarrow>
    cn_db c' = (if v_versions (cn_db c) = None then (cn_db c)\<lparr> v_versions := Some [] \<rparr> else cn_db c)"
  by (auto simp: create_versions_def dest!: exec_Inr)

lemma migrate_again:
  assumes keep: "keeps_versions run_sql" and m: "migrate run_sql entries c = (Inr (), c')"
    and same: "cn_db c2 = cn_db c'" and again: "migrate run_sql entries c2 = (r, c3)"
  shows "cn_db c3 = cn_db c'"
proof -
  from m obtain c1 cb cur where cr: "exec 0 create_versions c = (Inr (), c1)"
    and cur: "currentSchemaVersion c1 = (Inr cur, cb)"
    and fs: "apply_files run_sql cur (migration_files entries) cb = (Inr (), c')"
    by (auto simp: migrate_def split: prod.splits sum.splits)
  from create_versions_ok [OF cr] obtain vs where vs: "v_versions (cn_db c1) = Some vs"
    by (cases "v_versions (cn_db c)") auto
  note cur' = current_ok [OF cur vs]
  from cur' vs have vsb: "v_versions (cn_db cb) = Some vs" by simp
  from apply_files_ok [OF keep fs vsb] obtain vs' where
    vs': "v_versions (cn_db c') = Some vs'" "set vs \<subseteq> set vs'"
    and applied: "\<And>f ver. f \<in> set (migration_files entries) \<Longrightarrow> parseMigrationVersion (fst f) = Some ver \<Longrightarrow> cur < ver \<Longrightarrow> ver \<in> set vs'"
    and grow: "vs' = vs \<or> (\<exists>v\<in>set vs'. cur < v)" by metis
  have le: "cur \<le> max_version vs'"
    using grow cur' max_version_ge [of _ vs'] by fastforce
  have skip: "\<forall>f\<in>set (migration_files entries). \<forall>ver. parseMigrationVersion (fst f) = Some ver \<longrightarrow> ver \<le> max_version vs'"
    using applied le max_version_ge by (meson le_less_linear order.trans)
  obtain r1 d1 where e1: "exec 0 create_versions c2 = (r1, d1)" by (cases "exec 0 create_versions c2")
  have d1: "cn_db d1 = cn_db c'"
    using e1 create_versions_ok [of c2 d1] exec_Inl [of 0 create_versions c2 _ d1] same vs' by (cases r1) auto
  obtain r2 d2 where e2: "currentSchemaVersion d1 = (r2, d2)" by (cases "currentSchemaVersion d1")
  have d2: "cn_db d2 = cn_db c'" using current_db [OF e2] d1 by simp
  show ?thesis
  proof (cases "\<exists>u v. r1 = Inr u \<and> r2 = Inr v")
    case True
    then obtain u v where uv: "r1 = Inr u" "r2 = Inr v" by blast
    with e2 d1 vs'(1) current_ok [of d1 v d2 vs'] have "v = max_version vs'" by simp
    with again e1 e2 uv apply_files_skip [OF skip, of run_sql d2] have "c3 = d2" by (simp add: migrate_def)
    with d2 show ?thesis by simp
  next
    case False
    with again e1 e2 d1 d2 show ?thesis by (auto simp: migrate_def split: sum.splits)
  qed
qed

section \<open>The key-value store\<close>

text \<open>
  What the configuration loader is promised of a store (\<open>config.KVStore\<close>): a finite map,
  changed by \<open>Set\<close> and \<open>Delete\<close> when they succeed, kept when they fail, and read by \<open>GetAll\<close>.
\<close>

datatype kv_op = KvSet string string | KvDel string

fun kv_apply :: "kv_op \<Rightarrow> (string \<rightharpoonup> string) \<Rightarrow> string \<rightharpoonup> string" where
  "kv_apply (KvSet k v) m = m(k \<mapsto> v)"
| "kv_apply (KvDel k) m = m(k := None)"

locale kv_store =
  fixes inv :: "'s \<Rightarrow> bool" and view :: "'s \<Rightarrow> string \<rightharpoonup> string"
    and get_all :: "'s \<Rightarrow> (string \<rightharpoonup> string) result \<times> 's"
    and run_op :: "kv_op \<Rightarrow> 's \<Rightarrow> unit result \<times> 's"
  assumes op_ok: "inv s \<Longrightarrow> run_op p s = (Inr (), s') \<Longrightarrow> inv s' \<and> view s' = kv_apply p (view s)"
    and op_failed: "inv s \<Longrightarrow> run_op p s = (Inl e, s') \<Longrightarrow> inv s' \<and> view s' = view s"
    and get_ok: "inv s \<Longrightarrow> get_all s = (Inr m, s') \<Longrightarrow> m = view s"
begin

text \<open>The successful operations of a run, in order.\<close>

fun run_ops :: "kv_op list \<Rightarrow> 's \<Rightarrow> kv_op list \<times> 's" where
  "run_ops [] s = ([], s)"
| "run_ops (p # ps) s = (case run_op p s of
     (Inl e, s1) \<Rightarrow> run_ops ps s1
   | (Inr u, s1) \<Rightarrow> (case run_ops ps s1 of (qs, s2) \<Rightarrow> (p # qs, s2)))"

lemma run_ops_view: "inv s \<Longrightarrow> run_ops ps s = (qs, s') \<Longrightarrow> inv s' \<and> view s' = fold kv_apply qs (view s)"
proof (induction ps arbitrary: s qs)
  case (Cons p ps)
  show ?case
  proof (cases "run_op p s")
    case (Pair r s1)
    show ?thesis
    proof (cases r)
      case (Inl e)
      with Cons Pair op_failed [of s p e s1] show ?thesis by auto
    next
      case (Inr u)
      with Cons.prems Pair obtain qs1 where q: "run_ops ps s1 = (qs1, s')" "qs = p # qs1"
        by (auto split: prod.splits)
      from op_ok [of s p s1] Cons.prems Pair Inr have s1: "inv s1" "view s1 = kv_apply p (view s)" by simp_all
      from Cons.IH [OF s1(1) q(1)] q(2) s1(2) show ?thesis by simp
    qed
  qed
qed simp

lemma read_back: "inv s \<Longrightarrow> run_ops ps s = (qs, s') \<Longrightarrow> get_all s' = (Inr m, s'') \<Longrightarrow> m = fold kv_apply qs (view s)"
  using run_ops_view get_ok by fastforce

end

fun kv_run :: "kv_op \<Rightarrow> db conn \<Rightarrow> unit result \<times> db conn" where
  "kv_run (KvSet k v) c = kv_Set k v c"
| "kv_run (KvDel k) c = kv_Delete k c"

definition kv_view :: "db conn \<Rightarrow> string \<rightharpoonup> string" where
  "kv_view c = map_of (tb_kv (cn_db c))"

lemma fold_kv: "distinct (map fst xs) \<Longrightarrow> fold (\<lambda>(k, v) m. m(k \<mapsto> v)) xs m = m ++ map_of xs"
proof (induction xs arbitrary: m)
  case (Cons x xs)
  obtain k v where x: "x = (k, v)" by (cases x)
  have "m(k \<mapsto> v) ++ map_of xs = m ++ (map_of xs)(k \<mapsto> v)"
  proof (rule ext)
    fix y
    have "map_of xs k = None" using Cons.prems by (simp add: x map_of_eq_None_iff)
    then show "(m(k \<mapsto> v) ++ map_of xs) y = (m ++ (map_of xs)(k \<mapsto> v)) y"
      by (cases "y = k") (auto simp: map_add_def split: option.splits)
  qed
  with Cons x show ?case by (simp del: fun_upd_apply)
qed simp

lemma map_of_set_kv: "map_of (map (\<lambda>(k', v'). (k', if k' = k then v else v')) xs) x =
    (if x = k \<and> k \<in> fst ` set xs then Some v else map_of xs x)"
proof (induction xs)
  case (Cons y ys)
  then show ?case by (cases y; cases "k \<in> fst ` set ys") auto
qed simp

lemma upsert_kv_ok:
  assumes "upsert_kv k v d = Inr ((), d')"
  shows "tb_domains d' = tb_domains d \<and> tb_records d' = tb_records d \<and> (distinct (map fst (tb_kv d)) \<longrightarrow> distinct (map fst (tb_kv d'))) \<and>
    map_of (tb_kv d') = (map_of (tb_kv d))(k \<mapsto> v)"
proof (cases "k \<in> fst ` set (tb_kv d)")
  case True
  let ?f = "\<lambda>(k', v'). (k', if k' = k then v else v')"
  have "map fst (map ?f xs) = map fst xs" for xs :: "(string \<times> string) list"
    by (induction xs) auto
  moreover have "d' = d\<lparr> tb_kv := map ?f (tb_kv d) \<rparr>" using assms True by (simp add: upsert_kv_def)
  ultimately show ?thesis using True by (auto simp: fun_eq_iff map_of_set_kv simp del: map_map)
next
  case False
  then have "d' = d\<lparr> tb_kv := tb_kv d @ [(k, v)] \<rparr>" using assms by (simp add: upsert_kv_def)
  then show ?thesis
    using False add_single [of k "map_of (tb_kv d)" v] by (simp add: dom_map_of_conv_image_fst)
qed

lemma delete_kv_ok:
  assumes "delete_kv k d = Inr ((), d')"
  shows "tb_domains d' = tb_domains d \<and> tb_records d' = tb_records d \<and> (distinct (map fst (tb_kv d)) \<longrightarrow> distinct (map fst (tb_kv d'))) \<and>
    map_of (tb_kv d') = (map_of (tb_kv d))(k := None)"
proof -
  have "map_of (filter (\<lambda>(k', v). k' \<noteq> k) xs) = (map_of xs)(k := None)" for xs :: "(string \<times> string) list"
    by (induction xs) auto
  then show ?thesis using assms by (auto simp: delete_kv_def distinct_map_filter)
qed

lemma record_row_ok_cong: "tb_domains d = tb_domains d' \<Longrightarrow> record_row_ok d = record_row_ok d'"
  by (simp add: record_row_ok_def fun_eq_iff)

lemma kv_keeps_wf:
  assumes "cache_wf d" "tb_domains d' = tb_domains d" "tb_records d' = tb_records d" "distinct (map fst (tb_kv d'))"
  shows "cache_wf d'"
  using assms record_row_ok_cong [of d' d] by (simp add: cache_wf_def)

lemma kv_run_ok:
  assumes "cache_wf (cn_db c)" and "kv_run p c = (Inr (), c')"
  shows "cache_wf (cn_db c') \<and> kv_view c' = kv_apply p (kv_view c)"
proof (cases p)
  case (KvSet k v)
  with assms have "upsert_kv k v (cn_db c) = Inr ((), cn_db c')" by (auto simp: kv_Set_def dest!: exec_Inr split: prod.splits)
  from upsert_kv_ok [OF this] assms(1) KvSet show ?thesis
    using kv_keeps_wf [OF assms(1), of "cn_db c'"] by (simp add: kv_view_def cache_wf_def)
next
  case (KvDel k)
  with assms have "delete_kv k (cn_db c) = Inr ((), cn_db c')" by (auto simp: kv_Delete_def dest!: exec_Inr split: prod.splits)
  from delete_kv_ok [OF this] assms(1) KvDel show ?thesis
    using kv_keeps_wf [OF assms(1), of "cn_db c'"] by (simp add: kv_view_def cache_wf_def)
qed

lemma wrap_err_InlD: "wrap_err msg r = Inl e \<Longrightarrow> \<exists>e'. r = Inl e'"
  by (cases r) auto

lemma kv_run_failed: "kv_run p c = (Inl e, c') \<Longrightarrow> cn_db c' = cn_db c"
  by (cases p) (auto simp: kv_Set_def kv_Delete_def dest!: wrap_err_InlD exec_Inl split: prod.splits)

lemma GetAll_ok: "cache_wf (cn_db c) \<Longrightarrow> GetAll c = (Inr m, c') \<Longrightarrow> m = kv_view c"
  by (auto simp: GetAll_def kv_view_def cache_wf_def fold_kv dest!: query_full split: prod.splits sum.splits if_splits)

interpretation kv: kv_store "\<lambda>c. cache_wf (cn_db c)" kv_view GetAll kv_run
proof unfold_locales
  show "cache_wf (cn_db c) \<Longrightarrow> kv_run p c = (Inl e, c') \<Longrightarrow> cache_wf (cn_db c') \<and> kv_view c' = kv_view c" for c p e c'
    by (simp add: kv_run_failed kv_view_def)
qed (auto dest: kv_run_ok GetAll_ok)

section \<open>Success\<close>

text \<open>A connection on which no call fails, with room for the largest statement.\<close>

definition healthy :: "'d conn \<Rightarrow> bool" where
  "healthy c \<longleftrightarrow> (\<forall>k. \<not> cn_fault c k) \<and> (\<forall>k. cn_cut c k = None) \<and> 5 * maxRowsPerTx \<le> cn_max_vars c"

lemma exec_healthy:
  "healthy c \<Longrightarrow> n \<le> 5 * maxRowsPerTx \<Longrightarrow> f (cn_db c) = Inr (x, d) \<Longrightarrow>
     \<exists>c'. exec n f c = (Inr x, c') \<and> healthy c' \<and> cn_db c' = d"
  by (auto simp: exec_def healthy_def Let_def)

lemma query_healthy:
  assumes "healthy c" and "n \<le> 5 * maxRowsPerTx"
  shows "\<exists>c'. query n sel c = (Inr (sel (cn_db c), False), c') \<and> healthy c' \<and> cn_db c' = cn_db c"
proof -
  obtain c' where "exec n (\<lambda>d. Inr (sel d, d)) c = (Inr (sel (cn_db c)), c')" "healthy c'" "cn_db c' = cn_db c"
    using exec_healthy [OF assms, of "\<lambda>d. Inr (sel d, d)"] by auto
  then show ?thesis using assms(1) by (simp add: query_def healthy_def)
qed

lemma begin_or_commit_healthy: "healthy c \<Longrightarrow> \<exists>c'. begin_or_commit c = (Inr (), c') \<and> healthy c' \<and> cn_db c' = cn_db c"
  unfolding begin_or_commit_def by (rule exec_healthy) simp_all

lemma in_tx_healthy:
  assumes "healthy c"
    and "\<And>c1. healthy c1 \<Longrightarrow> cn_db c1 = cn_db c \<Longrightarrow> \<exists>x c2. body c1 = (Inr x, c2) \<and> healthy c2 \<and> Q x (cn_db c2)"
  shows "\<exists>x c'. in_tx b m body c = (Inr x, c') \<and> healthy c' \<and> Q x (cn_db c')"
proof -
  obtain c1 where c1: "begin_or_commit c = (Inr (), c1)" "healthy c1" "cn_db c1 = cn_db c"
    using begin_or_commit_healthy [OF assms(1)] by blast
  then obtain x c2 where c2: "body c1 = (Inr x, c2)" "healthy c2" "Q x (cn_db c2)"
    using assms(2) by blast
  obtain c3 where "begin_or_commit c2 = (Inr (), c3)" "healthy c3" "cn_db c3 = cn_db c2"
    using begin_or_commit_healthy [OF c2(2)] by blast
  with c1 c2 show ?thesis by (simp add: in_tx_def)
qed

lemma for_each_healthy:
  assumes "\<And>x c. x \<in> set xs \<Longrightarrow> healthy c \<Longrightarrow> I (cn_db c) \<Longrightarrow> \<exists>c'. f x c = (Inr (), c') \<and> healthy c' \<and> I (cn_db c')"
    and "healthy c" and "I (cn_db c)"
  shows "\<exists>c'. for_each f xs c = (Inr (), c') \<and> healthy c' \<and> I (cn_db c')"
  using assms
proof (induction xs arbitrary: c)
  case (Cons x xs)
  from Cons.prems(1) [of x c] Cons.prems(2,3) obtain c1 where c1: "f x c = (Inr (), c1)" "healthy c1" "I (cn_db c1)" by auto
  from Cons.IH [OF Cons.prems(1) c1(2,3)] c1(1) show ?case by simp
qed auto

lemma length_batch: "b \<in> set (batches n xs) \<Longrightarrow> length b \<le> n"
proof (induction n xs rule: batches.induct)
  case (1 n xs)
  show ?case
  proof (cases "n = 0 \<or> xs = []")
    case True
    with "1.prems" show ?thesis by (auto simp: batches.simps [of n])
  next
    case False
    with "1.prems" have "b = take n xs \<or> b \<in> set (batches n (drop n xs))"
      by (simp add: batches.simps [of n xs])
    with "1.IH" [OF False] show ?thesis by auto
  qed
qed

lemma select_batches_healthy:
  "healthy c \<Longrightarrow> \<forall>b\<in>set bs. length b \<le> 5 * maxRowsPerTx \<Longrightarrow> \<exists>im c'. select_batches bs m c = (Inr im, c') \<and> healthy c' \<and> cn_db c' = cn_db c"
proof (induction bs arbitrary: m c)
  case (Cons b bs)
  obtain c1 where c1: "query (length b) (select_ids b) c = (Inr (select_ids b (cn_db c), False), c1)" "healthy c1" "cn_db c1 = cn_db c"
    using query_healthy [of c "length b" "select_ids b"] Cons.prems by auto
  from Cons.IH [OF c1(2)] Cons.prems(2) c1 show ?case by auto
qed auto

lemma ensure_healthy:
  assumes "healthy c" and "\<forall>ds\<in>set sts. ds_resolveStatus ds \<in> set resolve_statuses"
  shows "\<exists>im c'. ensureAllDomainsWithStatus names sts c = (Inr im, c') \<and> healthy c'"
proof (cases "names = []")
  case True
  with assms(1) show ?thesis by (auto simp: ensureAllDomainsWithStatus_def)
next
  case False
  let ?bs = "batches maxParamsPerStmt names"
  have small: "length b \<le> 5 * maxRowsPerTx" if "b \<in> set ?bs" for b
    using length_batch [OF that] by (simp add: maxParamsPerStmt_def maxRowsPerTx_def)
  let ?body = "\<lambda>c1. case for_each insert_batch ?bs c1 of
        (Inl e, c2) \<Rightarrow> (Inl e, c2)
      | (Inr _, c2) \<Rightarrow> (case for_each update_status sts c2 of
             (Inl e, c3) \<Rightarrow> (Inl e, c3)
           | (Inr _, c3) \<Rightarrow> select_batches ?bs Map.empty c3)"
  have "\<exists>im c2. ?body c1 = (Inr im, c2) \<and> healthy c2 \<and> True" if h: "healthy c1" for c1
  proof -
    have "\<exists>c2. for_each insert_batch ?bs c1 = (Inr (), c2) \<and> healthy c2 \<and> True"
    proof (rule for_each_healthy [OF _ h])
      fix b and c :: "db conn" assume b: "b \<in> set ?bs" and "healthy c"
      from exec_healthy [OF this(2) small [OF b], of "insert_domains b"] show "\<exists>c'. insert_batch b c = (Inr (), c') \<and> healthy c' \<and> True"
        by (auto simp: insert_batch_def insert_domains_def)
    qed simp
    then obtain c2 where c2: "for_each insert_batch ?bs c1 = (Inr (), c2)" "healthy c2" by blast
    have "\<exists>c3. for_each update_status sts c2 = (Inr (), c3) \<and> healthy c3 \<and> True"
    proof (rule for_each_healthy [OF _ c2(2)])
      fix ds and c :: "db conn" assume "ds \<in> set sts" and h: "healthy c"
      with assms(2) exec_healthy [OF h, of 3 "update_domain (ds_name ds) (ds_resolveStatus ds) (ds_lastResolvedAt ds)"]
      show "\<exists>c'. update_status ds c = (Inr (), c') \<and> healthy c' \<and> True"
        by (auto simp: update_status_def update_domain_def maxRowsPerTx_def)
    qed simp
    then obtain c3 where c3: "for_each update_status sts c2 = (Inr (), c3)" "healthy c3" by blast
    obtain im c4 where "select_batches ?bs Map.empty c3 = (Inr im, c4)" "healthy c4"
      using select_batches_healthy [OF c3(2), of ?bs] small by blast
    with c2 c3 show ?thesis by simp
  qed
  from in_tx_healthy [where body = ?body and Q = "\<lambda>_ _. True", OF assms(1) this] False
  show ?thesis by (simp add: ensureAllDomainsWithStatus_def)
qed

lemma build_args_total: "row_domain ` set rows \<subseteq> dom m \<Longrightarrow> build_args m rows = Inr (map (row_args m) rows)"
  by (induction rows) (auto simp: row_args_def)

lemma upsert_rows_healthy:
  assumes h: "healthy c" and len: "length b \<le> maxRowsPerTx" and dom: "row_domain ` set b \<subseteq> dom (dom_id (cn_db c))"
    and im: "\<forall>r\<in>set b. im (row_domain r) = dom_id (cn_db c) (row_domain r)"
    and wf: "\<forall>r\<in>set b. row_typ r \<in> {''A'', ''AAAA''} \<and> row_status r \<in> {''valid'', ''failed''}"
  shows "\<exists>c'. upsert_rows im b c = (Inr (), c') \<and> healthy c' \<and> tb_domains (cn_db c') = tb_domains (cn_db c)"
proof -
  have "row_domain ` set b \<subseteq> dom im" using dom im by (auto simp: subset_iff dom_def)
  note args = build_args_total [OF this]
  have "args_ok (cn_db c) (row_args im r)" if r: "r \<in> set b" for r
  proof -
    from r dom obtain i where i: "dom_id (cn_db c) (row_domain r) = Some i" by auto
    then have "i \<in> dr_id ` set (tb_domains (cn_db c))" by (force simp: dom_id_def dest!: map_of_SomeD)
    with i im wf r show ?thesis by (simp add: row_args_def)
  qed
  then have ok: "upsert_records (map (row_args im) b) (cn_db c) = Inr ((), put_rows im b (cn_db c))"
    by (simp add: upsert_records_def put_rows_def list_all_iff)
  let ?body = "\<lambda>c. case build_args im b of Inl e \<Rightarrow> (Inl e, c)
      | Inr as \<Rightarrow> (case exec (5 * length b) (upsert_records as) c of (r, c1) \<Rightarrow> (wrap_err ''upsert records'' r, c1))"
  have "\<exists>x c2. ?body c1 = (Inr x, c2) \<and> healthy c2 \<and> tb_domains (cn_db c2) = tb_domains (cn_db c)"
    if c1: "healthy c1" "cn_db c1 = cn_db c" for c1
    using exec_healthy [OF c1(1), of "5 * length b" "upsert_records (map (row_args im) b)"] len ok c1(2) args by auto
  from in_tx_healthy [where body = ?body and Q = "\<lambda>_ d. tb_domains d = tb_domains (cn_db c)", OF h this]
  show ?thesis by (simp add: upsert_rows_def)
qed

lemma upsert_healthy:
  assumes "cache_wf (cn_db c)" and "healthy c"
  shows "\<exists>c'. UpsertBatch results c = (Inr (), c') \<and> healthy c'"
proof (cases "results = []")
  case True
  with assms show ?thesis by (simp add: UpsertBatch_def)
next
  case False
  let ?rows = "expandResultsWithDomain results" and ?bs = "batches maxRowsPerTx (expandResultsWithDomain results)"
  obtain im c1 where e: "ensureAllDomainsWithStatus (keep_first id (map ds_name (buildDomainStatuses results))) (buildDomainStatuses results) c = (Inr im, c1)"
    and h: "healthy c1"
    using ensure_healthy [OF assms(2), of "buildDomainStatuses results"] built_statuses by blast
  note d1 = ensure_ok [OF assms(1) False e]
  have "concat ?bs = ?rows" by (rule concat_batches) (simp add: maxRowsPerTx_def)
  then have sub: "set b \<subseteq> set ?rows" if "b \<in> set ?bs" for b using that by (metis UN_upper set_concat)
  have "\<exists>c2. for_each (upsert_rows im) ?bs c1 = (Inr (), c2) \<and> healthy c2 \<and> tb_domains (cn_db c2) = tb_domains (cn_db c1)"
  proof (rule for_each_healthy [OF _ h])
    fix b and c' :: "db conn"
    assume b: "b \<in> set ?bs" and h': "healthy c'" and tb: "tb_domains (cn_db c') = tb_domains (cn_db c1)"
    have ids: "dom_id (cn_db c') = dom_id (cn_db c1)" by (rule dom_id_eq [OF tb])
    have dom: "row_domain r \<in> cr_Domain ` set results" if "r \<in> set b" for r
      using that sub [OF b] rows_of_results [of results] by auto
    have "\<exists>c''. upsert_rows im b c' = (Inr (), c'') \<and> healthy c'' \<and> tb_domains (cn_db c'') = tb_domains (cn_db c')"
    proof (rule upsert_rows_healthy [OF h' length_batch [OF b]])
      show "row_domain ` set b \<subseteq> dom (dom_id (cn_db c'))"
        using dom d1 by (auto simp: ids dom_dom_id dom_write_domains)
      show "\<forall>r\<in>set b. im (row_domain r) = dom_id (cn_db c') (row_domain r)"
        unfolding ids using dom d1 by blast
      show "\<forall>r\<in>set b. row_typ r \<in> {''A'', ''AAAA''} \<and> row_status r \<in> {''valid'', ''failed''}" using sub [OF b] rows_wf by blast
    qed
    with tb show "\<exists>c''. upsert_rows im b c' = (Inr (), c'') \<and> healthy c'' \<and> tb_domains (cn_db c'') = tb_domains (cn_db c1)" by simp
  qed simp
  with e False show ?thesis by (auto simp: UpsertBatch_def Let_def)
qed

lemma check_batches_healthy:
  "healthy c \<Longrightarrow> \<forall>b\<in>set bs. length b \<le> 5 * maxRowsPerTx \<Longrightarrow> 
     \<exists>m' c'. check_batches vt ft bs m c = (Inr m', c') \<and> healthy c' \<and> cn_db c' = cn_db c"
proof (induction bs arbitrary: m c)
  case (Cons b bs)
  obtain c1 where c1: "query (length b) (select_domains b) c = (Inr (select_domains b (cn_db c), False), c1)" "healthy c1"
    and db: "cn_db c1 = cn_db c"
    using query_healthy [of c "length b" "select_domains b"] Cons.prems by auto
  from Cons.IH [OF c1(2)] Cons.prems(2) c1 db show ?case by (simp add: checkStaleBatch_def)
qed auto

lemma needs_refresh_healthy:
  assumes "healthy c"
  shows "\<exists>stale c'. NeedsRefresh now domains ttl failedTTL c = (Inr stale, c') \<and> healthy c' \<and> cn_db c' = cn_db c"
proof -
  have "length b \<le> 5 * maxRowsPerTx" if "b \<in> set (batches maxParamsPerStmt domains)" for b
    using length_batch [OF that] by (simp add: maxParamsPerStmt_def maxRowsPerTx_def)
  then obtain m c1 where "check_batches (Unix now - whole_seconds ttl) (Unix now - whole_seconds failedTTL)
      (batches maxParamsPerStmt domains) Map.empty c = (Inr m, c1)" "healthy c1" "cn_db c1 = cn_db c"
    using check_batches_healthy [OF assms] by blast
  then show ?thesis using assms by (cases "domains = []") (simp_all add: NeedsRefresh_def Let_def)
qed

section \<open>Properties\<close>

text \<open>
  C5: a successful \<open>UpsertBatch\<close> writes exactly its batch: every domain of the batch gets the
  status and time of its last result, every address of the batch gets the row of its last
  occurrence, everything else keeps its value, and the constraints of the schema hold.
\<close>

theorem upsert_writes_batch:
  assumes "cache_wf (cn_db c)" and "UpsertBatch results c = (Inr (), c')"
  shows "cache_wf (cn_db c') \<and> domain_view (cn_db c') = fold put_domain results (domain_view (cn_db c)) \<and>
    record_view (cn_db c') = fold put_row (expandResultsWithDomain results) (record_view (cn_db c))"
proof (cases "results = []")
  case True
  with assms show ?thesis by (simp add: UpsertBatch_def expandResultsWithDomain_def)
next
  case False
  from upsert_ok [OF assms(1) False assms(2)] show ?thesis
    using write_results_views [OF assms(1)] wf_write_results [OF assms(1)] by simp
qed

text \<open>
  C28: a failed \<open>UpsertBatch\<close> has written nothing, or all domain statuses and the rows of a whole
  number of full transactions, in order; the constraints of the schema hold either way.
\<close>

theorem upsert_failure_prefix:
  assumes "cache_wf (cn_db c)" and "UpsertBatch results c = (Inl e, c')"
  shows "cache_wf (cn_db c') \<and>
    (cn_db c' = cn_db c \<or>
     domain_view (cn_db c') = fold put_domain results (domain_view (cn_db c)) \<and>
     (\<exists>k. record_view (cn_db c') =
        fold put_row (take (k * maxRowsPerTx) (expandResultsWithDomain results)) (record_view (cn_db c))))"
proof -
  let ?d1 = "write_domains results (cn_db c)" and ?rows = "expandResultsWithDomain results"
  have wf: "cache_wf ?d1" by (rule wf_write_domains [OF assms(1)])
  have views: "domain_view (write_rows (take n ?rows) ?d1) = fold put_domain results (domain_view (cn_db c)) \<and>
      record_view (write_rows (take n ?rows) ?d1) = fold put_row (take n ?rows) (record_view (cn_db c))" for n
  proof
    show "domain_view (write_rows (take n ?rows) ?d1) = fold put_domain results (domain_view (cn_db c))"
      by (simp add: domain_view_def write_rows_def) (simp add: domain_view_def [symmetric] domain_view_write_domains)
    have "row_domain ` set (take n ?rows) \<subseteq> dom (dom_id ?d1)"
      using rows_of_results [of results] set_take_subset [of n ?rows] by (auto simp: dom_dom_id dom_write_domains)
    then show "record_view (write_rows (take n ?rows) ?d1) = fold put_row (take n ?rows) (record_view (cn_db c))"
      using record_view_put [of ?d1, OF dom_id_inj [OF wf]] record_view_write_domains [OF assms(1), of results]
      by (simp add: write_rows_def)
  qed
  from upsert_failed [OF assms] show ?thesis
  proof (elim disjE exE)
    assume "cn_db c' = cn_db c"
    then show ?thesis using assms(1) by simp
  next
    fix k
    assume d: "cn_db c' = write_rows (take (k * maxRowsPerTx) ?rows) ?d1"
    show ?thesis unfolding d using views [of "k * maxRowsPerTx"] wf_write_prefix [OF assms(1)] by blast
  qed
qed

text \<open>
  writing the same batch a second time leaves every table exactly as it was: no row is added,
  no row changes.
\<close>

theorem upsert_idempotent:
  assumes "cache_wf (cn_db c)" and "UpsertBatch results c = (Inr (), c1)"
    and "cn_db c2 = cn_db c1" and "UpsertBatch results c2 = (Inr (), c3)"
  shows "cn_db c3 = cn_db c1"
proof (cases "results = []")
  case True
  with assms show ?thesis by (simp add: UpsertBatch_def)
next
  case False
  note w1 = upsert_ok [OF assms(1) False assms(2)]
  have "cache_wf (cn_db c2)" using w1 assms(3) wf_write_results [OF assms(1)] by simp
  from upsert_ok [OF this False assms(4)] w1 assms(3) write_results_twice [OF assms(1)] show ?thesis by simp
qed

text \<open>
  \<open>Snapshot\<close> returns the valid addresses: when the rows of type A hold IPv4 texts and those of
  type AAAA hold IPv6 texts, each list has exactly the addresses with a valid row, without
  duplicates, in byte order.
\<close>

theorem snapshot_valid:
  assumes "cache_wf (cn_db c)" and "texts is4 (cn_db c) ''A''" and "texts is6 (cn_db c) ''AAAA''"
    and "Snapshot c = (Inr (v4, v6), c')"
  shows "set v4 = valid_addrs ''A'' (cn_db c) \<and> set v6 = valid_addrs ''AAAA'' (cn_db c) \<and> distinct v4 \<and> distinct v6 \<and>
    list_all is4 v4 \<and> list_all is6 v6 \<and> sorted_wrt (\<lambda>x y. \<not> as16_before y x) v4 \<and> sorted_wrt (\<lambda>x y. \<not> as16_before y x) v6"
proof -
  from assms(4) obtain c1 where s4: "snapshotFamily ''A'' c = (Inr v4, c1)" and s6: "snapshotFamily ''AAAA'' c1 = (Inr v6, c')"
    by (auto simp: Snapshot_def split: prod.splits sum.splits)
  note f4 = snapshotFamily_ok [OF assms(1,2) s4]
  then have db: "cn_db c1 = cn_db c" by simp
  note f6 = snapshotFamily_ok [OF assms(1,3) [folded db] s6]
  from f4 f6 db show ?thesis by (simp add: list_all_iff)
qed



text \<open>
  the settings read back after any sequence of \<open>Set\<close> and \<open>Delete\<close> calls are those the
  successful calls of the sequence leave.
\<close>

theorem kv_read_back:
  assumes "cache_wf (cn_db c)" and "kv.run_ops ops c = (done_ops, c')" and "GetAll c' = (Inr m, c'')"
  shows "m = fold kv_apply done_ops (kv_view c)"
  by (rule kv.read_back [OF assms])

text \<open>
  \<open>UpsertBatch\<close> succeeds on every batch when no call of the database fails and statements may
  have as many parameters as a full transaction of rows needs (5000).
\<close>

theorem upsert_succeeds:
  assumes "cache_wf (cn_db c)" and "healthy c"
  shows "\<exists>c'. UpsertBatch results c = (Inr (), c')"
  using upsert_healthy [OF assms] by blast

section \<open>Witnesses\<close>

definition ex_conn :: "(nat \<Rightarrow> bool) \<Rightarrow> 'd \<Rightarrow> 'd conn" where
  "ex_conn fault d = \<lparr> cn_db = d, cn_calls = 0, cn_fault = fault, cn_cut = (\<lambda>_. None), cn_max_vars = 32766 \<rparr>"

definition no_fault :: "nat \<Rightarrow> bool" where "no_fault k = False"

definition ex_db :: db where
  "ex_db = \<lparr> tb_domains = [\<lparr> dr_id = 1, dr_name = ''a.com'', dr_status = ''valid'', dr_last = 100 \<rparr>,
                          \<lparr> dr_id = 2, dr_name = ''b.com'', dr_status = ''nxdomain'', dr_last = 90 \<rparr>],
     tb_records = [\<lparr> rr_id = 1, rr_domain = 1, rr_ip = ''1.2.3.4'', rr_type = ''A'', rr_updated = 100, rr_status = ''valid'' \<rparr>,
                   \<lparr> rr_id = 2, rr_domain = 1, rr_ip = ''::1'', rr_type = ''AAAA'', rr_updated = 100, rr_status = ''valid'' \<rparr>],
     tb_kv = [(''k'', ''v'')] \<rparr>"

definition ex_results :: "cache_result list" where
  "ex_results =
     [\<lparr> cr_Domain = ''a.com'', cr_IPv4 = [Addr4 0x01020304, Addr4 0x01020303], cr_IPv6 = [Addr6 1],
        cr_Status = CStatusValid, cr_ResolvedAt = 200 * Second \<rparr>,
      \<lparr> cr_Domain = ''c.com'', cr_IPv4 = [], cr_IPv6 = [], cr_Status = CStatusFailed, cr_ResolvedAt = 190 * Second \<rparr>]"

lemma ex_wf: "cache_wf ex_db"
  by (simp add: cache_wf_def ex_db_def domain_row_ok_def resolve_statuses_def record_row_ok_def rr_key_def)

lemma ex_healthy: "healthy (ex_conn no_fault d)"
  by (simp add: healthy_def ex_conn_def no_fault_def maxRowsPerTx_def)

lemma ex_conn_db [simp]: "cn_db (ex_conn f d) = d"
  by (simp add: ex_conn_def)

lemma ex_upsert:
  obtains c' where "UpsertBatch ex_results (ex_conn no_fault ex_db) = (Inr (), c')" "healthy c'"
  using upsert_healthy [of "ex_conn no_fault ex_db" ex_results] by (auto simp: ex_wf ex_healthy)

theorem upsert_succeeds_witness: "\<exists>c'. UpsertBatch ex_results (ex_conn no_fault ex_db) = (Inr (), c')"
  by (rule upsert_succeeds) (simp_all add: ex_wf ex_healthy)

theorem upsert_writes_batch_witness:
  "\<exists>c'. UpsertBatch ex_results (ex_conn no_fault ex_db) = (Inr (), c') \<and>
     domain_view (cn_db c') = fold put_domain ex_results (domain_view ex_db)"
proof -
  obtain c' where c': "UpsertBatch ex_results (ex_conn no_fault ex_db) = (Inr (), c')"
    using ex_upsert by blast
  with upsert_writes_batch [OF _ c'] ex_wf show ?thesis by simp
qed

text \<open>The connection breaks at the beginning of the transaction of the rows.\<close>

theorem upsert_failure_prefix_witness:
  "\<exists>e c'. UpsertBatch ex_results (ex_conn (\<lambda>k. k = 0) ex_db) = (Inl e, c') \<and> cache_wf (cn_db c')"
proof -
  have "fst (UpsertBatch ex_results (ex_conn (\<lambda>k. k = 0) ex_db)) = Inl ''ensure domains: begin tx for domains: database error''"
    by (simp add: UpsertBatch_def ex_results_def buildDomainStatuses_def keep_first_def ensureAllDomainsWithStatus_def
        in_tx_def begin_or_commit_def exec_def ex_conn_def)
  then obtain e c' where r: "UpsertBatch ex_results (ex_conn (\<lambda>k. k = 0) ex_db) = (Inl e, c')"
    by (metis prod.collapse)
  with upsert_failure_prefix [OF _ r] ex_wf show ?thesis by simp
qed

theorem upsert_idempotent_witness:
  "\<exists>c1 c3. UpsertBatch ex_results (ex_conn no_fault ex_db) = (Inr (), c1) \<and> UpsertBatch ex_results c1 = (Inr (), c3) \<and> cn_db c3 = cn_db c1"
proof -
  obtain c1 where c1: "UpsertBatch ex_results (ex_conn no_fault ex_db) = (Inr (), c1)" "healthy c1" by (rule ex_upsert)
  have "cache_wf (cn_db c1)" using upsert_preserves_wf [of "ex_conn no_fault ex_db" ex_results] c1(1) ex_wf by simp
  from upsert_healthy [OF this c1(2), of ex_results] obtain c3 where c3: "UpsertBatch ex_results c1 = (Inr (), c3)" by blast
  from upsert_idempotent [OF _ c1(1) refl c3] ex_wf c1(1) c3 show ?thesis by auto
qed

lemma ex_texts: "addr_string (Addr4 0x01020304) = ''1.2.3.4''" "addr_string (Addr6 1) = ''::1''"
  by code_simp+

lemma ex_db_texts: "texts is4 ex_db ''A''" "texts is6 ex_db ''AAAA''"
proof -
  have "\<exists>a. is_valid a \<and> is4 a \<and> ''1.2.3.4'' = addr_string a"
    by (rule exI [of _ "Addr4 0x01020304"]) (simp only: ex_texts, simp)
  then show "texts is4 ex_db ''A''" by (simp add: texts_def ex_db_def)
  have "\<exists>a. is_valid a \<and> is6 a \<and> ''::1'' = addr_string a"
    by (rule exI [of _ "Addr6 1"]) (simp only: ex_texts, simp)
  then show "texts is6 ex_db ''AAAA''" by (simp add: texts_def ex_db_def)
qed

theorem snapshot_valid_witness:
  "\<exists>v4 v6 c'. Snapshot (ex_conn no_fault ex_db) = (Inr (v4, v6), c') \<and> set v4 = valid_addrs ''A'' ex_db \<and> list_all is6 v6"
proof -
  obtain c1 where q1: "query 1 (select_valid_ips ''A'') (ex_conn no_fault ex_db) = (Inr (select_valid_ips ''A'' ex_db, False), c1)"
    and h: "healthy c1"
    using query_healthy [OF ex_healthy, of 1 "select_valid_ips ''A''" ex_db] by (auto simp: maxRowsPerTx_def)
  obtain c2 where q2: "query 1 (select_valid_ips ''AAAA'') c1 = (Inr (select_valid_ips ''AAAA'' (cn_db c1), False), c2)"
    using query_healthy [OF h, of 1 "select_valid_ips ''AAAA''"] by (auto simp: maxRowsPerTx_def)
  from q1 q2 obtain v4 v6 where s: "Snapshot (ex_conn no_fault ex_db) = (Inr (v4, v6), c2)"
    by (auto simp: Snapshot_def snapshotFamily_def)
  have "set v4 = valid_addrs ''A'' (cn_db (ex_conn no_fault ex_db)) \<and> list_all is6 v6"
    using snapshot_valid [OF _ _ _ s] ex_wf ex_db_texts by simp
  with s show ?thesis by auto
qed


text \<open>An engine that creates a table named in the body, and a directory with two migrations.\<close>

definition ex_sql :: "string set sql" where
  "ex_sql body d = Inr (d\<lparr> v_schema := insert body (v_schema d) \<rparr>)"

definition ex_entries :: "(string \<times> string) list" where
  "ex_entries = [(''embed.go'', ''''), (''0002_b.sql'', ''runs''), (''0001_a.sql'', ''domains'')]"

definition new_database :: "string set versioned conn" where
  "new_database = ex_conn no_fault \<lparr> v_schema = {}, v_versions = None \<rparr>"

lemma ex_files: "migration_files ex_entries = [(''0001_a.sql'', ''domains''), (''0002_b.sql'', ''runs'')]"
  by (simp add: migration_files_def ex_entries_def HasSuffix_def HasPrefix_def)

lemma ex_parse: "parseMigrationVersion ''0001_a.sql'' = Some 1" "parseMigrationVersion ''0002_b.sql'' = Some 2"
  by code_simp+


theorem kv_read_back_witness:
  "\<exists>ops c' m c''. kv.run_ops [KvSet ''a'' ''1'', KvDel ''k'', KvSet ''a'' ''2''] (ex_conn (\<lambda>k. k = 2) ex_db) = (ops, c') \<and>
     GetAll c' = (Inr m, c'') \<and> m = fold kv_apply ops (kv_view (ex_conn (\<lambda>k. k = 2) ex_db))"
proof -
  let ?c = "ex_conn (\<lambda>k. k = 2) ex_db" and ?ops = "[KvSet ''a'' ''1'', KvDel ''k'', KvSet ''a'' ''2'']"
  obtain ops c' where r: "kv.run_ops ?ops ?c = (ops, c')" by (cases "kv.run_ops ?ops ?c")
  then have "cn_calls c' = 3 \<and> cn_fault c' = (\<lambda>k. k = 2) \<and> cn_cut c' = (\<lambda>_. None) \<and> cn_max_vars c' = 32766"
    by (simp add: kv.run_ops.simps kv_Set_def kv_Delete_def exec_def upsert_kv_def delete_kv_def ex_conn_def Let_def split: prod.splits)
       auto
  then have "\<exists>m c''. GetAll c' = (Inr m, c'')"
    by (simp add: GetAll_def query_def exec_def Let_def)
  then obtain m c'' where g: "GetAll c' = (Inr m, c'')" by blast
  from kv_read_back [OF _ r g] ex_wf r g show ?thesis by auto
qed

end
