(* ===== verification/Resolver.thy ===== *)
theory Resolver
  imports Complex_Main Config
begin

text \<open>
  DNS resolution (\<open>internal/resolver\<close>): \<open>types.go\<close>, \<open>dns.go\<close> and \<open>resolver.go\<close>. The DNS client
  is an argument \<open>exchange\<close> of the operations, which maps a question and the state of the
  outside world to an answer, a client error or the end of the context, and \<open>wait\<close> is the
  \<open>select\<close> on a backoff timer. The worker pool of \<open>ResolveBatch\<close> is a step relation over the
  feeder, the workers and the two channels.
\<close>

section \<open>Types\<close>

datatype Status = StatusValid | StatusFailed | StatusNXDomain

fun Status_String :: "Status \<Rightarrow> string" where
  "Status_String StatusValid = ''valid''"
| "Status_String StatusFailed = ''failed''"
| "Status_String StatusNXDomain = ''nxdomain''"

text \<open>A \<open>*DNSError\<close>, or any other error by its text.\<close>

datatype dns_error = DNSError int string | OtherError string

record ResolveResult =
  r_Domain :: string
  r_IPv4 :: "addr list"
  r_IPv6 :: "addr list"
  r_Status :: Status
  r_ResolvedAt :: int
  r_Err :: "dns_error option"

record resolver_Config =
  rc_Upstream :: string
  rc_Network :: string
  rc_Concurrency :: int
  rc_QPS :: int
  rc_Timeout :: duration
  rc_Retries :: int
  rc_BackoffBase :: duration
  rc_BackoffMax :: duration
  rc_FollowCNAME :: bool
  rc_MaxCNAMEChain :: int

definition DefaultConfig :: resolver_Config where
  "DefaultConfig = \<lparr> rc_Upstream = ''8.8.8.8:53'', rc_Network = ''udp'', rc_Concurrency = 64, rc_QPS = 1000,
     rc_Timeout = 5 * Second, rc_Retries = 2, rc_BackoffBase = 100 * Millisecond, rc_BackoffMax = 5 * Second,
     rc_FollowCNAME = True, rc_MaxCNAMEChain = 8 \<rparr>"

definition resolver_New :: "resolver_Config \<Rightarrow> resolver_Config result" where
  "resolver_New cfg =
     (if rc_Upstream cfg = [] then Inl ''resolver: upstream cannot be empty''
      else if rc_Concurrency cfg < 1 then Inl ''resolver: concurrency must be >= 1''
      else if rc_QPS cfg < 1 then Inl ''resolver: qps must be >= 1''
      else Inr (if rc_MaxCNAMEChain cfg = 0 then cfg\<lparr> rc_MaxCNAMEChain := 8 \<rparr> else cfg))"

section \<open>Queries\<close>

text \<open>Records of \<open>github.com/miekg/dns\<close>; the addresses are \<open>net.IP\<close> byte slices.\<close>

datatype rr = RR_A "8 word list" | RR_AAAA "8 word list" | RR_CNAME string | RR_Other

record msg =
  m_Rcode :: int
  m_Answer :: "rr list"

datatype qtype = TypeA | TypeAAAA | TypeCNAME

datatype outcome = Resp msg | ExchangeErr dns_error | CtxDone dns_error

type_synonym 'w client = "string \<Rightarrow> qtype \<Rightarrow> 'w \<Rightarrow> outcome \<times> 'w"

definition RcodeSuccess :: int where "RcodeSuccess = 0"
definition RcodeServerFailure :: int where "RcodeServerFailure = 2"
definition RcodeNameError :: int where "RcodeNameError = 3"

text \<open>\<open>net.IP.String\<close>, with the 4-byte form for IPv4-mapped addresses.\<close>

definition IP_String :: "8 word list \<Rightarrow> string" where
  "IP_String ip =
     (if ip = [] then ''<nil>''
      else if length ip = 4 then addr_string (addr_from4 ip)
      else if length ip = 16 then
        (if take 12 ip = replicate 10 0 @ [255, 255] then addr_string (addr_from4 (drop 12 ip))
         else addr_string (addr_from16 ip))
      else ''?'' @ concat (map (\<lambda>b. show_base 16 (unat b div 16) @ show_base 16 (unat b mod 16)) ip))"

definition rr_addr :: "qtype \<Rightarrow> rr \<Rightarrow> addr option" where
  "rr_addr q r =
     (case r of
        RR_A ip \<Rightarrow> if q = TypeA then (case ParseAddr (IP_String ip) of Inr a \<Rightarrow> Some a | Inl _ \<Rightarrow> None) else None
      | RR_AAAA ip \<Rightarrow> if q = TypeAAAA then (case ParseAddr (IP_String ip) of Inr a \<Rightarrow> Some a | Inl _ \<Rightarrow> None) else None
      | _ \<Rightarrow> None)"

definition fqdn :: "string \<Rightarrow> string" where
  "fqdn domain = (if HasSuffix domain ''.'' then domain else domain @ ''.'')"

definition queryType :: "'w client \<Rightarrow> string \<Rightarrow> qtype \<Rightarrow> 'w \<Rightarrow> (dns_error + addr list) \<times> 'w" where
  "queryType exchange domain q w =
     (case exchange (fqdn domain) q w of
        (CtxDone e, w') \<Rightarrow> (Inl e, w')
      | (ExchangeErr e, w') \<Rightarrow> (Inl e, w')
      | (Resp resp, w') \<Rightarrow>
          (if m_Rcode resp = RcodeNameError then Inl (DNSError (m_Rcode resp) ''NXDOMAIN'')
           else if m_Rcode resp = RcodeServerFailure then Inl (DNSError (m_Rcode resp) ''SERVFAIL'')
           else if m_Rcode resp \<noteq> RcodeSuccess then Inl (DNSError (m_Rcode resp) ''RCODE'')
           else Inr (List.map_filter (rr_addr q) (m_Answer resp)), w'))"

fun first_cname :: "rr list \<Rightarrow> string" where
  "first_cname [] = []"
| "first_cname (RR_CNAME target # rrs) = TrimSuffix target ''.''"
| "first_cname (_ # rrs) = first_cname rrs"

definition queryCNAME :: "'w client \<Rightarrow> string \<Rightarrow> 'w \<Rightarrow> (dns_error + string) \<times> 'w" where
  "queryCNAME exchange domain w =
     (case exchange (fqdn domain) TypeCNAME w of
        (CtxDone e, w') \<Rightarrow> (Inl e, w')
      | (ExchangeErr e, w') \<Rightarrow> (Inl e, w')
      | (Resp resp, w') \<Rightarrow>
          (Inr (if m_Rcode resp \<noteq> RcodeSuccess then [] else first_cname (m_Answer resp)), w'))"

text \<open>The loop of \<open>followCNAME\<close>; the first argument counts the iterations left.\<close>

fun followCNAME_loop :: "'w client \<Rightarrow> nat \<Rightarrow> string set \<Rightarrow> string \<Rightarrow> 'w \<Rightarrow> (dns_error + string) \<times> 'w" where
  "followCNAME_loop exchange 0 visited current w = (Inl (OtherError ''CNAME chain too long''), w)"
| "followCNAME_loop exchange (Suc n) visited current w =
     (if current \<in> visited then (Inl (OtherError (''CNAME loop detected at '' @ current)), w)
      else case queryCNAME exchange current w of
        (Inl e, w') \<Rightarrow> (Inr current, w')
      | (Inr cname, w') \<Rightarrow>
          if cname = [] \<or> cname = current then (Inr current, w')
          else followCNAME_loop exchange n (insert current visited) cname w')"

definition followCNAME :: "'w client \<Rightarrow> resolver_Config \<Rightarrow> string \<Rightarrow> 'w \<Rightarrow> (dns_error + string) \<times> 'w" where
  "followCNAME exchange cfg domain w =
     (if \<not> rc_FollowCNAME cfg then (Inr domain, w)
      else followCNAME_loop exchange (nat (rc_MaxCNAMEChain cfg)) {} domain w)"

definition isNXDomain :: "dns_error option \<Rightarrow> bool" where
  "isNXDomain err = (case err of Some (DNSError rcode m) \<Rightarrow> rcode = RcodeNameError | _ \<Rightarrow> False)"

definition isRetryable :: "dns_error option \<Rightarrow> bool" where
  "isRetryable err =
     (case err of
        None \<Rightarrow> False
      | Some (DNSError rcode m) \<Rightarrow> rcode = RcodeServerFailure
      | Some (OtherError s) \<Rightarrow> Contains s ''timeout'' \<or> Contains s ''i/o'' \<or> Contains s ''connection refused'')"

definition addrs_of :: "dns_error + addr list \<Rightarrow> addr list" where
  "addrs_of r = (case r of Inl _ \<Rightarrow> [] | Inr xs \<Rightarrow> xs)"

definition err_of :: "dns_error + addr list \<Rightarrow> dns_error option" where
  "err_of r = (case r of Inl e \<Rightarrow> Some e | Inr _ \<Rightarrow> None)"

text \<open>What \<open>queryDomain\<close> makes of the two answers: the result and whether to retry.\<close>

definition combine_answers :: "ResolveResult \<Rightarrow> (dns_error + addr list) \<Rightarrow> (dns_error + addr list) \<Rightarrow> ResolveResult \<times> bool" where
  "combine_answers result a aaaa =
     (let ipv4 = addrs_of a; ipv6 = addrs_of aaaa; errA = err_of a; errAAAA = err_of aaaa in
      if 0 < length ipv4 \<or> 0 < length ipv6 then
        (result\<lparr> r_IPv4 := ipv4, r_IPv6 := ipv6, r_Status := StatusValid \<rparr>, False)
      else if isNXDomain errA \<or> isNXDomain errAAAA then
        (result\<lparr> r_Status := StatusNXDomain, r_Err := errA \<rparr>, False)
      else if errA = None \<and> errAAAA = None then
        (result\<lparr> r_Status := StatusNXDomain \<rparr>, False)
      else
        (result\<lparr> r_Status := StatusFailed, r_Err := (if errA \<noteq> None then errA else errAAAA) \<rparr>,
         isRetryable errA \<or> isRetryable errAAAA))"

definition queryDomain :: "'w client \<Rightarrow> resolver_Config \<Rightarrow> int \<Rightarrow> string \<Rightarrow> 'w \<Rightarrow> (ResolveResult \<times> bool) \<times> 'w" where
  "queryDomain exchange cfg now domain w =
     (let result = \<lparr> r_Domain = domain, r_IPv4 = [], r_IPv6 = [], r_Status = StatusValid, r_ResolvedAt = now, r_Err = None \<rparr>
      in case (if rc_FollowCNAME cfg then followCNAME exchange cfg domain w else (Inr domain, w)) of
           (Inl e, w1) \<Rightarrow> ((result\<lparr> r_Status := StatusFailed, r_Err := Some e \<rparr>, False), w1)
         | (Inr target, w1) \<Rightarrow>
             let (a, w2) = queryType exchange target TypeA w1;
                 (aaaa, w3) = queryType exchange target TypeAAAA w2
             in (combine_answers result a aaaa, w3))"

section \<open>Retries\<close>

text \<open>
  \<open>calculateBackoff\<close> on 64-bit durations. The product wraps; the jitter is the truncated
  real product for the random number \<open>rnd\<close> (the rounding of \<open>float64\<close> is not modelled).
\<close>

definition trunc_real :: "real \<Rightarrow> int" where
  "trunc_real x = (if x < 0 then \<lceil>x\<rceil> else \<lfloor>x\<rfloor>)"

definition jitter :: "int \<Rightarrow> real \<Rightarrow> int" where
  "jitter backoff rnd = trunc_real (real_of_int backoff * (1 / 4) * (2 * rnd - 1))"

definition calculateBackoff :: "resolver_Config \<Rightarrow> nat \<Rightarrow> real \<Rightarrow> int" where
  "calculateBackoff cfg attempt rnd =
     (let product = (word_of_int (rc_BackoffBase cfg) :: 64 word) * push_bit attempt 1;
          backoff = (if rc_BackoffMax cfg < sint product then rc_BackoffMax cfg else sint product);
          jittered = sint (word_of_int (backoff + jitter backoff rnd) :: 64 word)
      in if jittered < 0 then rc_BackoffBase cfg else jittered)"

datatype wait_outcome = Elapsed | WaitCancelled dns_error | WaitClosed

type_synonym 'w waiter = "nat \<Rightarrow> 'w \<Rightarrow> wait_outcome \<times> 'w"

definition failed_result :: "string \<Rightarrow> int \<Rightarrow> dns_error \<Rightarrow> ResolveResult" where
  "failed_result domain now e =
     \<lparr> r_Domain = domain, r_IPv4 = [], r_IPv6 = [], r_Status = StatusFailed, r_ResolvedAt = now, r_Err = Some e \<rparr>"

definition error_text :: "dns_error option \<Rightarrow> string" where
  "error_text e = (case e of None \<Rightarrow> ''%!w(<nil>)'' | Some (OtherError s) \<Rightarrow> s
     | Some (DNSError rcode m) \<Rightarrow> ''DNS error: '' @ m @ '' (rcode='' @ show_int rcode @ '')'')"

text \<open>The retry loop; the first argument counts the attempts left. \<open>now\<close> reads the clock.\<close>

fun resolve_loop :: "'w client \<Rightarrow> 'w waiter \<Rightarrow> ('w \<Rightarrow> int) \<Rightarrow> resolver_Config \<Rightarrow> nat \<Rightarrow> nat \<Rightarrow> dns_error option \<Rightarrow> string \<Rightarrow> 'w \<Rightarrow>
    ResolveResult \<times> 'w" where
  "resolve_loop exchange wait now cfg 0 attempt lastErr domain w =
     (failed_result domain (now w) (OtherError (''max retries exceeded: '' @ error_text lastErr)), w)"
| "resolve_loop exchange wait now cfg (Suc left) attempt lastErr domain w =
     (case (if 0 < attempt then wait attempt w else (Elapsed, w)) of
        (WaitCancelled e, w1) \<Rightarrow> (failed_result domain (now w1) e, w1)
      | (WaitClosed, w1) \<Rightarrow> (failed_result domain (now w1) (OtherError ''resolver closed''), w1)
      | (Elapsed, w1) \<Rightarrow>
          (case queryDomain exchange cfg (now w1) domain w1 of
             ((result, shouldRetry), w2) \<Rightarrow>
               if \<not> shouldRetry then (result, w2)
               else resolve_loop exchange wait now cfg left (Suc attempt) (r_Err result) domain w2))"

definition resolveDomain :: "'w client \<Rightarrow> 'w waiter \<Rightarrow> ('w \<Rightarrow> int) \<Rightarrow> resolver_Config \<Rightarrow> string \<Rightarrow> 'w \<Rightarrow> ResolveResult \<times> 'w" where
  "resolveDomain exchange wait now cfg domain w =
     resolve_loop exchange wait now cfg (nat (rc_Retries cfg + 1)) 0 None domain w"

section \<open>The worker pool\<close>

datatype wstate = WIdle | WHas string | WResult ResolveResult | WExited

record pool =
  p_feed :: "string list"
  p_feeding :: bool
  p_domainCh :: "string list"
  p_domClosed :: bool
  p_workers :: "wstate list"
  p_resultCh :: "ResolveResult list"
  p_resClosed :: bool
  p_out :: "ResolveResult list"
  p_cancelled :: bool
  p_closed :: bool

definition pool_init :: "nat \<Rightarrow> string list \<Rightarrow> pool" where
  "pool_init n domains = \<lparr> p_feed = domains, p_feeding = True, p_domainCh = [], p_domClosed = False,
     p_workers = replicate n WIdle, p_resultCh = [], p_resClosed = False, p_out = [],
     p_cancelled = False, p_closed = False \<rparr>"

definition aborting :: "pool \<Rightarrow> bool" where
  "aborting p \<longleftrightarrow> p_cancelled p \<or> p_closed p"

text \<open>
  One step of the feeder, a worker, the closing goroutine, the consumer of the result channel
  or the environment. \<open>res d r\<close> says that \<open>resolveDomain\<close> may return \<open>r\<close> for \<open>d\<close>; the
  capacity of both channels is the number of workers.
\<close>

inductive pool_step :: "(string \<Rightarrow> ResolveResult \<Rightarrow> bool) \<Rightarrow> pool \<Rightarrow> pool \<Rightarrow> bool" for res where
  feed: "p_feeding p \<Longrightarrow> p_feed p = d # ds \<Longrightarrow> length (p_domainCh p) < length (p_workers p) \<Longrightarrow>
     pool_step res p (p\<lparr> p_feed := ds, p_domainCh := p_domainCh p @ [d] \<rparr>)"
| feed_done: "p_feeding p \<Longrightarrow> p_feed p = [] \<Longrightarrow> pool_step res p (p\<lparr> p_feeding := False, p_domClosed := True \<rparr>)"
| feed_abort: "p_feeding p \<Longrightarrow> p_feed p \<noteq> [] \<Longrightarrow> aborting p \<Longrightarrow>
     pool_step res p (p\<lparr> p_feeding := False, p_domClosed := True \<rparr>)"
| take: "i < length (p_workers p) \<Longrightarrow> p_workers p ! i = WIdle \<Longrightarrow> p_domainCh p = d # ds \<Longrightarrow>
     pool_step res p (p\<lparr> p_domainCh := ds, p_workers := (p_workers p)[i := WHas d] \<rparr>)"
| drained: "i < length (p_workers p) \<Longrightarrow> p_workers p ! i = WIdle \<Longrightarrow> p_domainCh p = [] \<Longrightarrow> p_domClosed p \<Longrightarrow>
     pool_step res p (p\<lparr> p_workers := (p_workers p)[i := WExited] \<rparr>)"
| quit_idle: "i < length (p_workers p) \<Longrightarrow> p_workers p ! i = WIdle \<Longrightarrow> aborting p \<Longrightarrow>
     pool_step res p (p\<lparr> p_workers := (p_workers p)[i := WExited] \<rparr>)"
| limiter_abort: "i < length (p_workers p) \<Longrightarrow> p_workers p ! i = WHas d \<Longrightarrow> p_cancelled p \<Longrightarrow>
     pool_step res p (p\<lparr> p_workers := (p_workers p)[i := WExited] \<rparr>)"
| resolve: "i < length (p_workers p) \<Longrightarrow> p_workers p ! i = WHas d \<Longrightarrow> res d r \<Longrightarrow>
     pool_step res p (p\<lparr> p_workers := (p_workers p)[i := WResult r] \<rparr>)"
| send: "i < length (p_workers p) \<Longrightarrow> p_workers p ! i = WResult r \<Longrightarrow> length (p_resultCh p) < length (p_workers p) \<Longrightarrow>
     pool_step res p (p\<lparr> p_resultCh := p_resultCh p @ [r], p_workers := (p_workers p)[i := WIdle] \<rparr>)"
| send_abort: "i < length (p_workers p) \<Longrightarrow> p_workers p ! i = WResult r \<Longrightarrow> aborting p \<Longrightarrow>
     pool_step res p (p\<lparr> p_workers := (p_workers p)[i := WExited] \<rparr>)"
| close_results: "list_all (\<lambda>x. x = WExited) (p_workers p) \<Longrightarrow> \<not> p_resClosed p \<Longrightarrow>
     pool_step res p (p\<lparr> p_resClosed := True \<rparr>)"
| consume: "p_resultCh p = r # rs \<Longrightarrow> pool_step res p (p\<lparr> p_resultCh := rs, p_out := p_out p @ [r] \<rparr>)"
| cancel: "pool_step res p (p\<lparr> p_cancelled := True \<rparr>)"
| Close: "pool_step res p (p\<lparr> p_closed := True \<rparr>)"

inductive pool_reachable :: "(string \<Rightarrow> ResolveResult \<Rightarrow> bool) \<Rightarrow> nat \<Rightarrow> string list \<Rightarrow> pool \<Rightarrow> bool" for res n domains where
  start: "pool_reachable res n domains (pool_init n domains)"
| step: "pool_reachable res n domains p \<Longrightarrow> pool_step res p p' \<Longrightarrow> pool_reachable res n domains p'"

section \<open>Results\<close>

definition result_wf :: "string \<Rightarrow> ResolveResult \<Rightarrow> bool" where
  "result_wf domain r \<longleftrightarrow> r_Domain r = domain \<and>
     (if r_Status r = StatusValid then r_IPv4 r \<noteq> [] \<or> r_IPv6 r \<noteq> [] else r_IPv4 r = [] \<and> r_IPv6 r = [])"

lemma combine_answers_wf:
  assumes "combine_answers \<lparr> r_Domain = domain, r_IPv4 = [], r_IPv6 = [], r_Status = s, r_ResolvedAt = t, r_Err = e \<rparr> a b = (r, retry)"
  shows "result_wf domain r" and "retry \<Longrightarrow> r_Status r = StatusFailed"
  using assms by (auto simp: combine_answers_def result_wf_def Let_def split: if_splits)

lemma failed_wf [simp]:
  "result_wf domain \<lparr> r_Domain = domain, r_IPv4 = [], r_IPv6 = [], r_Status = StatusFailed, r_ResolvedAt = t, r_Err = e \<rparr>"
  by (simp add: result_wf_def)

lemma queryDomain_wf:
  assumes "queryDomain exchange cfg now domain w = ((r, retry), w')"
  shows "result_wf domain r" and "retry \<Longrightarrow> r_Status r = StatusFailed"
  using assms
  by (auto simp: queryDomain_def Let_def split: prod.splits sum.splits dest: combine_answers_wf)

lemma failed_result_wf: "result_wf domain (failed_result domain t e)"
  by (simp add: result_wf_def failed_result_def)

lemma resolve_loop_wf: "result_wf domain (fst (resolve_loop exchange wait now cfg n attempt lastErr domain w))"
proof (induction n arbitrary: attempt lastErr w)
  case 0
  then show ?case by (simp add: failed_result_wf)
next
  case (Suc n)
  then show ?case
    using failed_result_wf queryDomain_wf(1)
    by (auto split: prod.splits wait_outcome.splits)
qed

text \<open>
  whatever the server, the timers and the clock do, resolving a domain returns a result for
  that domain whose status is valid exactly when it carries an address.
\<close>

theorem resolve_result_wf:
  "let r = fst (resolveDomain exchange wait now cfg domain w) in
     r_Domain r = domain \<and> (r_Status r = StatusValid) = (r_IPv4 r \<noteq> [] \<or> r_IPv6 r \<noteq> [])"
  using resolve_loop_wf [of domain exchange wait now cfg "nat (rc_Retries cfg + 1)" 0 None w]
  by (auto simp: resolveDomain_def result_wf_def Let_def split: if_splits)

section \<open>The number of queries\<close>

text \<open>The client and the timer with a counter of the exchanges beside the world.\<close>

definition counted :: "'w client \<Rightarrow> ('w \<times> nat) client" where
  "counted exchange q t wn = (let (r, w') = exchange q t (fst wn) in (r, (w', Suc (snd wn))))"

definition uncounted :: "'w waiter \<Rightarrow> ('w \<times> nat) waiter" where
  "uncounted wait a wn = (let (r, w') = wait a (fst wn) in (r, (w', snd wn)))"

lemma queryType_count: "snd (snd (queryType (counted exchange) d q wn)) = Suc (snd wn)"
  by (auto simp: queryType_def counted_def Let_def split: prod.splits outcome.splits)

lemma queryCNAME_count: "snd (snd (queryCNAME (counted exchange) d wn)) = Suc (snd wn)"
  by (auto simp: queryCNAME_def counted_def Let_def split: prod.splits outcome.splits)

lemma followCNAME_loop_count:
  "snd (snd (followCNAME_loop (counted exchange) n visited d wn)) \<le> n + snd wn"
proof (induction n arbitrary: visited d wn)
  case (Suc n)
  obtain r wn' where q: "queryCNAME (counted exchange) d wn = (r, wn')" by (rule prod.exhaust)
  have "snd wn' = Suc (snd wn)" using queryCNAME_count [of exchange d wn] q by simp
  then show ?case using q Suc [of "insert d visited" _ wn'] by (auto split: sum.splits)
qed simp

lemma followCNAME_count:
  "snd (snd (followCNAME (counted exchange) cfg d wn)) \<le> nat (rc_MaxCNAMEChain cfg) + snd wn"
  using followCNAME_loop_count [of exchange "nat (rc_MaxCNAMEChain cfg)" "{}" d wn] by (simp add: followCNAME_def)

lemma queryDomain_count:
  "snd (snd (queryDomain (counted exchange) cfg now d wn)) \<le> nat (rc_MaxCNAMEChain cfg) + 2 + snd wn"
proof -
  obtain t wn1 where t: "(if rc_FollowCNAME cfg then followCNAME (counted exchange) cfg d wn else (Inr d, wn)) = (t, wn1)"
    by (rule prod.exhaust)
  have n1: "snd wn1 \<le> nat (rc_MaxCNAMEChain cfg) + snd wn"
    using t followCNAME_count [of exchange cfg d wn] by (auto split: if_splits)
  show ?thesis
  proof (cases t)
    case (Inl e)
    then show ?thesis using t n1 by (simp add: queryDomain_def Let_def)
  next
    case (Inr tgt)
    obtain a wn2 where a: "queryType (counted exchange) tgt TypeA wn1 = (a, wn2)" by (rule prod.exhaust)
    obtain b wn3 where b: "queryType (counted exchange) tgt TypeAAAA wn2 = (b, wn3)" by (rule prod.exhaust)
    have "snd wn3 = Suc (Suc (snd wn1))"
      using queryType_count [of exchange tgt TypeA wn1] queryType_count [of exchange tgt TypeAAAA wn2] a b by simp
    then show ?thesis using t n1 Inr a b by (simp add: queryDomain_def Let_def)
  qed
qed

lemma resolve_loop_count:
  "snd (snd (resolve_loop (counted exchange) (uncounted wait) now cfg n attempt lastErr d wn))
     \<le> n * (nat (rc_MaxCNAMEChain cfg) + 2) + snd wn"
proof (induction n arbitrary: attempt lastErr wn)
  case (Suc n)
  obtain o1 wn1 where o1: "(if 0 < attempt then uncounted wait attempt wn else (Elapsed, wn)) = (o1, wn1)"
    by (rule prod.exhaust)
  have n1: "snd wn1 = snd wn"
    using o1 by (auto simp: uncounted_def Let_def split: if_splits prod.splits)
  obtain r retry wn2 where q: "queryDomain (counted exchange) cfg (now wn1) d wn1 = ((r, retry), wn2)"
    by (metis prod.exhaust)
  have n2: "snd wn2 \<le> nat (rc_MaxCNAMEChain cfg) + 2 + snd wn1"
    using queryDomain_count [of exchange cfg "now wn1" d wn1] q by simp
  show ?case
    using Suc [of "Suc attempt" "r_Err r" wn2] o1 n1 q n2 by (cases o1) auto
qed simp

text \<open>
  resolving a domain sends at most \<open>(Retries + 1) * (MaxCNAMEChain + 2)\<close> queries, whatever
  the server answers.
\<close>

theorem resolve_query_bound:
  "snd (snd (resolveDomain (counted exchange) (uncounted wait) now cfg domain (w, 0)))
     \<le> nat (rc_Retries cfg + 1) * (nat (rc_MaxCNAMEChain cfg) + 2)"
  using resolve_loop_count [of exchange wait now cfg "nat (rc_Retries cfg + 1)" 0 None domain "(w, 0)"]
  by (simp add: resolveDomain_def)

section \<open>CNAME chains\<close>

text \<open>A server whose aliases do not change: \<open>alias d\<close> is the target of \<open>d\<close>, empty for none.\<close>

definition answers_aliases :: "'w client \<Rightarrow> (string \<Rightarrow> string) \<Rightarrow> bool" where
  "answers_aliases exchange alias \<longleftrightarrow> (\<forall>d w. queryCNAME exchange d w = (Inr (alias d), w))"

text \<open>A chain of aliases that ends: the names met, the first one being the domain itself.\<close>

fun alias_chain :: "(string \<Rightarrow> string) \<Rightarrow> string list \<Rightarrow> bool" where
  "alias_chain alias [] = False"
| "alias_chain alias [d] = (alias d = [] \<or> alias d = d)"
| "alias_chain alias (d # e # ds) = (alias d = e \<and> e \<noteq> [] \<and> e \<noteq> d \<and> alias_chain alias (e # ds))"

lemma followCNAME_loop_chain:
  assumes "answers_aliases exchange alias"
  shows "alias_chain alias (d # ds) \<Longrightarrow> distinct (d # ds) \<Longrightarrow> set (d # ds) \<inter> visited = {} \<Longrightarrow>
    followCNAME_loop exchange n visited d w =
      ((if length ds < n then Inr (last (d # ds)) else Inl (OtherError ''CNAME chain too long'')), w)"
proof (induction n arbitrary: d ds visited)
  case (Suc n)
  have q: "queryCNAME exchange d w = (Inr (alias d), w)"
    using assms by (simp add: answers_aliases_def)
  show ?case
  proof (cases ds)
    case Nil
    then show ?thesis using Suc.prems q by auto
  next
    case (Cons e es)
    have "followCNAME_loop exchange n (insert d visited) e w =
        ((if length es < n then Inr (last (e # es)) else Inl (OtherError ''CNAME chain too long'')), w)"
      by (rule Suc.IH) (use Suc.prems Cons in auto)
    then show ?thesis using Suc.prems Cons q by auto
  qed
qed simp

text \<open>
  a finite alias chain is followed to its end exactly when it has fewer than
  \<open>MaxCNAMEChain\<close> hops; a chain of \<open>MaxCNAMEChain\<close> hops is already refused, although the error
  says that more than \<open>MaxCNAMEChain\<close> hops were met.
\<close>

theorem followCNAME_chain:
  assumes "answers_aliases exchange alias" and "rc_FollowCNAME cfg"
    and "alias_chain alias (domain # ds)" and "distinct (domain # ds)"
  shows "followCNAME exchange cfg domain w =
    ((if int (length ds) < rc_MaxCNAMEChain cfg then Inr (last (domain # ds))
      else Inl (OtherError ''CNAME chain too long'')), w)"
  using followCNAME_loop_chain [OF assms(1,3,4), of "{}"] assms(2) by (auto simp: followCNAME_def)

definition alias_server :: "(string \<Rightarrow> string) \<Rightarrow> nat client" where
  "alias_server alias q t w =
     (Resp \<lparr> m_Rcode = 0, m_Answer = (if alias q = [] then [] else [RR_CNAME (alias q)]) \<rparr>, w)"

definition ex_alias :: "string \<Rightarrow> string" where
  "ex_alias d = (if fqdn d = ''a.'' then ''b'' else [])"

lemma fqdn_fqdn [simp]: "fqdn (fqdn d) = fqdn d"
  by (auto simp: fqdn_def HasSuffix_def HasPrefix_def)

lemma ex_alias_answers: "answers_aliases (alias_server ex_alias) ex_alias"
proof -
  have "TrimSuffix ''b'' ''.'' = ''b''" "fqdn ''a.'' = ''a.''" by code_simp+
  then show ?thesis
    by (auto simp: answers_aliases_def queryCNAME_def alias_server_def ex_alias_def RcodeSuccess_def)
qed

theorem followCNAME_chain_witness:
  "followCNAME (alias_server ex_alias) DefaultConfig ''a'' 0 = (Inr ''b'', 0)"
proof -
  have "alias_chain ex_alias [''a'', ''b'']" by code_simp
  from followCNAME_chain [OF ex_alias_answers, of DefaultConfig "''a''" "[''b'']" 0] this show ?thesis
    by (simp add: DefaultConfig_def)
qed

section \<open>Backoff\<close>

lemma sint64: "- (2 ^ 63) \<le> x \<Longrightarrow> x < 2 ^ 63 \<Longrightarrow> sint (word_of_int x :: 64 word) = x"
  by (simp add: signed_of_int signed_take_bit_int_eq_self)

lemma trunc_real_le: "real_of_int \<bar>trunc_real x\<bar> \<le> \<bar>x\<bar>"
proof (cases "x < 0")
  case True
  then have "\<lceil>x\<rceil> \<le> 0" by simp
  with True le_of_int_ceiling [of x] show ?thesis by (simp add: trunc_real_def)
next
  case False
  then have "0 \<le> \<lfloor>x\<rfloor>" by simp
  with False of_int_floor_le [of x] show ?thesis by (simp add: trunc_real_def)
qed

lemma jitter_bound:
  assumes "0 \<le> b" and "0 \<le> rnd" and "rnd < 1"
  shows "4 * \<bar>jitter b rnd\<bar> \<le> b"
proof -
  let ?x = "real_of_int b * (1 / 4) * (2 * rnd - 1)"
  have "\<bar>?x\<bar> = real_of_int b / 4 * \<bar>2 * rnd - 1\<bar>" using assms(1) by (simp add: abs_mult)
  also have "\<dots> \<le> real_of_int b / 4 * 1" using assms by (intro mult_left_mono) auto
  finally have "\<bar>?x\<bar> \<le> real_of_int b / 4" by simp
  moreover have "real_of_int \<bar>trunc_real ?x\<bar> \<le> \<bar>?x\<bar>"
    by (rule trunc_real_le)
  ultimately show ?thesis unfolding jitter_def by linarith
qed

text \<open>
  on a sane configuration (a positive base not above the maximum, no overflow of the
  product) the pause before retry \<open>attempt\<close> is the exponential value, capped, within a quarter.
\<close>

theorem backoff_bounds:
  assumes "0 < rc_BackoffBase cfg" and "rc_BackoffBase cfg \<le> rc_BackoffMax cfg" and "rc_BackoffMax cfg < 2 ^ 62"
    and "rc_BackoffBase cfg * 2 ^ attempt < 2 ^ 63" and "0 \<le> rnd" and "rnd < 1"
    and "cap = min (rc_BackoffBase cfg * 2 ^ attempt) (rc_BackoffMax cfg)"
  shows "0 < calculateBackoff cfg attempt rnd \<and> 3 * cap \<le> 4 * calculateBackoff cfg attempt rnd \<and>
    4 * calculateBackoff cfg attempt rnd \<le> 5 * cap"
proof -
  let ?b = "rc_BackoffBase cfg"
  have prod: "(word_of_int ?b :: 64 word) * push_bit attempt 1 = word_of_int (?b * 2 ^ attempt)"
    by (simp add: push_bit_eq_mult)
  have pos: "0 < ?b * 2 ^ attempt" using assms(1) by simp
  have s: "sint (word_of_int (?b * 2 ^ attempt) :: 64 word) = ?b * 2 ^ attempt"
    by (rule sint64) (use pos assms(4) in auto)
  have c: "(if rc_BackoffMax cfg < ?b * 2 ^ attempt then rc_BackoffMax cfg else ?b * 2 ^ attempt) = cap"
    using assms(7) by auto
  have cap: "0 < cap" "cap < 2 ^ 62" using assms(1,2,3,7) pos by auto
  note j = jitter_bound [of cap rnd]
  have j4: "4 * \<bar>jitter cap rnd\<bar> \<le> cap" using j cap assms(5,6) by simp
  moreover have "cap < 4611686018427387904" using cap(2) by simp
  ultimately have "0 \<le> cap + jitter cap rnd" "cap + jitter cap rnd < 9223372036854775808" by linarith+
  then have r: "sint (word_of_int (cap + jitter cap rnd) :: 64 word) = cap + jitter cap rnd"
    by (intro sint64) simp_all
  have "calculateBackoff cfg attempt rnd = cap + jitter cap rnd"
    unfolding calculateBackoff_def Let_def prod s c r using j4 cap by auto
  then show ?thesis using j4 cap by linarith
qed

theorem backoff_bounds_witness:
  "3 * (4 * 10 ^ 8) \<le> 4 * calculateBackoff DefaultConfig 2 0"
proof -
  have "min (rc_BackoffBase DefaultConfig * 2 ^ 2) (rc_BackoffMax DefaultConfig) = 4 * 10 ^ 8"
    by (simp add: DefaultConfig_def duration_defs)
  then show ?thesis
    using backoff_bounds [of DefaultConfig 2 0 "4 * 10 ^ 8"] by (simp add: DefaultConfig_def duration_defs)
qed

section \<open>The pool resolves every domain once\<close>

fun w_domains :: "wstate \<Rightarrow> string multiset" where
  "w_domains (WHas d) = {#d#}"
| "w_domains (WResult r) = {#r_Domain r#}"
| "w_domains _ = {#}"

definition in_flight :: "wstate list \<Rightarrow> string multiset" where
  "in_flight ws = sum_list (map w_domains ws)"

text \<open>Where the domains of a batch are.\<close>

definition contents :: "pool \<Rightarrow> string multiset" where
  "contents p = mset (p_feed p) + mset (p_domainCh p) + in_flight (p_workers p) +
     mset (map r_Domain (p_resultCh p)) + mset (map r_Domain (p_out p))"

definition pool_inv :: "nat \<Rightarrow> string list \<Rightarrow> pool \<Rightarrow> bool" where
  "pool_inv n domains p \<longleftrightarrow>
     length (p_workers p) = n \<and> contents p \<subseteq># mset domains \<and>
     (p_domClosed p \<longleftrightarrow> \<not> p_feeding p) \<and>
     (p_resClosed p \<longrightarrow> list_all (\<lambda>w. w = WExited) (p_workers p)) \<and>
     (\<not> aborting p \<longrightarrow> contents p = mset domains \<and> (p_feeding p \<or> p_feed p = []) \<and>
       (WExited \<in> set (p_workers p) \<longrightarrow> p_domClosed p \<and> p_domainCh p = []))"

lemma in_flight_update:
  assumes "i < length ws"
  shows "in_flight (ws[i := y]) + w_domains (ws ! i) = in_flight ws + w_domains y"
proof -
  have "in_flight ws = in_flight (take i ws @ ws ! i # drop (Suc i) ws)"
    using id_take_nth_drop [OF assms] by simp
  then show ?thesis
    using assms by (simp add: upd_conv_take_nth_drop in_flight_def ac_simps)
qed

lemma in_flight_moves:
  assumes "i < length ws"
  shows "w_domains y = w_domains (ws ! i) \<Longrightarrow> in_flight (ws[i := y]) = in_flight ws"
    and "w_domains (ws ! i) = {#} \<Longrightarrow> in_flight (ws[i := y]) = in_flight ws + w_domains y"
    and "w_domains y = {#} \<Longrightarrow> in_flight ws = in_flight (ws[i := y]) + w_domains (ws ! i)"
  using in_flight_update [OF assms, of y] by auto

lemma add_mset_subset_imp_subset: "add_mset x A \<subseteq># B \<Longrightarrow> A \<subseteq># B"
  by (metis add_mset_add_single mset_subset_eq_add_left subset_mset.order_trans)

lemma set_update_other: "x \<in> set (ws[i := y]) \<Longrightarrow> x \<noteq> y \<Longrightarrow> x \<in> set ws"
  using set_update_subset_insert [of ws i y] by auto

lemma busy_worker: "i < length ws \<Longrightarrow> ws ! i \<noteq> WExited \<Longrightarrow> \<not> list_all (\<lambda>w. w = WExited) ws"
  by (auto simp: list_all_length)

lemma pool_step_inv:
  assumes "\<And>d r. res d r \<Longrightarrow> r_Domain r = d"
  shows "pool_step res p p' \<Longrightarrow> pool_inv n domains p \<Longrightarrow> pool_inv n domains p'"
proof (induction rule: pool_step.induct)
  case (feed p d ds)
  then show ?case by (auto simp: pool_inv_def contents_def aborting_def ac_simps)
next
  case (feed_done p)
  then show ?case by (auto simp: pool_inv_def contents_def aborting_def)
next
  case (feed_abort p)
  then show ?case by (auto simp: pool_inv_def contents_def aborting_def)
next
  case (take i p d ds)
  then show ?case using in_flight_moves(2) [OF take(1), of "WHas d"] busy_worker [OF take(1)]
    by (auto simp: pool_inv_def contents_def aborting_def dest: set_update_other)
next
  case (drained i p)
  then show ?case using in_flight_moves(2) [OF drained(1), of WExited] busy_worker [OF drained(1)]
    by (auto simp: pool_inv_def contents_def aborting_def dest: set_update_other)
next
  case (quit_idle i p)
  then show ?case using in_flight_moves(2) [OF quit_idle(1), of WExited] busy_worker [OF quit_idle(1)]
    by (auto simp: pool_inv_def contents_def aborting_def dest: set_update_other)
next
  case (limiter_abort i p d)
  then show ?case using in_flight_moves(3) [OF limiter_abort(1), of WExited] busy_worker [OF limiter_abort(1)]
    by (auto simp: pool_inv_def contents_def aborting_def intro: add_mset_subset_imp_subset
        dest: set_update_other)
next
  case (resolve i p d r)
  then show ?case using in_flight_moves(1) [OF resolve(1), of "WResult r"] busy_worker [OF resolve(1)] assms [OF resolve(3)]
    by (auto simp: pool_inv_def contents_def aborting_def dest: set_update_other)
next
  case (send i p r)
  then show ?case using in_flight_moves(3) [OF send(1), of WIdle] busy_worker [OF send(1)]
    by (auto simp: pool_inv_def contents_def aborting_def dest: set_update_other)
next
  case (send_abort i p r)
  then show ?case using in_flight_moves(3) [OF send_abort(1), of WExited] busy_worker [OF send_abort(1)]
    by (auto simp: pool_inv_def contents_def aborting_def intro: add_mset_subset_imp_subset
        dest: set_update_other)
next
  case (close_results p)
  then show ?case by (auto simp: pool_inv_def contents_def aborting_def)
next
  case (consume p r rs)
  then show ?case by (auto simp: pool_inv_def contents_def aborting_def ac_simps)
next
  case (cancel p)
  then show ?case by (auto simp: pool_inv_def contents_def aborting_def)
next
  case (Close p)
  then show ?case by (auto simp: pool_inv_def contents_def aborting_def)
qed

lemma pool_init_inv: "pool_inv n domains (pool_init n domains)"
proof -
  have "in_flight (replicate n WIdle) = {#}" by (induction n) (simp_all add: in_flight_def)
  then show ?thesis by (auto simp: pool_inv_def pool_init_def contents_def aborting_def)
qed

lemma pool_reachable_inv:
  assumes "\<And>d r. res d r \<Longrightarrow> r_Domain r = d"
  shows "pool_reachable res n domains p \<Longrightarrow> pool_inv n domains p"
  by (induction rule: pool_reachable.induct) (auto intro: pool_init_inv pool_step_inv assms)

text \<open>The results the pool's workers may compute: those of \<open>resolveDomain\<close>.\<close>

definition may_resolve :: "'w client \<Rightarrow> 'w waiter \<Rightarrow> ('w \<Rightarrow> int) \<Rightarrow> resolver_Config \<Rightarrow> string \<Rightarrow> ResolveResult \<Rightarrow> bool" where
  "may_resolve exchange wait now cfg d r \<longleftrightarrow> (\<exists>w. fst (resolveDomain exchange wait now cfg d w) = r)"

lemma may_resolve_domain: "may_resolve exchange wait now cfg d r \<Longrightarrow> r_Domain r = d"
  using resolve_loop_wf by (fastforce simp: may_resolve_def resolveDomain_def result_wf_def)

text \<open>When the channel of results is closed and drained and nothing was aborted, no domain is missing.\<close>

lemma pool_complete:
  assumes inv: "pool_inv n domains p" and "p_resClosed p" and "p_resultCh p = []" and "0 < n" and "\<not> aborting p"
  shows "mset (map r_Domain (p_out p)) = mset domains"
proof -
  from inv assms(2) have all: "list_all (\<lambda>w. w = WExited) (p_workers p)" and len: "length (p_workers p) = n"
    by (simp_all add: pool_inv_def)
  have "in_flight ws = {#}" if "list_all (\<lambda>w. w = WExited) ws" for ws
    using that by (induction ws) (simp_all add: in_flight_def)
  with all have "in_flight (p_workers p) = {#}" by blast
  moreover have "WExited \<in> set (p_workers p)" using all len assms(4) by (cases "p_workers p") auto
  ultimately show ?thesis using assms by (auto simp: pool_inv_def contents_def)
qed

text \<open>
  C8: the pool delivers no result twice and none for a domain that was not asked for; when it
  closes its result channel without having been cancelled or closed, the delivered results are
  exactly one for each requested domain.
\<close>

theorem batch_exactly_once:
  assumes "pool_reachable (may_resolve exchange wait now cfg) n domains p"
  shows "mset (map r_Domain (p_out p)) \<subseteq># mset domains \<and>
    (p_resClosed p \<and> p_resultCh p = [] \<and> 0 < n \<and> \<not> aborting p \<longrightarrow>
      mset (map r_Domain (p_out p)) = mset domains)"
proof -
  have inv: "pool_inv n domains p"
    by (rule pool_reachable_inv [OF may_resolve_domain assms])
  then have "contents p \<subseteq># mset domains" by (simp add: pool_inv_def)
  moreover have "mset (map r_Domain (p_out p)) \<subseteq># contents p" by (simp add: contents_def)
  ultimately have "mset (map r_Domain (p_out p)) \<subseteq># mset domains" by (rule subset_mset.order_trans [rotated])
  with pool_complete [OF inv] show ?thesis by blast
qed

text \<open>The work left: every step but a cancellation does some of it.\<close>

fun worker_work :: "wstate \<Rightarrow> nat" where
  "worker_work WIdle = 1"
| "worker_work (WHas d) = 5"
| "worker_work (WResult r) = 4"
| "worker_work WExited = 0"

definition work :: "pool \<Rightarrow> nat" where
  "work p = 6 * length (p_feed p) + 5 * length (p_domainCh p) + (if p_feeding p then 1 else 0) +
     sum_list (map worker_work (p_workers p)) + 2 * length (p_resultCh p) + (if p_resClosed p then 0 else 1)"

lemma worker_work_update:
  "i < length ws \<Longrightarrow> sum_list (map worker_work (ws[i := y])) + worker_work (ws ! i) =
     sum_list (map worker_work ws) + worker_work y"
proof -
  assume i: "i < length ws"
  have "sum_list (map worker_work ws) = sum_list (map worker_work (take i ws @ ws ! i # drop (Suc i) ws))"
    using id_take_nth_drop [OF i] by simp
  then show ?thesis using i by (simp add: upd_conv_take_nth_drop)
qed

lemma pool_step_work:
  "pool_step res p p' \<Longrightarrow> work p' < work p \<or> p' = p\<lparr> p_cancelled := True \<rparr> \<or> p' = p\<lparr> p_closed := True \<rparr>"
proof (induction rule: pool_step.induct)
  case (take i p d ds)
  then show ?case using worker_work_update [OF take(1), of "WHas d"] by (simp add: work_def)
next
  case (drained i p)
  then show ?case using worker_work_update [OF drained(1), of WExited] by (simp add: work_def)
next
  case (quit_idle i p)
  then show ?case using worker_work_update [OF quit_idle(1), of WExited] by (simp add: work_def)
next
  case (limiter_abort i p d)
  then show ?case using worker_work_update [OF limiter_abort(1), of WExited] by (simp add: work_def)
next
  case (resolve i p d r)
  then show ?case using worker_work_update [OF resolve(1), of "WResult r"] by (simp add: work_def)
next
  case (send i p r)
  then show ?case using worker_work_update [OF send(1), of WIdle] by (simp add: work_def)
next
  case (send_abort i p r)
  then show ?case using worker_work_update [OF send_abort(1), of WExited] by (simp add: work_def)
qed (simp_all add: work_def)

lemma exists_step:
  assumes "length (p_workers p) = n" and "0 < n" and "p_domClosed p \<longleftrightarrow> \<not> p_feeding p"
    and "\<not> (p_resClosed p \<and> p_resultCh p = [])" and "\<And>d. \<exists>r. res d r"
  shows "\<exists>p'. pool_step res p p' \<and> p' \<noteq> p\<lparr> p_cancelled := True \<rparr> \<and> p' \<noteq> p\<lparr> p_closed := True \<rparr>"
proof (cases "p_resultCh p")
  case (Cons r rs)
  then have "p\<lparr> p_resultCh := rs, p_out := p_out p @ [r] \<rparr> \<noteq> p\<lparr> p_cancelled := True \<rparr>"
    "p\<lparr> p_resultCh := rs, p_out := p_out p @ [r] \<rparr> \<noteq> p\<lparr> p_closed := True \<rparr>"
    by (auto dest!: arg_cong [of _ _ p_resultCh])
  then show ?thesis using consume [OF Cons, of res] by blast
next
  case Nil
  with assms(4) have nc: "\<not> p_resClosed p" by simp
  show ?thesis
  proof (cases "list_all (\<lambda>w. w = WExited) (p_workers p)")
    case True
    have "p\<lparr> p_resClosed := True \<rparr> \<noteq> p\<lparr> p_cancelled := True \<rparr>" "p\<lparr> p_resClosed := True \<rparr> \<noteq> p\<lparr> p_closed := True \<rparr>"
      using nc by (auto dest!: arg_cong [of _ _ p_resClosed])
    then show ?thesis using close_results [OF True nc, of res] by blast
  next
    case False
    then obtain i where i: "i < length (p_workers p)" "p_workers p ! i \<noteq> WExited" by (auto simp: list_all_length)
    have upd: "p\<lparr> p_domainCh := c, p_resultCh := rc, p_workers := (p_workers p)[i := y] \<rparr> \<noteq> p\<lparr> p_cancelled := True \<rparr>"
      "p\<lparr> p_domainCh := c, p_resultCh := rc, p_workers := (p_workers p)[i := y] \<rparr> \<noteq> p\<lparr> p_closed := True \<rparr>"
      if "y \<noteq> p_workers p ! i" for c rc y
      using that i(1) by (auto dest!: arg_cong [of _ _ p_workers] arg_cong [of _ _ "\<lambda>ws. ws ! i"])
    show ?thesis
    proof (cases "p_workers p ! i")
      case (WHas d)
      obtain r where "res d r" using assms(5) by blast
      from resolve [where res = res, OF i(1) WHas this] upd [where y = "WResult r" and c = "p_domainCh p" and rc = "p_resultCh p"] WHas
      show ?thesis by (intro exI conjI) auto
    next
      case (WResult r)
      have "length (p_resultCh p) < length (p_workers p)" using Nil assms(1,2) by simp
      from send [where res = res, OF i(1) WResult this] upd [where y = WIdle and c = "p_domainCh p" and rc = "p_resultCh p @ [r]"] WResult
      show ?thesis by (intro exI conjI) auto
    next
      case WIdle
      show ?thesis
      proof (cases "p_domainCh p")
        case (Cons d ds)
        from take [where res = res, OF i(1) WIdle Cons] upd [where y = "WHas d" and c = ds and rc = "p_resultCh p"] WIdle
        show ?thesis by (intro exI conjI) auto
      next
        case empty: Nil
        show ?thesis
        proof (cases "p_domClosed p")
          case True
          from drained [where res = res, OF i(1) WIdle empty True] upd [where y = WExited and c = "p_domainCh p" and rc = "p_resultCh p"] WIdle
          show ?thesis by (intro exI conjI) auto
        next
          case False
          then have f: "p_feeding p" using assms(3) by simp
          show ?thesis
          proof (cases "p_feed p")
            case Nil
            have "p\<lparr> p_feeding := False, p_domClosed := True \<rparr> \<noteq> p\<lparr> p_cancelled := True \<rparr>"
              "p\<lparr> p_feeding := False, p_domClosed := True \<rparr> \<noteq> p\<lparr> p_closed := True \<rparr>"
              using f by (auto dest!: arg_cong [of _ _ p_feeding])
            then show ?thesis using feed_done [OF f Nil, of res] by blast
          next
            case (Cons d ds)
            have "length (p_domainCh p) < length (p_workers p)" using empty assms(1,2) by simp
            moreover have "p\<lparr> p_feed := ds, p_domainCh := p_domainCh p @ [d] \<rparr> \<noteq> p\<lparr> p_cancelled := True \<rparr>"
              "p\<lparr> p_feed := ds, p_domainCh := p_domainCh p @ [d] \<rparr> \<noteq> p\<lparr> p_closed := True \<rparr>"
              using empty by (auto dest!: arg_cong [of _ _ p_domainCh])
            ultimately show ?thesis using feed [OF f Cons, of res] by blast
          qed
        qed
      qed
    qed (use i in simp)
  qed
qed

text \<open>
  C30: the pool never blocks and never runs forever: as long as its result channel is not closed
  and drained some step is possible, and every step but a cancellation or \<open>Close\<close> reduces the
  work left, a natural number.
\<close>

theorem batch_progress:
  assumes "pool_reachable (may_resolve exchange wait now cfg) n domains p" and "0 < n"
    and "\<not> (p_resClosed p \<and> p_resultCh p = [])"
  shows "\<exists>p'. pool_step (may_resolve exchange wait now cfg) p p' \<and> work p' < work p"
proof -
  have inv: "pool_inv n domains p"
    by (rule pool_reachable_inv [OF may_resolve_domain assms(1)])
  have "\<exists>r. may_resolve exchange wait now cfg d r" for d by (auto simp: may_resolve_def)
  with exists_step [of p n "may_resolve exchange wait now cfg"] inv assms(2,3)
  obtain p' where "pool_step (may_resolve exchange wait now cfg) p p'"
    "p' \<noteq> p\<lparr> p_cancelled := True \<rparr>" "p' \<noteq> p\<lparr> p_closed := True \<rparr>"
    unfolding pool_inv_def by blast
  with pool_step_work show ?thesis by blast
qed

definition ex_wait :: "nat waiter" where "ex_wait a w = (Elapsed, w)"

theorem batch_exactly_once_witness:
  "mset (map r_Domain (p_out (pool_init 1 [''a'']))) \<subseteq># {#''a''#}"
  using batch_exactly_once [where n = 1 and domains = "[''a'']" and exchange = "alias_server ex_alias" and wait = ex_wait
      and now = int and cfg = DefaultConfig, OF pool_reachable.start]
  by simp

theorem batch_progress_witness:
  "\<exists>p'. pool_step (may_resolve (alias_server ex_alias) ex_wait int DefaultConfig) (pool_init 1 [''a'']) p' \<and>
     work p' < work (pool_init 1 [''a''])"
  by (rule batch_progress [OF pool_reachable.start]) (simp_all add: pool_init_def)

end
