(* ===== verification/Orchestrator.thy ===== *)
theory Orchestrator
  imports Registry Cache_Props Policy_Router Aggregator Resolver
begin

text \<open>
  The pipeline (\<open>internal/orchestrator/orchestrator.go\<close>): the run of one policy over the registry,
  the cache, the resolver, the aggregator, the exporter and the policy router, the loop over the
  policies, and the state of the single-flight \<open>Run\<close>. The registry, the exporter and the routers
  share one file system. The order in which a Go map is iterated, the clock, the errors of the
  context and the results the resolver delivers are parameters.
\<close>

section \<open>Requests and reports\<close>

record PipelineRequest =
  pq_DryRun :: bool
  pq_ForceResolve :: bool
  pq_SkipRouting :: bool

record PolicyReport =
  pr_Name :: string
  pr_Domains :: nat
  pr_Resolved :: nat
  pr_Failed :: nat
  pr_IPv4Out :: nat
  pr_IPv6Out :: nat
  pr_Duration :: int
  pr_RoutingSkipped :: bool
  pr_RoutingError :: string

record PipelineReport =
  rp_RunID :: "64 word"
  rp_Domains :: nat
  rp_Stale :: nat
  rp_Resolved :: nat
  rp_CacheHits :: nat
  rp_Failed :: nat
  rp_IPv4Out :: nat
  rp_IPv6Out :: nat
  rp_Duration :: int
  rp_Policies :: "PolicyReport list"

record RunStatus =
  rs_Running :: bool
  rs_RunID :: "64 word"
  rs_Started :: int
  rs_Report :: "PipelineReport option"

datatype pipeline_event =
    EvStart "64 word"
  | EvProgress "64 word" string nat nat nat nat
  | EvComplete PipelineReport
  | EvFailed "64 word"

section \<open>The agents and what they work on\<close>

record 'k agents =
  ag_env :: env
  ag_resolve :: "string list \<Rightarrow> ResolveResult list"
  ag_policyExp :: "string option"
  ag_policyRtr :: "CompositeRouter option"
  ag_runner :: "'k runner"
  ag_config :: Config
  ag_order :: "string list \<Rightarrow> string list"
  ag_now :: int
  ag_policy_ms :: "PolicyConfig \<Rightarrow> int"
  ag_duration :: int

record 'k world =
  wd_registry :: registry
  wd_cache :: "db conn"
  wd_kernel :: 'k

definition wd_fs :: "'k world \<Rightarrow> fs" where
  "wd_fs w = rg_fs (wd_registry w)"

definition set_fs :: "fs \<Rightarrow> 'k world \<Rightarrow> 'k world" where
  "set_fs s w = w\<lparr> wd_registry := (wd_registry w)\<lparr> rg_fs := s \<rparr> \<rparr>"

lemma wd_fs_set [simp]: "wd_fs (set_fs s w) = s" "wd_kernel (set_fs s w) = wd_kernel w" "wd_cache (set_fs s w) = wd_cache w"
  by (simp_all add: wd_fs_def set_fs_def)

definition on_fs :: "(fs \<Rightarrow> 'a \<times> fs) \<Rightarrow> 'k world \<Rightarrow> 'a \<times> 'k world" where
  "on_fs f w = (case f (wd_fs w) of (x, s) \<Rightarrow> (x, set_fs s w))"

definition on_sys :: "('k sys \<Rightarrow> 'a \<times> 'k sys) \<Rightarrow> 'k world \<Rightarrow> 'a \<times> 'k world" where
  "on_sys f w = (case f \<lparr> sys_fs = wd_fs w, sys_kernel = wd_kernel w \<rparr> of
     (x, s) \<Rightarrow> (x, (set_fs (sys_fs s) w)\<lparr> wd_kernel := sys_kernel s \<rparr>))"

section \<open>Categories and domains\<close>

fun split_categories :: "registry \<Rightarrow> string list \<Rightarrow> string list \<times> string list" where
  "split_categories r [] = ([], [])"
| "split_categories r (cat # cats) =
     (case split_categories r cats of (domainCats, prefixCats) \<Rightarrow>
        (case ResolveCategory r cat of
           None \<Rightarrow> (domainCats, prefixCats)
         | Some (_, catType) \<Rightarrow> if catType = ''domain'' then (cat # domainCats, prefixCats) else (domainCats, cat # prefixCats)))"

definition categorizePolicyCategories :: "'k agents \<Rightarrow> registry \<Rightarrow> Config \<Rightarrow> string list \<times> string list" where
  "categorizePolicyCategories ag r cfg =
     split_categories r (ag_order ag (remdups (concat (map pol_Categories (filter pol_Enabled (rt_Policies (Routing cfg)))))))"

text \<open>The keys of \<open>domainSet\<close>, ranged over in some order; a category that fails is skipped.\<close>

definition domains_of :: "'k agents \<Rightarrow> registry \<Rightarrow> string list \<Rightarrow> string list" where
  "domains_of ag r cats = ag_order ag (remdups (concat (map (\<lambda>cat.
     case reg_GetDomains (ag_env ag) r cat of Inl _ \<Rightarrow> [] | Inr ds \<Rightarrow> ds) cats)))"

definition prefixes_of :: "registry \<Rightarrow> string list \<Rightarrow> prefix list" where
  "prefixes_of r cats = concat (map (\<lambda>cat. case reg_GetPrefixes r cat of Inl _ \<Rightarrow> [] | Inr ps \<Rightarrow> ps) cats)"

section \<open>Resolution through the cache\<close>

definition to_cache :: "ResolveResult \<Rightarrow> cache_result" where
  "to_cache res = \<lparr> cr_Domain = r_Domain res, cr_IPv4 = r_IPv4 res, cr_IPv6 = r_IPv6 res,
     cr_Status = (if r_Status res = StatusFailed then CStatusFailed
                  else if r_Status res = StatusNXDomain then CStatusNXDomain else CStatusValid),
     cr_ResolvedAt = r_ResolvedAt res \<rparr>"

text \<open>The loop over the result channel: the results for the cache, both counters and the progress events.\<close>

fun drain :: "64 word \<Rightarrow> string \<Rightarrow> nat \<Rightarrow> ResolveResult list \<Rightarrow> nat \<Rightarrow> nat \<Rightarrow> nat \<Rightarrow>
    cache_result list \<times> nat \<times> nat \<times> pipeline_event list" where
  "drain runID name total_n [] resolved failed processed = ([], resolved, failed, [])"
| "drain runID name total_n (res # rs) resolved failed processed =
     (let resolved' = (if r_Status res = StatusValid then Suc resolved else resolved);
          failed' = (if r_Status res = StatusValid then failed else Suc failed);
          ev = (if Suc processed mod 10 = 0 \<or> Suc processed = total_n
                then [EvProgress runID name resolved' failed' total_n (Suc processed)] else [])
      in case drain runID name total_n rs resolved' failed' (Suc processed) of
           (results, ok, bad, evs) \<Rightarrow> (to_cache res # results, ok, bad, ev @ evs))"

definition resolve_stale :: "'k agents \<Rightarrow> 64 word \<Rightarrow> string \<Rightarrow> string list \<Rightarrow> db conn \<Rightarrow>
    (nat \<times> nat) result \<times> pipeline_event list \<times> db conn" where
  "resolve_stale ag runID name toResolve c =
     (if toResolve = [] then (Inr (0, 0), [], c)
      else case drain runID name (length toResolve) (ag_resolve ag toResolve) 0 0 0 of
        (results, ok, bad, evs) \<Rightarrow>
          (case UpsertBatch results c of
             (Inl e, c1) \<Rightarrow> (Inl (''cache upsert: '' @ e), evs, c1)
           | (Inr _, c1) \<Rightarrow> (Inr (ok, bad), evs, c1)))"

record policy_ips =
  pi_v4 :: "addr list"
  pi_v6 :: "addr list"
  pi_resolved :: nat
  pi_failed :: nat
  pi_stale :: nat
  pi_hits :: nat

definition stale_domains :: "'k agents \<Rightarrow> PipelineRequest \<Rightarrow> Config \<Rightarrow> string list \<Rightarrow> db conn \<Rightarrow>
    (string list \<times> nat \<times> nat) result \<times> db conn" where
  "stale_domains ag req cfg domains c =
     (if pq_ForceResolve req then (Inr (domains, length domains, 0), c)
      else case NeedsRefresh (ag_now ag) domains (cache_TTL (Cache cfg)) (cache_FailedTTL (Cache cfg)) c of
        (Inl e, c1) \<Rightarrow> (Inl (''cache check: '' @ e), c1)
      | (Inr stale, c1) \<Rightarrow> (Inr (stale, length stale, length domains - length stale), c1))"

definition policy_addresses :: "'k agents \<Rightarrow> 64 word \<Rightarrow> string \<Rightarrow> PipelineRequest \<Rightarrow> Config \<Rightarrow> string list \<Rightarrow> db conn \<Rightarrow>
    policy_ips result \<times> pipeline_event list \<times> db conn" where
  "policy_addresses ag runID name req cfg domains c =
     (if domains = [] then (Inr \<lparr> pi_v4 = [], pi_v6 = [], pi_resolved = 0, pi_failed = 0, pi_stale = 0, pi_hits = 0 \<rparr>, [], c)
      else case stale_domains ag req cfg domains c of
        (Inl e, c1) \<Rightarrow> (Inl e, [], c1)
      | (Inr (toResolve, staleCount, hits), c1) \<Rightarrow>
          (case resolve_stale ag runID name toResolve c1 of
             (Inl e, evs, c2) \<Rightarrow> (Inl e, evs, c2)
           | (Inr (ok, bad), evs, c2) \<Rightarrow>
               (case SnapshotForDomains domains c2 of
                  ((v4, v6, Some e), c3) \<Rightarrow> (Inl (''cache snapshot: '' @ e), evs, c3)
                | ((v4, v6, None), c3) \<Rightarrow>
                    (Inr \<lparr> pi_v4 = v4, pi_v6 = v6, pi_resolved = ok, pi_failed = bad, pi_stale = staleCount, pi_hits = hits \<rparr>, evs, c3))))"

section \<open>Aggregation\<close>

definition level_of :: "AggregationLevel \<Rightarrow> Aggressiveness" where
  "level_of l = (if l = AggOffLevel then AggOff else if l = AggConservativeLevel then AggConservative
     else if l = AggBalancedLevel then AggBalanced else if l = AggAggressiveLevel then AggAggressive else AggBalanced)"

definition policy_out :: "PolicyConfig \<Rightarrow> Aggressiveness \<Rightarrow> Config \<Rightarrow> addr list \<Rightarrow> addr list \<Rightarrow> prefix list \<times> prefix list" where
  "policy_out policy aggLevel cfg v4 v6 =
     (case pol_Aggregation policy of
        Some a \<Rightarrow>
          if agg_Enabled a then
            (AggregateV4 v4 (level_of (agg_Level a)) (agg_V4MaxPrefix a), AggregateV6 v6 (level_of (agg_Level a)) (agg_V6MaxPrefix a))
          else if agg_Enabled (Aggregation cfg) then
            (AggregateV4 v4 aggLevel (agg_V4MaxPrefix (Aggregation cfg)), AggregateV6 v6 aggLevel (agg_V6MaxPrefix (Aggregation cfg)))
          else (map (\<lambda>a. prefix_from a 32) v4, map (\<lambda>a. prefix_from a 128) v6)
      | None \<Rightarrow>
          if agg_Enabled (Aggregation cfg) then
            (AggregateV4 v4 aggLevel (agg_V4MaxPrefix (Aggregation cfg)), AggregateV6 v6 aggLevel (agg_V6MaxPrefix (Aggregation cfg)))
          else (map (\<lambda>a. prefix_from a 32) v4, map (\<lambda>a. prefix_from a 128) v6))"

section \<open>One policy\<close>

definition policy_report :: "PolicyConfig \<Rightarrow> nat \<Rightarrow> policy_ips \<Rightarrow> nat \<Rightarrow> nat \<Rightarrow> PolicyReport" where
  "policy_report policy n ips v4 v6 = \<lparr> pr_Name = pol_Name policy, pr_Domains = n, pr_Resolved = pi_resolved ips, pr_Failed = pi_failed ips,
     pr_IPv4Out = v4, pr_IPv6Out = v6, pr_Duration = 0, pr_RoutingSkipped = False, pr_RoutingError = [] \<rparr>"

text \<open>The report with the counts of stale and of cached domains; the caller sets its duration.\<close>

definition runPolicy :: "'k agents \<Rightarrow> CompositeRouter \<Rightarrow> string \<Rightarrow> 64 word \<Rightarrow> PolicyConfig \<Rightarrow> PipelineRequest \<Rightarrow> Aggressiveness \<Rightarrow>
    Config \<Rightarrow> 'k world \<Rightarrow> (PolicyReport \<times> nat \<times> nat) result \<times> pipeline_event list \<times> 'k world" where
  "runPolicy ag rtr baseDir runID policy req aggLevel cfg w =
     (let reg = wd_registry w in
      case split_categories reg (pol_Categories policy) of (domainCats, prefixCats) \<Rightarrow>
      let policyDomains = domains_of ag reg domainCats in
      case policy_addresses ag runID (pol_Name policy) req cfg policyDomains (wd_cache w) of
        (Inl e, evs, c) \<Rightarrow> (Inl e, evs, w\<lparr> wd_cache := c \<rparr>)
      | (Inr ips, evs, c) \<Rightarrow>
          let w1 = w\<lparr> wd_cache := c \<rparr>; ps = prefixes_of reg prefixCats in
          case policy_out policy aggLevel cfg (pi_v4 ips) (pi_v6 ips) of (agg4, agg6) \<Rightarrow>
          let v4Out = agg4 @ filter (\<lambda>p. is4 (paddr p)) ps;
              v6Out = agg6 @ filter (\<lambda>p. \<not> is4 (paddr p)) ps;
              report = policy_report policy (length policyDomains) ips in
          case on_sys (composite_Caps (ag_runner ag) rtr policy) w1 of
            (Some e, w2) \<Rightarrow>
              (Inr ((report (length v4Out) (length v6Out))\<lparr> pr_RoutingSkipped := True, pr_RoutingError := e \<rparr>, pi_stale ips, pi_hits ips), evs, w2)
          | (None, w2) \<Rightarrow>
              if pq_DryRun req \<or> pol_DryRun policy then
                (Inr (report (length v4Out) (length v6Out), pi_stale ips, pi_hits ips), evs, w2)
              else case on_fs (WritePolicy baseDir policy v4Out v6Out) w2 of
                (Inl e, w3) \<Rightarrow> (Inl e, evs, w3)
              | (Inr expReport, w3) \<Rightarrow>
                  if pq_SkipRouting req then
                    (Inr (report (pe_IPv4Count expReport) (pe_IPv6Count expReport), pi_stale ips, pi_hits ips), evs, w3)
                  else case on_sys (composite_ApplyPolicy (ag_runner ag) rtr (ag_now ag) policy v4Out v6Out) w3 of
                    (Some e, w4) \<Rightarrow> (Inl e, evs, w4)
                  | (None, w4) \<Rightarrow>
                      (Inr (report (pe_IPv4Count expReport) (pe_IPv6Count expReport), pi_stale ips, pi_hits ips), evs, w4))"

section \<open>All policies\<close>

definition failed_report :: "PolicyConfig \<Rightarrow> PolicyReport" where
  "failed_report policy = \<lparr> pr_Name = pol_Name policy, pr_Domains = 0, pr_Resolved = 0, pr_Failed = 0, pr_IPv4Out = 0, pr_IPv6Out = 0,
     pr_Duration = 0, pr_RoutingSkipped = False, pr_RoutingError = [] \<rparr>"

definition add_policy :: "PolicyReport \<Rightarrow> nat \<Rightarrow> nat \<Rightarrow> PipelineReport \<Rightarrow> PipelineReport" where
  "add_policy p stale hits report = report\<lparr> rp_Policies := rp_Policies report @ [p],
     rp_Resolved := rp_Resolved report + pr_Resolved p, rp_Failed := rp_Failed report + pr_Failed p,
     rp_IPv4Out := rp_IPv4Out report + pr_IPv4Out p, rp_IPv6Out := rp_IPv6Out report + pr_IPv6Out p,
     rp_Stale := rp_Stale report + stale, rp_CacheHits := rp_CacheHits report + hits \<rparr>"

text \<open>A policy that fails is reported by its name and the loop goes on.\<close>

fun run_policies :: "'k agents \<Rightarrow> CompositeRouter \<Rightarrow> string \<Rightarrow> 64 word \<Rightarrow> PipelineRequest \<Rightarrow> Aggressiveness \<Rightarrow> Config \<Rightarrow>
    PolicyConfig list \<Rightarrow> PipelineReport \<Rightarrow> 'k world \<Rightarrow> PipelineReport \<times> pipeline_event list \<times> 'k world" where
  "run_policies ag rtr baseDir runID req aggLevel cfg [] report w = (report, [], w)"
| "run_policies ag rtr baseDir runID req aggLevel cfg (policy # policies) report w =
     (if \<not> pol_Enabled policy then run_policies ag rtr baseDir runID req aggLevel cfg policies report w
      else case runPolicy ag rtr baseDir runID policy req aggLevel cfg w of
        (r, evs, w1) \<Rightarrow>
          (case run_policies ag rtr baseDir runID req aggLevel cfg policies
              (case r of
                 Inl e \<Rightarrow> report\<lparr> rp_Policies := rp_Policies report @ [(failed_report policy)\<lparr> pr_Duration := ag_policy_ms ag policy \<rparr>] \<rparr>
               | Inr (p, stale, hits) \<Rightarrow> add_policy (p\<lparr> pr_Duration := ag_policy_ms ag policy \<rparr>) stale hits report) w1 of
             (report', evs', w2) \<Rightarrow> (report', evs @ evs', w2)))"

definition new_report :: "64 word \<Rightarrow> PipelineReport" where
  "new_report runID = \<lparr> rp_RunID = runID, rp_Domains = 0, rp_Stale = 0, rp_Resolved = 0, rp_CacheHits = 0, rp_Failed = 0, rp_IPv4Out = 0,
     rp_IPv6Out = 0, rp_Duration = 0, rp_Policies = [] \<rparr>"

text \<open>
  The part of \<open>Run\<close> between the publication of the status and the end: \<open>ctx k\<close> is the error of the
  context at its \<open>k\<close>-th check.
\<close>

definition pipeline_body :: "'k agents \<Rightarrow> 64 word \<Rightarrow> PipelineRequest \<Rightarrow> (nat \<Rightarrow> error option) \<Rightarrow> 'k world \<Rightarrow>
    (PipelineReport \<times> error option \<times> pipeline_event list \<times> 'k world) run" where
  "pipeline_body ag runID req ctx w =
     (let report = new_report runID in
      case LoadAll (ag_env ag) (wd_registry w) of
        Panics e \<Rightarrow> Panics e
      | Returns (Some e, reg) \<Rightarrow> Returns (report, Some (''source load: '' @ e), [], w\<lparr> wd_registry := reg \<rparr>)
      | Returns (None, reg) \<Rightarrow>
          let w1 = w\<lparr> wd_registry := reg \<rparr> in
          (case ctx 0 of
             Some e \<Rightarrow> Returns (report, Some e, [], w1)
           | None \<Rightarrow>
               let cfg = ag_config ag;
                   report1 = report\<lparr> rp_Domains := length (domains_of ag reg (fst (categorizePolicyCategories ag reg cfg))) \<rparr> in
               (case ctx 1 of
                  Some e \<Rightarrow> Returns (report1, Some e, [], w1)
                | None \<Rightarrow>
                    (case (case (rt_Policies (Routing cfg), ag_policyRtr ag, ag_policyExp ag) of
                        (p # ps, Some rtr, Some baseDir) \<Rightarrow>
                          run_policies ag rtr baseDir runID req (level_of (agg_Level (Aggregation cfg))) cfg (p # ps) report1 w1
                      | _ \<Rightarrow> (report1, [], w1)) of
                       (report2, evs, w2) \<Rightarrow> Returns (report2\<lparr> rp_Duration := ag_duration ag \<rparr>, None, evs, w2)))))"

end
