(* ===== verification/Orchestrator_Props.thy ===== *)
theory Orchestrator_Props
  imports Orchestrator
begin

text \<open>
  What a run of the pipeline promises: \<open>runPolicy\<close> cut at the capability check, what a policy
  exports, what its report counts, that a dry run is safe, and that a run reports every policy.
\<close>

section \<open>Helpers\<close>

lemma wd_fs_update [simp]: "wd_fs (w\<lparr> wd_cache := c \<rparr>) = wd_fs w" "wd_fs (w\<lparr> wd_kernel := k \<rparr>) = wd_fs w"
  by (simp_all add: wd_fs_def)

lemma caps_fs: "composite_Caps run rtr policy s = (e, s') \<Longrightarrow> sys_fs s' = sys_fs s"
  by (auto simp: composite_Caps_def iproute2_Caps_def nft_Caps_def split: prod.splits option.splits if_splits)

text \<open>The world that is left by the part of \<open>runPolicy\<close> before the routers.\<close>

definition policy_domains :: "'k agents \<Rightarrow> PolicyConfig \<Rightarrow> registry \<Rightarrow> string list" where
  "policy_domains ag policy reg = domains_of ag reg (fst (split_categories reg (pol_Categories policy)))"

definition policy_prefixes :: "PolicyConfig \<Rightarrow> registry \<Rightarrow> prefix list" where
  "policy_prefixes policy reg = prefixes_of reg (snd (split_categories reg (pol_Categories policy)))"

definition outputs :: "PolicyConfig \<Rightarrow> Aggressiveness \<Rightarrow> Config \<Rightarrow> policy_ips \<Rightarrow> prefix list \<Rightarrow> prefix list \<times> prefix list" where
  "outputs policy aggLevel cfg ips ps = (case policy_out policy aggLevel cfg (pi_v4 ips) (pi_v6 ips) of
     (agg4, agg6) \<Rightarrow> (agg4 @ filter (\<lambda>p. is4 (paddr p)) ps, agg6 @ filter (\<lambda>p. \<not> is4 (paddr p)) ps))"

text \<open>The last part of \<open>runPolicy\<close>: from the capability check on.\<close>

definition finish_policy :: "'k agents \<Rightarrow> CompositeRouter \<Rightarrow> string \<Rightarrow> PolicyConfig \<Rightarrow> PipelineRequest \<Rightarrow> (nat \<Rightarrow> nat \<Rightarrow> PolicyReport) \<Rightarrow>
    prefix list \<Rightarrow> prefix list \<Rightarrow> 'k world \<Rightarrow> PolicyReport result \<times> 'k world" where
  "finish_policy ag rtr baseDir policy req report v4Out v6Out w1 =
     (case on_sys (composite_Caps (ag_runner ag) rtr policy) w1 of
        (Some e, w2) \<Rightarrow> (Inr ((report (length v4Out) (length v6Out))\<lparr> pr_RoutingSkipped := True, pr_RoutingError := e \<rparr>), w2)
      | (None, w2) \<Rightarrow>
          if pq_DryRun req \<or> pol_DryRun policy then (Inr (report (length v4Out) (length v6Out)), w2)
          else case on_fs (WritePolicy baseDir policy v4Out v6Out) w2 of
            (Inl e, w3) \<Rightarrow> (Inl e, w3)
          | (Inr expReport, w3) \<Rightarrow>
              if pq_SkipRouting req then (Inr (report (pe_IPv4Count expReport) (pe_IPv6Count expReport)), w3)
              else case on_sys (composite_ApplyPolicy (ag_runner ag) rtr (ag_now ag) policy v4Out v6Out) w3 of
                (Some e, w4) \<Rightarrow> (Inl e, w4)
              | (None, w4) \<Rightarrow> (Inr (report (pe_IPv4Count expReport) (pe_IPv6Count expReport)), w4))"

lemma runPolicy_parts:
  "runPolicy ag rtr baseDir runID policy req aggLevel cfg w =
     (case policy_addresses ag runID (pol_Name policy) req cfg (policy_domains ag policy (wd_registry w)) (wd_cache w) of
        (Inl e, evs, c) \<Rightarrow> (Inl e, evs, w\<lparr> wd_cache := c \<rparr>)
      | (Inr ips, evs, c) \<Rightarrow>
          (case outputs policy aggLevel cfg ips (policy_prefixes policy (wd_registry w)) of (v4Out, v6Out) \<Rightarrow>
             (case finish_policy ag rtr baseDir policy req (policy_report policy (length (policy_domains ag policy (wd_registry w))) ips)
                v4Out v6Out (w\<lparr> wd_cache := c \<rparr>) of
                (r, w') \<Rightarrow> (map_sum id (\<lambda>p. (p, pi_stale ips, pi_hits ips)) r, evs, w'))))"
  by (simp add: runPolicy_def policy_domains_def policy_prefixes_def outputs_def finish_policy_def Let_def
      split: prod.split sum.split option.split)

lemma finish_report:
  assumes "finish_policy ag rtr baseDir policy req (policy_report policy n ips) v4 v6 w1 = (Inr pr, w')"
  shows "pr_Name pr = pol_Name policy \<and> pr_Domains pr = n \<and> pr_Resolved pr = pi_resolved ips \<and> pr_Failed pr = pi_failed ips \<and>
    pr_IPv4Out pr = length v4 \<and> pr_IPv6Out pr = length v6"
  using assms
  by (auto simp: finish_policy_def policy_report_def on_fs_def WritePolicy_def Let_def split: prod.splits option.splits sum.splits if_splits)

section \<open>What reaches the routers and the files\<close>

lemma split_rows_mem:
  "set (fst (split_rows rows)) \<union> set (snd (split_rows rows)) = {a. \<exists>name ip ty. (name, ip, ty) \<in> set rows \<and> ParseAddr ip = Inr a}"
proof (induction rows rule: split_rows.induct)
  case (2 name ip ty rows)
  obtain v4 v6 where s: "split_rows rows = (v4, v6)" by (rule prod.exhaust)
  show ?case
  proof (cases "ParseAddr ip")
    case (Inl e)
    with 2 s show ?thesis by auto
  next
    case (Inr a)
    have "set (fst (split_rows ((name, ip, ty) # rows))) \<union> set (snd (split_rows ((name, ip, ty) # rows))) = insert a (set v4 \<union> set v6)"
      by (simp add: s Inr)
    also have "\<dots> = {a. \<exists>n i t. (n, i, t) \<in> set ((name, ip, ty) # rows) \<and> ParseAddr i = Inr a}"
      using 2 s Inr by auto
    finally show ?thesis .
  qed
qed simp

lemma split_rows_v6: "a \<in> set (snd (split_rows rows)) \<Longrightarrow> \<not> is4 a"
  by (induction rows rule: split_rows.induct) (auto split: prod.splits sum.splits if_splits)

lemma record_view_row:
  assumes "record_view d (name, ip, ty) = Some (t, st)"
  shows "\<exists>r dr. r \<in> set (tb_records d) \<and> dr \<in> set (tb_domains d) \<and> dr_name dr = name \<and> rr_domain r = dr_id dr \<and>
    rr_ip r = ip \<and> rr_type r = ty \<and> rr_status r = st"
  using assms
  by (force simp: record_view_def rec_map_def rr_key_def dom_id_def split: option.splits dest!: map_of_SomeD)

lemma SnapshotForDomains_mem:
  assumes "SnapshotForDomains domains c = ((v4, v6, None), c')" and "name \<in> set domains" and "is_valid a"
    and "record_view (cn_db c) (name, addr_string a, ty) = Some (t, ''valid'')"
  shows "a \<in> set v4 \<union> set v6"
proof -
  from assms(1,2) obtain rows where q: "query (length domains + 1) (select_joined domains) c = (Inr (rows, False), c')"
    and s: "split_rows rows = (v4, v6)"
    by (auto simp: SnapshotForDomains_def split: if_splits prod.splits sum.splits)
  have rows: "rows = select_joined domains (cn_db c)" using q by (rule query_full)
  obtain r dr where "r \<in> set (tb_records (cn_db c))" "dr \<in> set (tb_domains (cn_db c))" "dr_name dr = name" "rr_domain r = dr_id dr"
      "rr_ip r = addr_string a" "rr_status r = ''valid''"
    using record_view_row [OF assms(4)] by blast
  with assms(2) have "(name, addr_string a, rr_type r) \<in> set rows" unfolding rows select_joined_def by force
  with split_rows_mem [of rows] s ParseAddr_addr_string [OF assms(3)] show ?thesis by force
qed

lemma SnapshotForDomains_db: "SnapshotForDomains domains c = (r, c') \<Longrightarrow> cn_db c' = cn_db c"
  by (auto simp: SnapshotForDomains_def split: if_splits prod.splits sum.splits dest: query_db_eq)

lemma SnapshotForDomains_v6: "SnapshotForDomains domains c = ((v4, v6, e), c') \<Longrightarrow> a \<in> set v6 \<Longrightarrow> \<not> is4 a"
  by (auto simp: SnapshotForDomains_def split: if_splits prod.splits sum.splits) (metis snd_conv split_rows_v6)+

lemma policy_addresses_mem:
  assumes "policy_addresses ag runID name req cfg domains c = (Inr ips, evs, c')" and "n \<in> set domains" and "is_valid a"
    and "record_view (cn_db c') (n, addr_string a, ty) = Some (t, ''valid'')"
  shows "a \<in> set (pi_v4 ips) \<union> set (pi_v6 ips)"
proof -
  from assms(1,2) obtain c2 v4 v6 where s: "SnapshotForDomains domains c2 = ((v4, v6, None), c')" and "pi_v4 ips = v4" "pi_v6 ips = v6"
    by (auto simp: policy_addresses_def split: if_splits prod.splits sum.splits option.splits)
  with SnapshotForDomains_mem [OF s assms(2,3)] SnapshotForDomains_db [OF s] assms(4) show ?thesis by simp
qed

lemma covers_single: "is_valid a \<Longrightarrow> 0 \<le> n \<Longrightarrow> n \<le> int (bit_len a) \<Longrightarrow> covers (prefix_from a n) a"
  by (simp add: covers_def prefix_from_def)

lemma policy_out_covers:
  assumes "a \<in> set v4 \<union> set v6" and "is_valid a" and "\<And>b. b \<in> set v6 \<Longrightarrow> \<not> is4 b"
    and "policy_out policy l cfg v4 v6 = (agg4, agg6)"
  shows "a \<in> covered (agg4 @ agg6)"
proof -
  have agg: "\<exists>p\<in>set (Aggregate as thr mp). covers p a" if "a \<in> set as" for as thr mp
    using fam_covers [OF in_family [OF assms(2) that]] in_Aggregate by blast
  have v4: "\<exists>p\<in>set (map (\<lambda>a. prefix_from a 32) v4). covers p a" if "a \<in> set v4"
    using covers_single [OF assms(2), of 32] that assms(2) by (cases a) force+
  have v6: "\<exists>p\<in>set (map (\<lambda>a. prefix_from a 128) v6). covers p a" if "a \<in> set v6"
    using covers_single [OF assms(2), of 128] that assms(2,3) by (cases a) force+
  have "(\<exists>p\<in>set agg4. covers p a) \<or> (\<exists>p\<in>set agg6. covers p a)"
    using assms(1,4) agg [of v4] agg [of v6] v4 v6
    by (auto simp: policy_out_def AggregateV4_def AggregateV6_def simp del: set_map split: option.splits if_splits)
  then show ?thesis by (auto simp: covered_def)
qed

lemma apply_other_file:
  assumes "composite_ApplyPolicy run rtr now policy v4 v6 s = (r, s')"
    and "q \<noteq> policyStatePath (cr_stateDir rtr) (pol_Name policy)" "q \<noteq> policyStatePath (cr_stateDir rtr) (pol_Name policy) @ ''.tmp''"
  shows "fs_files (sys_fs s') q = fs_files (sys_fs s) q"
proof (cases "pol_Backend policy = BackendIProute2 \<or> pol_Backend policy = BackendNFTables")
  case True
  with assms(1) have "iproute2_ApplyPolicy run (cr_stateDir rtr) now policy v4 v6 s = (r, s') \<or>
      nft_ApplyPolicy run (cr_stateDir rtr) now policy v4 v6 s = (r, s')"
    by (auto simp: composite_ApplyPolicy_def split: if_splits)
  then show ?thesis
  proof (cases rule: apply_cases)
    case (2 b)
    let ?p = "policyStatePath (cr_stateDir rtr) (pol_Name policy)"
    have "fs_files (snd (saveState ?p st f)) q = fs_files f q" for st f
      using assms(2,3) by (auto simp: saveState_def replace_file_other split: option.splits)
    from this [of _ "sys_fs s"] show ?thesis using 2 by (auto simp: savePolicyState_def split: option.splits) (metis snd_conv)+
  qed simp
next
  case False
  with assms(1) show ?thesis by (auto simp: composite_ApplyPolicy_def split: if_splits)
qed

text \<open>The files of a policy that has been exported, whether or not it is then routed.\<close>

definition exported :: "string \<Rightarrow> PolicyConfig \<Rightarrow> prefix list \<Rightarrow> prefix list \<Rightarrow> fs \<Rightarrow> bool" where
  "exported baseDir policy v4 v6 s \<longleftrightarrow>
     fs_files s (export_path baseDir policy ''ipv4'') = Some (formatPrefixesForPolicy (export_format policy) (pol_Name policy) v4 ''v4'') \<and>
     fs_files s (export_path baseDir policy ''ipv6'') = Some (formatPrefixesForPolicy (export_format policy) (pol_Name policy) v6 ''v6'')"

definition paths_apart :: "string \<Rightarrow> CompositeRouter \<Rightarrow> PolicyConfig \<Rightarrow> bool" where
  "paths_apart baseDir rtr policy \<longleftrightarrow>
     {export_path baseDir policy ''ipv4'', export_path baseDir policy ''ipv6''} \<inter>
     {policyStatePath (cr_stateDir rtr) (pol_Name policy), policyStatePath (cr_stateDir rtr) (pol_Name policy) @ ''.tmp''} = {}"

lemma WritePolicy_exported:
  assumes "WritePolicy baseDir policy v4 v6 s = (Inr r, s')"
  shows "exported baseDir policy v4 v6 s'"
proof -
  have neq: "export_path baseDir policy ''ipv4'' \<noteq> export_path baseDir policy ''ipv6''" by (simp add: export_path_def Join_def)
  with assms show ?thesis
    by (auto simp: WritePolicy_def Let_def exported_def split: option.splits prod.splits dest!: WriteFile_ok)
qed

lemma finish_exported:
  assumes "finish_policy ag rtr baseDir policy req (policy_report policy n ips) v4 v6 w1 = (Inr pr, w')"
    and "\<not> pr_RoutingSkipped pr" and "\<not> pq_DryRun req" and "\<not> pol_DryRun policy" and "paths_apart baseDir rtr policy"
  shows "exported baseDir policy v4 v6 (wd_fs w')"
proof -
  obtain e w2 where c: "on_sys (composite_Caps (ag_runner ag) rtr policy) w1 = (e, w2)" by (rule prod.exhaust)
  have e: "e = None" using assms(1,2) c by (cases e) (auto simp: finish_policy_def policy_report_def)
  obtain x w3 where w: "on_fs (WritePolicy baseDir policy v4 v6) w2 = (x, w3)" by (rule prod.exhaust)
  then obtain rep where rep: "x = Inr rep" using assms(1,3,4) c e by (cases x) (auto simp: finish_policy_def)
  have ex: "exported baseDir policy v4 v6 (wd_fs w3)"
    using w rep WritePolicy_exported by (auto simp: on_fs_def split: prod.splits)
  show ?thesis
  proof (cases "pq_SkipRouting req")
    case True
    with assms(1,3,4) c e w rep ex show ?thesis by (auto simp: finish_policy_def)
  next
    case False
    obtain y w4 where a: "on_sys (composite_ApplyPolicy (ag_runner ag) rtr (ag_now ag) policy v4 v6) w3 = (y, w4)" by (rule prod.exhaust)
    with assms(1,3,4) c e w rep False have w': "w' = w4" by (auto simp: finish_policy_def split: option.splits)
    obtain s' where "composite_ApplyPolicy (ag_runner ag) rtr (ag_now ag) policy v4 v6 \<lparr> sys_fs = wd_fs w3, sys_kernel = wd_kernel w3 \<rparr> = (y, s')"
        "wd_fs w4 = sys_fs s'"
      using a by (auto simp: on_sys_def split: prod.splits)
    with apply_other_file [of _ _ _ policy] ex assms(5) show ?thesis
      unfolding w' exported_def paths_apart_def by fastforce
  qed
qed

lemma finish_cache:
  "finish_policy ag rtr baseDir policy req report v4 v6 w1 = (r, w') \<Longrightarrow> wd_cache w' = wd_cache w1"
  by (auto simp: finish_policy_def on_sys_def on_fs_def split: prod.splits option.splits sum.splits if_splits)

lemma policy_addresses_v6:
  assumes "policy_addresses ag runID name req cfg domains c = (Inr ips, evs, c')" and "b \<in> set (pi_v6 ips)"
  shows "\<not> is4 b"
proof (cases "domains = []")
  case True
  with assms show ?thesis by (auto simp: policy_addresses_def)
next
  case False
  with assms obtain c2 v4 where "SnapshotForDomains domains c2 = ((v4, pi_v6 ips, None), c')"
    by (auto simp: policy_addresses_def split: prod.splits sum.splits option.splits)
  then show ?thesis using assms(2) by (rule SnapshotForDomains_v6)
qed

section \<open>Properties of one policy\<close>

text \<open>
  C3: a policy that was run, not dry and with its backend available, leaves its two files exported,
  whether or not routes are applied after that; together the two lists cover every valid address
  the cache holds at the end for a domain of the policy and contain every prefix of its prefix
  categories, and the report counts them.
\<close>

theorem policy_export_complete:
  assumes "runPolicy ag rtr baseDir runID policy req aggLevel cfg w = (Inr (pr, stale, hits), evs, w')"
    and "\<not> pr_RoutingSkipped pr" and "\<not> pq_DryRun req" and "\<not> pol_DryRun policy" and "paths_apart baseDir rtr policy"
  shows "\<exists>v4 v6. exported baseDir policy v4 v6 (wd_fs w') \<and> pr_IPv4Out pr = length v4 \<and> pr_IPv6Out pr = length v6 \<and>
    set (policy_prefixes policy (wd_registry w)) \<subseteq> set (v4 @ v6) \<and>
    {a. is_valid a \<and> (\<exists>n\<in>set (policy_domains ag policy (wd_registry w)). \<exists>ty t.
       record_view (cn_db (wd_cache w')) (n, addr_string a, ty) = Some (t, ''valid''))} \<subseteq> covered (v4 @ v6)"
proof -
  let ?ds = "policy_domains ag policy (wd_registry w)" and ?ps = "policy_prefixes policy (wd_registry w)"
  obtain ips c v4 v6 where p: "policy_addresses ag runID (pol_Name policy) req cfg ?ds (wd_cache w) = (Inr ips, evs, c)"
    and o: "outputs policy aggLevel cfg ips ?ps = (v4, v6)"
    and f: "finish_policy ag rtr baseDir policy req (policy_report policy (length ?ds) ips) v4 v6 (w\<lparr> wd_cache := c \<rparr>) = (Inr pr, w')"
    using assms(1) unfolding runPolicy_parts
    by (auto split: prod.splits sum.splits simp: map_sum_def)
  obtain agg4 agg6 where agg: "policy_out policy aggLevel cfg (pi_v4 ips) (pi_v6 ips) = (agg4, agg6)" by (rule prod.exhaust)
  have v: "v4 = agg4 @ filter (\<lambda>p. is4 (paddr p)) ?ps" "v6 = agg6 @ filter (\<lambda>p. \<not> is4 (paddr p)) ?ps"
    using o agg by (simp_all add: outputs_def)
  have cache: "wd_cache w' = c"
    using finish_cache [OF f] by simp
  have not4: "\<not> is4 b" if "b \<in> set (pi_v6 ips)" for b
    using policy_addresses_v6 [OF p that] .
  have "a \<in> covered (v4 @ v6)" if "is_valid a" "n \<in> set ?ds" "record_view (cn_db (wd_cache w')) (n, addr_string a, ty) = Some (t, ''valid'')" for a n ty t
  proof -
    have "a \<in> set (pi_v4 ips) \<union> set (pi_v6 ips)"
      by (rule policy_addresses_mem [OF p that(2,1)]) (use that(3) cache in simp)
    from policy_out_covers [OF this that(1) not4 agg] show ?thesis by (auto simp: v covered_def)
  qed
  moreover have "set ?ps \<subseteq> set (v4 @ v6)" by (auto simp: v)
  ultimately show ?thesis
    using finish_exported [OF f assms(2-5)] finish_report [OF f] by blast
qed

section \<open>Counts\<close>

text \<open>A batch the resolver has delivered in full, without having been cancelled or closed.\<close>

definition complete_batch :: "(string \<Rightarrow> ResolveResult \<Rightarrow> bool) \<Rightarrow> nat \<Rightarrow> string list \<Rightarrow> ResolveResult list \<Rightarrow> bool" where
  "complete_batch res n domains out \<longleftrightarrow>
     (\<exists>p. pool_reachable res n domains p \<and> p_resClosed p \<and> p_resultCh p = [] \<and> \<not> aborting p \<and> p_out p = out)"

lemma complete_batch_length:
  assumes "complete_batch res n domains out" and "\<And>d r. res d r \<Longrightarrow> r_Domain r = d" and "0 < n"
  shows "length out = length domains"
proof -
  from assms(1) obtain p where p: "pool_reachable res n domains p" "p_resClosed p" "p_resultCh p = []" "\<not> aborting p" "p_out p = out"
    unfolding complete_batch_def by blast
  have "pool_inv n domains p" by (rule pool_reachable_inv [OF assms(2) p(1)])
  from pool_complete [OF this p(2,3) assms(3) p(4)] p(5) show ?thesis by (metis length_map size_mset)
qed

lemma drain_ok:
  "drain runID name k rs resolved failed processed = (results, ok, bad, evs) \<Longrightarrow>
     results = map to_cache rs \<and> ok + bad = resolved + failed + length rs"
proof (induction runID name k rs resolved failed processed arbitrary: results ok bad evs rule: drain.induct)
  case (2 runID name k res rs resolved failed processed)
  let ?r = "if r_Status res = StatusValid then Suc resolved else resolved" and ?f = "if r_Status res = StatusValid then failed else Suc failed"
  obtain results1 ok1 bad1 evs1 where d: "drain runID name k rs ?r ?f (Suc processed) = (results1, ok1, bad1, evs1)"
    by (metis prod_cases4)
  note ih = "2.IH" [OF refl refl refl d]
  from "2.prems" d have "results = to_cache res # results1" "ok = ok1" "bad = bad1" by (auto simp: Let_def)
  with ih show ?case by simp
qed simp

lemma mset_same_length: "\<forall>xs. mset (f xs) = mset xs \<Longrightarrow> set (f xs) = set xs \<and> length (f xs) = length xs \<and> (distinct (f xs) \<longleftrightarrow> distinct xs)"
  by (metis mset_eq_imp_distinct_iff mset_eq_length mset_eq_setD)

lemma policy_domains_distinct:
  "\<forall>xs. mset (ag_order ag xs) = mset xs \<Longrightarrow> distinct (policy_domains ag policy reg)"
  unfolding policy_domains_def domains_of_def using mset_same_length [of "ag_order ag"] by simp

lemma stale_counts:
  assumes "stale_domains ag req cfg domains c = (Inr (toResolve, staleCount, hits), c')" and "cache_wf (cn_db c)"
    and "\<not> pq_ForceResolve req" and "distinct domains"
  shows "staleCount = length toResolve \<and> staleCount + hits = length domains \<and>
    staleCount = card {d \<in> set domains. stale_at (ag_now ag) (cache_TTL (Cache cfg)) (cache_FailedTTL (Cache cfg)) (domain_view (cn_db c) d)}"
proof -
  from assms(1,3) have nr: "NeedsRefresh (ag_now ag) domains (cache_TTL (Cache cfg)) (cache_FailedTTL (Cache cfg)) c = (Inr toResolve, c')"
    and n: "staleCount = length toResolve" "hits = length domains - length toResolve"
    by (auto simp: stale_domains_def split: prod.splits sum.splits)
  let ?S = "{d \<in> set domains. stale_at (ag_now ag) (cache_TTL (Cache cfg)) (cache_FailedTTL (Cache cfg)) (domain_view (cn_db c) d)}"
  have "toResolve = sorted_list_of_set ?S" by (rule needs_refresh_ok [OF assms(2) nr])
  then have len: "length toResolve = card ?S" by simp
  have "card ?S \<le> card (set domains)" by (rule card_mono) auto
  with assms(4) have "card ?S \<le> length domains" by (simp add: distinct_card)
  with len n show ?thesis by simp
qed

text \<open>
  the counts of a policy's report add up. When every batch handed to the resolver is delivered
  in full and nothing is forced, as many results are resolved or failed as there were stale
  domains, the stale domains are exactly those the freshness rules name, and the others are cache
  hits.
\<close>

theorem policy_counts:
  assumes "runPolicy ag rtr baseDir runID policy req aggLevel cfg w = (Inr (pr, stale, hits), evs, w')"
    and "cache_wf (cn_db (wd_cache w))" and "\<not> pq_ForceResolve req" and "\<forall>xs. mset (ag_order ag xs) = mset xs"
    and "0 < n" and "\<forall>ds. complete_batch (may_resolve exchange wait now rcfg) n ds (ag_resolve ag ds)"
  shows "pr_Resolved pr + pr_Failed pr = stale \<and> stale + hits = pr_Domains pr \<and>
    stale = card {d \<in> set (policy_domains ag policy (wd_registry w)).
      stale_at (ag_now ag) (cache_TTL (Cache cfg)) (cache_FailedTTL (Cache cfg)) (domain_view (cn_db (wd_cache w)) d)}"
proof -
  let ?ds = "policy_domains ag policy (wd_registry w)"
  obtain ips c v4 v6 where p: "policy_addresses ag runID (pol_Name policy) req cfg ?ds (wd_cache w) = (Inr ips, evs, c)"
    and f: "finish_policy ag rtr baseDir policy req (policy_report policy (length ?ds) ips) v4 v6 (w\<lparr> wd_cache := c \<rparr>) = (Inr pr, w')"
    and n: "stale = pi_stale ips" "hits = pi_hits ips"
    using assms(1) unfolding runPolicy_parts
    by (auto split: prod.splits sum.splits simp: map_sum_def)
  show ?thesis
  proof (cases "?ds = []")
    case True
    with p have "ips = \<lparr> pi_v4 = [], pi_v6 = [], pi_resolved = 0, pi_failed = 0, pi_stale = 0, pi_hits = 0 \<rparr>"
      by (auto simp: policy_addresses_def)
    with True n finish_report [OF f] show ?thesis by simp
  next
    case False
    with p obtain toResolve staleCount h c1 ok bad evs1 c2 where
        s: "stale_domains ag req cfg ?ds (wd_cache w) = (Inr (toResolve, staleCount, h), c1)"
      and r: "resolve_stale ag runID (pol_Name policy) toResolve c1 = (Inr (ok, bad), evs1, c2)"
      and ips: "pi_resolved ips = ok" "pi_failed ips = bad" "pi_stale ips = staleCount" "pi_hits ips = h"
      by (auto simp: policy_addresses_def split: prod.splits sum.splits option.splits)
    have "ok + bad = length toResolve"
    proof (cases "toResolve = []")
      case True
      with r show ?thesis by (simp add: resolve_stale_def)
    next
      case False
      obtain results ok1 bad1 evs2 where d: "drain runID (pol_Name policy) (length toResolve) (ag_resolve ag toResolve) 0 0 0 = (results, ok1, bad1, evs2)"
        by (metis prod_cases4)
      with r False have "ok = ok1" "bad = bad1" by (auto simp: resolve_stale_def split: prod.splits sum.splits)
      moreover have "length (ag_resolve ag toResolve) = length toResolve"
        using assms(6) by (intro complete_batch_length [OF _ may_resolve_domain assms(5)]) blast
      ultimately show ?thesis using drain_ok [OF d] by simp
    qed
    with stale_counts [OF s assms(2,3) policy_domains_distinct [OF assms(4)]] n ips finish_report [OF f] show ?thesis by simp
  qed
qed

text \<open>
  C21: a dry run, of the request or of the policy, changes no file, and the only commands it runs are
  those of the capability check; the same holds of a policy whose capability check fails.
\<close>

theorem dry_run_safe:
  assumes "runPolicy ag rtr baseDir runID policy req aggLevel cfg w = (r, evs, w')"
    and "pq_DryRun req \<or> pol_DryRun policy \<or> (\<exists>pr n m. r = Inr (pr, n, m) \<and> pr_RoutingSkipped pr)"
  shows "wd_fs w' = wd_fs w \<and> (wd_kernel w' = wd_kernel w \<or>
    wd_kernel w' = sys_kernel (snd (composite_Caps (ag_runner ag) rtr policy \<lparr> sys_fs = wd_fs w, sys_kernel = wd_kernel w \<rparr>)))"
proof (cases "policy_addresses ag runID (pol_Name policy) req cfg (policy_domains ag policy (wd_registry w)) (wd_cache w)")
  case (fields x evs1 c)
  show ?thesis
  proof (cases x)
    case (Inl e)
    with fields assms(1) show ?thesis by (auto simp: runPolicy_parts)
  next
    case (Inr ips)
    let ?n = "length (policy_domains ag policy (wd_registry w))"
    obtain v4 v6 y where f: "finish_policy ag rtr baseDir policy req (policy_report policy ?n ips) v4 v6 (w\<lparr> wd_cache := c \<rparr>) = (y, w')"
      and r: "r = map_sum id (\<lambda>p. (p, pi_stale ips, pi_hits ips)) y"
      using fields Inr assms(1) by (auto simp: runPolicy_parts split: prod.splits)
    obtain e w2 where c: "on_sys (composite_Caps (ag_runner ag) rtr policy) (w\<lparr> wd_cache := c \<rparr>) = (e, w2)" by (rule prod.exhaust)
    have w2: "wd_fs w2 = wd_fs w \<and> wd_kernel w2 =
        sys_kernel (snd (composite_Caps (ag_runner ag) rtr policy \<lparr> sys_fs = wd_fs w, sys_kernel = wd_kernel w \<rparr>))"
      using c caps_fs by (fastforce simp: on_sys_def split: prod.splits)
    have "w' = w2"
    proof (rule ccontr)
      assume "w' \<noteq> w2"
      with f c have e: "e = None" and nd: "\<not> pq_DryRun req" "\<not> pol_DryRun policy"
        by (auto simp: finish_policy_def split: option.splits if_splits)
      with assms(2) r obtain pr where pr: "y = Inr pr" "pr_RoutingSkipped pr" by (cases y) auto
      then show False using f c e nd
        by (auto simp: finish_policy_def policy_report_def split: prod.splits option.splits sum.splits if_splits)
    qed
    with w2 show ?thesis by simp
  qed
qed

section \<open>Properties of a run\<close>

lemma run_policies_report:
  "run_policies ag rtr baseDir runID req aggLevel cfg policies report w = (report', evs, w') \<Longrightarrow>
     rp_RunID report' = rp_RunID report \<and> rp_Domains report' = rp_Domains report \<and>
     (\<exists>ps. rp_Policies report' = rp_Policies report @ ps \<and> map pr_Name ps = map pol_Name (filter pol_Enabled policies) \<and>
       rp_Resolved report' = rp_Resolved report + sum_list (map pr_Resolved ps) \<and>
       rp_Failed report' = rp_Failed report + sum_list (map pr_Failed ps) \<and>
       rp_IPv4Out report' = rp_IPv4Out report + sum_list (map pr_IPv4Out ps) \<and>
       rp_IPv6Out report' = rp_IPv6Out report + sum_list (map pr_IPv6Out ps))"
proof (induction policies arbitrary: report w evs)
  case (Cons policy policies)
  show ?case
  proof (cases "pol_Enabled policy")
    case False
    with Cons show ?thesis by simp
  next
    case True
    obtain r evs1 w1 where p: "runPolicy ag rtr baseDir runID policy req aggLevel cfg w = (r, evs1, w1)" by (metis prod_cases3)
    let ?ms = "ag_policy_ms ag policy"
    define report1 where "report1 = (case r of
        Inl e \<Rightarrow> report\<lparr> rp_Policies := rp_Policies report @ [(failed_report policy)\<lparr> pr_Duration := ?ms \<rparr>] \<rparr>
      | Inr (q, stale, hits) \<Rightarrow> add_policy (q\<lparr> pr_Duration := ?ms \<rparr>) stale hits report)"
    obtain evs2 where rest: "run_policies ag rtr baseDir runID req aggLevel cfg policies report1 w1 = (report', evs2, w')"
      using Cons.prems True p unfolding report1_def by (auto split: prod.splits)
    have "\<exists>q. rp_Policies report1 = rp_Policies report @ [q] \<and> pr_Name q = pol_Name policy \<and> rp_RunID report1 = rp_RunID report \<and>
        rp_Domains report1 = rp_Domains report \<and> rp_Resolved report1 = rp_Resolved report + pr_Resolved q \<and>
        rp_Failed report1 = rp_Failed report + pr_Failed q \<and> rp_IPv4Out report1 = rp_IPv4Out report + pr_IPv4Out q \<and>
        rp_IPv6Out report1 = rp_IPv6Out report + pr_IPv6Out q"
    proof (cases r)
      case (Inl e)
      then show ?thesis by (simp add: report1_def failed_report_def)
    next
      case (Inr x)
      obtain q stale hits where x: "x = (q, stale, hits)" by (rule prod_cases3)
      have "pr_Name q = pol_Name policy"
        using p [unfolded runPolicy_parts] finish_report unfolding Inr x
        by (fastforce simp: map_sum_def split: prod.splits sum.splits)
      then show ?thesis by (simp add: report1_def Inr x add_policy_def)
    qed
    then obtain q where q: "rp_Policies report1 = rp_Policies report @ [q]" "pr_Name q = pol_Name policy" "rp_RunID report1 = rp_RunID report"
      "rp_Domains report1 = rp_Domains report" "rp_Resolved report1 = rp_Resolved report + pr_Resolved q"
      "rp_Failed report1 = rp_Failed report + pr_Failed q" "rp_IPv4Out report1 = rp_IPv4Out report + pr_IPv4Out q"
      "rp_IPv6Out report1 = rp_IPv6Out report + pr_IPv6Out q" by blast
    from Cons.IH [OF rest] obtain ps where ps: "rp_Policies report' = rp_Policies report1 @ ps"
        "map pr_Name ps = map pol_Name (filter pol_Enabled policies)"
        "rp_RunID report' = rp_RunID report1" "rp_Domains report' = rp_Domains report1"
        "rp_Resolved report' = rp_Resolved report1 + sum_list (map pr_Resolved ps)"
        "rp_Failed report' = rp_Failed report1 + sum_list (map pr_Failed ps)"
        "rp_IPv4Out report' = rp_IPv4Out report1 + sum_list (map pr_IPv4Out ps)"
        "rp_IPv6Out report' = rp_IPv6Out report1 + sum_list (map pr_IPv6Out ps)" by blast
    then show ?thesis using q True by (intro conjI exI [of _ "q # ps"]) simp_all
  qed
qed simp

text \<open>
  C22: a run that ends well reports every enabled policy, in the order of the configuration, whatever
  happened to the others, and its totals are the sums over the policies.
\<close>

theorem run_reports_policies:
  assumes "pipeline_body ag runID req ctx w = Returns (report, None, evs, w')"
    and "ag_policyRtr ag = Some rtr" and "ag_policyExp ag = Some baseDir"
  shows "rp_RunID report = runID \<and>
    map pr_Name (rp_Policies report) = map pol_Name (filter pol_Enabled (rt_Policies (Routing (ag_config ag)))) \<and>
    rp_Resolved report = sum_list (map pr_Resolved (rp_Policies report)) \<and>
    rp_Failed report = sum_list (map pr_Failed (rp_Policies report)) \<and>
    rp_IPv4Out report = sum_list (map pr_IPv4Out (rp_Policies report)) \<and>
    rp_IPv6Out report = sum_list (map pr_IPv6Out (rp_Policies report))"
proof -
  let ?ps = "rt_Policies (Routing (ag_config ag))" and ?l = "level_of (agg_Level (Aggregation (ag_config ag)))"
  obtain reg where l: "LoadAll (ag_env ag) (wd_registry w) = Returns (None, reg)" and ctx: "ctx 0 = None" "ctx 1 = None"
    using assms(1) by (auto simp: pipeline_body_def Let_def split: run.splits option.splits prod.splits)
  define report1 where "report1 = (new_report runID)\<lparr> rp_Domains :=
    length (domains_of ag reg (fst (categorizePolicyCategories ag reg (ag_config ag)))) \<rparr>"
  obtain report2 evs2 w2 where r: "run_policies ag rtr baseDir runID req ?l (ag_config ag) ?ps report1 (w\<lparr> wd_registry := reg \<rparr>) = (report2, evs2, w2)"
    by (metis prod_cases3)
  have r2: "report = report2\<lparr> rp_Duration := ag_duration ag \<rparr>"
  proof (cases ?ps)
    case Nil
    with r have "report2 = report1" by simp
    with assms l ctx Nil show ?thesis by (simp add: pipeline_body_def Let_def report1_def)
  next
    case (Cons p ps)
    have "pipeline_body ag runID req ctx w = Returns (report2\<lparr> rp_Duration := ag_duration ag \<rparr>, None, evs2, w2)"
      using l ctx assms(2,3) r unfolding Cons
      by (simp add: pipeline_body_def Let_def Cons report1_def del: run_policies.simps)
    with assms(1) show ?thesis by simp
  qed
  have r1: "rp_RunID report1 = runID" "rp_Policies report1 = []" "rp_Resolved report1 = 0" "rp_Failed report1 = 0"
      "rp_IPv4Out report1 = 0" "rp_IPv6Out report1 = 0"
    by (simp_all add: report1_def new_report_def)
  from run_policies_report [OF r] r1 r2 show ?thesis by auto
qed

section \<open>Runs that succeed\<close>

lemma policy_addresses_healthy:
  assumes "cache_wf (cn_db c)" and "healthy c" and "length domains < 5 * maxRowsPerTx"
  shows "\<exists>ips evs c'. policy_addresses ag runID name req cfg domains c = (Inr ips, evs, c')"
proof (cases "domains = []")
  case True
  then show ?thesis by (simp add: policy_addresses_def)
next
  case False
  obtain toResolve k h c1 where s: "stale_domains ag req cfg domains c = (Inr (toResolve, k, h), c1)" "healthy c1" "cn_db c1 = cn_db c"
    using needs_refresh_healthy [OF assms(2), of "ag_now ag" domains "cache_TTL (Cache cfg)" "cache_FailedTTL (Cache cfg)"] assms(2)
    by (cases "pq_ForceResolve req") (auto simp: stale_domains_def)
  obtain counts evs c2 where r: "resolve_stale ag runID name toResolve c1 = (Inr counts, evs, c2)" "healthy c2"
  proof (cases "toResolve = []")
    case True
    with that s show ?thesis by (simp add: resolve_stale_def)
  next
    case False
    obtain results ok bad evs where d: "drain runID name (length toResolve) (ag_resolve ag toResolve) 0 0 0 = (results, ok, bad, evs)"
      by (metis prod_cases4)
    obtain c2 where "UpsertBatch results c1 = (Inr (), c2)" "healthy c2"
      using upsert_healthy [of c1 results] assms(1) s by auto
    with that d False show ?thesis by (simp add: resolve_stale_def)
  qed
  obtain c3 where q: "query (length domains + 1) (select_joined domains) c2 = (Inr (select_joined domains (cn_db c2), False), c3)"
    using query_healthy [OF r(2), of "length domains + 1" "select_joined domains"] assms(3) by auto
  obtain v4 v6 where v: "split_rows (select_joined domains (cn_db c2)) = (v4, v6)" by (rule prod.exhaust)
  have "SnapshotForDomains domains c2 = ((v4, v6, None), c3)"
    using q v False by (simp add: SnapshotForDomains_def)
  with s r False show ?thesis by (cases counts) (simp add: policy_addresses_def)
qed

lemma export_run_succeeds:
  assumes "cache_wf (cn_db (wd_cache w))" and "healthy (wd_cache w)"
    and "length (policy_domains ag policy (wd_registry w)) < 5 * maxRowsPerTx" and "\<forall>op q. \<not> fs_fault (wd_fs w) op q"
    and caps: "\<And>s. fst (composite_Caps (ag_runner ag) rtr policy s) = None" and "pq_SkipRouting req"
  shows "\<exists>pr stale hits evs w'. runPolicy ag rtr baseDir runID policy req aggLevel cfg w = (Inr (pr, stale, hits), evs, w') \<and> \<not> pr_RoutingSkipped pr"
proof -
  let ?ds = "policy_domains ag policy (wd_registry w)"
  obtain ips evs c where p: "policy_addresses ag runID (pol_Name policy) req cfg ?ds (wd_cache w) = (Inr ips, evs, c)"
    using policy_addresses_healthy [OF assms(1-3)] by blast
  obtain v4 v6 where o: "outputs policy aggLevel cfg ips (policy_prefixes policy (wd_registry w)) = (v4, v6)" by (rule prod.exhaust)
  obtain s where s: "composite_Caps (ag_runner ag) rtr policy \<lparr> sys_fs = wd_fs (w\<lparr> wd_cache := c \<rparr>), sys_kernel = wd_kernel (w\<lparr> wd_cache := c \<rparr>) \<rparr> = (None, s)"
    using caps by (metis prod.collapse)
  then have sys: "sys_fs s = wd_fs w" using caps_fs by fastforce
  let ?w2 = "(set_fs (sys_fs s) (w\<lparr> wd_cache := c \<rparr>))\<lparr> wd_kernel := sys_kernel s \<rparr>"
  have c: "on_sys (composite_Caps (ag_runner ag) rtr policy) (w\<lparr> wd_cache := c \<rparr>) = (None, ?w2)"
    using s by (simp add: on_sys_def)
  obtain rep s3 where "WritePolicy baseDir policy v4 v6 (wd_fs w) = (Inr rep, s3)"
    using assms(4) by (simp add: WritePolicy_def MkdirAll_def WriteFile_def Let_def)
  then have wr: "on_fs (WritePolicy baseDir policy v4 v6) ?w2 = (Inr rep, set_fs s3 ?w2)"
    using sys by (simp add: on_fs_def)
  show ?thesis
  proof (cases "pq_DryRun req \<or> pol_DryRun policy")
    case True
    with p o c show ?thesis by (simp add: runPolicy_parts finish_policy_def policy_report_def)
  next
    case False
    with p o c wr assms(6) show ?thesis by (simp add: runPolicy_parts finish_policy_def policy_report_def)
  qed
qed

text \<open>One worker that takes the domains one after the other delivers them all.\<close>

definition one_worker :: "string list \<Rightarrow> ResolveResult list \<Rightarrow> pool" where
  "one_worker todo out = (pool_init 1 todo)\<lparr> p_out := out \<rparr>"

lemma sequential_batch:
  assumes "\<And>d. res d (f d)"
  shows "complete_batch res 1 ds (map f ds)"
proof -
  have run: "pool_reachable res 1 ds (one_worker todo (map f done_ds)) \<Longrightarrow> pool_reachable res 1 ds (one_worker [] (map f (done_ds @ todo)))" for todo done_ds
  proof (induction todo arbitrary: done_ds)
    case (Cons d todo)
    let ?p = "one_worker (d # todo) (map f done_ds)"
    have "pool_reachable res 1 ds (?p\<lparr> p_feed := todo, p_domainCh := [d] \<rparr>)"
      using pool_step.feed [of ?p d todo res] Cons.prems by (auto simp: one_worker_def pool_init_def intro: pool_reachable.step)
    note s1 = pool_reachable.step [OF this pool_step.take [of 0 _ d "[]"]]
    have "pool_reachable res 1 ds (?p\<lparr> p_feed := todo, p_workers := [WHas d] \<rparr>)"
      using s1 by (simp add: one_worker_def pool_init_def)
    note s2 = pool_reachable.step [OF this pool_step.resolve [of 0 _ d res "f d"]]
    have "pool_reachable res 1 ds (?p\<lparr> p_feed := todo, p_workers := [WResult (f d)] \<rparr>)"
      using s2 assms by (simp add: one_worker_def pool_init_def)
    note s3 = pool_reachable.step [OF this pool_step.send [of 0 _ "f d"]]
    have "pool_reachable res 1 ds (?p\<lparr> p_feed := todo, p_resultCh := [f d] \<rparr>)"
      using s3 by (simp add: one_worker_def pool_init_def)
    note s4 = pool_reachable.step [OF this pool_step.consume [of _ "f d" "[]"]]
    have "pool_reachable res 1 ds (one_worker todo (map f (done_ds @ [d])))"
      using s4 by (simp add: one_worker_def pool_init_def)
    from Cons.IH [OF this] show ?case by simp
  qed simp
  have "pool_reachable res 1 ds (one_worker ds (map f []))"
    using pool_reachable.start [of res 1 ds] by (simp add: one_worker_def pool_init_def)
  from run [OF this] have e0: "pool_reachable res 1 ds (one_worker [] (map f ds))" by simp
  let ?p = "one_worker [] (map f ds)"
  have e1: "pool_reachable res 1 ds (?p\<lparr> p_feeding := False, p_domClosed := True \<rparr>)"
    using pool_reachable.step [OF e0 pool_step.feed_done] by (simp add: one_worker_def pool_init_def)
  note s2 = pool_reachable.step [OF e1 pool_step.drained [of 0]]
  have e2: "pool_reachable res 1 ds (?p\<lparr> p_feeding := False, p_domClosed := True, p_workers := [WExited] \<rparr>)"
    using s2 by (simp add: one_worker_def pool_init_def)
  note s3 = pool_reachable.step [OF e2 pool_step.close_results]
  have e3: "pool_reachable res 1 ds (?p\<lparr> p_feeding := False, p_domClosed := True, p_workers := [WExited], p_resClosed := True \<rparr>)"
    using s3 by (simp add: one_worker_def pool_init_def)
  then show ?thesis
    unfolding complete_batch_def by (rule exI [of _ "_ :: pool", OF conjI]) (simp add: one_worker_def pool_init_def aborting_def)
qed

section \<open>Witnesses\<close>

definition ex_policy :: PolicyConfig where
  "ex_policy = ex_plain_policy\<lparr> pol_Categories := [''my:default''], pol_Backend := BackendIProute2, pol_TableID := 100, pol_Iface := ''eth0'' \<rparr>"

definition ex_router :: CompositeRouter where
  "ex_router = \<lparr> cr_stateDir = ''state'', cr_validator = None \<rparr>"

definition ex_agents :: "unit agents" where
  "ex_agents = \<lparr> ag_env = ex_env,
     ag_resolve = map (\<lambda>d. fst (resolveDomain (alias_server ex_alias) ex_wait int DefaultConfig d 0)),
     ag_policyExp = Some ''out'', ag_policyRtr = Some ex_router, ag_runner = (\<lambda>_ k. (None, k)),
     ag_config = Defaults\<lparr> Routing := (Routing Defaults)\<lparr> rt_Policies := [ex_policy] \<rparr> \<rparr>, ag_order = id,
     ag_now = 1000 * Second, ag_policy_ms = (\<lambda>_. 5), ag_duration = 6 \<rparr>"

definition ex_world :: "string list \<Rightarrow> unit world" where
  "ex_world ds = \<lparr> wd_registry = ex_registry\<lparr> rg_sources := [(''s'', SrcPlaintext (ex_plaintext\<lparr> pt_Type := ''domains'',
       pt_domains := ds, pt_loadedAt := Some 1 \<rparr>))] \<rparr>,
     wd_cache = ex_conn no_fault ex_db, wd_kernel = () \<rparr>"

definition ex_request :: PipelineRequest where
  "ex_request = \<lparr> pq_DryRun = False, pq_ForceResolve = False, pq_SkipRouting = True \<rparr>"

lemma ex_domains: "ds \<noteq> [] \<Longrightarrow> policy_domains ex_agents ex_policy (wd_registry (ex_world ds)) = remdups ds"
  by (simp add: policy_domains_def domains_of_def ex_agents_def ex_policy_def ex_world_def ex_registry_def ex_plaintext_def
      ResolveCategory_def findSourceForCategory_def reg_GetDomains_def plaintext_Categories_def plaintext_GetDomains_def)

lemma ex_run:
  assumes "ds \<noteq> []" and "length ds < 5000"
  obtains pr stale hits evs w' where
    "runPolicy ex_agents ex_router ''out'' 1 ex_policy ex_request AggBalanced Defaults (ex_world ds) = (Inr (pr, stale, hits), evs, w')"
    "\<not> pr_RoutingSkipped pr"
proof -
  have "\<exists>pr stale hits evs w'.
      runPolicy ex_agents ex_router ''out'' 1 ex_policy ex_request AggBalanced Defaults (ex_world ds) = (Inr (pr, stale, hits), evs, w') \<and> \<not> pr_RoutingSkipped pr"
  proof (rule export_run_succeeds)
    show "length (policy_domains ex_agents ex_policy (wd_registry (ex_world ds))) < 5 * maxRowsPerTx"
      using assms le_less_trans [OF length_remdups_leq [of ds]] by (simp add: ex_domains maxRowsPerTx_def)
    show "\<forall>op q. \<not> fs_fault (wd_fs (ex_world ds)) op q" by (simp add: wd_fs_def ex_world_def ex_registry_def no_files_def)
    show "fst (composite_Caps (ag_runner ex_agents) ex_router ex_policy s) = None" for s
      by (simp add: composite_Caps_def iproute2_Caps_def ex_policy_def ex_agents_def)
  qed (simp_all add: ex_world_def ex_wf ex_healthy ex_request_def)
  with that show ?thesis by blast
qed

lemma check_batches_db: "check_batches vt ft bs m c = (r, c') \<Longrightarrow> cn_db c' = cn_db c"
proof (induction bs arbitrary: m c)
  case (Cons b bs)
  obtain x c1 where x: "checkStaleBatch vt ft b m c = (x, c1)" by (rule prod.exhaust)
  then have "cn_db c1 = cn_db c" by (auto simp: checkStaleBatch_def Let_def split: prod.splits sum.splits if_splits dest: query_db_eq)
  with Cons x show ?case by (cases x) auto
qed simp

lemma NeedsRefresh_db: "NeedsRefresh now domains ttl failedTTL c = (r, c') \<Longrightarrow> cn_db c' = cn_db c"
  by (auto simp: NeedsRefresh_def Let_def split: if_splits prod.splits sum.splits dest: check_batches_db)

text \<open>A policy whose domains are all fresh leaves the cache's tables as they are.\<close>

lemma fresh_cache_kept:
  assumes "runPolicy ag rtr baseDir runID policy req aggLevel cfg w = (Inr (pr, stale, hits), evs, w')"
    and "cache_wf (cn_db (wd_cache w))" and "\<not> pq_ForceResolve req"
    and "\<forall>d\<in>set (policy_domains ag policy (wd_registry w)).
      \<not> stale_at (ag_now ag) (cache_TTL (Cache cfg)) (cache_FailedTTL (Cache cfg)) (domain_view (cn_db (wd_cache w)) d)"
  shows "cn_db (wd_cache w') = cn_db (wd_cache w)"
proof -
  let ?ds = "policy_domains ag policy (wd_registry w)"
  obtain ips c v4 v6 where p: "policy_addresses ag runID (pol_Name policy) req cfg ?ds (wd_cache w) = (Inr ips, evs, c)"
    and f: "finish_policy ag rtr baseDir policy req (policy_report policy (length ?ds) ips) v4 v6 (w\<lparr> wd_cache := c \<rparr>) = (Inr pr, w')"
    using assms(1) unfolding runPolicy_parts
    by (auto split: prod.splits sum.splits simp: map_sum_def)
  have "cn_db c = cn_db (wd_cache w)"
  proof (cases "?ds = []")
    case True
    with p show ?thesis by (simp add: policy_addresses_def)
  next
    case False
    with p obtain toResolve k h c1 counts evs1 c2 v4 v6 where
        s: "stale_domains ag req cfg ?ds (wd_cache w) = (Inr (toResolve, k, h), c1)"
      and r: "resolve_stale ag runID (pol_Name policy) toResolve c1 = (Inr counts, evs1, c2)"
      and snap: "SnapshotForDomains ?ds c2 = ((v4, v6, None), c)"
      by (auto simp: policy_addresses_def split: prod.splits sum.splits option.splits)
    from s assms(3) have nr: "NeedsRefresh (ag_now ag) ?ds (cache_TTL (Cache cfg)) (cache_FailedTTL (Cache cfg)) (wd_cache w) = (Inr toResolve, c1)"
      by (auto simp: stale_domains_def split: prod.splits sum.splits)
    from needs_refresh_ok [OF assms(2) nr] assms(4) have "toResolve = []"
      by (metis (mono_tags, lifting) Collect_empty_eq sorted_list_of_set_empty)
    with r have "c2 = c1" by (simp add: resolve_stale_def)
    with SnapshotForDomains_db [OF snap] NeedsRefresh_db [OF nr] show ?thesis by simp
  qed
  with finish_cache [OF f] show ?thesis by simp
qed

lemma pipeline_body_returns:
  assumes "LoadAll (ag_env ag) (wd_registry w) = Returns (None, reg)" and "ctx 0 = None" and "ctx 1 = None"
  shows "\<exists>report evs w'. pipeline_body ag runID req ctx w = Returns (report, None, evs, w')"
  using assms by (simp add: pipeline_body_def Let_def split: prod.split)

theorem policy_export_complete_witness:
  "\<exists>v4 v6 s. exported ''out'' ex_policy v4 v6 s \<and> Addr4 0x01020304 \<in> covered (v4 @ v6)"
proof -
  obtain pr stale hits evs w' where r: "runPolicy ex_agents ex_router ''out'' 1 ex_policy ex_request AggBalanced Defaults (ex_world [''a.com'']) = (Inr (pr, stale, hits), evs, w')"
    and ns: "\<not> pr_RoutingSkipped pr" by (rule ex_run [of "[''a.com'']"]) simp_all
  have cache: "cn_db (wd_cache (ex_world [''a.com''])) = ex_db" by (simp add: ex_world_def)
  have "\<not> stale_at (ag_now ex_agents) (cache_TTL (Cache Defaults)) (cache_FailedTTL (Cache Defaults)) (domain_view ex_db ''a.com'')"
    by (simp add: ex_agents_def ex_db_def domain_view_def stale_at_def Defaults_def
        Unix_def whole_seconds_def Second_def Millisecond_def Minute_def Hour_def)
  then have "cn_db (wd_cache w') = ex_db"
    using fresh_cache_kept [OF r] by (simp add: ex_domains cache ex_wf ex_request_def)
  then have row: "record_view (cn_db (wd_cache w')) (''a.com'', ''1.2.3.4'', ''A'') = Some (100, ''valid'')"
    by (simp add: ex_db_def record_view_def dom_id_def rec_map_def rr_key_def)
  from policy_export_complete [OF r ns] obtain v4 v6 where e: "exported ''out'' ex_policy v4 v6 (wd_fs w')"
    and sub: "{a. is_valid a \<and> (\<exists>n\<in>set (policy_domains ex_agents ex_policy (wd_registry (ex_world [''a.com'']))). \<exists>ty t.
       record_view (cn_db (wd_cache w')) (n, addr_string a, ty) = Some (t, ''valid''))} \<subseteq> covered (v4 @ v6)"
    by (auto simp: ex_request_def ex_policy_def ex_plain_policy_def ex_router_def paths_apart_def export_path_def policyStatePath_def Join_def
        extForFormat_def export_format_def)
  have "addr_string (Addr4 0x01020304) = ''1.2.3.4''" by code_simp
  with row sub have "Addr4 0x01020304 \<in> covered (v4 @ v6)" by (force simp: ex_domains)
  with e show ?thesis by blast
qed

theorem policy_counts_witness:
  "\<exists>pr stale hits evs w'. runPolicy ex_agents ex_router ''out'' 1 ex_policy ex_request AggBalanced Defaults (ex_world [''a.com'', ''d.com'']) = (Inr (pr, stale, hits), evs, w') \<and>
     pr_Resolved pr + pr_Failed pr = stale \<and> stale + hits = pr_Domains pr"
proof -
  obtain pr stale hits evs w' where r: "runPolicy ex_agents ex_router ''out'' 1 ex_policy ex_request AggBalanced Defaults (ex_world [''a.com'', ''d.com'']) = (Inr (pr, stale, hits), evs, w')"
    by (rule ex_run [of "[''a.com'', ''d.com'']"]) simp_all
  have "complete_batch (may_resolve (alias_server ex_alias) ex_wait int DefaultConfig) 1 ds (ag_resolve ex_agents ds)" for ds
    unfolding ex_agents_def agents.simps by (rule sequential_batch) (auto simp: may_resolve_def)
  with policy_counts [OF r, of 1 "alias_server ex_alias" ex_wait int DefaultConfig]
  have "pr_Resolved pr + pr_Failed pr = stale \<and> stale + hits = pr_Domains pr"
    by (simp add: ex_world_def ex_wf ex_request_def) (simp add: ex_agents_def)
  with r show ?thesis by blast
qed

theorem dry_run_safe_witness:
  "\<exists>r evs w'. runPolicy ex_agents ex_router ''out'' 1 (ex_policy\<lparr> pol_DryRun := True \<rparr>) ex_request AggBalanced Defaults (ex_world [''a.com'', ''d.com'']) = (r, evs, w') \<and>
     wd_fs w' = wd_fs (ex_world [''a.com'', ''d.com''])"
proof -
  obtain r evs w' where r: "runPolicy ex_agents ex_router ''out'' 1 (ex_policy\<lparr> pol_DryRun := True \<rparr>) ex_request AggBalanced Defaults (ex_world [''a.com'', ''d.com'']) = (r, evs, w')"
    by (metis prod_cases3)
  from dry_run_safe [OF r] r show ?thesis by auto
qed

theorem run_reports_policies_witness:
  "\<exists>report evs w'. pipeline_body ex_agents 7 ex_request (\<lambda>_. None) (ex_world [''a.com'', ''d.com'']) = Returns (report, None, evs, w') \<and>
     map pr_Name (rp_Policies report) = [''p'']"
proof -
  have env: "ag_env ex_agents = ex_env" by (simp add: ex_agents_def)
  obtain reg where "LoadAll ex_env (wd_registry (ex_world [''a.com'', ''d.com''])) = Returns (None, reg)"
    by (simp add: ex_world_def ex_registry_def LoadAll_def query_def exec_def Let_def)
  then obtain report evs w' where b: "pipeline_body ex_agents 7 ex_request (\<lambda>_. None) (ex_world [''a.com'', ''d.com'']) = Returns (report, None, evs, w')"
    using pipeline_body_returns [of ex_agents "ex_world [''a.com'', ''d.com'']" reg "\<lambda>_. None" 7 ex_request]
    by (auto simp: env)
  have "ag_policyRtr ex_agents = Some ex_router" "ag_policyExp ex_agents = Some ''out''" by (simp_all add: ex_agents_def)
  from run_reports_policies [OF b this] b show ?thesis
    by (simp add: ex_agents_def ex_policy_def ex_plain_policy_def)
qed

end
