(* ===== verification/Single_Flight.thy ===== *)
theory Single_Flight
  imports Orchestrator_Props
begin

text \<open>
  The single-flight \<open>Run\<close> of \<open>orchestrator.go\<close>: the state it shares with \<open>Status\<close>, \<open>Cancel\<close> and
  \<open>History\<close>, its atomic steps, their sequential composition, and the step relation of any number
  of concurrent callers.
\<close>

section \<open>The shared state and its atomic steps\<close>

text \<open>\<open>or_events\<close> is the sequence of publications on the topic \<open>pipeline\<close>; a context is named by its run.\<close>

record orch =
  or_running :: bool
  or_counter :: "64 word"
  or_current :: RunStatus
  or_cancelFn :: "64 word option"
  or_cancelled :: "64 word set"
  or_history :: "PipelineReport list"
  or_events :: "pipeline_event list"

definition orch_New :: orch where
  "orch_New = \<lparr> or_running = False, or_counter = 0,
     or_current = \<lparr> rs_Running = False, rs_RunID = 0, rs_Started = 0, rs_Report = None \<rparr>,
     or_cancelFn = None, or_cancelled = {}, or_history = [], or_events = [] \<rparr>"

datatype run_error = ErrBusy "64 word" | ErrRun error

definition emit :: "pipeline_event \<Rightarrow> orch \<Rightarrow> orch" where
  "emit ev st = st\<lparr> or_events := or_events st @ [ev] \<rparr>"

text \<open>\<open>running.CompareAndSwap(false, true)\<close>.\<close>

definition acquire :: "orch \<Rightarrow> orch option" where
  "acquire st = (if or_running st then None else Some (st\<lparr> or_running := True \<rparr>))"

definition next_run :: "orch \<Rightarrow> 64 word \<times> orch" where
  "next_run st = (let i = or_counter st + 1 in (i, emit (EvStart i) (st\<lparr> or_counter := i \<rparr>)))"

definition arm_cancel :: "64 word \<Rightarrow> orch \<Rightarrow> orch" where
  "arm_cancel i st = st\<lparr> or_cancelFn := Some i \<rparr>"

definition publish_start :: "64 word \<Rightarrow> int \<Rightarrow> orch \<Rightarrow> orch" where
  "publish_start i started st = st\<lparr> or_current := \<lparr> rs_Running = True, rs_RunID = i, rs_Started = started, rs_Report = None \<rparr> \<rparr>"

definition push_history :: "PipelineReport \<Rightarrow> orch \<Rightarrow> orch" where
  "push_history report st = st\<lparr> or_history :=
     (if 10 \<le> length (or_history st) then tl (or_history st) else or_history st) @ [report] \<rparr>"

text \<open>The end of a run: the status on success, and the deferred event on failure.\<close>

definition publish_end :: "PipelineReport \<Rightarrow> orch \<Rightarrow> orch" where
  "publish_end report st = st\<lparr> or_current := (or_current st)\<lparr> rs_Running := False, rs_Report := Some report \<rparr> \<rparr>"

definition emit_failed :: "PipelineReport \<Rightarrow> orch \<Rightarrow> orch" where
  "emit_failed report st = (if rp_RunID report \<noteq> 0 then emit (EvFailed (rp_RunID report)) st else st)"

text \<open>The deferred \<open>cancel()\<close> and \<open>running.Store(false)\<close>.\<close>

definition leave :: "64 word \<Rightarrow> orch \<Rightarrow> orch" where
  "leave i st = st\<lparr> or_cancelled := insert i (or_cancelled st), or_running := False \<rparr>"

definition finish_ok :: "PipelineReport \<Rightarrow> orch \<Rightarrow> orch" where
  "finish_ok report st = push_history report (publish_end report (emit (EvComplete report) st))"

definition finish_failed :: "PipelineReport \<Rightarrow> orch \<Rightarrow> orch" where
  "finish_failed report st = push_history report (emit_failed report st)"

definition orch_Status :: "orch \<Rightarrow> RunStatus" where
  "orch_Status st = or_current st"

definition orch_Cancel :: "orch \<Rightarrow> bool \<times> orch" where
  "orch_Cancel st =
     (if \<not> or_running st then (False, st)
      else case or_cancelFn st of
        Some i \<Rightarrow> (True, st\<lparr> or_cancelled := insert i (or_cancelled st) \<rparr>)
      | None \<Rightarrow> (False, st))"

definition orch_History :: "orch \<Rightarrow> PipelineReport list" where
  "orch_History st = or_history st"

section \<open>Run\<close>

definition begin_run :: "64 word \<Rightarrow> int \<Rightarrow> orch \<Rightarrow> orch" where
  "begin_run i started st = publish_start i started (arm_cancel i st)"

definition empty_report :: PipelineReport where
  "empty_report = new_report 0"

definition Run :: "'k agents \<Rightarrow> int \<Rightarrow> PipelineRequest \<Rightarrow> (nat \<Rightarrow> error option) \<Rightarrow> orch \<Rightarrow> 'k world \<Rightarrow>
    (PipelineReport \<times> run_error option) run \<times> orch \<times> 'k world" where
  "Run ag started req ctx st w =
     (case acquire st of
        None \<Rightarrow> (Returns (empty_report, Some (ErrBusy (rs_RunID (or_current st)))), st, w)
      | Some o1 \<Rightarrow>
          (case next_run o1 of (i, o2) \<Rightarrow>
             let o3 = begin_run i started o2 in
             (case pipeline_body ag i req ctx w of
                Panics e \<Rightarrow> (Panics e, leave i (finish_failed (new_report i) o3), w)
              | Returns (report, Some e, evs, w') \<Rightarrow>
                  (Returns (report, Some (ErrRun e)), leave i (finish_failed report (o3\<lparr> or_events := or_events o3 @ evs \<rparr>)), w')
              | Returns (report, None, evs, w') \<Rightarrow>
                  (Returns (report, None), leave i (finish_ok report (o3\<lparr> or_events := or_events o3 @ evs \<rparr>)), w'))))"

section \<open>Concurrent callers\<close>

text \<open>
  Where a caller of \<open>Run\<close> is: before the swap, after a lost one, and between the atomic steps of a
  won one. A report that has been produced is kept until it is recorded.
\<close>

datatype run_end = EndOk | EndErr error | EndPanic error

datatype caller =
    CIdle
  | CLost
  | CWon
  | CNumbered "64 word"
  | CArmed "64 word"
  | CRunning "64 word"
  | CSucceeded "64 word" PipelineReport
  | CPublished "64 word" PipelineReport
  | CFailed "64 word" PipelineReport run_end
  | CRecorded "64 word" run_end
  | CReturned "run_error option"
  | CPanicked error

fun end_caller :: "run_end \<Rightarrow> caller" where
  "end_caller EndOk = CReturned None"
| "end_caller (EndErr e) = CReturned (Some (ErrRun e))"
| "end_caller (EndPanic e) = CPanicked e"

record 'k system =
  sy_orch :: orch
  sy_world :: "'k world"
  sy_callers :: "caller list"

definition set_caller :: "nat \<Rightarrow> caller \<Rightarrow> orch \<Rightarrow> 'k system \<Rightarrow> 'k system" where
  "set_caller k c st s = s\<lparr> sy_orch := st, sy_callers := (sy_callers s)[k := c] \<rparr>"

definition caller_at :: "'k system \<Rightarrow> nat \<Rightarrow> caller \<Rightarrow> bool" where
  "caller_at s k c \<longleftrightarrow> k < length (sy_callers s) \<and> sy_callers s ! k = c"

inductive run_step :: "'k agents \<Rightarrow> 'k system \<Rightarrow> 'k system \<Rightarrow> bool" for ag where
  win: "caller_at s k CIdle \<Longrightarrow> acquire (sy_orch s) = Some st' \<Longrightarrow> run_step ag s (set_caller k CWon st' s)"
| lose: "caller_at s k CIdle \<Longrightarrow> acquire (sy_orch s) = None \<Longrightarrow> run_step ag s (set_caller k CLost (sy_orch s) s)"
| busy: "caller_at s k CLost \<Longrightarrow>
    run_step ag s (set_caller k (CReturned (Some (ErrBusy (rs_RunID (or_current (sy_orch s)))))) (sy_orch s) s)"
| number: "caller_at s k CWon \<Longrightarrow> next_run (sy_orch s) = (i, st') \<Longrightarrow> run_step ag s (set_caller k (CNumbered i) st' s)"
| arm: "caller_at s k (CNumbered i) \<Longrightarrow> run_step ag s (set_caller k (CArmed i) (arm_cancel i (sy_orch s)) s)"
| start: "caller_at s k (CArmed i) \<Longrightarrow> run_step ag s (set_caller k (CRunning i) (publish_start i t (sy_orch s)) s)"
| succeed: "caller_at s k (CRunning i) \<Longrightarrow> pipeline_body ag i req ctx (sy_world s) = Returns (report, None, evs, w') \<Longrightarrow>
    run_step ag s ((set_caller k (CSucceeded i report)
      ((sy_orch s)\<lparr> or_events := or_events (sy_orch s) @ evs @ [EvComplete report] \<rparr>) s)\<lparr> sy_world := w' \<rparr>)"
| fail: "caller_at s k (CRunning i) \<Longrightarrow> pipeline_body ag i req ctx (sy_world s) = Returns (report, Some e, evs, w') \<Longrightarrow>
    run_step ag s ((set_caller k (CFailed i report (EndErr e))
      (emit_failed report ((sy_orch s)\<lparr> or_events := or_events (sy_orch s) @ evs \<rparr>)) s)\<lparr> sy_world := w' \<rparr>)"
| panic: "caller_at s k (CRunning i) \<Longrightarrow> pipeline_body ag i req ctx (sy_world s) = Panics e \<Longrightarrow>
    run_step ag s (set_caller k (CFailed i (new_report i) (EndPanic e)) (emit_failed (new_report i) (sy_orch s)) s)"
| publish: "caller_at s k (CSucceeded i report) \<Longrightarrow> run_step ag s (set_caller k (CPublished i report) (publish_end report (sy_orch s)) s)"
| record_ok: "caller_at s k (CPublished i report) \<Longrightarrow> run_step ag s (set_caller k (CRecorded i EndOk) (push_history report (sy_orch s)) s)"
| record_failed: "caller_at s k (CFailed i report x) \<Longrightarrow> run_step ag s (set_caller k (CRecorded i x) (push_history report (sy_orch s)) s)"
| leave: "caller_at s k (CRecorded i x) \<Longrightarrow> run_step ag s (set_caller k (end_caller x) (leave i (sy_orch s)) s)"
| again: "caller_at s k (CReturned r) \<Longrightarrow> run_step ag s (set_caller k CIdle (sy_orch s) s)"
| cancel: "run_step ag s (s\<lparr> sy_orch := snd (orch_Cancel (sy_orch s)) \<rparr>)"
| environment: "run_step ag s (s\<lparr> sy_world := w' \<rparr>)"

definition sys_init :: "nat \<Rightarrow> 'k world \<Rightarrow> 'k system" where
  "sys_init n w = \<lparr> sy_orch = orch_New, sy_world = w, sy_callers = replicate n CIdle \<rparr>"

section \<open>At most one run\<close>

fun owner :: "caller \<Rightarrow> bool" where
  "owner CIdle = False"
| "owner CLost = False"
| "owner (CReturned r) = False"
| "owner (CPanicked e) = False"
| "owner _ = True"

text \<open>The number of a run that has begun and is not yet in the history, and the report it will add.\<close>

fun pending :: "caller \<Rightarrow> 64 word option" where
  "pending (CNumbered i) = Some i"
| "pending (CArmed i) = Some i"
| "pending (CRunning i) = Some i"
| "pending (CSucceeded i report) = Some i"
| "pending (CPublished i report) = Some i"
| "pending (CFailed i report x) = Some i"
| "pending _ = None"

fun report_of :: "caller \<Rightarrow> PipelineReport option" where
  "report_of (CSucceeded i report) = Some report"
| "report_of (CPublished i report) = Some report"
| "report_of (CFailed i report x) = Some report"
| "report_of _ = None"

text \<open>With \<open>n\<close> runs in the history so far, the ones kept.\<close>

definition last_ten :: "nat \<Rightarrow> 64 word list" where
  "last_ten n = drop (n - 10) (map of_nat [1..<Suc n])"

definition run_inv :: "nat \<Rightarrow> 'k system \<Rightarrow> bool" where
  "run_inv n s \<longleftrightarrow>
     (\<forall>j k. j < length (sy_callers s) \<longrightarrow> k < length (sy_callers s) \<longrightarrow> owner (sy_callers s ! j) \<longrightarrow> owner (sy_callers s ! k) \<longrightarrow> j = k) \<and>
     (or_running (sy_orch s) \<longleftrightarrow> (\<exists>k<length (sy_callers s). owner (sy_callers s ! k))) \<and>
     (\<forall>k<length (sy_callers s). (\<forall>i. pending (sy_callers s ! k) = Some i \<longrightarrow> i = of_nat (Suc n)) \<and>
        (\<forall>report. report_of (sy_callers s ! k) = Some report \<longrightarrow> rp_RunID report = of_nat (Suc n))) \<and>
     or_counter (sy_orch s) = of_nat (if \<exists>k<length (sy_callers s). pending (sy_callers s ! k) \<noteq> None then Suc n else n) \<and>
     map rp_RunID (or_history (sy_orch s)) = last_ten n"

lemma last_ten_Suc: "(if 10 \<le> length (last_ten n) then tl (last_ten n) else last_ten n) @ [of_nat (Suc n)] = last_ten (Suc n)"
proof (cases "10 \<le> n")
  case True
  then have "Suc n - 10 = Suc (n - 10)" by simp
  with True show ?thesis by (simp add: last_ten_def tl_drop flip: drop_Suc)
next
  case False
  then show ?thesis by (simp add: last_ten_def)
qed

lemma history_push:
  assumes "map rp_RunID (or_history st) = last_ten n" and "rp_RunID report = of_nat (Suc n)"
  shows "map rp_RunID (or_history (push_history report st)) = last_ten (Suc n)"
proof -
  have "length (or_history st) = length (last_ten n)" using assms(1) by (metis length_map)
  with assms show ?thesis
    unfolding push_history_def by (simp add: map_tl flip: last_ten_Suc)
qed

lemma body_run_id:
  assumes "pipeline_body ag i req ctx w = Returns (report, e, evs, w')"
  shows "rp_RunID report = i"
proof -
  have "rp_RunID report' = rp_RunID report0" if "run_policies ag rtr d i req l cfg ps report0 w0 = (report', evs', w1)" for report' report0 rtr d l cfg ps w0 evs' w1
    using run_policies_report [OF that] by blast
  note ids = this
  show ?thesis using assms
    by (auto simp: pipeline_body_def Let_def new_report_def simp del: run_policies.simps
        split: run.splits option.splits prod.splits list.splits dest!: ids)
qed

lemma owner_pending [simp]: "pending c = Some i \<Longrightarrow> owner c" "report_of c = Some r \<Longrightarrow> pending c \<noteq> None"
  by (cases c; simp)+

lemma run_inv_init: "run_inv 0 (sys_init m w)"
  by (simp add: run_inv_def sys_init_def orch_New_def last_ten_def)

text \<open>A step of the caller that owns the run, seen from the others, which own nothing.\<close>

lemma owner_update:
  assumes "run_inv n s" and "caller_at s k c" and "owner c" and "j < length (sy_callers s)" and "j \<noteq> k"
  shows "\<not> owner (sy_callers s ! j)" "pending (sy_callers s ! j) = None" "report_of (sy_callers s ! j) = None"
proof -
  show no: "\<not> owner (sy_callers s ! j)"
    using assms unfolding run_inv_def caller_at_def by metis
  then show p: "pending (sy_callers s ! j) = None" by (metis not_None_eq owner_pending(1))
  then show "report_of (sy_callers s ! j) = None" by (metis not_None_eq owner_pending(2))
qed

lemma run_inv_single:
  assumes "\<And>j. j < length cs \<Longrightarrow> j \<noteq> k \<Longrightarrow> \<not> owner (cs ! j) \<and> pending (cs ! j) = None \<and> report_of (cs ! j) = None"
    and "k < length cs" and "cs = sy_callers s" and "or_running (sy_orch s) = owner (cs ! k)"
    and "\<And>i. pending (cs ! k) = Some i \<Longrightarrow> i = of_nat (Suc n)" and "\<And>r. report_of (cs ! k) = Some r \<Longrightarrow> rp_RunID r = of_nat (Suc n)"
    and "or_counter (sy_orch s) = of_nat (if pending (cs ! k) \<noteq> None then Suc n else n)"
    and "map rp_RunID (or_history (sy_orch s)) = last_ten n"
  shows "run_inv n s"
proof -
  have "(\<exists>j<length cs. owner (cs ! j)) = owner (cs ! k)" "(\<exists>j<length cs. pending (cs ! j) \<noteq> None) = (pending (cs ! k) \<noteq> None)"
    using assms(1,2) by metis+
  moreover have "j = l" if "j < length cs" "l < length cs" "owner (cs ! j)" "owner (cs ! l)" for j l
    using assms(1) that by metis
  moreover have "(\<forall>i. pending (cs ! j) = Some i \<longrightarrow> i = of_nat (Suc n)) \<and> (\<forall>r. report_of (cs ! j) = Some r \<longrightarrow> rp_RunID r = of_nat (Suc n))"
    if "j < length cs" for j using assms(1) [OF that] assms(5,6) by (cases "j = k") auto
  ultimately show ?thesis using assms(4,7,8) unfolding run_inv_def assms(3) by auto
qed

lemma run_inv_world: "run_inv n (s\<lparr> sy_world := w \<rparr>) = run_inv n s"
  by (simp add: run_inv_def)

lemma owned_facts:
  assumes "run_inv n s" and "caller_at s k c" and "owner c"
  shows "or_running (sy_orch s)" "or_counter (sy_orch s) = of_nat (if pending c \<noteq> None then Suc n else n)"
    "map rp_RunID (or_history (sy_orch s)) = last_ten n" "pending c = Some i \<Longrightarrow> i = of_nat (Suc n)"
    "report_of c = Some r \<Longrightarrow> rp_RunID r = of_nat (Suc n)"
proof -
  have k: "k < length (sy_callers s)" "sy_callers s ! k = c" using assms(2) by (simp_all add: caller_at_def)
  show "or_running (sy_orch s)" using assms k unfolding run_inv_def by blast
  have "(\<exists>j<length (sy_callers s). pending (sy_callers s ! j) \<noteq> None) = (pending c \<noteq> None)"
    using owner_update(2) [OF assms] k by metis
  then show "or_counter (sy_orch s) = of_nat (if pending c \<noteq> None then Suc n else n)"
    using assms(1) unfolding run_inv_def by simp
  show "map rp_RunID (or_history (sy_orch s)) = last_ten n" using assms(1) unfolding run_inv_def by blast
  show "pending c = Some i \<Longrightarrow> i = of_nat (Suc n)" using assms(1) k unfolding run_inv_def by blast
  show "report_of c = Some r \<Longrightarrow> rp_RunID r = of_nat (Suc n)" using assms(1) k unfolding run_inv_def by blast
qed

lemma owned_step:
  assumes "run_inv n s" and "caller_at s k c" and "owner c" and "or_running st' = owner c'"
    and "\<And>i. pending c' = Some i \<Longrightarrow> i = of_nat (Suc m)" and "\<And>r. report_of c' = Some r \<Longrightarrow> rp_RunID r = of_nat (Suc m)"
    and "or_counter st' = of_nat (if pending c' \<noteq> None then Suc m else m)"
    and "map rp_RunID (or_history st') = last_ten m"
  shows "run_inv m (set_caller k c' st' s)"
proof (rule run_inv_single [where k = k and cs = "(sy_callers s)[k := c']"])
  fix j assume "j < length ((sy_callers s)[k := c'])" "j \<noteq> k"
  then show "\<not> owner ((sy_callers s)[k := c'] ! j) \<and> pending ((sy_callers s)[k := c'] ! j) = None \<and> report_of ((sy_callers s)[k := c'] ! j) = None"
    using owner_update [OF assms(1-3)] by simp
qed (use assms in \<open>simp_all add: set_caller_def caller_at_def\<close>)

lemma idle_step:
  assumes "run_inv n s" and "caller_at s k c" and "\<not> owner c" and "\<not> owner c'"
  shows "run_inv n (set_caller k c' (sy_orch s) s)"
proof -
  have none: "pending x = None \<and> report_of x = None" if "\<not> owner x" for x by (cases x) (use that in simp_all)
  have same: "owner ((sy_callers s)[k := c'] ! j) = owner (sy_callers s ! j) \<and> pending ((sy_callers s)[k := c'] ! j) = pending (sy_callers s ! j) \<and>
      report_of ((sy_callers s)[k := c'] ! j) = report_of (sy_callers s ! j)" if "j < length (sy_callers s)" for j
    using assms(2-4) none [OF assms(3)] none [OF assms(4)] that by (cases "j = k") (auto simp: caller_at_def)
  then have "(\<exists>j<length (sy_callers s). owner ((sy_callers s)[k := c'] ! j)) = (\<exists>j<length (sy_callers s). owner (sy_callers s ! j))"
    "(\<exists>j<length (sy_callers s). pending ((sy_callers s)[k := c'] ! j) \<noteq> None) = (\<exists>j<length (sy_callers s). pending (sy_callers s ! j) \<noteq> None)"
    by metis+
  with same assms(1) show ?thesis unfolding run_inv_def set_caller_def by simp
qed

lemma win_step:
  assumes "run_inv n s" and "caller_at s k CIdle" and "acquire (sy_orch s) = Some st'"
  shows "run_inv n (set_caller k CWon st' s)"
proof -
  have free: "\<not> or_running (sy_orch s)" and st': "st' = (sy_orch s)\<lparr> or_running := True \<rparr>"
    using assms(3) by (auto simp: acquire_def split: if_splits)
  have none: "pending x = None \<and> report_of x = None" if "\<not> owner x" for x by (cases x) (use that in simp_all)
  have others: "\<not> owner (sy_callers s ! j)" if "j < length (sy_callers s)" for j
    using assms(1) free that unfolding run_inv_def by blast
  have p: "\<not> (\<exists>j<length (sy_callers s). pending (sy_callers s ! j) \<noteq> None)"
  proof
    assume "\<exists>j<length (sy_callers s). pending (sy_callers s ! j) \<noteq> None"
    then obtain j where "j < length (sy_callers s)" "pending (sy_callers s ! j) \<noteq> None" by blast
    with none [OF others] show False by simp
  qed
  have facts: "or_counter st' = of_nat n" "map rp_RunID (or_history st') = last_ten n" "or_running st'" "k < length (sy_callers s)"
  proof -
    have "or_counter (sy_orch s) = of_nat (if \<exists>j<length (sy_callers s). pending (sy_callers s ! j) \<noteq> None then Suc n else n)"
      using assms(1) unfolding run_inv_def by blast
    then show "or_counter st' = of_nat n" unfolding if_not_P [OF p] by (simp add: st')
    have "map rp_RunID (or_history (sy_orch s)) = last_ten n" using assms(1) unfolding run_inv_def by blast
    then show "map rp_RunID (or_history st') = last_ten n" by (simp add: st')
  qed (use assms(2) in \<open>simp_all add: st' caller_at_def\<close>)
  show ?thesis
  proof (rule run_inv_single [where k = k and cs = "(sy_callers s)[k := CWon]"])
    fix j assume "j < length ((sy_callers s)[k := CWon])" "j \<noteq> k"
    then show "\<not> owner ((sy_callers s)[k := CWon] ! j) \<and> pending ((sy_callers s)[k := CWon] ! j) = None \<and> report_of ((sy_callers s)[k := CWon] ! j) = None"
      using others none by simp
  qed (use facts in \<open>simp_all add: set_caller_def\<close>)
qed

lemma orch_Cancel_fields:
  "or_running (snd (orch_Cancel st)) = or_running st" "or_counter (snd (orch_Cancel st)) = or_counter st"
  "or_history (snd (orch_Cancel st)) = or_history st"
  by (auto simp: orch_Cancel_def split: option.split)

lemma run_step_inv:
  assumes "run_step ag s s'" and inv: "run_inv n s"
  shows "\<exists>m. run_inv m s'"
  using assms(1)
proof cases
  case (win k st')
  with win_step [OF inv] show ?thesis by blast
next
  case (lose k)
  with idle_step [OF inv, of k CIdle CLost] show ?thesis by auto
next
  case (busy k)
  with idle_step [OF inv busy(2), of "CReturned (Some (ErrBusy (rs_RunID (or_current (sy_orch s)))))"] show ?thesis by auto
next
  case (again k r)
  with idle_step [OF inv again(2), of CIdle] show ?thesis by auto
next
  case (number k i st')
  note f = owned_facts [OF inv number(2)]
  have "run_inv n (set_caller k (CNumbered i) st' s)"
    by (rule owned_step [OF inv number(2)]) (use number(3) f in \<open>auto simp: next_run_def emit_def Let_def\<close>)
  with number show ?thesis by blast
next
  case (arm k i)
  note f = owned_facts [OF inv arm(2)]
  have "run_inv n s'" unfolding arm(1)
    by (rule owned_step [OF inv arm(2)]) (use f in \<open>auto simp: arm_cancel_def\<close>)
  then show ?thesis by blast
next
  case (start k i t)
  note f = owned_facts [OF inv start(2)]
  have "run_inv n s'" unfolding start(1)
    by (rule owned_step [OF inv start(2)]) (use f in \<open>auto simp: publish_start_def\<close>)
  then show ?thesis by blast
next
  case (succeed k i req ctx report evs w')
  note f = owned_facts [OF inv succeed(2)]
  have "run_inv n s'" unfolding succeed(1) run_inv_world
    by (rule owned_step [OF inv succeed(2)]) (use f body_run_id [OF succeed(3)] in auto)
  then show ?thesis by blast
next
  case (fail k i req ctx report e evs w')
  note f = owned_facts [OF inv fail(2)]
  have "run_inv n s'" unfolding fail(1) run_inv_world
    by (rule owned_step [OF inv fail(2)]) (use f body_run_id [OF fail(3)] in \<open>auto simp: emit_failed_def emit_def\<close>)
  then show ?thesis by blast
next
  case (panic k i req ctx e)
  note f = owned_facts [OF inv panic(2)]
  have "run_inv n s'" unfolding panic(1)
    by (rule owned_step [OF inv panic(2)]) (use f in \<open>auto simp: emit_failed_def emit_def new_report_def\<close>)
  then show ?thesis by blast
next
  case (publish k i report)
  note f = owned_facts [OF inv publish(2)]
  have "run_inv n s'" unfolding publish(1)
    by (rule owned_step [OF inv publish(2)]) (use f in \<open>auto simp: publish_end_def\<close>)
  then show ?thesis by blast
next
  case (record_ok k i report)
  note f = owned_facts [OF inv record_ok(2)]
  have "run_inv (Suc n) s'" unfolding record_ok(1)
    by (rule owned_step [OF inv record_ok(2)]) (use f history_push [of "sy_orch s" n report] in \<open>auto simp: push_history_def\<close>)
  then show ?thesis by blast
next
  case (record_failed k i report x)
  note f = owned_facts [OF inv record_failed(2)]
  have "run_inv (Suc n) s'" unfolding record_failed(1)
    by (rule owned_step [OF inv record_failed(2)]) (use f history_push [of "sy_orch s" n report] in \<open>auto simp: push_history_def\<close>)
  then show ?thesis by blast
next
  case (leave k i x)
  note f = owned_facts [OF inv leave(2)]
  have "run_inv n s'" unfolding leave(1)
    by (rule owned_step [OF inv leave(2)]) (use f in \<open>cases x; auto simp: leave_def\<close>)+
  then show ?thesis by blast
next
  case cancel
  then have "run_inv n s' = run_inv n s" by (simp add: run_inv_def orch_Cancel_fields)
  with inv show ?thesis by blast
next
  case (environment w')
  then show ?thesis using inv run_inv_world by blast
qed

lemma run_steps_inv: "(run_step ag)\<^sup>*\<^sup>* s0 s \<Longrightarrow> run_inv n s0 \<Longrightarrow> \<exists>m. run_inv m s"
  by (induction rule: rtranclp_induct) (auto dest: run_step_inv)

text \<open>A call of \<open>Run\<close>, step by step.\<close>

lemma run_one_caller:
  assumes "Run ag started req ctx st w = (Returns (report, r), st', w')"
  shows "(run_step ag)\<^sup>*\<^sup>* \<lparr> sy_orch = st, sy_world = w, sy_callers = [CIdle] \<rparr>
    \<lparr> sy_orch = st', sy_world = w', sy_callers = [CReturned r] \<rparr>"
proof -
  show ?thesis
  proof (cases "acquire st")
    case None
    with assms have r: "r = Some (ErrBusy (rs_RunID (or_current st)))" "st' = st" "w' = w" by (auto simp: Run_def)
    let ?s = "\<lambda>c. \<lparr> sy_orch = st, sy_world = w, sy_callers = [c] \<rparr>"
    have "run_step ag (?s CIdle) (?s CLost)"
      using run_step.lose [of "?s CIdle" 0 ag] None by (simp add: caller_at_def set_caller_def)
    moreover have "run_step ag (?s CLost) (?s (CReturned r))"
      using run_step.busy [of "?s CLost" 0 ag] r by (simp add: caller_at_def set_caller_def)
    ultimately show ?thesis unfolding r(2,3) by (meson r_into_rtranclp rtranclp_trans)
  next
    case (Some st1)
    obtain i st2 where n: "next_run st1 = (i, st2)" by (rule prod.exhaust)
    let ?s = "\<lambda>c x v. \<lparr> sy_orch = x, sy_world = v, sy_callers = [c] \<rparr>"
    let ?st3 = "begin_run i started st2"
    have "run_step ag (?s CIdle st w) (?s CWon st1 w)"
      using run_step.win [of "?s CIdle st w" 0 st1 ag] Some by (simp add: caller_at_def set_caller_def)
    moreover have "run_step ag (?s CWon st1 w) (?s (CNumbered i) st2 w)"
      using run_step.number [of "?s CWon st1 w" 0 i st2 ag] n by (simp add: caller_at_def set_caller_def)
    moreover have "run_step ag (?s (CNumbered i) st2 w) (?s (CArmed i) (arm_cancel i st2) w)"
      using run_step.arm [of "?s (CNumbered i) st2 w" 0 i ag] by (simp add: caller_at_def set_caller_def)
    moreover have "run_step ag (?s (CArmed i) (arm_cancel i st2) w) (?s (CRunning i) ?st3 w)"
      using run_step.start [of "?s (CArmed i) (arm_cancel i st2) w" 0 i ag started]
      by (simp add: caller_at_def set_caller_def begin_run_def)
    ultimately have begun: "(run_step ag)\<^sup>*\<^sup>* (?s CIdle st w) (?s (CRunning i) ?st3 w)"
      by (meson r_into_rtranclp rtranclp_trans)
    from assms Some n obtain e evs where body: "pipeline_body ag i req ctx w = Returns (report, e, evs, w')"
      and st': "st' = leave i ((case e of None \<Rightarrow> finish_ok | Some _ \<Rightarrow> finish_failed) report (?st3\<lparr> or_events := or_events ?st3 @ evs \<rparr>))"
      and r: "r = map_option ErrRun e"
      by (auto simp: Run_def Let_def split: run.splits prod.splits option.splits)
    show ?thesis
    proof (cases e)
      case None
      let ?st4 = "?st3\<lparr> or_events := or_events ?st3 @ evs @ [EvComplete report] \<rparr>"
      have "run_step ag (?s (CRunning i) ?st3 w) (?s (CSucceeded i report) ?st4 w')"
        using run_step.succeed [of "?s (CRunning i) ?st3 w" 0 i ag req ctx report evs w'] body None
        by (simp add: caller_at_def set_caller_def)
      moreover have "run_step ag (?s (CSucceeded i report) ?st4 w') (?s (CPublished i report) (publish_end report ?st4) w')"
        using run_step.publish [of "?s (CSucceeded i report) ?st4 w'" 0 i report ag] by (simp add: caller_at_def set_caller_def)
      moreover have "run_step ag (?s (CPublished i report) (publish_end report ?st4) w')
          (?s (CRecorded i EndOk) (push_history report (publish_end report ?st4)) w')"
        using run_step.record_ok [of "?s (CPublished i report) (publish_end report ?st4) w'" 0 i report ag]
        by (simp add: caller_at_def set_caller_def)
      moreover have "run_step ag (?s (CRecorded i EndOk) (push_history report (publish_end report ?st4)) w') (?s (CReturned r) st' w')"
        using run_step.leave [of "?s (CRecorded i EndOk) (push_history report (publish_end report ?st4)) w'" 0 i EndOk ag] r None st'
        by (simp add: caller_at_def set_caller_def finish_ok_def emit_def)
      ultimately show ?thesis using begun by (meson r_into_rtranclp rtranclp_trans)
    next
      case (Some x)
      let ?st4 = "emit_failed report (?st3\<lparr> or_events := or_events ?st3 @ evs \<rparr>)"
      have "run_step ag (?s (CRunning i) ?st3 w) (?s (CFailed i report (EndErr x)) ?st4 w')"
        using run_step.fail [of "?s (CRunning i) ?st3 w" 0 i ag req ctx report x evs w'] body Some
        by (simp add: caller_at_def set_caller_def)
      moreover have "run_step ag (?s (CFailed i report (EndErr x)) ?st4 w') (?s (CRecorded i (EndErr x)) (push_history report ?st4) w')"
        using run_step.record_failed [of "?s (CFailed i report (EndErr x)) ?st4 w'" 0 i report "EndErr x" ag]
        by (simp add: caller_at_def set_caller_def)
      moreover have "run_step ag (?s (CRecorded i (EndErr x)) (push_history report ?st4) w') (?s (CReturned r) st' w')"
        using run_step.leave [of "?s (CRecorded i (EndErr x)) (push_history report ?st4) w'" 0 i "EndErr x" ag] r Some st'
        by (simp add: caller_at_def set_caller_def finish_failed_def)
      ultimately show ?thesis using begun by (meson r_into_rtranclp rtranclp_trans)
    qed
  qed
qed

section \<open>Properties\<close>

text \<open>
  C4: single flight. However many callers there are and however their steps interleave with each
  other, with cancellations and with changes of the outside world, at most one run is between the
  swap and its release, the flag is up exactly while there is one, and the history holds the last
  ten recorded runs in the order of their numbers.
\<close>

theorem single_flight:
  assumes "(run_step ag)\<^sup>*\<^sup>* (sys_init m w) s"
  shows "card {k. k < length (sy_callers s) \<and> owner (sy_callers s ! k)} \<le> 1 \<and>
    (or_running (sy_orch s) \<longleftrightarrow> (\<exists>k<length (sy_callers s). owner (sy_callers s ! k))) \<and>
    (\<exists>n. map rp_RunID (orch_History (sy_orch s)) = drop (n - 10) (map of_nat [1..<Suc n])) \<and>
    length (orch_History (sy_orch s)) \<le> 10"
proof -
  from run_steps_inv [OF assms run_inv_init] obtain n where inv: "run_inv n s" ..
  let ?O = "{k. k < length (sy_callers s) \<and> owner (sy_callers s ! k)}"
  have "\<forall>j\<in>?O. \<forall>k\<in>?O. j = k" using inv unfolding run_inv_def by blast
  then have "card ?O \<le> 1" using card_le_Suc0_iff_eq [of ?O] by simp
  moreover have "or_running (sy_orch s) \<longleftrightarrow> (\<exists>k<length (sy_callers s). owner (sy_callers s ! k))"
    using inv unfolding run_inv_def by blast
  moreover have h: "map rp_RunID (orch_History (sy_orch s)) = drop (n - 10) (map of_nat [1..<Suc n])"
    using inv unfolding run_inv_def last_ten_def orch_History_def by blast
  moreover from h have "length (orch_History (sy_orch s)) = n - (n - 10)" by (metis (mono_tags, lifting) length_drop length_map length_upt diff_Suc_1)
  ultimately show ?thesis by (auto intro: exI [of _ n])
qed


text \<open>
  after a run that failed the slot is free, but \<open>Status\<close> still says that this run is running,
  with no report, until the next run starts; the report is in the history, and \<open>Cancel\<close> says that
  nothing runs.
\<close>

theorem failed_run_stays_running:
  assumes "Run ag started req ctx st w = (Returns (report, Some (ErrRun e)), st', w')"
  shows "\<not> or_running st' \<and> rs_Running (orch_Status st') \<and> rs_RunID (orch_Status st') = rp_RunID report \<and>
    rs_Report (orch_Status st') = None \<and> orch_Cancel st' = (False, st') \<and> last (orch_History st') = report"
proof -
  from assms obtain i evs st2 where b: "pipeline_body ag i req ctx w = Returns (report, Some e, evs, w')"
    and st': "st' = leave i (finish_failed report ((begin_run i started st2)\<lparr> or_events := or_events (begin_run i started st2) @ evs \<rparr>))"
    by (auto simp: Run_def Let_def split: run.splits prod.splits option.splits)
  from body_run_id [OF b] show ?thesis
    by (simp add: st' leave_def finish_failed_def push_history_def emit_failed_def emit_def begin_run_def publish_start_def arm_cancel_def
        orch_Status_def orch_Cancel_def orch_History_def)
qed

text \<open>
  the number a busy caller is given and the run that \<open>Cancel\<close> stops can be those of an earlier
  run. Two executions: during the first run a second caller is told that run 0 is in flight; and
  while the second run has its number but has not armed its cancellation, \<open>Cancel\<close> reports
  success and cancels the first one only.
\<close>

theorem stale_run_window:
  "\<exists>s t u. (run_step ex_agents)\<^sup>*\<^sup>* (sys_init 2 (ex_world [])) s \<and> caller_at s 0 (CNumbered 1) \<and> caller_at s 1 (CReturned (Some (ErrBusy 0))) \<and>
     (run_step ex_agents)\<^sup>*\<^sup>* (sys_init 1 (ex_world [])) t \<and> caller_at t 0 (CNumbered 2) \<and>
     orch_Cancel (sy_orch t) = (True, u) \<and> 2 \<notin> or_cancelled u"
proof -
  let ?s0 = "sys_init 2 (ex_world [])"
  have s0: "?s0 = \<lparr> sy_orch = orch_New, sy_world = ex_world [], sy_callers = [CIdle, CIdle] \<rparr>"
    by (simp add: sys_init_def numeral_2_eq_2)
  let ?o1 = "orch_New\<lparr> or_running := True \<rparr>"
  let ?s1 = "\<lparr> sy_orch = ?o1, sy_world = ex_world [], sy_callers = [CWon, CIdle] \<rparr>"
  let ?o2 = "snd (next_run ?o1)"
  let ?s2 = "\<lparr> sy_orch = ?o2, sy_world = ex_world [], sy_callers = [CNumbered 1, CIdle] \<rparr>"
  let ?s3 = "?s2\<lparr> sy_callers := [CNumbered 1, CLost] \<rparr>"
  let ?s4 = "?s2\<lparr> sy_callers := [CNumbered 1, CReturned (Some (ErrBusy 0))] \<rparr>"
  have "run_step ex_agents ?s0 ?s1"
    using run_step.win [of ?s0 0 ?o1 ex_agents] by (simp add: s0 caller_at_def set_caller_def acquire_def orch_New_def)
  moreover have "run_step ex_agents ?s1 ?s2"
    using run_step.number [of ?s1 0 1 ?o2 ex_agents] by (simp add: caller_at_def set_caller_def next_run_def Let_def orch_New_def)
  moreover have "run_step ex_agents ?s2 ?s3"
    using run_step.lose [of ?s2 1 ex_agents] by (simp add: caller_at_def set_caller_def next_run_def Let_def emit_def acquire_def)
  moreover have "run_step ex_agents ?s3 ?s4"
    using run_step.busy [of ?s3 1 ex_agents] by (simp add: caller_at_def set_caller_def next_run_def Let_def emit_def orch_New_def)
  ultimately have s: "(run_step ex_agents)\<^sup>*\<^sup>* ?s0 ?s4" by (meson r_into_rtranclp rtranclp_trans)
  obtain reg where "LoadAll ex_env (wd_registry (ex_world [])) = Returns (None, reg)"
    by (simp add: ex_world_def ex_registry_def LoadAll_def query_def exec_def Let_def)
  moreover have "ag_env ex_agents = ex_env" by (simp add: ex_agents_def)
  ultimately obtain report evs w1 where b: "pipeline_body ex_agents 1 ex_request (\<lambda>_. None) (ex_world []) = Returns (report, None, evs, w1)"
    using pipeline_body_returns [of ex_agents "ex_world []" reg "\<lambda>_. None" 1 ex_request] by auto
  obtain st where r: "Run ex_agents 0 ex_request (\<lambda>_. None) orch_New (ex_world []) = (Returns (report, None), st, w1)"
    and st: "or_running st = False" "or_counter st = 1" "or_cancelFn st = Some 1" "or_cancelled st = {1}"
    by (simp add: Run_def acquire_def next_run_def Let_def b orch_New_def emit_def begin_run_def publish_start_def arm_cancel_def
        leave_def finish_ok_def push_history_def publish_end_def)
  have first: "(run_step ex_agents)\<^sup>*\<^sup>* (sys_init 1 (ex_world [])) \<lparr> sy_orch = st, sy_world = w1, sy_callers = [CReturned None] \<rparr>"
    using run_one_caller [OF r] by (simp add: sys_init_def)
  let ?t0 = "\<lparr> sy_orch = st, sy_world = w1, sy_callers = [CReturned None] \<rparr>"
  let ?t1 = "?t0\<lparr> sy_callers := [CIdle] \<rparr>"
  let ?t2 = "?t0\<lparr> sy_orch := st\<lparr> or_running := True \<rparr>, sy_callers := [CWon] \<rparr>"
  let ?o3 = "snd (next_run (st\<lparr> or_running := True \<rparr>))"
  let ?t3 = "?t0\<lparr> sy_orch := ?o3, sy_callers := [CNumbered 2] \<rparr>"
  have "run_step ex_agents ?t0 ?t1"
    using run_step.again [of ?t0 0 None ex_agents] by (simp add: caller_at_def set_caller_def)
  moreover have "run_step ex_agents ?t1 ?t2"
    using run_step.win [of ?t1 0 "st\<lparr> or_running := True \<rparr>" ex_agents] st by (simp add: caller_at_def set_caller_def acquire_def)
  moreover have "run_step ex_agents ?t2 ?t3"
    using run_step.number [of ?t2 0 2 ?o3 ex_agents] st by (simp add: caller_at_def set_caller_def next_run_def Let_def)
  ultimately have t: "(run_step ex_agents)\<^sup>*\<^sup>* (sys_init 1 (ex_world [])) ?t3" using first by (meson r_into_rtranclp rtranclp_trans)
  have "orch_Cancel ?o3 = (True, ?o3)" "2 \<notin> or_cancelled ?o3"
    using st by (simp_all add: orch_Cancel_def next_run_def Let_def emit_def insert_absorb)
  with s t show ?thesis by (intro exI [of _ ?s4] exI [of _ ?t3] exI [of _ ?o3]) (simp add: caller_at_def)
qed

section \<open>Witnesses\<close>

text \<open>A run whose context is cancelled while the sources are loaded.\<close>

lemma ex_failed_run:
  obtains st' w' where "Run ex_agents 0 ex_request (\<lambda>_. Some ''context canceled'') orch_New (ex_world []) =
     (Returns (new_report 1, Some (ErrRun ''context canceled'')), st', w')"
proof -
  obtain reg where "LoadAll ex_env (wd_registry (ex_world [])) = Returns (None, reg)"
    by (simp add: ex_world_def ex_registry_def LoadAll_def query_def exec_def Let_def)
  moreover have "ag_env ex_agents = ex_env" by (simp add: ex_agents_def)
  ultimately have "pipeline_body ex_agents 1 ex_request (\<lambda>_. Some ''context canceled'') (ex_world []) =
      Returns (new_report 1, Some ''context canceled'', [], (ex_world [])\<lparr> wd_registry := reg \<rparr>)"
    by (simp add: pipeline_body_def Let_def)
  with that show ?thesis by (simp add: Run_def acquire_def next_run_def Let_def orch_New_def)
qed

theorem single_flight_witness:
  "\<exists>st' w'. (run_step ex_agents)\<^sup>*\<^sup>* (sys_init 1 (ex_world [])) \<lparr> sy_orch = st', sy_world = w',
       sy_callers = [CReturned (Some (ErrRun ''context canceled''))] \<rparr> \<and>
     length (orch_History st') \<le> 10 \<and> \<not> or_running st'"
proof -
  obtain st' w' where r: "Run ex_agents 0 ex_request (\<lambda>_. Some ''context canceled'') orch_New (ex_world []) =
     (Returns (new_report 1, Some (ErrRun ''context canceled'')), st', w')" by (rule ex_failed_run)
  have "(run_step ex_agents)\<^sup>*\<^sup>* (sys_init 1 (ex_world [])) \<lparr> sy_orch = st', sy_world = w',
      sy_callers = [CReturned (Some (ErrRun ''context canceled''))] \<rparr>"
    using run_one_caller [OF r] by (simp add: sys_init_def)
  with single_flight [OF this] show ?thesis by (intro exI [of _ st'] exI [of _ w']) simp
qed


theorem failed_run_stays_running_witness:
  "\<exists>report e st' w'. Run ex_agents 0 ex_request (\<lambda>_. Some ''context canceled'') orch_New (ex_world []) = (Returns (report, Some (ErrRun e)), st', w') \<and>
     \<not> or_running st' \<and> rs_Running (orch_Status st')"
proof -
  obtain st' w' where r: "Run ex_agents 0 ex_request (\<lambda>_. Some ''context canceled'') orch_New (ex_world []) =
     (Returns (new_report 1, Some (ErrRun ''context canceled'')), st', w')" by (rule ex_failed_run)
  from failed_run_stays_running [OF r] r show ?thesis by blast
qed

end
