(* ===== verification/Events.thy ===== *)
theory Events
  imports Store "HOL-Library.AList"
begin

text \<open>
  The event bus (\<open>internal/events/bus.go\<close>): buffered channels by number, and for each topic the
  channels subscribed to it. A send on a closed channel and a second close panic, as in Go.
\<close>

section \<open>The bus\<close>

record 'e chan =
  ch_buf :: "'e list"
  ch_closed :: bool

record 'e bus =
  bs_chans :: "'e chan list"
  bs_subs :: "(string \<times> nat list) list"

definition NewBus :: "'e bus" where
  "NewBus = \<lparr> bs_chans = [], bs_subs = [] \<rparr>"

definition chan_cap :: nat where "chan_cap = 16"

definition topic_subs :: "'e bus \<Rightarrow> string \<Rightarrow> nat list" where
  "topic_subs b t = (case map_of (bs_subs b) t of None \<Rightarrow> [] | Some cs \<Rightarrow> cs)"

definition add_sub :: "nat \<Rightarrow> string \<Rightarrow> 'e bus \<Rightarrow> 'e bus" where
  "add_sub c t b = b\<lparr> bs_subs := AList.update t (topic_subs b t @ [c]) (bs_subs b) \<rparr>"

definition Subscribe :: "string list \<Rightarrow> 'e bus \<Rightarrow> nat \<times> 'e bus" where
  "Subscribe topics b =
     (let c = length (bs_chans b) in
      (c, fold (add_sub c) topics (b\<lparr> bs_chans := bs_chans b @ [\<lparr> ch_buf = [], ch_closed = False \<rparr>] \<rparr>)))"

definition close_chan :: "nat \<Rightarrow> 'e chan list \<Rightarrow> 'e chan list run" where
  "close_chan c cs = (if ch_closed (cs ! c) then Panics ''close of closed channel'' else Returns (cs[c := (cs ! c)\<lparr> ch_closed := True \<rparr>]))"

text \<open>Only the first occurrence of the channel in a topic is removed.\<close>

definition Unsubscribe :: "nat \<Rightarrow> 'e bus \<Rightarrow> 'e bus run" where
  "Unsubscribe c b =
     (case close_chan c (bs_chans b) of
        Panics e \<Rightarrow> Panics e
      | Returns cs \<Rightarrow> Returns (b\<lparr> bs_chans := cs,
          bs_subs := filter (\<lambda>(t, l). l \<noteq> []) (map (\<lambda>(t, l). (t, remove1 c l)) (bs_subs b)) \<rparr>))"

text \<open>The non-blocking send: a full buffer drops the event.\<close>

fun send_all :: "'e \<Rightarrow> nat list \<Rightarrow> 'e chan list \<Rightarrow> 'e chan list run" where
  "send_all ev [] cs = Returns cs"
| "send_all ev (c # l) cs =
     (if ch_closed (cs ! c) then Panics ''send on closed channel''
      else send_all ev l (if length (ch_buf (cs ! c)) < chan_cap then cs[c := (cs ! c)\<lparr> ch_buf := ch_buf (cs ! c) @ [ev] \<rparr>] else cs))"

definition bus_Publish :: "string \<Rightarrow> 'e \<Rightarrow> 'e bus \<Rightarrow> 'e bus run" where
  "bus_Publish topic ev b = (case send_all ev (topic_subs b topic) (bs_chans b) of
     Panics e \<Rightarrow> Panics e | Returns cs \<Rightarrow> Returns (b\<lparr> bs_chans := cs \<rparr>))"

fun close_all :: "nat list \<Rightarrow> 'e chan list \<Rightarrow> 'e chan list run" where
  "close_all [] cs = Returns cs"
| "close_all (c # l) cs = (case close_chan c cs of Panics e \<Rightarrow> Panics e | Returns cs' \<Rightarrow> close_all l cs')"

definition bus_Close :: "'e bus \<Rightarrow> 'e bus run" where
  "bus_Close b = (case close_all (concat (map snd (bs_subs b))) (bs_chans b) of
     Panics e \<Rightarrow> Panics e | Returns cs \<Rightarrow> Returns (b\<lparr> bs_chans := cs, bs_subs := [] \<rparr>))"

text \<open>The consumer's receive: the oldest buffered event.\<close>

definition receive :: "nat \<Rightarrow> 'e bus \<Rightarrow> 'e option \<times> 'e bus" where
  "receive c b = (case ch_buf (bs_chans b ! c) of
     [] \<Rightarrow> (None, b)
   | ev # l \<Rightarrow> (Some ev, b\<lparr> bs_chans := (bs_chans b)[c := (bs_chans b ! c)\<lparr> ch_buf := l \<rparr>] \<rparr>))"

section \<open>Well-formed buses\<close>

text \<open>Topics are keys of a map, and a subscribed channel exists, is open and is listed once.\<close>

definition bus_ok :: "'e bus \<Rightarrow> bool" where
  "bus_ok b \<longleftrightarrow> distinct (map fst (bs_subs b)) \<and>
     (\<forall>(t, l)\<in>set (bs_subs b). distinct l \<and> (\<forall>c\<in>set l. c < length (bs_chans b) \<and> \<not> ch_closed (bs_chans b ! c)))"

lemma topic_subs_ok:
  assumes "bus_ok b"
  shows "distinct (topic_subs b t) \<and> (\<forall>c\<in>set (topic_subs b t). c < length (bs_chans b) \<and> \<not> ch_closed (bs_chans b ! c))"
  using assms by (fastforce simp: bus_ok_def topic_subs_def split: option.split dest: map_of_SomeD)

text \<open>The buffers after a publication.\<close>

definition deliver_to :: "'e \<Rightarrow> nat set \<Rightarrow> nat \<Rightarrow> 'e chan \<Rightarrow> 'e chan" where
  "deliver_to ev S c ch = (if c \<in> S \<and> length (ch_buf ch) < chan_cap then ch\<lparr> ch_buf := ch_buf ch @ [ev] \<rparr> else ch)"

lemma send_all_ok:
  assumes "distinct l" and "\<forall>c\<in>set l. c < length cs \<and> \<not> ch_closed (cs ! c)"
  shows "\<exists>cs'. send_all ev l cs = Returns cs' \<and> length cs' = length cs \<and>
    (\<forall>c<length cs. cs' ! c = deliver_to ev (set l) c (cs ! c))"
  using assms
proof (induction ev l cs rule: send_all.induct)
  case (2 ev c l cs)
  let ?cs = "if length (ch_buf (cs ! c)) < chan_cap then cs[c := (cs ! c)\<lparr> ch_buf := ch_buf (cs ! c) @ [ev] \<rparr>] else cs"
  have c: "c < length cs" "\<not> ch_closed (cs ! c)" "c \<notin> set l" using "2.prems" by auto
  have "\<forall>d\<in>set l. d < length ?cs \<and> \<not> ch_closed (?cs ! d)" using "2.prems" c(3) by (auto simp: nth_list_update)
  with "2.IH" c "2.prems"(1) obtain cs' where ih: "send_all ev l ?cs = Returns cs'" "length cs' = length ?cs"
      "\<forall>d<length ?cs. cs' ! d = deliver_to ev (set l) d (?cs ! d)" by auto
  have "cs' ! d = deliver_to ev (set (c # l)) d (cs ! d)" if "d < length cs" for d
    using ih(3) that c by (cases "d = c") (auto simp: deliver_to_def nth_list_update)
  with ih c show ?case by auto
qed (simp add: deliver_to_def)

lemma closed_mono: "close_all l cs = Returns cs' \<Longrightarrow> c < length cs \<Longrightarrow> ch_closed (cs ! c) \<Longrightarrow> c \<notin> set l"
proof (induction l arbitrary: cs)
  case (Cons d l)
  then show ?case by (cases "d = c") (auto simp: close_chan_def nth_list_update split: if_splits)
qed simp

lemma close_all_distinct: "close_all l cs = Returns cs' \<Longrightarrow> \<forall>c\<in>set l. c < length cs \<Longrightarrow> distinct l"
proof (induction l arbitrary: cs)
  case (Cons c l)
  then obtain cs1 where c: "close_chan c cs = Returns cs1" and rest: "close_all l cs1 = Returns cs'"
    by (auto split: run.splits)
  then have len: "length cs1 = length cs" and "ch_closed (cs1 ! c)" using Cons.prems(2) by (auto simp: close_chan_def split: if_splits)
  with closed_mono [OF rest] Cons.prems(2) have "c \<notin> set l" by auto
  with Cons.IH [OF rest] Cons.prems(2) len show ?case by simp
qed simp

lemma add_sub_chans [simp]: "bs_chans (fold (add_sub c) ts b) = bs_chans b"
  by (induction ts arbitrary: b) (simp_all add: add_sub_def)

lemma topic_subs_add: "topic_subs (add_sub c t b) u = (if u = t then topic_subs b t @ [c] else topic_subs b u)"
  by (simp add: topic_subs_def add_sub_def update_conv')

lemma topic_subs_fold: "distinct ts \<Longrightarrow> topic_subs (fold (add_sub c) ts b) u = (if u \<in> set ts then topic_subs b u @ [c] else topic_subs b u)"
  by (induction ts arbitrary: b) (auto simp: topic_subs_add)

lemma keys_add_sub: "distinct (map fst (bs_subs b)) \<Longrightarrow> distinct (map fst (bs_subs (fold (add_sub c) ts b)))"
  by (induction ts arbitrary: b) (simp_all add: add_sub_def distinct_update)

lemma bus_ok_alt:
  "bus_ok b \<longleftrightarrow> distinct (map fst (bs_subs b)) \<and>
     (\<forall>t. distinct (topic_subs b t) \<and> (\<forall>c\<in>set (topic_subs b t). c < length (bs_chans b) \<and> \<not> ch_closed (bs_chans b ! c)))"
proof
  assume "bus_ok b"
  with topic_subs_ok show "distinct (map fst (bs_subs b)) \<and>
     (\<forall>t. distinct (topic_subs b t) \<and> (\<forall>c\<in>set (topic_subs b t). c < length (bs_chans b) \<and> \<not> ch_closed (bs_chans b ! c)))"
    unfolding bus_ok_def by blast
next
  assume a: "distinct (map fst (bs_subs b)) \<and>
     (\<forall>t. distinct (topic_subs b t) \<and> (\<forall>c\<in>set (topic_subs b t). c < length (bs_chans b) \<and> \<not> ch_closed (bs_chans b ! c)))"
  have "topic_subs b t = l" if "(t, l) \<in> set (bs_subs b)" for t l
    using a that by (simp add: topic_subs_def)
  then have "distinct l \<and> (\<forall>c\<in>set l. c < length (bs_chans b) \<and> \<not> ch_closed (bs_chans b ! c))" if "(t, l) \<in> set (bs_subs b)" for t l
    using a that by blast
  with a show "bus_ok b" unfolding bus_ok_def by blast
qed

lemma Subscribe_ok:
  assumes "bus_ok b" and "distinct topics" and "Subscribe topics b = (c, b')"
  shows "bus_ok b' \<and> c = length (bs_chans b) \<and> (\<forall>t. topic_subs b' t = (if t \<in> set topics then topic_subs b t @ [c] else topic_subs b t)) \<and>
    bs_chans b' = bs_chans b @ [\<lparr> ch_buf = [], ch_closed = False \<rparr>]"
proof -
  let ?b = "b\<lparr> bs_chans := bs_chans b @ [\<lparr> ch_buf = [], ch_closed = False \<rparr>] \<rparr>"
  have b': "b' = fold (add_sub c) topics ?b" "c = length (bs_chans b)" using assms(3) by (auto simp: Subscribe_def Let_def)
  have subs: "topic_subs b' t = (if t \<in> set topics then topic_subs b t @ [c] else topic_subs b t)" for t
    unfolding b'(1) topic_subs_fold [OF assms(2)] by (simp add: topic_subs_def)
  have old: "c \<notin> set (topic_subs b t)" for t using topic_subs_ok [OF assms(1), of t] b'(2) by blast
  have "distinct (map fst (bs_subs b'))" unfolding b'(1) by (rule keys_add_sub) (use assms(1) in \<open>simp add: bus_ok_def\<close>)
  moreover have "distinct (topic_subs b' t) \<and> (\<forall>d\<in>set (topic_subs b' t). d < length (bs_chans b') \<and> \<not> ch_closed (bs_chans b' ! d))" for t
    using topic_subs_ok [OF assms(1), of t] old [of t] unfolding subs by (auto simp: b' nth_append)
  ultimately have "bus_ok b'" unfolding bus_ok_alt by blast
  with subs b' show ?thesis by simp
qed

lemma map_of_drop_empty:
  "distinct (map fst al) \<Longrightarrow> map_of (filter (\<lambda>(t, l). l \<noteq> []) (map (\<lambda>(t, l). (t, remove1 c l)) al)) t =
     (case map_of al t of None \<Rightarrow> None | Some l \<Rightarrow> if remove1 c l = [] then None else Some (remove1 c l))"
proof (induction al)
  case (Cons x al)
  obtain u l where x: "x = (u, l)" by (rule prod.exhaust)
  with Cons.prems have u: "map_of al u = None" by (simp add: map_of_eq_None_iff)
  from Cons x have ih: "map_of (filter (\<lambda>(t, l). l \<noteq> []) (map (\<lambda>(t, l). (t, remove1 c l)) al)) t =
     (case map_of al t of None \<Rightarrow> None | Some l \<Rightarrow> if remove1 c l = [] then None else Some (remove1 c l))" by simp
  show ?case
  proof (cases "t = u")
    case True
    with ih u have "map_of (filter (\<lambda>(t, l). l \<noteq> []) (map (\<lambda>(t, l). (t, remove1 c l)) al)) u = None" by simp
    with True show ?thesis by (simp add: x)
  next
    case False
    with ih show ?thesis by (simp add: x)
  qed
qed simp

lemma Unsubscribe_ok:
  assumes "bus_ok b" and "c < length (bs_chans b)" and "\<not> ch_closed (bs_chans b ! c)"
  shows "\<exists>b'. Unsubscribe c b = Returns b' \<and> bus_ok b' \<and> (\<forall>t. topic_subs b' t = remove1 c (topic_subs b t)) \<and>
    bs_chans b' = (bs_chans b)[c := (bs_chans b ! c)\<lparr> ch_closed := True \<rparr>]"
proof -
  let ?subs = "filter (\<lambda>(t, l). l \<noteq> []) (map (\<lambda>(t, l). (t, remove1 c l)) (bs_subs b))"
  let ?b = "b\<lparr> bs_chans := (bs_chans b)[c := (bs_chans b ! c)\<lparr> ch_closed := True \<rparr>], bs_subs := ?subs \<rparr>"
  have u: "Unsubscribe c b = Returns ?b" using assms(3) by (simp add: Unsubscribe_def close_chan_def)
  have dist: "distinct (map fst (bs_subs b))" using assms(1) by (simp add: bus_ok_def)
  have subs: "topic_subs ?b t = remove1 c (topic_subs b t)" for t
    using map_of_drop_empty [OF dist, of c t] by (simp add: topic_subs_def split: option.split)
  have "map fst ?subs = map fst (filter (\<lambda>(t, l). remove1 c l \<noteq> []) (bs_subs b))"
    by (simp add: filter_map comp_def split_def)
  moreover have "distinct (map fst (filter (\<lambda>(t, l). remove1 c l \<noteq> []) (bs_subs b)))"
    using dist by (rule distinct_map_filter)
  ultimately have "distinct (map fst (bs_subs ?b))" by simp
  moreover have "distinct (topic_subs ?b t) \<and> (\<forall>d\<in>set (topic_subs ?b t). d < length (bs_chans ?b) \<and> \<not> ch_closed (bs_chans ?b ! d))" for t
    using topic_subs_ok [OF assms(1), of t] unfolding subs by (auto simp: nth_list_update)
  ultimately have "bus_ok ?b" unfolding bus_ok_alt by blast
  with u subs show ?thesis by (intro exI [of _ ?b]) simp
qed

text \<open>A channel that is subscribed to two topics is closed twice.\<close>

lemma close_two_topics:
  assumes ok: "bus_ok b" and c: "c \<in> set (topic_subs b t)" "c \<in> set (topic_subs b u)" and tu: "t \<noteq> u"
  shows "\<exists>e. bus_Close b = Panics e"
proof (rule ccontr)
  assume "\<not> ?thesis"
  then obtain cs where r: "close_all (concat (map snd (bs_subs b))) (bs_chans b) = Returns cs"
    by (auto simp: bus_Close_def split: run.splits)
  have "\<forall>d\<in>set (concat (map snd (bs_subs b))). d < length (bs_chans b)" using ok by (fastforce simp: bus_ok_def)
  from close_all_distinct [OF r this] have d: "distinct (concat (map snd (bs_subs b)))" .
  have found: "\<exists>l. map_of (bs_subs b) v = Some l \<and> c \<in> set l" if "c \<in> set (topic_subs b v)" for v
    using that by (cases "map_of (bs_subs b) v") (simp_all add: topic_subs_def)
  obtain l m where l: "map_of (bs_subs b) t = Some l" "c \<in> set l" and m: "map_of (bs_subs b) u = Some m" "c \<in> set m"
    using found c by blast
  have "(t, l) \<in> set (bs_subs b)" "(u, m) \<in> set (bs_subs b)" using l m by (auto dest: map_of_SomeD)
  then have "\<exists>i j. i < length (bs_subs b) \<and> j < length (bs_subs b) \<and> i \<noteq> j \<and> bs_subs b ! i = (t, l) \<and> bs_subs b ! j = (u, m)"
    using tu by (metis in_set_conv_nth fst_conv)
  then obtain i j where ij: "i < length (bs_subs b)" "j < length (bs_subs b)" "i < j"
      "c \<in> set (snd (bs_subs b ! i))" "c \<in> set (snd (bs_subs b ! j))"
    using l(2) m(2) by (metis linorder_neqE_nat snd_conv)
  have "bs_subs b = take j (bs_subs b) @ bs_subs b ! j # drop (Suc j) (bs_subs b)" using ij(2) by (rule id_take_nth_drop)
  then have "concat (map snd (bs_subs b)) =
      concat (map snd (take j (bs_subs b))) @ snd (bs_subs b ! j) @ concat (map snd (drop (Suc j) (bs_subs b)))"
    by (metis concat.simps(2) concat_append list.simps(9) map_append)
  with d have "set (concat (map snd (take j (bs_subs b)))) \<inter> set (snd (bs_subs b ! j)) = {}"
    by (metis distinct_append inf_sup_distrib1 set_append sup_eq_bot_iff)
  moreover have "bs_subs b ! i \<in> set (take j (bs_subs b))" using ij by (metis in_set_conv_nth length_take min_less_iff_conj nth_take)
  ultimately show False using ij(4,5) by auto
qed

section \<open>Properties\<close>

text \<open>
  publishing never blocks and never panics on a bus whose subscribed channels are open: every
  channel subscribed to the topic gets the event at the end of its buffer unless it already holds
  16, and no other channel changes.
\<close>

theorem publish_delivers:
  assumes "bus_ok b"
  shows "\<exists>b'. bus_Publish topic ev b = Returns b' \<and> bus_ok b' \<and> bs_subs b' = bs_subs b \<and>
    length (bs_chans b') = length (bs_chans b) \<and>
    (\<forall>c<length (bs_chans b). bs_chans b' ! c = deliver_to ev (set (topic_subs b topic)) c (bs_chans b ! c))"
proof -
  obtain cs where cs: "send_all ev (topic_subs b topic) (bs_chans b) = Returns cs" "length cs = length (bs_chans b)"
    and nth: "\<forall>c<length (bs_chans b). cs ! c = deliver_to ev (set (topic_subs b topic)) c (bs_chans b ! c)"
    using send_all_ok [of "topic_subs b topic" "bs_chans b" ev] topic_subs_ok [OF assms] by blast
  have "ch_closed (cs ! c) = ch_closed (bs_chans b ! c)" if "c < length (bs_chans b)" for c
    using nth that by (simp add: deliver_to_def)
  with assms cs(2) have "bus_ok (b\<lparr> bs_chans := cs \<rparr>)" unfolding bus_ok_def by fastforce
  with cs nth show ?thesis by (simp add: bus_Publish_def)
qed

text \<open>
  \<open>Close\<close> panics whenever a channel is subscribed to two topics, which is what every client of
  the event stream is: the channel is closed once for each topic.
\<close>

theorem close_panics:
  assumes "bus_ok b" and "Subscribe topics b = (c, b')" and "distinct topics" and "2 \<le> length topics"
  shows "\<exists>e. bus_Close b' = Panics e"
proof -
  note s = Subscribe_ok [OF assms(1,3,2)]
  obtain t u where tu: "t \<in> set topics" "u \<in> set topics" "t \<noteq> u"
    using assms(3,4) by (cases topics; cases "tl topics") auto
  with s have "c \<in> set (topic_subs b' t)" "c \<in> set (topic_subs b' u)" by simp_all
  with close_two_topics s tu(3) show ?thesis by blast
qed

section \<open>Witnesses\<close>

lemma bus_ok_new: "bus_ok NewBus"
  by (simp add: bus_ok_def NewBus_def)

definition sse_topics :: "string list" where
  "sse_topics = [''pipeline'', ''config'', ''routing'']"

theorem publish_delivers_witness:
  "\<exists>b. bus_Publish ''config'' (1 :: nat) (snd (Subscribe sse_topics NewBus)) = Returns b \<and> ch_buf (bs_chans b ! 0) = [1]"
proof -
  obtain c b where s: "Subscribe sse_topics (NewBus :: nat bus) = (c, b)" by (rule prod.exhaust)
  have "distinct sse_topics" by (simp add: sse_topics_def)
  note ok = Subscribe_ok [OF bus_ok_new this s]
  from publish_delivers [of b "''config''" 1] ok obtain b' where "bus_Publish ''config'' 1 b = Returns b'"
      "\<forall>d<length (bs_chans b). bs_chans b' ! d = deliver_to 1 (set (topic_subs b ''config'')) d (bs_chans b ! d)" by blast
  with ok s show ?thesis by (simp add: NewBus_def sse_topics_def deliver_to_def chan_cap_def topic_subs_def)
qed

theorem close_panics_witness: "\<exists>e. bus_Close (snd (Subscribe sse_topics (NewBus :: nat bus))) = Panics e"
  by (rule close_panics [OF bus_ok_new surjective_pairing]) (simp_all add: sse_topics_def)

end
