(* ===== verification/Watch.thy ===== *)
theory Watch
  imports Events Config
begin

text \<open>
  The configuration watcher (\<open>internal/config/watch.go\<close>): the current snapshot, its version, and
  the channels of the subscribers. First the operations as they run alone, then the step relation of
  publishers and subscribers that run concurrently, in which \<open>deliver\<close> works without the lock.
\<close>

section \<open>The watcher\<close>

record cfg_snapshot =
  sn_Version :: nat
  sn_Config :: Config

text \<open>
  The channel of subscription \<open>id\<close> is the \<open>id\<close>-th of \<open>wt_chans\<close>, so \<open>nextSub\<close> is their number;
  \<open>wt_subs\<close> are the keys of the map. The version stays far below \<open>2 ^ 64\<close> and is a number.
\<close>

record watcher =
  wt_current :: cfg_snapshot
  wt_version :: nat
  wt_subs :: "nat list"
  wt_chans :: "cfg_snapshot chan list"
  wt_buffered :: int
  wt_closed :: bool

definition NewWatcher :: "Config \<Rightarrow> int \<Rightarrow> watcher" where
  "NewWatcher initial buffered = \<lparr> wt_current = \<lparr> sn_Version = 1, sn_Config = Clone initial \<rparr>, wt_version = 1,
     wt_subs = [], wt_chans = [], wt_buffered = buffered, wt_closed = False \<rparr>"

definition wt_Current :: "watcher \<Rightarrow> cfg_snapshot" where
  "wt_Current w = \<lparr> sn_Version = sn_Version (wt_current w), sn_Config = Clone (sn_Config (wt_current w)) \<rparr>"

definition has_room :: "int \<Rightarrow> 'e chan \<Rightarrow> bool" where
  "has_room buffered ch \<longleftrightarrow> int (length (ch_buf ch)) < buffered"

definition push_chan :: "'e \<Rightarrow> 'e chan \<Rightarrow> 'e chan" where
  "push_chan x ch = ch\<lparr> ch_buf := ch_buf ch @ [x] \<rparr>"

definition pop_chan :: "'e chan \<Rightarrow> 'e chan" where
  "pop_chan ch = ch\<lparr> ch_buf := tl (ch_buf ch) \<rparr>"

text \<open>
  \<open>deliver\<close> while nobody else uses the channel. An unbuffered channel has no room and nothing to
  drain: without a waiting receiver the snapshot is dropped.
\<close>

function deliver :: "int \<Rightarrow> 'e \<Rightarrow> 'e chan \<Rightarrow> 'e chan run" where
  "deliver buffered snap ch =
     (if ch_closed ch then Panics ''send on closed channel''
      else if has_room buffered ch then Returns (push_chan snap ch)
      else if ch_buf ch = [] then Returns ch
      else deliver buffered snap (pop_chan ch))"
  by pat_completeness auto
termination by (relation "measure (\<lambda>(_, _, ch). length (ch_buf ch))") (auto simp: pop_chan_def)

declare deliver.simps [simp del]

fun deliver_all :: "int \<Rightarrow> 'e \<Rightarrow> nat list \<Rightarrow> 'e chan list \<Rightarrow> 'e chan list run" where
  "deliver_all buffered snap [] cs = Returns cs"
| "deliver_all buffered snap (i # ids) cs =
     (case deliver buffered snap (cs ! i) of
        Panics e \<Rightarrow> Panics e
      | Returns ch \<Rightarrow> deliver_all buffered snap ids (cs[i := ch]))"

text \<open>The part of \<open>Publish\<close> under the lock: the new snapshot becomes the current one.\<close>

definition commit :: "Config \<Rightarrow> watcher \<Rightarrow> cfg_snapshot \<times> watcher" where
  "commit next w = (let v = wt_version w + 1; snap = \<lparr> sn_Version = v, sn_Config = Clone next \<rparr>
     in (snap, w\<lparr> wt_version := v, wt_current := snap \<rparr>))"

definition publish_event :: "'e \<Rightarrow> 'e bus option \<Rightarrow> 'e bus option run" where
  "publish_event ev bo = (case bo of
     None \<Rightarrow> Returns None
   | Some b \<Rightarrow> (case bus_Publish ''config'' ev b of Panics e \<Rightarrow> Panics e | Returns b' \<Rightarrow> Returns (Some b')))"

definition wt_Publish :: "'e \<Rightarrow> Config \<Rightarrow> watcher \<Rightarrow> 'e bus option \<Rightarrow> (error option \<times> watcher \<times> 'e bus option) run" where
  "wt_Publish ev next w bo =
     (if Validate next \<noteq> [] then Returns (Some (join_with ''; '' (Validate next)), w, bo)
      else if wt_closed w then Returns (Some ''config: watcher closed'', w, bo)
      else case commit next w of (snap, w1) \<Rightarrow>
        (case deliver_all (wt_buffered w1) snap (wt_subs w1) (wt_chans w1) of
           Panics e \<Rightarrow> Panics e
         | Returns cs \<Rightarrow>
             (case publish_event ev bo of
                Panics e \<Rightarrow> Panics e
              | Returns bo' \<Rightarrow> Returns (None, w1\<lparr> wt_chans := cs \<rparr>, bo'))))"

definition wt_Subscribe :: "watcher \<Rightarrow> nat \<times> watcher" where
  "wt_Subscribe w = (length (wt_chans w),
     w\<lparr> wt_subs := wt_subs w @ [length (wt_chans w)], wt_chans := wt_chans w @ [\<lparr> ch_buf = [], ch_closed = False \<rparr>] \<rparr>)"

text \<open>The returned \<open>cancel\<close>; a second call finds no subscription.\<close>

definition wt_cancel :: "nat \<Rightarrow> watcher \<Rightarrow> watcher run" where
  "wt_cancel i w =
     (if i \<in> set (wt_subs w) then
        (case close_chan i (wt_chans w) of
           Panics e \<Rightarrow> Panics e
         | Returns cs \<Rightarrow> Returns (w\<lparr> wt_subs := remove1 i (wt_subs w), wt_chans := cs \<rparr>))
      else Returns w)"

definition wt_Close :: "watcher \<Rightarrow> watcher run" where
  "wt_Close w =
     (if wt_closed w then Returns w
      else case close_all (wt_subs w) (wt_chans w) of
        Panics e \<Rightarrow> Panics e
      | Returns cs \<Rightarrow> Returns (w\<lparr> wt_closed := True, wt_subs := [], wt_chans := cs \<rparr>))"

text \<open>A subscriber's receive.\<close>

definition wt_receive :: "nat \<Rightarrow> watcher \<Rightarrow> watcher" where
  "wt_receive i w = w\<lparr> wt_chans := (wt_chans w)[i := pop_chan (wt_chans w ! i)] \<rparr>"

section \<open>Operations one after the other\<close>

text \<open>
  The buffers hold snapshots in the order of their versions, never more than the buffer size, and
  every subscribed channel is open and registered once.
\<close>

definition chan_ok :: "int \<Rightarrow> nat \<Rightarrow> cfg_snapshot chan \<Rightarrow> bool" where
  "chan_ok buffered v ch \<longleftrightarrow> length (ch_buf ch) \<le> nat buffered \<and> sorted_wrt (<) (map sn_Version (ch_buf ch)) \<and>
     (\<forall>s\<in>set (ch_buf ch). sn_Version s \<le> v)"

definition watch_ok :: "watcher \<Rightarrow> bool" where
  "watch_ok w \<longleftrightarrow> distinct (wt_subs w) \<and> sn_Version (wt_current w) = wt_version w \<and>
     (\<forall>i\<in>set (wt_subs w). i < length (wt_chans w) \<and> \<not> ch_closed (wt_chans w ! i)) \<and>
     (\<forall>ch\<in>set (wt_chans w). chan_ok (wt_buffered w) (wt_version w) ch)"

text \<open>What a delivery does to the pending snapshots of a subscriber.\<close>

definition coalesce :: "int \<Rightarrow> 'e \<Rightarrow> 'e list \<Rightarrow> 'e list" where
  "coalesce buffered snap buf =
     (if buffered \<le> 0 then buf else (if int (length buf) < buffered then buf else tl buf) @ [snap])"

lemma deliver_coalesces:
  assumes "\<not> ch_closed ch" and "length (ch_buf ch) \<le> nat buffered"
  shows "deliver buffered snap ch = Returns (ch\<lparr> ch_buf := coalesce buffered snap (ch_buf ch) \<rparr>)"
proof (cases "has_room buffered ch")
  case True
  then show ?thesis
    using assms by (simp add: deliver.simps has_room_def push_chan_def coalesce_def)
next
  case full: False
  show ?thesis
  proof (cases "ch_buf ch")
    case Nil
    with full assms show ?thesis by (simp add: deliver.simps has_room_def coalesce_def)
  next
    case (Cons x xs)
    with full assms(2) have "int (length xs) < buffered" by simp
    then have "0 < buffered" by simp
    note pos = this \<open>int (length xs) < buffered\<close>
    have "deliver buffered snap (pop_chan ch) = Returns (push_chan snap (pop_chan ch))"
      using assms(1) Cons pos by (simp add: deliver.simps has_room_def pop_chan_def)
    with full assms(1) Cons pos show ?thesis
      by (subst deliver.simps) (simp add: has_room_def push_chan_def pop_chan_def coalesce_def)
  qed
qed

lemma deliver_all_coalesces:
  assumes "distinct ids" and "\<forall>i\<in>set ids. i < length cs \<and> \<not> ch_closed (cs ! i) \<and> length (ch_buf (cs ! i)) \<le> nat buffered"
  shows "\<exists>cs'. deliver_all buffered snap ids cs = Returns cs' \<and> length cs' = length cs \<and>
    (\<forall>i<length cs. cs' ! i = (if i \<in> set ids then (cs ! i)\<lparr> ch_buf := coalesce buffered snap (ch_buf (cs ! i)) \<rparr> else cs ! i))"
  using assms
proof (induction ids arbitrary: cs)
  case (Cons i ids)
  let ?ch = "(cs ! i)\<lparr> ch_buf := coalesce buffered snap (ch_buf (cs ! i)) \<rparr>"
  have i: "i < length cs" "i \<notin> set ids" using Cons.prems by auto
  have "deliver buffered snap (cs ! i) = Returns ?ch" using Cons.prems(2) by (intro deliver_coalesces) auto
  moreover have "\<forall>j\<in>set ids. j < length (cs[i := ?ch]) \<and> \<not> ch_closed (cs[i := ?ch] ! j) \<and> length (ch_buf (cs[i := ?ch] ! j)) \<le> nat buffered"
    using Cons.prems(2) i(2) by (auto simp: nth_list_update)
  moreover have "distinct ids" using Cons.prems(1) by simp
  ultimately obtain cs' where "deliver_all buffered snap (i # ids) cs = Returns cs'" "length cs' = length cs"
      "\<forall>j<length cs. cs' ! j = (if j \<in> set ids then (cs[i := ?ch] ! j)\<lparr> ch_buf := coalesce buffered snap (ch_buf (cs[i := ?ch] ! j)) \<rparr> else cs[i := ?ch] ! j)"
    using Cons.IH [of "cs[i := ?ch]"] by auto
  with i show ?case by (intro exI [of _ cs']) (auto simp: nth_list_update)
qed simp

lemma coalesce_ok:
  assumes "chan_ok buffered v ch" and "v < sn_Version snap"
  shows "chan_ok buffered (sn_Version snap) (ch\<lparr> ch_buf := coalesce buffered snap (ch_buf ch) \<rparr>)"
proof -
  have "sorted_wrt (<) (map sn_Version (tl (ch_buf ch)))" "\<forall>s\<in>set (tl (ch_buf ch)). sn_Version s \<le> v"
    using assms(1) by (cases "ch_buf ch"; simp add: chan_ok_def)+
  with assms show ?thesis
    by (auto simp: chan_ok_def coalesce_def sorted_wrt_append)
qed

lemma chan_ok_mono: "chan_ok buffered v ch \<Longrightarrow> v \<le> v' \<Longrightarrow> chan_ok buffered v' ch"
  by (auto simp: chan_ok_def)

lemma chan_ok_pop: "chan_ok buffered v ch \<Longrightarrow> chan_ok buffered v (pop_chan ch)"
  by (cases "ch_buf ch") (auto simp: chan_ok_def pop_chan_def)

lemma watch_ok_new: "watch_ok (NewWatcher c n)"
  by (simp add: watch_ok_def NewWatcher_def)

lemma Publish_returns:
  assumes "watch_ok w" and "Validate nxt = []" and "\<not> wt_closed w" and "publish_event ev bo = Returns bo'"
  shows "\<exists>w'. wt_Publish ev nxt w bo = Returns (None, w', bo') \<and> watch_ok w' \<and>
    wt_current w' = \<lparr> sn_Version = wt_version w + 1, sn_Config = nxt \<rparr> \<and> wt_version w' = wt_version w + 1 \<and>
    wt_subs w' = wt_subs w \<and> wt_buffered w' = wt_buffered w \<and> wt_closed w' = wt_closed w \<and> length (wt_chans w') = length (wt_chans w) \<and>
    (\<forall>i<length (wt_chans w). wt_chans w' ! i = (if i \<in> set (wt_subs w)
       then (wt_chans w ! i)\<lparr> ch_buf := coalesce (wt_buffered w) (wt_current w') (ch_buf (wt_chans w ! i)) \<rparr> else wt_chans w ! i))"
proof -
  let ?snap = "\<lparr> sn_Version = wt_version w + 1, sn_Config = nxt \<rparr>"
  have subs: "distinct (wt_subs w)" "\<forall>i\<in>set (wt_subs w). i < length (wt_chans w) \<and> \<not> ch_closed (wt_chans w ! i)"
    and chans: "\<forall>ch\<in>set (wt_chans w). chan_ok (wt_buffered w) (wt_version w) ch"
    using assms(1) by (simp_all add: watch_ok_def)
  have "\<forall>i\<in>set (wt_subs w). i < length (wt_chans w) \<and> \<not> ch_closed (wt_chans w ! i) \<and> length (ch_buf (wt_chans w ! i)) \<le> nat (wt_buffered w)"
    using subs(2) chans by (auto simp: chan_ok_def)
  from deliver_all_coalesces [OF subs(1) this, of ?snap] obtain cs
    where cs: "deliver_all (wt_buffered w) ?snap (wt_subs w) (wt_chans w) = Returns cs" "length cs = length (wt_chans w)"
      and nth: "\<forall>i<length (wt_chans w). cs ! i = (if i \<in> set (wt_subs w)
        then (wt_chans w ! i)\<lparr> ch_buf := coalesce (wt_buffered w) ?snap (ch_buf (wt_chans w ! i)) \<rparr> else wt_chans w ! i)" by blast
  have "chan_ok (wt_buffered w) (wt_version w + 1) (cs ! i)" if "i < length (wt_chans w)" for i
    using nth that chans coalesce_ok [of "wt_buffered w" "wt_version w" "wt_chans w ! i" ?snap]
      chan_ok_mono [of "wt_buffered w" "wt_version w" "wt_chans w ! i" "wt_version w + 1"] by simp
  then have "\<forall>ch\<in>set cs. chan_ok (wt_buffered w) (wt_version w + 1) ch" using cs(2) by (metis in_set_conv_nth)
  moreover have "\<not> ch_closed (cs ! i)" if "i \<in> set (wt_subs w)" for i using nth subs(2) that by simp
  ultimately have "watch_ok (w\<lparr> wt_version := wt_version w + 1, wt_current := ?snap, wt_chans := cs \<rparr>)"
    using subs cs(2) by (simp add: watch_ok_def)
  with assms(2-4) cs nth show ?thesis by (simp add: wt_Publish_def commit_def Let_def)
qed

text \<open>The watchers that operations run one after the other lead to; no operation may panic.\<close>

datatype watch_op = WPublish Config | WSubscribe | WCancel nat | WClose | WReceive nat

fun watch_exec :: "watch_op \<Rightarrow> watcher \<Rightarrow> watcher run" where
  "watch_exec (WPublish next) w = (case wt_Publish () next w None of Panics e \<Rightarrow> Panics e | Returns (_, w', _) \<Rightarrow> Returns w')"
| "watch_exec WSubscribe w = Returns (snd (wt_Subscribe w))"
| "watch_exec (WCancel i) w = wt_cancel i w"
| "watch_exec WClose w = wt_Close w"
| "watch_exec (WReceive i) w = Returns (wt_receive i w)"

fun watch_run :: "watch_op list \<Rightarrow> watcher \<Rightarrow> watcher run" where
  "watch_run [] w = Returns w"
| "watch_run (x # xs) w = (case watch_exec x w of Panics e \<Rightarrow> Panics e | Returns w' \<Rightarrow> watch_run xs w')"

text \<open>The configurations that are accepted by a sequence of operations, in order.\<close>

fun accepted :: "watch_op list \<Rightarrow> watcher \<Rightarrow> Config list" where
  "accepted [] w = []"
| "accepted (x # xs) w =
     (case x of WPublish next \<Rightarrow> if Validate next = [] \<and> \<not> wt_closed w then [next] else [] | _ \<Rightarrow> []) @
     (case watch_exec x w of Panics e \<Rightarrow> [] | Returns w' \<Rightarrow> accepted xs w')"

lemma chans_update: "\<forall>ch\<in>set cs. P ch \<Longrightarrow> (\<And>ch. P ch \<Longrightarrow> P (f ch)) \<Longrightarrow> \<forall>ch\<in>set (cs[i := f (cs ! i)]). P ch"
proof (cases "i < length cs")
  case True
  assume "\<forall>ch\<in>set cs. P ch" and "\<And>ch. P ch \<Longrightarrow> P (f ch)"
  with True show ?thesis by (auto dest!: set_update_subset_insert [THEN subsetD])
qed (simp add: list_update_beyond)

lemma Subscribe_watch_ok:
  assumes "watch_ok w"
  shows "watch_ok (snd (wt_Subscribe w))"
  using assms by (auto simp: watch_ok_def wt_Subscribe_def nth_append chan_ok_def)

lemma receive_watch_ok:
  assumes "watch_ok w"
  shows "watch_ok (wt_receive i w)"
proof -
  have "\<forall>ch\<in>set ((wt_chans w)[i := pop_chan (wt_chans w ! i)]). chan_ok (wt_buffered w) (wt_version w) ch"
    using assms by (intro chans_update) (auto simp: watch_ok_def chan_ok_pop)
  moreover have "\<not> ch_closed ((wt_chans w)[i := pop_chan (wt_chans w ! i)] ! j)" if "j \<in> set (wt_subs w)" for j
    using assms that by (cases "i = j"; auto simp: watch_ok_def pop_chan_def)
  ultimately show ?thesis using assms by (simp add: watch_ok_def wt_receive_def)
qed

lemma close_chan_ok: "chan_ok n v (ch\<lparr> ch_closed := True \<rparr>) = chan_ok n v ch"
  by (simp add: chan_ok_def)

lemma cancel_watch_ok:
  assumes "watch_ok w"
  shows "\<exists>w'. wt_cancel i w = Returns w' \<and> watch_ok w' \<and> wt_current w' = wt_current w \<and> wt_version w' = wt_version w \<and> wt_closed w' = wt_closed w \<and> wt_buffered w' = wt_buffered w"
proof (cases "i \<in> set (wt_subs w)")
  case True
  let ?cs = "(wt_chans w)[i := (wt_chans w ! i)\<lparr> ch_closed := True \<rparr>]"
  have i: "i < length (wt_chans w)" "\<not> ch_closed (wt_chans w ! i)" using assms True by (auto simp: watch_ok_def)
  have "\<forall>ch\<in>set ?cs. chan_ok (wt_buffered w) (wt_version w) ch"
    using assms by (intro chans_update [where f = "\<lambda>ch. ch\<lparr> ch_closed := True \<rparr>"]) (auto simp: watch_ok_def close_chan_ok)
  moreover have "distinct (wt_subs w)" using assms by (simp add: watch_ok_def)
  then have "\<forall>j\<in>set (remove1 i (wt_subs w)). j < length ?cs \<and> \<not> ch_closed (?cs ! j)"
    using assms by (auto simp: watch_ok_def nth_list_update)
  ultimately have "watch_ok (w\<lparr> wt_subs := remove1 i (wt_subs w), wt_chans := ?cs \<rparr>)"
    using assms by (simp add: watch_ok_def)
  with i True show ?thesis by (simp add: wt_cancel_def close_chan_def)
qed (use assms in \<open>simp add: wt_cancel_def\<close>)

lemma close_all_open:
  assumes "distinct ids" and "\<forall>i\<in>set ids. i < length cs \<and> \<not> ch_closed (cs ! i)"
    and "\<forall>ch\<in>set cs. chan_ok n v ch"
  shows "\<exists>cs'. close_all ids cs = Returns cs' \<and> length cs' = length cs \<and> (\<forall>ch\<in>set cs'. chan_ok n v ch)"
  using assms
proof (induction ids arbitrary: cs)
  case (Cons i ids)
  let ?cs = "cs[i := (cs ! i)\<lparr> ch_closed := True \<rparr>]"
  have "\<forall>j\<in>set ids. j < length ?cs \<and> \<not> ch_closed (?cs ! j)" using Cons.prems(1,2) by (auto simp: nth_list_update)
  moreover have "\<forall>ch\<in>set ?cs. chan_ok n v ch"
    using Cons.prems(3) by (intro chans_update [where f = "\<lambda>ch. ch\<lparr> ch_closed := True \<rparr>"]) (auto simp: close_chan_ok)
  moreover have "distinct ids" using Cons.prems(1) by simp
  ultimately obtain cs' where "close_all ids ?cs = Returns cs'" "length cs' = length ?cs" "\<forall>ch\<in>set cs'. chan_ok n v ch"
    using Cons.IH [of ?cs] by blast
  with Cons.prems(2) show ?case by (simp add: close_chan_def)
qed simp

lemma Close_watch_ok:
  assumes "watch_ok w"
  shows "\<exists>w'. wt_Close w = Returns w' \<and> watch_ok w' \<and> wt_current w' = wt_current w \<and> wt_version w' = wt_version w \<and> wt_buffered w' = wt_buffered w"
proof -
  obtain cs where "close_all (wt_subs w) (wt_chans w) = Returns cs" "length cs = length (wt_chans w)"
      "\<forall>ch\<in>set cs. chan_ok (wt_buffered w) (wt_version w) ch"
    using close_all_open [of "wt_subs w" "wt_chans w" "wt_buffered w" "wt_version w"] assms by (auto simp: watch_ok_def)
  with assms show ?thesis by (auto simp: wt_Close_def watch_ok_def)
qed

lemma watch_exec_ok:
  assumes "watch_ok w"
  shows "\<exists>w'. watch_exec x w = Returns w' \<and> watch_ok w' \<and> wt_buffered w' = wt_buffered w \<and>
    wt_version w' = wt_version w + length (accepted [x] w) \<and>
    sn_Config (wt_current w') = (if accepted [x] w = [] then sn_Config (wt_current w) else hd (accepted [x] w))"
proof (cases x)
  case (WPublish c)
  show ?thesis
  proof (cases "Validate c = [] \<and> \<not> wt_closed w")
    case True
    with Publish_returns [OF assms, where nxt = c and ev = "()" and bo = None and bo' = None] WPublish show ?thesis
      by (auto simp: publish_event_def)
  next
    case False
    with assms WPublish show ?thesis by (auto simp: wt_Publish_def)
  qed
next
  case (WCancel i)
  with cancel_watch_ok [OF assms, of i] show ?thesis by auto
next
  case WClose
  with Close_watch_ok [OF assms] show ?thesis by auto
next
  case WSubscribe
  with Subscribe_watch_ok [OF assms] show ?thesis by (simp add: wt_Subscribe_def)
next
  case (WReceive i)
  with receive_watch_ok [OF assms, of i] show ?thesis by (simp add: wt_receive_def)
qed

lemma watch_run_ok:
  assumes "watch_ok w"
  shows "\<exists>w'. watch_run ops w = Returns w' \<and> watch_ok w' \<and> wt_buffered w' = wt_buffered w \<and>
    wt_version w' = wt_version w + length (accepted ops w) \<and>
    sn_Config (wt_current w') = last (sn_Config (wt_current w) # accepted ops w)"
  using assms
proof (induction ops arbitrary: w)
  case (Cons x ops)
  obtain w1 where w1: "watch_exec x w = Returns w1" "watch_ok w1" "wt_buffered w1 = wt_buffered w"
      "wt_version w1 = wt_version w + length (accepted [x] w)"
      "sn_Config (wt_current w1) = (if accepted [x] w = [] then sn_Config (wt_current w) else hd (accepted [x] w))"
    using watch_exec_ok [OF Cons.prems] by blast
  obtain w' where "watch_run ops w1 = Returns w'" "watch_ok w'" "wt_buffered w' = wt_buffered w1"
      "wt_version w' = wt_version w1 + length (accepted ops w1)"
      "sn_Config (wt_current w') = last (sn_Config (wt_current w1) # accepted ops w1)"
    using Cons.IH [OF w1(2)] by blast
  moreover have "accepted (x # ops) w = accepted [x] w @ accepted ops w1" using w1(1) by simp
  moreover have "accepted [x] w = [] \<or> (\<exists>c. accepted [x] w = [c])" by (cases x) (auto split: run.split)
  ultimately show ?case using w1 by auto
qed simp

lemma accepted_valid: "Validate ` set (accepted ops w) \<subseteq> {[]}"
proof (induction ops arbitrary: w)
  case (Cons x ops)
  then show ?case by (cases "watch_exec x w") (auto split: watch_op.splits)
qed simp

text \<open>
  whatever operations run on a watcher, one after the other, none panics; the version counts the
  publications that were accepted, \<open>Current\<close> is the last accepted configuration (the initial one
  before the first), every accepted one passed validation, and each subscriber's channel holds at
  most its buffer size of snapshots, in the order of their versions.
\<close>

theorem watch_operations:
  "\<exists>w. watch_run ops (NewWatcher c n) = Returns w \<and> watch_ok w \<and>
     wt_Current w = \<lparr> sn_Version = 1 + length (accepted ops (NewWatcher c n)),
                      sn_Config = last (c # accepted ops (NewWatcher c n)) \<rparr> \<and>
     Validate ` set (accepted ops (NewWatcher c n)) \<subseteq> {[]}"
proof -
  obtain w where "watch_run ops (NewWatcher c n) = Returns w" "watch_ok w"
      "wt_version w = wt_version (NewWatcher c n) + length (accepted ops (NewWatcher c n))"
      "sn_Config (wt_current w) = last (sn_Config (wt_current (NewWatcher c n)) # accepted ops (NewWatcher c n))"
    using watch_run_ok [OF watch_ok_new] by blast
  with accepted_valid show ?thesis by (auto simp: wt_Current_def watch_ok_def NewWatcher_def)
qed

text \<open>
  an accepted publication reaches every subscriber at once, however slow it is: the newest
  pending snapshot of each subscribed channel is the current one, in front of it stay the pending
  ones it already held, the oldest of them dropped if the channel was full, and no other channel is
  touched.
\<close>

theorem publish_latest:
  assumes "watch_run ops (NewWatcher c n) = Returns w" and "0 < n"
    and "Validate nxt = []" and "\<not> wt_closed w" and "publish_event ev bo = Returns bo'"
  shows "\<exists>w'. wt_Publish ev nxt w bo = Returns (None, w', bo') \<and> wt_Current w' = \<lparr> sn_Version = wt_version w + 1, sn_Config = nxt \<rparr> \<and>
    list_all (\<lambda>i. let old = ch_buf (wt_chans w ! i) in
      ch_buf (wt_chans w' ! i) = (if i \<in> set (wt_subs w) then (if int (length old) < n then old else tl old) @ [wt_Current w'] else old))
      [0..<length (wt_chans w)]"
proof -
  have w: "watch_ok w" "wt_buffered w = n"
    using watch_run_ok [OF watch_ok_new, of ops c n] assms(1) by (auto simp: NewWatcher_def)
  obtain w' where w': "wt_Publish ev nxt w bo = Returns (None, w', bo')"
      "wt_current w' = \<lparr> sn_Version = wt_version w + 1, sn_Config = nxt \<rparr>"
      "\<forall>i<length (wt_chans w). wt_chans w' ! i = (if i \<in> set (wt_subs w)
       then (wt_chans w ! i)\<lparr> ch_buf := coalesce (wt_buffered w) (wt_current w') (ch_buf (wt_chans w ! i)) \<rparr> else wt_chans w ! i)"
    using Publish_returns [OF w(1) assms(3-5)] by blast
  have "wt_Current w' = wt_current w'" by (simp add: wt_Current_def)
  with w' w(2) assms(2) show ?thesis by (auto simp: list_all_iff coalesce_def Let_def)
qed

theorem publish_latest_witness:
  "\<exists>w'. wt_Publish () Defaults (snd (wt_Subscribe (NewWatcher Defaults 1))) None = Returns (None, w', None) \<and>
     ch_buf (wt_chans w' ! 0) = [\<lparr> sn_Version = 2, sn_Config = Defaults \<rparr>]"
proof -
  let ?w = "snd (wt_Subscribe (NewWatcher Defaults 1))"
  have w: "watch_run [WSubscribe] (NewWatcher Defaults 1) = Returns ?w" by simp
  have "publish_event () None = Returns None" by (simp add: publish_event_def)
  from publish_latest [OF w _ defaults_valid _ this] show ?thesis
    by (auto simp: wt_Subscribe_def NewWatcher_def)
qed

section \<open>Concurrent publishers\<close>

text \<open>
  A publisher after \<open>commit\<close> holds the channels it still has to serve and no lock. Its next step is
  the outer \<open>select\<close> (send, or find the buffer full) or the inner one (drain, or give up); a receive
  on a closed channel always succeeds. The snapshots each subscriber has received are recorded in
  \<open>ws_received\<close>.
\<close>

datatype publisher =
    PubIdle
  | PubSending cfg_snapshot "nat list"
  | PubDraining cfg_snapshot "nat list"
  | PubPanicked

record watch_sys =
  ws_watcher :: watcher
  ws_pubs :: "publisher list"
  ws_received :: "cfg_snapshot list list"

definition pub_at :: "watch_sys \<Rightarrow> nat \<Rightarrow> publisher \<Rightarrow> bool" where
  "pub_at s k p \<longleftrightarrow> k < length (ws_pubs s) \<and> ws_pubs s ! k = p"

definition set_pub :: "nat \<Rightarrow> publisher \<Rightarrow> watcher \<Rightarrow> watch_sys \<Rightarrow> watch_sys" where
  "set_pub k p w s = s\<lparr> ws_watcher := w, ws_pubs := (ws_pubs s)[k := p] \<rparr>"

definition set_chan :: "nat \<Rightarrow> cfg_snapshot chan \<Rightarrow> watcher \<Rightarrow> watcher" where
  "set_chan i ch w = w\<lparr> wt_chans := (wt_chans w)[i := ch] \<rparr>"

abbreviation chan_at :: "watch_sys \<Rightarrow> nat \<Rightarrow> cfg_snapshot chan" where
  "chan_at s i \<equiv> wt_chans (ws_watcher s) ! i"

inductive watch_step :: "watch_sys \<Rightarrow> watch_sys \<Rightarrow> bool" where
  commit: "pub_at s k PubIdle \<Longrightarrow> Validate nxt = [] \<Longrightarrow> \<not> wt_closed (ws_watcher s) \<Longrightarrow> commit nxt (ws_watcher s) = (snap, w') \<Longrightarrow>
    watch_step s (set_pub k (PubSending snap (wt_subs w')) w' s)"
| send: "pub_at s k (PubSending snap (i # ids)) \<Longrightarrow> \<not> ch_closed (chan_at s i) \<Longrightarrow> has_room (wt_buffered (ws_watcher s)) (chan_at s i) \<Longrightarrow>
    watch_step s (set_pub k (PubSending snap ids) (set_chan i (push_chan snap (chan_at s i)) (ws_watcher s)) s)"
| full: "pub_at s k (PubSending snap (i # ids)) \<Longrightarrow> \<not> ch_closed (chan_at s i) \<Longrightarrow> \<not> has_room (wt_buffered (ws_watcher s)) (chan_at s i) \<Longrightarrow>
    watch_step s (set_pub k (PubDraining snap (i # ids)) (ws_watcher s) s)"
| send_closed: "pub_at s k (PubSending snap (i # ids)) \<Longrightarrow> ch_closed (chan_at s i) \<Longrightarrow>
    watch_step s (set_pub k PubPanicked (ws_watcher s) s)"
| drain: "pub_at s k (PubDraining snap (i # ids)) \<Longrightarrow> ch_buf (chan_at s i) \<noteq> [] \<or> ch_closed (chan_at s i) \<Longrightarrow>
    watch_step s (set_pub k (PubSending snap (i # ids)) (set_chan i (pop_chan (chan_at s i)) (ws_watcher s)) s)"
| give_up: "pub_at s k (PubDraining snap (i # ids)) \<Longrightarrow> ch_buf (chan_at s i) = [] \<Longrightarrow> \<not> ch_closed (chan_at s i) \<Longrightarrow>
    watch_step s (set_pub k (PubSending snap ids) (ws_watcher s) s)"
| publish_end: "pub_at s k (PubSending snap []) \<Longrightarrow> watch_step s (set_pub k PubIdle (ws_watcher s) s)"
| subscribe: "wt_Subscribe (ws_watcher s) = (i, w') \<Longrightarrow> watch_step s (s\<lparr> ws_watcher := w', ws_received := ws_received s @ [[]] \<rparr>)"
| unsubscribe: "wt_cancel i (ws_watcher s) = Returns w' \<Longrightarrow> watch_step s (s\<lparr> ws_watcher := w' \<rparr>)"
| close: "wt_Close (ws_watcher s) = Returns w' \<Longrightarrow> watch_step s (s\<lparr> ws_watcher := w' \<rparr>)"
| receive: "ch_buf (chan_at s i) = snap # rest \<Longrightarrow> i < length (ws_received s) \<Longrightarrow>
    watch_step s (s\<lparr> ws_watcher := wt_receive i (ws_watcher s), ws_received := (ws_received s)[i := ws_received s ! i @ [snap]] \<rparr>)"

definition watch_init :: "Config \<Rightarrow> int \<Rightarrow> nat \<Rightarrow> watch_sys" where
  "watch_init c n k = \<lparr> ws_watcher = NewWatcher c n, ws_pubs = replicate k PubIdle, ws_received = [] \<rparr>"

text \<open>Every snapshot somebody holds or has seen.\<close>

fun in_flight :: "publisher \<Rightarrow> cfg_snapshot set" where
  "in_flight (PubSending snap ids) = {snap}"
| "in_flight (PubDraining snap ids) = {snap}"
| "in_flight p = {}"

definition visible :: "watch_sys \<Rightarrow> cfg_snapshot set" where
  "visible s = {wt_current (ws_watcher s)} \<union> (\<Union>p\<in>set (ws_pubs s). in_flight p) \<union>
     (\<Union>ch\<in>set (wt_chans (ws_watcher s)). set (ch_buf ch)) \<union> (\<Union>l\<in>set (ws_received s). set l)"

text \<open>No version stands for two configurations, none is above the current one, and all but the first were validated.\<close>

definition watch_inv :: "Config \<Rightarrow> watch_sys \<Rightarrow> bool" where
  "watch_inv c s \<longleftrightarrow> sn_Version (wt_current (ws_watcher s)) = wt_version (ws_watcher s) \<and>
     length (ws_received s) = length (wt_chans (ws_watcher s)) \<and>
     (\<forall>x\<in>visible s. 1 \<le> sn_Version x \<and> sn_Version x \<le> wt_version (ws_watcher s) \<and>
        (if sn_Version x = 1 then sn_Config x = c else Validate (sn_Config x) = [])) \<and>
     (\<forall>x\<in>visible s. \<forall>y\<in>visible s. sn_Version x = sn_Version y \<longrightarrow> x = y)"

definition bufs :: "watcher \<Rightarrow> cfg_snapshot set" where
  "bufs w = (\<Union>ch\<in>set (wt_chans w). set (ch_buf ch))"

lemma visible_alt: "visible s = {wt_current (ws_watcher s)} \<union> (\<Union>p\<in>set (ws_pubs s). in_flight p) \<union>
     bufs (ws_watcher s) \<union> (\<Union>l\<in>set (ws_received s). set l)"
  by (simp add: visible_def bufs_def)

lemma visible_set_pub:
  "visible (set_pub k p w s) \<subseteq> {wt_current w} \<union> in_flight p \<union> bufs w \<union> visible s"
proof -
  have "(\<Union>q\<in>set ((ws_pubs s)[k := p]). in_flight q) \<subseteq> in_flight p \<union> (\<Union>q\<in>set (ws_pubs s). in_flight q)"
    using set_update_subset_insert [of "ws_pubs s" k p] by blast
  then show ?thesis by (auto simp: visible_alt set_pub_def)
qed

lemma in_flight_visible: "pub_at s k p \<Longrightarrow> in_flight p \<subseteq> visible s"
  by (auto simp: visible_alt pub_at_def)

lemma bufs_visible: "bufs (ws_watcher s) \<subseteq> visible s"
  by (auto simp: visible_alt)

lemma bufs_set_chan: "set (ch_buf ch) \<subseteq> X \<Longrightarrow> bufs w \<subseteq> X \<Longrightarrow> bufs (set_chan i ch w) \<subseteq> X"
  using set_update_subset_insert [of "wt_chans w" i ch] by (force simp: bufs_def set_chan_def)

lemma buf_at: "i < length (wt_chans w) \<Longrightarrow> set (ch_buf (wt_chans w ! i)) \<subseteq> bufs w"
  using nth_mem by (fastforce simp: bufs_def)

lemma set_chan_same [simp]: "wt_current (set_chan i ch w) = wt_current w" "wt_version (set_chan i ch w) = wt_version w"
    "length (wt_chans (set_chan i ch w)) = length (wt_chans w)" "wt_subs (set_chan i ch w) = wt_subs w"
  by (simp_all add: set_chan_def)

lemma set_pub_same [simp]: "ws_watcher (set_pub k p w s) = w" "ws_received (set_pub k p w s) = ws_received s"
  by (simp_all add: set_pub_def)

lemma watch_inv_length: "watch_inv c s \<Longrightarrow> length (ws_received s) = length (wt_chans (ws_watcher s))"
  by (simp add: watch_inv_def)

lemma watch_inv_shrink:
  assumes "watch_inv c s" and "visible s' \<subseteq> visible s" and "wt_current (ws_watcher s') = wt_current (ws_watcher s)"
    and "wt_version (ws_watcher s') = wt_version (ws_watcher s)" and "length (ws_received s') = length (wt_chans (ws_watcher s'))"
  shows "watch_inv c s'"
proof -
  have old: "1 \<le> sn_Version x \<and> sn_Version x \<le> wt_version (ws_watcher s') \<and>
      (if sn_Version x = 1 then sn_Config x = c else Validate (sn_Config x) = [])" if "x \<in> visible s'" for x
  proof -
    have "\<forall>x\<in>visible s. 1 \<le> sn_Version x \<and> sn_Version x \<le> wt_version (ws_watcher s) \<and>
      (if sn_Version x = 1 then sn_Config x = c else Validate (sn_Config x) = [])" using assms(1) by (simp add: watch_inv_def)
    with that assms(2,4) show ?thesis by (metis subsetD)
  qed
  moreover have "x = y" if "x \<in> visible s'" "y \<in> visible s'" "sn_Version x = sn_Version y" for x y
  proof -
    have "\<forall>x\<in>visible s. \<forall>y\<in>visible s. sn_Version x = sn_Version y \<longrightarrow> x = y" using assms(1) by (simp add: watch_inv_def)
    with that assms(2) show ?thesis by blast
  qed
  moreover have "sn_Version (wt_current (ws_watcher s')) = wt_version (ws_watcher s')"
    using assms(1,3,4) by (simp add: watch_inv_def)
  ultimately show ?thesis using assms(5) unfolding watch_inv_def by blast
qed

lemma watch_inv_pub:
  assumes "watch_inv c s" and "in_flight p \<subseteq> visible s" and "bufs w \<subseteq> visible s" and "wt_current w = wt_current (ws_watcher s)"
    and "wt_version w = wt_version (ws_watcher s)" and "length (wt_chans w) = length (wt_chans (ws_watcher s))"
  shows "watch_inv c (set_pub k p w s)"
proof (rule watch_inv_shrink [OF assms(1)])
  have "wt_current (ws_watcher s) \<in> visible s" by (simp add: visible_alt)
  then have "{wt_current w} \<union> in_flight p \<union> bufs w \<union> visible s \<subseteq> visible s" using assms(2-4) by simp
  with visible_set_pub show "visible (set_pub k p w s) \<subseteq> visible s" by (rule subset_trans)
qed (use assms(4-6) watch_inv_length [OF assms(1)] in simp_all)

lemma close_chan_bufs: "close_chan i cs = Returns cs' \<Longrightarrow> length cs' = length cs \<and> (\<Union>ch\<in>set cs'. set (ch_buf ch)) \<subseteq> (\<Union>ch\<in>set cs. set (ch_buf ch))"
proof -
  assume "close_chan i cs = Returns cs'"
  then have cs': "cs' = cs[i := (cs ! i)\<lparr> ch_closed := True \<rparr>]" by (simp add: close_chan_def split: if_splits)
  show ?thesis
  proof (cases "i < length cs")
    case True
    then have "cs ! i \<in> set cs" by simp
    with set_update_subset_insert [of cs i "(cs ! i)\<lparr> ch_closed := True \<rparr>"] show ?thesis unfolding cs' by fastforce
  qed (simp add: cs' list_update_beyond)
qed

lemma close_all_bufs: "close_all ids cs = Returns cs' \<Longrightarrow> length cs' = length cs \<and> (\<Union>ch\<in>set cs'. set (ch_buf ch)) \<subseteq> (\<Union>ch\<in>set cs. set (ch_buf ch))"
proof (induction ids arbitrary: cs)
  case (Cons i ids)
  then obtain cs1 where "close_chan i cs = Returns cs1" "close_all ids cs1 = Returns cs'" by (auto split: run.splits)
  with Cons.IH [of cs1] close_chan_bufs [of i cs cs1] show ?case by auto
qed simp

lemma watch_inv_watcher:
  assumes "watch_inv c s" and "bufs w \<subseteq> bufs (ws_watcher s)" and "wt_current w = wt_current (ws_watcher s)"
    and "wt_version w = wt_version (ws_watcher s)" and "length (wt_chans w) = length (wt_chans (ws_watcher s))"
  shows "watch_inv c (s\<lparr> ws_watcher := w \<rparr>)"
  by (rule watch_inv_shrink [OF assms(1)]) (use assms(2-5) watch_inv_length [OF assms(1)] in \<open>auto simp: visible_alt\<close>)

lemma commit_inv:
  assumes "watch_inv c s" and "Validate nxt = []" and "commit nxt (ws_watcher s) = (snap, w')"
  shows "watch_inv c (set_pub k (PubSending snap ids) w' s)"
proof -
  let ?s = "set_pub k (PubSending snap ids) w' s"
  have snap: "snap = \<lparr> sn_Version = wt_version (ws_watcher s) + 1, sn_Config = nxt \<rparr>"
    and w': "w' = (ws_watcher s)\<lparr> wt_version := wt_version (ws_watcher s) + 1, wt_current := snap \<rparr>"
    using assms(3) by (auto simp: commit_def Let_def)
  have "bufs w' = bufs (ws_watcher s)" by (simp add: w' bufs_def)
  with visible_set_pub [of k "PubSending snap ids" w' s] bufs_visible [of s]
  have sub: "visible ?s \<subseteq> insert snap (visible s)" by (auto simp: w')
  have old: "1 \<le> sn_Version x \<and> sn_Version x \<le> wt_version (ws_watcher s) \<and>
      (if sn_Version x = 1 then sn_Config x = c else Validate (sn_Config x) = [])" if "x \<in> visible s" for x
    using assms(1) that unfolding watch_inv_def by blast
  have same: "x = y" if "x \<in> visible s" "y \<in> visible s" "sn_Version x = sn_Version y" for x y
    using assms(1) that unfolding watch_inv_def by blast
  have "wt_current (ws_watcher s) \<in> visible s" by (simp add: visible_alt)
  with old have pos: "1 \<le> wt_version (ws_watcher s)" by (metis le_trans)
  have "1 \<le> sn_Version x \<and> sn_Version x \<le> wt_version (ws_watcher ?s) \<and>
      (if sn_Version x = 1 then sn_Config x = c else Validate (sn_Config x) = [])" if "x \<in> visible ?s" for x
  proof -
    from that sub consider "x = snap" | "x \<in> visible s" by blast
    then show ?thesis
    proof cases
      case 1
      with pos show ?thesis by (simp add: snap assms(2) w')
    next
      case 2
      with old [OF 2] show ?thesis by (auto simp: w')
    qed
  qed
  moreover have "x = y" if "x \<in> visible ?s" "y \<in> visible ?s" "sn_Version x = sn_Version y" for x y
  proof -
    have "sn_Version z \<noteq> sn_Version snap" if "z \<in> visible s" for z using old [OF that] by (simp add: snap)
    with that sub same show ?thesis by (metis insertE subsetD)
  qed
  ultimately show ?thesis using assms(1) unfolding watch_inv_def by (simp add: w' snap)
qed

lemma watch_inv_step:
  assumes "watch_step s s'" and "watch_inv c s"
  shows "watch_inv c s'"
  using assms(1)
proof cases
  case (commit k nxt snap w')
  then show ?thesis using commit_inv [OF assms(2)] by simp
next
  case (send k snap i ids)
  have f: "{snap} \<subseteq> visible s" using in_flight_visible [OF send(2)] by simp
  have "bufs (set_chan i (push_chan snap (chan_at s i)) (ws_watcher s)) \<subseteq> visible s"
  proof (cases "i < length (wt_chans (ws_watcher s))")
    case True
    from buf_at [OF this] bufs_visible f show ?thesis by (intro bufs_set_chan) (auto simp: push_chan_def)
  next
    case False
    with bufs_visible [of s] show ?thesis by (simp add: set_chan_def list_update_beyond)
  qed
  with f show ?thesis unfolding send(1) by (intro watch_inv_pub [OF assms(2)]) simp_all
next
  case (full k snap i ids)
  then show ?thesis using in_flight_visible [OF full(2)] bufs_visible by (auto intro!: watch_inv_pub [OF assms(2)])
next
  case (send_closed k snap i ids)
  then show ?thesis using bufs_visible by (auto intro!: watch_inv_pub [OF assms(2)])
next
  case (drain k snap i ids)
  have f: "{snap} \<subseteq> visible s" using in_flight_visible [OF drain(2)] by simp
  have "bufs (set_chan i (pop_chan (chan_at s i)) (ws_watcher s)) \<subseteq> visible s"
  proof (cases "i < length (wt_chans (ws_watcher s))")
    case True
    have "set (tl (ch_buf (chan_at s i))) \<subseteq> set (ch_buf (chan_at s i))" by (cases "ch_buf (chan_at s i)") auto
    with buf_at [OF True] bufs_visible [of s] show ?thesis by (intro bufs_set_chan) (auto simp: pop_chan_def)
  next
    case False
    with bufs_visible [of s] show ?thesis by (simp add: set_chan_def list_update_beyond)
  qed
  with f show ?thesis unfolding drain(1) by (intro watch_inv_pub [OF assms(2)]) simp_all
next
  case (give_up k snap i ids)
  then show ?thesis using in_flight_visible [OF give_up(2)] bufs_visible by (auto intro!: watch_inv_pub [OF assms(2)])
next
  case (publish_end k snap)
  then show ?thesis using bufs_visible by (auto intro!: watch_inv_pub [OF assms(2)])
next
  case (subscribe i w')
  with watch_inv_length [OF assms(2)] show ?thesis
    by (intro watch_inv_shrink [OF assms(2)]) (auto simp: visible_alt bufs_def wt_Subscribe_def)
next
  case (unsubscribe i w')
  then have "bufs w' \<subseteq> bufs (ws_watcher s) \<and> wt_current w' = wt_current (ws_watcher s) \<and> wt_version w' = wt_version (ws_watcher s) \<and>
      length (wt_chans w') = length (wt_chans (ws_watcher s))"
    using close_chan_bufs by (fastforce simp: wt_cancel_def bufs_def split: if_splits run.splits)
  with watch_inv_watcher [OF assms(2)] unsubscribe show ?thesis by blast
next
  case (close w')
  then have "bufs w' \<subseteq> bufs (ws_watcher s) \<and> wt_current w' = wt_current (ws_watcher s) \<and> wt_version w' = wt_version (ws_watcher s) \<and>
      length (wt_chans w') = length (wt_chans (ws_watcher s))"
    using close_all_bufs by (fastforce simp: wt_Close_def bufs_def split: if_splits run.splits)
  with watch_inv_watcher [OF assms(2)] close show ?thesis by blast
next
  case (receive i snap rest)
  let ?w = "wt_receive i (ws_watcher s)"
  have i: "i < length (wt_chans (ws_watcher s))" using receive(3) watch_inv_length [OF assms(2)] by simp
  have "snap \<in> visible s" using buf_at [OF i] bufs_visible [of s] receive(2) by auto
  have "bufs (set_chan i (pop_chan (chan_at s i)) (ws_watcher s)) \<subseteq> bufs (ws_watcher s)"
    using buf_at [OF i] receive(2) by (intro bufs_set_chan) (auto simp: pop_chan_def)
  then have "bufs ?w \<subseteq> bufs (ws_watcher s)" by (simp add: wt_receive_def set_chan_def)
  moreover have "(\<Union>l\<in>set ((ws_received s)[i := ws_received s ! i @ [snap]]). set l) \<subseteq> insert snap (\<Union>l\<in>set (ws_received s). set l)"
  proof -
    have "set (ws_received s ! i) \<subseteq> (\<Union>l\<in>set (ws_received s). set l)" using nth_mem [OF receive(3)] by blast
    with set_update_subset_insert [of "ws_received s" i "ws_received s ! i @ [snap]"] show ?thesis by fastforce
  qed
  ultimately have "visible s' \<subseteq> visible s" using \<open>snap \<in> visible s\<close> unfolding receive(1) visible_alt by (auto simp: wt_receive_def)
  from watch_inv_shrink [OF assms(2) this] watch_inv_length [OF assms(2)] show ?thesis by (simp add: receive(1) wt_receive_def)
qed


text \<open>
  a subscriber can miss the newest configuration for good. Between finding the buffer full and
  draining it, the publisher can be overtaken by the subscriber: it then finds nothing to drain and
  drops the new snapshot. Nobody has anything left to do, the subscriber has received version 2, its
  channel is empty, and version 3 is current.
\<close>

theorem update_lost:
  assumes "Validate a = []" and "Validate b = []"
  shows "\<exists>s. watch_step\<^sup>*\<^sup>* (watch_init c 1 1) s \<and> ws_pubs s = [PubIdle] \<and> wt_subs (ws_watcher s) = [0] \<and>
    ch_buf (chan_at s 0) = [] \<and> \<not> ch_closed (chan_at s 0) \<and> ws_received s = [[\<lparr> sn_Version = 2, sn_Config = a \<rparr>]] \<and>
    wt_Current (ws_watcher s) = \<lparr> sn_Version = 3, sn_Config = b \<rparr>"
proof -
  let ?A = "\<lparr> sn_Version = 2, sn_Config = a \<rparr>" and ?B = "\<lparr> sn_Version = 3, sn_Config = b \<rparr>"
  let ?w = "\<lambda>cur v buf. \<lparr> wt_current = cur, wt_version = v, wt_subs = [0], wt_chans = [\<lparr> ch_buf = buf, ch_closed = False \<rparr>],
    wt_buffered = 1, wt_closed = False \<rparr>"
  let ?s = "\<lambda>cur v buf p rcv. \<lparr> ws_watcher = ?w cur v buf, ws_pubs = [p], ws_received = [rcv] \<rparr>"
  let ?C = "\<lparr> sn_Version = 1, sn_Config = c \<rparr>"
  note defs = pub_at_def set_pub_def set_chan_def has_room_def push_chan_def commit_def Let_def numeral_eq_Suc
  have "watch_step (watch_init c 1 1) (?s ?C 1 [] PubIdle [])"
    using watch_step.subscribe [of "watch_init c 1 1"] by (simp add: watch_init_def NewWatcher_def wt_Subscribe_def)
  moreover have "watch_step (?s ?C 1 [] PubIdle []) (?s ?A 2 [] (PubSending ?A [0]) [])"
    using watch_step.commit [of "?s ?C 1 [] PubIdle []" 0 a] assms(1) by (simp add: defs)
  moreover have "watch_step (?s ?A 2 [] (PubSending ?A [0]) []) (?s ?A 2 [?A] (PubSending ?A []) [])"
    using watch_step.send [of "?s ?A 2 [] (PubSending ?A [0]) []" 0 ?A 0 "[]"] by (simp add: defs)
  moreover have "watch_step (?s ?A 2 [?A] (PubSending ?A []) []) (?s ?A 2 [?A] PubIdle [])"
    using watch_step.publish_end [of "?s ?A 2 [?A] (PubSending ?A []) []" 0 ?A] by (simp add: defs)
  moreover have "watch_step (?s ?A 2 [?A] PubIdle []) (?s ?B 3 [?A] (PubSending ?B [0]) [])"
    using watch_step.commit [of "?s ?A 2 [?A] PubIdle []" 0 b] assms(2) by (simp add: defs)
  moreover have "watch_step (?s ?B 3 [?A] (PubSending ?B [0]) []) (?s ?B 3 [?A] (PubDraining ?B [0]) [])"
    using watch_step.full [of "?s ?B 3 [?A] (PubSending ?B [0]) []" 0 ?B 0 "[]"] by (simp add: defs)
  moreover have "watch_step (?s ?B 3 [?A] (PubDraining ?B [0]) []) (?s ?B 3 [] (PubDraining ?B [0]) [?A])"
    using watch_step.receive [of "?s ?B 3 [?A] (PubDraining ?B [0]) []" 0 ?A "[]"] by (simp add: wt_receive_def pop_chan_def)
  moreover have "watch_step (?s ?B 3 [] (PubDraining ?B [0]) [?A]) (?s ?B 3 [] (PubSending ?B []) [?A])"
    using watch_step.give_up [of "?s ?B 3 [] (PubDraining ?B [0]) [?A]" 0 ?B 0 "[]"] by (simp add: defs)
  moreover have "watch_step (?s ?B 3 [] (PubSending ?B []) [?A]) (?s ?B 3 [] PubIdle [?A])"
    using watch_step.publish_end [of "?s ?B 3 [] (PubSending ?B []) [?A]" 0 ?B] by (simp add: defs)
  ultimately have "watch_step\<^sup>*\<^sup>* (watch_init c 1 1) (?s ?B 3 [] PubIdle [?A])"
    by (meson converse_rtranclp_into_rtranclp rtranclp.rtrancl_refl)
  then show ?thesis by (intro exI [of _ "?s ?B 3 [] PubIdle [?A]"]) (simp add: wt_Current_def)
qed

text \<open>A subscription that is cancelled while a publisher is on its way to it makes the publisher panic.\<close>

theorem cancel_races_publish:
  assumes "Validate a = []"
  shows "\<exists>s. watch_step\<^sup>*\<^sup>* (watch_init c 1 1) s \<and> ws_pubs s = [PubPanicked]"
proof -
  let ?A = "\<lparr> sn_Version = 2, sn_Config = a \<rparr>" and ?C = "\<lparr> sn_Version = 1, sn_Config = c \<rparr>"
  let ?w = "\<lambda>cur v ids cl. \<lparr> wt_current = cur, wt_version = v, wt_subs = ids, wt_chans = [\<lparr> ch_buf = [], ch_closed = cl \<rparr>],
    wt_buffered = 1, wt_closed = False \<rparr>"
  let ?s = "\<lambda>cur v ids cl p. \<lparr> ws_watcher = ?w cur v ids cl, ws_pubs = [p], ws_received = [[]] \<rparr>"
  note defs = pub_at_def set_pub_def commit_def Let_def numeral_eq_Suc
  have "watch_step (watch_init c 1 1) (?s ?C 1 [0] False PubIdle)"
    using watch_step.subscribe [of "watch_init c 1 1"] by (simp add: watch_init_def NewWatcher_def wt_Subscribe_def)
  moreover have "watch_step (?s ?C 1 [0] False PubIdle) (?s ?A 2 [0] False (PubSending ?A [0]))"
    using watch_step.commit [of "?s ?C 1 [0] False PubIdle" 0 a] assms by (simp add: defs)
  moreover have "watch_step (?s ?A 2 [0] False (PubSending ?A [0])) (?s ?A 2 [] True (PubSending ?A [0]))"
    using watch_step.unsubscribe [of 0 "?s ?A 2 [0] False (PubSending ?A [0])"] by (simp add: wt_cancel_def close_chan_def)
  moreover have "watch_step (?s ?A 2 [] True (PubSending ?A [0])) (?s ?A 2 [] True PubPanicked)"
    using watch_step.send_closed [of "?s ?A 2 [] True (PubSending ?A [0])" 0 ?A 0 "[]"] by (simp add: defs)
  ultimately have "watch_step\<^sup>*\<^sup>* (watch_init c 1 1) (?s ?A 2 [] True PubPanicked)"
    by (meson converse_rtranclp_into_rtranclp rtranclp.rtrancl_refl)
  then show ?thesis by (intro exI [of _ "?s ?A 2 [] True PubPanicked"]) simp
qed

theorem update_lost_witness:
  "\<exists>s. watch_step\<^sup>*\<^sup>* (watch_init Defaults 1 1) s \<and> sn_Version (wt_Current (ws_watcher s)) = 3 \<and>
     map (map sn_Version) (ws_received s) = [[2]]"
proof -
  from update_lost [OF defaults_valid defaults_valid, of Defaults] obtain s
    where "watch_step\<^sup>*\<^sup>* (watch_init Defaults 1 1) s" "ws_received s = [[\<lparr> sn_Version = 2, sn_Config = Defaults \<rparr>]]"
      "wt_Current (ws_watcher s) = \<lparr> sn_Version = 3, sn_Config = Defaults \<rparr>" by blast
  then show ?thesis by (intro exI [of _ s]) simp
qed


end
