(* ===== verification/Overrides.thy ===== *)
theory Overrides
  imports Durations
begin

text \<open>
  Loading and overriding the configuration (\<open>internal/config/load.go\<close>, \<open>internal/config/store.go\<close>).
  The viper library is not part of the repository: a viper object is the list of the calls the code
  has made on it, and what the library reads and decodes is a parameter of every definition, as are
  the JSON decoder and the environment.
\<close>

section \<open>The library\<close>

text \<open>The values the code hands to \<open>Set\<close> and \<open>SetDefault\<close>.\<close>

datatype setting = AnyV anyv | DurV duration | SourcesV "SourceItemConfig list" | PoliciesV "PolicyConfig list"

datatype vcall =
    SetDefault string setting
  | SetKey string setting
  | BindEnv "string list"
  | SetConfigFile string
  | SetConfigName string
  | SetConfigType string
  | AddConfigPath string
  | ReadInConfig
  | SetEnvPrefix string
  | SetEnvKeyReplacer char char
  | AutomaticEnv

type_synonym viper = "vcall list"

datatype read_outcome = ReadOk | FileNotFound | ReadErr error

record config_env =
  ce_getenv :: "string \<Rightarrow> string"
  ce_read :: "viper \<Rightarrow> read_outcome"
  ce_unmarshal :: "viper \<Rightarrow> Config \<Rightarrow> Config result"
  ce_json_sources :: "string \<Rightarrow> SourceItemConfig list result"
  ce_json_policies :: "string \<Rightarrow> PolicyConfig list result"

text \<open>The value the last explicit \<open>Set\<close> gave to a key.\<close>

fun explicit :: "viper \<Rightarrow> string \<rightharpoonup> setting" where
  "explicit [] k = None"
| "explicit (c # cs) k =
     (case explicit cs k of
        Some x \<Rightarrow> Some x
      | None \<Rightarrow> (case c of SetKey k' x \<Rightarrow> if k' = k then Some x else None | _ \<Rightarrow> None))"

section \<open>Seeding viper\<close>

definition applyDefaultsToViper :: "Config \<Rightarrow> viper" where
  "applyDefaultsToViper d = map (\<lambda>(k, x). SetDefault k x)
    [(''listen'', AnyV (VStr (Listen d))),
     (''source.url'', AnyV (VStr (src_URL (Source d)))),
     (''source.cache_path'', AnyV (VStr (src_CachePath (Source d)))),
     (''source.refresh_interval'', DurV (src_RefreshInterval (Source d))),
     (''source.http_timeout'', DurV (src_HTTPTimeout (Source d))),
     (''resolver.upstream'', AnyV (VStr (res_Upstream (Resolver d)))),
     (''resolver.network'', AnyV (VStr (res_Network (Resolver d)))),
     (''resolver.concurrency'', AnyV (VInt (res_Concurrency (Resolver d)))),
     (''resolver.qps'', AnyV (VInt (res_QPS (Resolver d)))),
     (''resolver.timeout'', DurV (res_Timeout (Resolver d))),
     (''resolver.retries'', AnyV (VInt (res_Retries (Resolver d)))),
     (''resolver.backoff_base'', DurV (res_BackoffBase (Resolver d))),
     (''resolver.backoff_max'', DurV (res_BackoffMax (Resolver d))),
     (''resolver.follow_cname'', AnyV (VBool (res_FollowCNAME (Resolver d)))),
     (''resolver.enable_v4'', AnyV (VBool (res_EnableV4 (Resolver d)))),
     (''resolver.enable_v6'', AnyV (VBool (res_EnableV6 (Resolver d)))),
     (''cache.db_path'', AnyV (VStr (cache_DBPath (Cache d)))),
     (''cache.ttl'', DurV (cache_TTL (Cache d))),
     (''cache.failed_ttl'', DurV (cache_FailedTTL (Cache d))),
     (''cache.vacuum_after'', DurV (cache_VacuumAfter (Cache d))),
     (''aggregation.enabled'', AnyV (VBool (agg_Enabled (Aggregation d)))),
     (''aggregation.level'', AnyV (VStr (agg_Level (Aggregation d)))),
     (''aggregation.v4_max_prefix'', AnyV (VInt (agg_V4MaxPrefix (Aggregation d)))),
     (''aggregation.v6_max_prefix'', AnyV (VInt (agg_V6MaxPrefix (Aggregation d)))),
     (''export.dir'', AnyV (VStr (exp_Dir (Export d)))),
     (''export.ipv4_file'', AnyV (VStr (exp_IPv4File (Export d)))),
     (''export.ipv6_file'', AnyV (VStr (exp_IPv6File (Export d)))),
     (''routing.enabled'', AnyV (VBool (rt_Enabled (Routing d)))),
     (''routing.state_dir'', AnyV (VStr (rt_StateDir (Routing d)))),
     (''routing.policies'', AnyV (VList [])),
     (''scheduler.dlc_refresh'', DurV (sch_DLCRefresh (Scheduler d))),
     (''scheduler.resolve_cycle'', DurV (sch_ResolveCycle (Scheduler d))),
     (''logging.level'', AnyV (VStr (log_Level (Logging d)))),
     (''logging.format'', AnyV (VStr (log_Format (Logging d)))),
     (''metrics.enabled'', AnyV (VBool (met_Enabled (Metrics d)))),
     (''metrics.path'', AnyV (VStr (met_Path (Metrics d))))]"

text \<open>The scalar keys and their values in a configuration; sources and policies are set apart.\<close>

definition seed_scalars :: "Config \<Rightarrow> (string \<times> setting) list" where
  "seed_scalars c =
    [(''listen'', AnyV (VStr (Listen c))),
     (''source.url'', AnyV (VStr (src_URL (Source c)))),
     (''source.cache_path'', AnyV (VStr (src_CachePath (Source c)))),
     (''source.refresh_interval'', DurV (src_RefreshInterval (Source c))),
     (''source.http_timeout'', DurV (src_HTTPTimeout (Source c))),
     (''resolver.upstream'', AnyV (VStr (res_Upstream (Resolver c)))),
     (''resolver.network'', AnyV (VStr (res_Network (Resolver c)))),
     (''resolver.concurrency'', AnyV (VInt (res_Concurrency (Resolver c)))),
     (''resolver.qps'', AnyV (VInt (res_QPS (Resolver c)))),
     (''resolver.timeout'', DurV (res_Timeout (Resolver c))),
     (''resolver.retries'', AnyV (VInt (res_Retries (Resolver c)))),
     (''resolver.backoff_base'', DurV (res_BackoffBase (Resolver c))),
     (''resolver.backoff_max'', DurV (res_BackoffMax (Resolver c))),
     (''resolver.follow_cname'', AnyV (VBool (res_FollowCNAME (Resolver c)))),
     (''resolver.enable_v4'', AnyV (VBool (res_EnableV4 (Resolver c)))),
     (''resolver.enable_v6'', AnyV (VBool (res_EnableV6 (Resolver c)))),
     (''cache.db_path'', AnyV (VStr (cache_DBPath (Cache c)))),
     (''cache.ttl'', DurV (cache_TTL (Cache c))),
     (''cache.failed_ttl'', DurV (cache_FailedTTL (Cache c))),
     (''cache.vacuum_after'', DurV (cache_VacuumAfter (Cache c))),
     (''aggregation.enabled'', AnyV (VBool (agg_Enabled (Aggregation c)))),
     (''aggregation.level'', AnyV (VStr (agg_Level (Aggregation c)))),
     (''aggregation.v4_max_prefix'', AnyV (VInt (agg_V4MaxPrefix (Aggregation c)))),
     (''aggregation.v6_max_prefix'', AnyV (VInt (agg_V6MaxPrefix (Aggregation c)))),
     (''export.dir'', AnyV (VStr (exp_Dir (Export c)))),
     (''export.ipv4_file'', AnyV (VStr (exp_IPv4File (Export c)))),
     (''export.ipv6_file'', AnyV (VStr (exp_IPv6File (Export c)))),
     (''routing.enabled'', AnyV (VBool (rt_Enabled (Routing c)))),
     (''routing.state_dir'', AnyV (VStr (rt_StateDir (Routing c)))),
     (''scheduler.dlc_refresh'', DurV (sch_DLCRefresh (Scheduler c))),
     (''scheduler.resolve_cycle'', DurV (sch_ResolveCycle (Scheduler c))),
     (''logging.level'', AnyV (VStr (log_Level (Logging c)))),
     (''logging.format'', AnyV (VStr (log_Format (Logging c)))),
     (''metrics.enabled'', AnyV (VBool (met_Enabled (Metrics c)))),
     (''metrics.path'', AnyV (VStr (met_Path (Metrics c))))]"

definition seed_source :: "SourceItemConfig \<Rightarrow> anyv" where
  "seed_source src = VMap [(''id'', VStr (si_ID src)), (''provider'', VStr (si_Provider src)), (''prefix'', VStr (si_Prefix src)),
     (''enabled'', VBool (si_Enabled src)), (''config'', VMap (si_Config src))]"

definition seed_policy :: "PolicyConfig \<Rightarrow> anyv" where
  "seed_policy pol = VMap
    ([(''name'', VStr (pol_Name pol)), (''enabled'', VBool (pol_Enabled pol)), (''categories'', VList (map VStr (pol_Categories pol))),
      (''backend'', VStr (pol_Backend pol)), (''table_id'', VInt (pol_TableID pol)), (''iface'', VStr (pol_Iface pol)),
      (''nft_table'', VStr (pol_NFTTable pol)), (''nft_set_v4'', VStr (pol_NFTSetV4 pol)), (''nft_set_v6'', VStr (pol_NFTSetV6 pol)),
      (''dry_run'', VBool (pol_DryRun pol)), (''export_format'', VStr (pol_ExportFormat pol))] @
     (case pol_Aggregation pol of
        None \<Rightarrow> []
      | Some a \<Rightarrow> [(''aggregation'', VMap [(''enabled'', VBool (agg_Enabled a)), (''level'', VStr (agg_Level a)),
          (''v4_max_prefix'', VInt (agg_V4MaxPrefix a)), (''v6_max_prefix'', VInt (agg_V6MaxPrefix a))])]))"

definition seedViperFromConfig :: "Config \<Rightarrow> viper" where
  "seedViperFromConfig c = map (\<lambda>(k, x). SetKey k x) (seed_scalars c) @
     (if Sources c = [] then [] else [SetKey ''sources'' (AnyV (VList (map seed_source (Sources c))))]) @
     (if rt_Policies (Routing c) = [] then []
      else [SetKey ''routing.policies'' (AnyV (VList (map seed_policy (rt_Policies (Routing c)))))])"

definition bindAllEnvKeys :: viper where
  "bindAllEnvKeys = map BindEnv
    [[''listen''], [''source.url''], [''source.cache_path''], [''source.refresh_interval''], [''source.http_timeout''],
     [''sources'', ''D2IP_SOURCES''],
     [''resolver.upstream''], [''resolver.network''], [''resolver.concurrency''], [''resolver.qps''], [''resolver.timeout''],
     [''resolver.retries''], [''resolver.backoff_base''], [''resolver.backoff_max''], [''resolver.follow_cname''],
     [''resolver.enable_v4''], [''resolver.enable_v6''],
     [''cache.db_path''], [''cache.ttl''], [''cache.failed_ttl''], [''cache.vacuum_after''],
     [''aggregation.enabled''], [''aggregation.level''], [''aggregation.v4_max_prefix''], [''aggregation.v6_max_prefix''],
     [''export.dir''], [''export.ipv4_file''], [''export.ipv6_file''],
     [''routing.enabled''], [''routing.backend''], [''routing.table_id''], [''routing.iface''], [''routing.nft_table''],
     [''routing.nft_set_v4''], [''routing.nft_set_v6''], [''routing.state_path''], [''routing.dry_run''],
     [''scheduler.dlc_refresh''], [''scheduler.resolve_cycle''], [''logging.level''], [''logging.format''],
     [''metrics.enabled''], [''metrics.path'']]"

section \<open>Overrides from the key-value table\<close>

definition duration_keys :: "string list" where
  "duration_keys = [''source.refresh_interval'', ''source.http_timeout'', ''resolver.timeout'', ''resolver.backoff_base'',
     ''resolver.backoff_max'', ''cache.ttl'', ''cache.failed_ttl'', ''cache.vacuum_after'', ''scheduler.dlc_refresh'',
     ''scheduler.resolve_cycle'']"

definition integer_keys :: "string list" where
  "integer_keys = [''resolver.concurrency'', ''resolver.qps'', ''resolver.retries'', ''aggregation.v4_max_prefix'',
     ''aggregation.v6_max_prefix'', ''routing.table_id'']"

definition boolean_keys :: "string list" where
  "boolean_keys = [''resolver.follow_cname'', ''resolver.enable_v4'', ''resolver.enable_v6'', ''aggregation.enabled'',
     ''routing.enabled'', ''routing.dry_run'', ''metrics.enabled'']"

definition coerceKVValue :: "config_env \<Rightarrow> string \<Rightarrow> string \<Rightarrow> setting result" where
  "coerceKVValue ce key raw0 =
     (let raw = TrimSpace raw0 in
      if key = ''sources'' then bind_result (ce_json_sources ce raw) (\<lambda>items. Inr (SourcesV items))
      else if key = ''routing.policies'' then bind_result (ce_json_policies ce raw) (\<lambda>items. Inr (PoliciesV items))
      else if key \<in> set duration_keys then bind_result (cfg_parseDuration raw) (\<lambda>d. Inr (DurV d))
      else if key \<in> set integer_keys then bind_result (wrap_err (''invalid integer '' @ raw) (Atoi raw)) (\<lambda>n. Inr (AnyV (VInt n)))
      else if key \<in> set boolean_keys then bind_result (wrap_err (''invalid boolean '' @ raw) (ParseBool raw)) (\<lambda>b. Inr (AnyV (VBool b)))
      else Inr (AnyV (VStr raw)))"

definition env_key :: "string \<Rightarrow> string" where
  "env_key key = ''D2IP_'' @ ToUpper (ReplaceAllChar key CHR ''.'' CHR ''_'')"

text \<open>The rows in the order in which the map is iterated.\<close>

fun applyKVToViper :: "config_env \<Rightarrow> (string \<times> string) list \<Rightarrow> viper \<Rightarrow> viper result" where
  "applyKVToViper ce [] v = Inr v"
| "applyKVToViper ce ((key0, raw) # kv) v =
     (let key = ToLower (TrimSpace key0) in
      if key = [] then applyKVToViper ce kv v
      else if ce_getenv ce (env_key key) \<noteq> [] then applyKVToViper ce kv v
      else case coerceKVValue ce key raw of
        Inl e \<Rightarrow> Inl (''kv['' @ key @ '']: '' @ e)
      | Inr val \<Rightarrow> applyKVToViper ce kv (v @ [SetKey key val]))"

text \<open>The new value of \<open>*cfg\<close>; on an error it is unchanged.\<close>

definition ApplyOverrides :: "config_env \<Rightarrow> Config option \<Rightarrow> (string \<times> string) list \<Rightarrow> Config option result" where
  "ApplyOverrides ce cfgp kv =
     (case cfgp of
        None \<Rightarrow> Inl ''config: ApplyOverrides: nil config''
      | Some cfg \<Rightarrow>
          if kv = [] then Inr (Some cfg)
          else case applyKVToViper ce kv (applyDefaultsToViper cfg @ seedViperFromConfig cfg) of
            Inl e \<Rightarrow> Inl e
          | Inr v \<Rightarrow> bind_result (wrap_err ''config: unmarshal after kv overrides'' (ce_unmarshal ce v cfg)) (\<lambda>nxt. Inr (Some nxt)))"

section \<open>Load\<close>

record LoadOptions =
  lo_ConfigFile :: string
  lo_SearchPaths :: "string list"
  lo_KVOverrides :: "(string \<times> string) list"

definition DefaultSearchPaths :: "string list" where
  "DefaultSearchPaths = [''.'', ''/etc/d2ip'', ''/var/lib/d2ip'']"

definition config_location :: "LoadOptions \<Rightarrow> viper" where
  "config_location opts =
     (if lo_ConfigFile opts \<noteq> [] then [SetConfigFile (lo_ConfigFile opts)]
      else [SetConfigName ''config'', SetConfigType ''yaml''] @
        map AddConfigPath (if lo_SearchPaths opts = [] then DefaultSearchPaths else lo_SearchPaths opts))"

definition Load :: "config_env \<Rightarrow> LoadOptions \<Rightarrow> Config result" where
  "Load ce opts =
     (let v1 = applyDefaultsToViper Defaults @ config_location opts in
      case ce_read ce v1 of
        ReadErr e \<Rightarrow> Inl (''config: read file: '' @ e)
      | _ \<Rightarrow>
          let v2 = v1 @ [ReadInConfig, SetEnvPrefix ''D2IP'', SetEnvKeyReplacer CHR ''.'' CHR ''_'', AutomaticEnv] @ bindAllEnvKeys in
          (case (if lo_KVOverrides opts = [] then Inr v2 else wrap_err ''config: apply kv overrides'' (applyKVToViper ce (lo_KVOverrides opts) v2)) of
             Inl e \<Rightarrow> Inl e
           | Inr v3 \<Rightarrow>
               let sourcesEnv = ce_getenv ce ''D2IP_SOURCES'';
                   v4 = (if sourcesEnv = [] then v3 else v3 @ [SetKey ''sources'' (AnyV (VList []))]) in
               (case ce_unmarshal ce v4 Defaults of
                  Inl e \<Rightarrow> Inl (''config: unmarshal: '' @ e)
                | Inr cfg0 \<Rightarrow>
                    (case (if sourcesEnv = [] then Inr cfg0
                           else bind_result (wrap_err ''config: parse D2IP_SOURCES'' (ce_json_sources ce sourcesEnv))
                             (\<lambda>sources. Inr (cfg0\<lparr> Sources := sources \<rparr>))) of
                       Inl e \<Rightarrow> Inl e
                     | Inr cfg \<Rightarrow>
                         if Validate cfg \<noteq> [] then Inl (''config: validation failed: '' @ join_with ''; '' (Validate cfg)) else Inr cfg))))"

section \<open>What the overrides change\<close>

definition scalar_keys :: "string list" where
  "scalar_keys = map fst (seed_scalars Defaults)"

definition row_key :: "string \<times> string \<Rightarrow> string" where
  "row_key r = ToLower (TrimSpace (fst r))"

text \<open>A row with a key, which no environment variable shadows.\<close>

definition applies :: "config_env \<Rightarrow> string \<times> string \<Rightarrow> bool" where
  "applies ce r \<longleftrightarrow> row_key r \<noteq> [] \<and> ce_getenv ce (env_key (row_key r)) = []"

fun overrides :: "config_env \<Rightarrow> (string \<times> string) list \<Rightarrow> string \<rightharpoonup> setting" where
  "overrides ce [] k = None"
| "overrides ce (r # kv) k =
     (case overrides ce kv k of
        Some x \<Rightarrow> Some x
      | None \<Rightarrow> if applies ce r \<and> row_key r = k then (case coerceKVValue ce k (snd r) of Inl e \<Rightarrow> None | Inr x \<Rightarrow> Some x) else None)"

definition well_formed_rows :: "config_env \<Rightarrow> (string \<times> string) list \<Rightarrow> bool" where
  "well_formed_rows ce kv \<longleftrightarrow> list_all (\<lambda>r. \<not> isl (coerceKVValue ce (row_key r) (snd r))) (filter (applies ce) kv)"

lemma explicit_append: "explicit (a @ b) k = (case explicit b k of Some x \<Rightarrow> Some x | None \<Rightarrow> explicit a k)"
  by (induction a) (auto split: option.splits)

lemma applyKV_calls:
  assumes "well_formed_rows ce kv"
  shows "\<exists>v'. applyKVToViper ce kv v = Inr v' \<and>
    explicit v' = (\<lambda>k. case overrides ce kv k of Some x \<Rightarrow> Some x | None \<Rightarrow> explicit v k)"
  using assms
proof (induction kv arbitrary: v)
  case (Cons r kv)
  obtain key0 raw where r: "r = (key0, raw)" by (rule prod.exhaust)
  have wf: "well_formed_rows ce kv" using Cons.prems by (simp add: well_formed_rows_def split: if_splits)
  show ?case
  proof (cases "applies ce r")
    case True
    with Cons.prems obtain x where x: "coerceKVValue ce (row_key r) raw = Inr x"
      by (cases "coerceKVValue ce (row_key r) raw") (auto simp: well_formed_rows_def r)
    obtain v' where "applyKVToViper ce kv (v @ [SetKey (row_key r) x]) = Inr v'"
        "explicit v' = (\<lambda>k. case overrides ce kv k of Some x \<Rightarrow> Some x | None \<Rightarrow> explicit (v @ [SetKey (row_key r) x]) k)"
      using Cons.IH [OF wf] by blast
    with True x show ?thesis
      by (auto simp: r applies_def row_key_def Let_def explicit_append fun_eq_iff split: option.split)
  next
    case False
    then have "overrides ce (r # kv) = overrides ce kv" by (auto simp: fun_eq_iff split: option.split)
    moreover have "applyKVToViper ce (r # kv) v = applyKVToViper ce kv v"
      using False by (auto simp: r applies_def row_key_def Let_def)
    ultimately show ?thesis using Cons.IH [OF wf, of v] by simp
  qed
qed simp

lemma applyKV_error:
  "\<not> well_formed_rows ce kv \<Longrightarrow> \<exists>e. applyKVToViper ce kv v = Inl e"
proof (induction kv arbitrary: v)
  case (Cons r kv)
  obtain key0 raw where r: "r = (key0, raw)" by (rule prod.exhaust)
  show ?case
  proof (cases "applies ce r \<and> (\<exists>e. coerceKVValue ce (row_key r) raw = Inl e)")
    case True
    then show ?thesis by (auto simp: r applies_def row_key_def Let_def)
  next
    case False
    then have "\<not> well_formed_rows ce kv"
      using Cons.prems by (cases "coerceKVValue ce (row_key r) raw") (auto simp: well_formed_rows_def r split: if_splits)
    from Cons.IH [OF this] False show ?thesis
      by (auto simp: r applies_def row_key_def Let_def split: sum.splits)
  qed
qed (simp add: well_formed_rows_def)

lemma explicit_sets: "distinct (map fst l) \<Longrightarrow> explicit (map (\<lambda>(k, x). SetKey k x) l) = map_of l"
proof (induction l)
  case (Cons p l)
  obtain k x where p: "p = (k, x)" by (rule prod.exhaust)
  with Cons.prems have "map_of l k = None" by (simp add: map_of_eq_None_iff)
  with Cons p show ?case by (auto simp: fun_eq_iff split: option.splits)
qed (simp add: fun_eq_iff)

lemma explicit_defaults [simp]: "explicit (map (\<lambda>(k, x). SetDefault k x) l) k = None"
  by (induction l) auto

lemma keys_seed [simp]: "map fst (seed_scalars c) = scalar_keys"
  by (simp add: scalar_keys_def seed_scalars_def)

lemma distinct_scalar_keys: "distinct scalar_keys"
  by code_simp

lemma list_keys_apart: "''sources'' \<notin> set scalar_keys" "''routing.policies'' \<notin> set scalar_keys"
  by code_simp+

lemma explicit_seed:
  "explicit (applyDefaultsToViper c @ seedViperFromConfig c) k =
     (if k \<in> set scalar_keys then map_of (seed_scalars c) k
      else if k = ''sources'' then (if Sources c = [] then None else Some (AnyV (VList (map seed_source (Sources c)))))
      else if k = ''routing.policies'' then
        (if rt_Policies (Routing c) = [] then None else Some (AnyV (VList (map seed_policy (rt_Policies (Routing c))))))
      else None)"
proof -
  have "map_of (seed_scalars c) k = None \<longleftrightarrow> k \<notin> set scalar_keys"
    using keys_seed [of c] by (metis list.set_map map_of_eq_None_iff)
  note none = this
  have scalars: "explicit (map (\<lambda>(k, x). SetKey k x) (seed_scalars c)) = map_of (seed_scalars c)"
    by (rule explicit_sets) (simp add: distinct_scalar_keys)
  have defaults: "explicit (applyDefaultsToViper c) k = None"
    by (simp only: applyDefaultsToViper_def explicit_defaults)
  have apart: "k \<noteq> ''sources'' \<and> k \<noteq> ''routing.policies''" if "k \<in> set scalar_keys"
    using that list_keys_apart by blast
  show ?thesis
    unfolding seedViperFromConfig_def explicit_append scalars defaults
    using none apart by (cases "k \<in> set scalar_keys"; cases "k = ''sources''"; cases "k = ''routing.policies''")
      (simp_all split: option.split)
qed

text \<open>The kind of value a key holds.\<close>

fun kind :: "setting \<Rightarrow> nat" where
  "kind (DurV d) = 0"
| "kind (AnyV (VInt n)) = 1"
| "kind (AnyV (VBool b)) = 2"
| "kind (AnyV (VStr s)) = 3"
| "kind _ = 4"

definition key_kind :: "string \<Rightarrow> nat" where
  "key_kind k = (if k \<in> set duration_keys then 0 else if k \<in> set integer_keys then 1 else if k \<in> set boolean_keys then 2 else 3)"

lemma coerce_kind: "coerceKVValue ce k raw = Inr x \<Longrightarrow> k \<noteq> ''sources'' \<Longrightarrow> k \<noteq> ''routing.policies'' \<Longrightarrow> kind x = key_kind k"
  by (auto simp: coerceKVValue_def key_kind_def Let_def wrap_err_def bind_result_def split: if_splits sum.splits)

lemma key_kinds: "map key_kind scalar_keys = map (kind \<circ> snd) (seed_scalars Defaults)"
  by code_simp

lemma seed_kind: "(k, x) \<in> set (seed_scalars c) \<Longrightarrow> kind x = key_kind k"
proof -
  assume kx: "(k, x) \<in> set (seed_scalars c)"
  have "map (kind \<circ> snd) (seed_scalars c) = map (kind \<circ> snd) (seed_scalars Defaults)" by (simp add: seed_scalars_def)
  then have "map (kind \<circ> snd) (seed_scalars c) = map key_kind (map fst (seed_scalars c))" by (simp only: key_kinds keys_seed)
  then have "map (kind \<circ> snd) (seed_scalars c) = map (key_kind \<circ> fst) (seed_scalars c)" by (simp only: map_map)
  then have "\<forall>p\<in>set (seed_scalars c). (kind \<circ> snd) p = (key_kind \<circ> fst) p" by (simp only: map_eq_conv)
  with kx show ?thesis by fastforce
qed

lemma overrides_kind:
  "overrides ce kv k = Some x \<Longrightarrow> k \<noteq> ''sources'' \<Longrightarrow> k \<noteq> ''routing.policies'' \<Longrightarrow> kind x = key_kind k"
  by (induction kv) (auto dest: coerce_kind split: option.splits if_splits sum.splits)

lemma overrides_key: "overrides ce kv k = Some x \<Longrightarrow> \<exists>r\<in>set kv. applies ce r \<and> row_key r = k"
  by (induction kv) (auto split: option.splits if_splits sum.splits)

text \<open>
  What the code relies on of \<open>Unmarshal\<close>: every scalar field gets the value that was explicitly set for
  its key, when it is of the field's kind, and lists that were set to what they hold stay as they are.
\<close>

definition own_sources :: "Config \<Rightarrow> setting option" where
  "own_sources c = (if Sources c = [] then None else Some (AnyV (VList (map seed_source (Sources c)))))"

definition own_policies :: "Config \<Rightarrow> setting option" where
  "own_policies c = (if rt_Policies (Routing c) = [] then None else Some (AnyV (VList (map seed_policy (rt_Policies (Routing c))))))"

definition scalars_set :: "viper \<Rightarrow> bool" where
  "scalars_set v \<longleftrightarrow> (\<forall>k\<in>set scalar_keys. \<exists>x. explicit v k = Some x \<and> kind x = key_kind k) \<and>
     dom (explicit v) \<subseteq> set scalar_keys \<union> {''sources'', ''routing.policies''}"

definition decodes :: "(viper \<Rightarrow> Config \<Rightarrow> Config result) \<Rightarrow> bool" where
  "decodes um \<longleftrightarrow> (\<forall>v c. scalars_set v \<longrightarrow>
     (\<exists>c'. um v c = Inr c' \<and> (\<forall>k\<in>set scalar_keys. map_of (seed_scalars c') k = explicit v k) \<and>
       (explicit v ''sources'' = own_sources c \<longrightarrow> Sources c' = Sources c) \<and>
       (explicit v ''routing.policies'' = own_policies c \<longrightarrow> rt_Policies (Routing c') = rt_Policies (Routing c))))"

lemma seed_lookup: "k \<in> set scalar_keys \<Longrightarrow> \<exists>x. map_of (seed_scalars c) k = Some x \<and> kind x = key_kind k"
proof -
  assume "k \<in> set scalar_keys"
  then have "k \<in> fst ` set (seed_scalars c)" by (metis keys_seed list.set_map)
  then obtain x where "map_of (seed_scalars c) k = Some x" by (metis map_of_eq_None_iff not_None_eq)
  with seed_kind [OF map_of_SomeD [OF this]] show ?thesis by blast
qed

lemma overrides_None: "k \<notin> row_key ` set (filter (applies ce) kv) \<Longrightarrow> overrides ce kv k = None"
  using overrides_key by (cases "overrides ce kv k") fastforce+

abbreviation overridden :: "config_env \<Rightarrow> (string \<times> string) list \<Rightarrow> viper \<Rightarrow> string \<Rightarrow> setting option" where
  "overridden ce kv v \<equiv> (\<lambda>k. case overrides ce kv k of Some x \<Rightarrow> Some x | None \<Rightarrow> explicit v k)"

lemma overridden_scalar:
  assumes "explicit v = overridden ce kv (applyDefaultsToViper c @ seedViperFromConfig c)" and "k \<in> set scalar_keys"
  shows "explicit v k = (case overrides ce kv k of Some x \<Rightarrow> Some x | None \<Rightarrow> map_of (seed_scalars c) k)"
  using assms(2) by (cases "overrides ce kv k") (simp_all add: assms(1) explicit_seed)

text \<open>The settings handed to \<open>Unmarshal\<close> hold every scalar key, of its kind, and no unknown key.\<close>

lemma overridden_scalars_set:
  assumes ex: "explicit v = overridden ce kv (applyDefaultsToViper c @ seedViperFromConfig c)"
    and sub: "row_key ` set (filter (applies ce) kv) \<subseteq> set scalar_keys \<union> {''sources'', ''routing.policies''}"
  shows "scalars_set v"
proof -
  have "\<exists>x. explicit v k = Some x \<and> kind x = key_kind k" if k: "k \<in> set scalar_keys" for k
  proof -
    have "k \<noteq> ''sources''" "k \<noteq> ''routing.policies''" using k list_keys_apart by blast+
    with seed_lookup [OF k, of c] overrides_kind [of ce kv k] show ?thesis
      by (cases "overrides ce kv k") (simp_all add: overridden_scalar [OF ex k])
  qed
  moreover have "k \<in> set scalar_keys \<union> {''sources'', ''routing.policies''}" if "k \<in> dom (explicit v)" for k
  proof (cases "overrides ce kv k")
    case None
    with that show ?thesis by (auto simp: ex explicit_seed split: if_splits)
  next
    case (Some x)
    with overrides_None [of k ce kv] sub show ?thesis by fastforce
  qed
  ultimately show ?thesis by (auto simp: scalars_set_def)
qed


text \<open>A row that cannot be parsed fails the whole call, whatever the other rows are.\<close>

theorem apply_overrides_bad_row:
  "kv \<noteq> [] \<Longrightarrow> \<not> well_formed_rows ce kv \<Longrightarrow> \<exists>e. ApplyOverrides ce (Some c) kv = Inl e"
  using applyKV_error [of ce kv "applyDefaultsToViper c @ seedViperFromConfig c"] by (auto simp: ApplyOverrides_def)

text \<open>Only valid configurations are loaded.\<close>

theorem load_valid: "Load ce opts = Inr cfg \<Longrightarrow> Validate cfg = []"
  by (auto simp: Load_def Let_def split: read_outcome.splits sum.splits if_splits)

section \<open>A decoder\<close>

text \<open>A decoder of explicit settings, as an instance of what is assumed of the library.\<close>

definition get_str :: "viper \<Rightarrow> string \<Rightarrow> string \<Rightarrow> string" where
  "get_str v k d = (case explicit v k of Some (AnyV (VStr s)) \<Rightarrow> s | _ \<Rightarrow> d)"

definition get_int :: "viper \<Rightarrow> string \<Rightarrow> int \<Rightarrow> int" where
  "get_int v k d = (case explicit v k of Some (AnyV (VInt n)) \<Rightarrow> n | _ \<Rightarrow> d)"

definition get_bool :: "viper \<Rightarrow> string \<Rightarrow> bool \<Rightarrow> bool" where
  "get_bool v k d = (case explicit v k of Some (AnyV (VBool b)) \<Rightarrow> b | _ \<Rightarrow> d)"

definition get_dur :: "viper \<Rightarrow> string \<Rightarrow> duration \<Rightarrow> duration" where
  "get_dur v k d = (case explicit v k of Some (DurV x) \<Rightarrow> x | _ \<Rightarrow> d)"

definition ex_decode :: "viper \<Rightarrow> Config \<Rightarrow> Config result" where
  "ex_decode v c = Inr \<lparr>
     Listen = get_str v ''listen'' (Listen c),
     Source = \<lparr> src_URL = get_str v ''source.url'' [], src_CachePath = get_str v ''source.cache_path'' [],
       src_RefreshInterval = get_dur v ''source.refresh_interval'' 0, src_HTTPTimeout = get_dur v ''source.http_timeout'' 0 \<rparr>,
     Sources = (case explicit v ''sources'' of Some (SourcesV items) \<Rightarrow> items | _ \<Rightarrow> Sources c),
     Resolver = \<lparr> res_Upstream = get_str v ''resolver.upstream'' [], res_Network = get_str v ''resolver.network'' [],
       res_Concurrency = get_int v ''resolver.concurrency'' 0, res_QPS = get_int v ''resolver.qps'' 0,
       res_Timeout = get_dur v ''resolver.timeout'' 0, res_Retries = get_int v ''resolver.retries'' 0,
       res_BackoffBase = get_dur v ''resolver.backoff_base'' 0, res_BackoffMax = get_dur v ''resolver.backoff_max'' 0,
       res_FollowCNAME = get_bool v ''resolver.follow_cname'' False, res_EnableV4 = get_bool v ''resolver.enable_v4'' False,
       res_EnableV6 = get_bool v ''resolver.enable_v6'' False \<rparr>,
     Cache = \<lparr> cache_DBPath = get_str v ''cache.db_path'' [], cache_TTL = get_dur v ''cache.ttl'' 0,
       cache_FailedTTL = get_dur v ''cache.failed_ttl'' 0, cache_VacuumAfter = get_dur v ''cache.vacuum_after'' 0 \<rparr>,
     Aggregation = \<lparr> agg_Enabled = get_bool v ''aggregation.enabled'' False, agg_Level = get_str v ''aggregation.level'' [],
       agg_V4MaxPrefix = get_int v ''aggregation.v4_max_prefix'' 0, agg_V6MaxPrefix = get_int v ''aggregation.v6_max_prefix'' 0 \<rparr>,
     Export = \<lparr> exp_Dir = get_str v ''export.dir'' [], exp_IPv4File = get_str v ''export.ipv4_file'' [],
       exp_IPv6File = get_str v ''export.ipv6_file'' [] \<rparr>,
     Routing = \<lparr> rt_Enabled = get_bool v ''routing.enabled'' False, rt_StateDir = get_str v ''routing.state_dir'' [],
       rt_Policies = (case explicit v ''routing.policies'' of Some (PoliciesV items) \<Rightarrow> items | _ \<Rightarrow> rt_Policies (Routing c)) \<rparr>,
     Scheduler = \<lparr> sch_DLCRefresh = get_dur v ''scheduler.dlc_refresh'' 0, sch_ResolveCycle = get_dur v ''scheduler.resolve_cycle'' 0 \<rparr>,
     Logging = \<lparr> log_Level = get_str v ''logging.level'' [], log_Format = get_str v ''logging.format'' [] \<rparr>,
     Metrics = \<lparr> met_Enabled = get_bool v ''metrics.enabled'' False, met_Path = get_str v ''metrics.path'' [] \<rparr> \<rparr>"

definition holds_kind :: "viper \<Rightarrow> string \<Rightarrow> nat \<Rightarrow> bool" where
  "holds_kind v k n \<longleftrightarrow> (\<exists>x. explicit v k = Some x \<and> kind x = n)"

lemma gets:
  "holds_kind v k 3 \<Longrightarrow> AnyV (VStr (get_str v k s)) = the (explicit v k)"
  "holds_kind v k 1 \<Longrightarrow> AnyV (VInt (get_int v k n)) = the (explicit v k)"
  "holds_kind v k 2 \<Longrightarrow> AnyV (VBool (get_bool v k b)) = the (explicit v k)"
  "holds_kind v k 0 \<Longrightarrow> DurV (get_dur v k d) = the (explicit v k)"
  by (auto simp: holds_kind_def get_str_def get_int_def get_bool_def get_dur_def elim: kind.elims)

lemma key_kind_list: "map key_kind scalar_keys =
    [3, 3, 3, 0, 0, 3, 3, 1, 1, 0, 1, 0, 0, 2, 2, 2, 3, 0, 0, 0, 2, 3, 1, 1, 3, 3, 3, 2, 3, 0, 0, 3, 3, 2, 3]"
  by code_simp

lemmas config_selectors = Config.Config.select_convs SourceConfig.select_convs ResolverConfig.select_convs CacheConfig.select_convs
  AggregationConfig.select_convs ExportConfig.select_convs RoutingConfig.select_convs SchedulerConfig.select_convs
  LoggingConfig.select_convs MetricsConfig.select_convs

lemma seed_ex_decode:
  assumes "list_all2 (holds_kind v) scalar_keys (map key_kind scalar_keys)"
  shows "seed_scalars (projr (ex_decode v c)) = map (\<lambda>k. (k, the (explicit v k))) scalar_keys"
proof -
  have keys: "scalar_keys = map fst (seed_scalars c)" by simp
  note h = assms [unfolded key_kind_list, unfolded keys, unfolded seed_scalars_def list.map fst_conv list_all2_Cons]
  show ?thesis
    unfolding keys
    by (simp only: seed_scalars_def, simp only: ex_decode_def sum.sel config_selectors, simp only: list.map fst_conv, simp only: gets h)
qed

lemma ex_lists:
  assumes "ex_decode v c = Inr c'"
  shows "Sources c' = (case explicit v ''sources'' of Some (SourcesV items) \<Rightarrow> items | _ \<Rightarrow> Sources c)"
    and "rt_Policies (Routing c') = (case explicit v ''routing.policies'' of Some (PoliciesV items) \<Rightarrow> items | _ \<Rightarrow> rt_Policies (Routing c))"
  unfolding assms [unfolded ex_decode_def sum.inject, symmetric] config_selectors by (rule refl)+

lemma ex_decode_decodes: "decodes ex_decode"
  unfolding decodes_def
proof (intro allI impI)
  fix v :: viper and c :: Config
  assume v: "scalars_set v"
  obtain c' where c': "ex_decode v c = Inr c'" by (simp add: ex_decode_def)
  from v have "\<forall>k\<in>set scalar_keys. holds_kind v k (key_kind k)" by (simp add: scalars_set_def holds_kind_def)
  then have "list_all2 (holds_kind v) scalar_keys (map key_kind scalar_keys)"
    by (simp add: list_all2_map2 list_all2_same)
  from seed_ex_decode [OF this, of c] have "seed_scalars c' = map (\<lambda>k. (k, the (explicit v k))) scalar_keys" by (simp add: c')
  moreover have "\<exists>x. explicit v k = Some x" if "k \<in> set scalar_keys" for k using v that unfolding scalars_set_def by blast
  ultimately have "map_of (seed_scalars c') k = explicit v k" if "k \<in> set scalar_keys" for k
    using that by (fastforce simp: map_of_map_restrict restrict_map_def)
  moreover have "explicit v ''sources'' = own_sources c \<longrightarrow> Sources c' = Sources c"
    "explicit v ''routing.policies'' = own_policies c \<longrightarrow> rt_Policies (Routing c') = rt_Policies (Routing c)"
    unfolding ex_lists [OF c'] own_sources_def own_policies_def by simp_all
  ultimately show "\<exists>c'. ex_decode v c = Inr c' \<and> (\<forall>k\<in>set scalar_keys. map_of (seed_scalars c') k = explicit v k) \<and>
       (explicit v ''sources'' = own_sources c \<longrightarrow> Sources c' = Sources c) \<and>
       (explicit v ''routing.policies'' = own_policies c \<longrightarrow> rt_Policies (Routing c') = rt_Policies (Routing c))"
    using c' by blast
qed

definition ex_config_env :: config_env where
  "ex_config_env = \<lparr> ce_getenv = (\<lambda>k. if k = ''D2IP_RESOLVER_RETRIES'' then ''5'' else []), ce_read = (\<lambda>_. FileNotFound),
     ce_unmarshal = ex_decode, ce_json_sources = (\<lambda>_. Inl ''no JSON''), ce_json_policies = (\<lambda>_. Inl ''no JSON'') \<rparr>"

definition ex_rows :: "(string \<times> string) list" where
  "ex_rows = [('' Resolver.QPS'', ''500''), (''resolver.retries'', ''7''), (''logging.level'', '' warn'')]"

lemma ex_rows_ok: "well_formed_rows ex_config_env ex_rows \<and>
    map row_key (filter (applies ex_config_env) ex_rows) = [''resolver.qps'', ''logging.level''] \<and>
    map (overrides ex_config_env ex_rows) [''resolver.qps'', ''logging.level'', ''resolver.retries''] =
      [Some (AnyV (VInt 500)), Some (AnyV (VStr ''warn'')), None]"
proof -
  have keys: "row_key ('' Resolver.QPS'', v) = ''resolver.qps''" "row_key (''resolver.retries'', v) = ''resolver.retries''"
    "row_key (''logging.level'', v) = ''logging.level''" for v
    unfolding row_key_def fst_conv by code_simp+
  have env: "env_key ''resolver.qps'' = ''D2IP_RESOLVER_QPS''" "env_key ''resolver.retries'' = ''D2IP_RESOLVER_RETRIES''"
    "env_key ''logging.level'' = ''D2IP_LOGGING_LEVEL''"
    by code_simp+
  have vals: "coerceKVValue ce ''resolver.qps'' ''500'' = Inr (AnyV (VInt 500))"
    "coerceKVValue ce ''logging.level'' '' warn'' = Inr (AnyV (VStr ''warn''))" for ce
    by code_simp+
  have getenv: "ce_getenv ex_config_env k = (if k = ''D2IP_RESOLVER_RETRIES'' then ''5'' else [])" for k
    by (simp add: ex_config_env_def)
  have app: "applies ex_config_env ('' Resolver.QPS'', v)" "\<not> applies ex_config_env (''resolver.retries'', v)"
    "applies ex_config_env (''logging.level'', v)" for v
    by (simp_all add: applies_def keys env getenv)
  show ?thesis by (simp add: ex_rows_def well_formed_rows_def app keys vals)
qed


end
