(* ===== verification/Api.thy ===== *)
theory Api
  imports Single_Flight Watch Overrides
begin

text \<open>
  The HTTP API (\<open>internal/api\<close>): the server and its handlers as functions from a decoded request and
  the state of the server to a reply and the new state. Routing of paths, headers and the JSON text of
  bodies are left to the libraries; a body is the value it encodes. Requests are served one after the
  other. A handler that panics is answered with status 500 by the recovery middleware.
\<close>

section \<open>The server\<close>

datatype app_event = EvReload | EvPipeline pipeline_event

text \<open>The dependencies that may be nil are options or flags; the legacy router is the disabled one.\<close>

record 'k server =
  sv_orch :: "orch option"
  sv_policyRtr :: "CompositeRouter option"
  sv_watcher :: watcher
  sv_has_kv :: bool
  sv_has_cache :: bool
  sv_has_registry :: bool
  sv_bus :: "app_event bus option"
  sv_version :: string
  sv_buildTime :: string
  sv_world :: "'k world"

record 'k api_env =
  ae_agents :: "'k agents"
  ae_config :: config_env
  ae_marshal :: "PolicyConfig list \<Rightarrow> string result"
  ae_struct :: "Config \<Rightarrow> (string \<times> anyv) list"
  ae_pages :: "int \<times> int"

datatype body =
    BOk
  | BNote string
  | BError string
  | BVersion string string
  | BPolicies "PolicyConfig list"
  | BPolicy PolicyConfig
  | BSettings "(string \<times> anyv) list" "(string \<times> anyv) list" "(string \<times> string) list"
  | BExportedConfig "(string \<times> anyv) list" "(string \<times> string) list"
  | BSources "SourceInfo list"
  | BSource SourceInfo
  | BCategories "(string \<times> nat) list" "string list"
  | BPage string "string list" int int nat bool
  | BReport PipelineReport
  | BRunStatus RunStatus
  | BHistory "PipelineReport list"
  | BStats Stats
  | BDeleted nat
  | BPlans Plan Plan string string
  | BRoutes string int nat nat nat
  | BState RouterState
  | BFile file_content
  | BPath string

datatype reply = Reply (status_of: nat) (body_of: body)

type_synonym 'k handler = "'k server \<Rightarrow> (reply \<times> 'k server) run"

definition jsonOK :: "body \<Rightarrow> 'k handler" where
  "jsonOK v s = Returns (Reply 200 v, s)"

definition jsonError :: "nat \<Rightarrow> string \<Rightarrow> 'k handler" where
  "jsonError code message s = Returns (Reply code (BError message), s)"

text \<open>\<open>middleware.Recoverer\<close> around a handler.\<close>

definition recoverer :: "'k handler \<Rightarrow> 'k server \<Rightarrow> reply \<times> 'k server" where
  "recoverer h s = (case h s of Panics e \<Rightarrow> (Reply 500 BOk, s) | Returns r \<Rightarrow> r)"

definition current_config :: "'k server \<Rightarrow> Config" where
  "current_config s = sn_Config (wt_Current (sv_watcher s))"

definition sv_conn :: "'k server \<Rightarrow> db conn" where
  "sv_conn s = wd_cache (sv_world s)"

definition set_conn :: "db conn \<Rightarrow> 'k server \<Rightarrow> 'k server" where
  "set_conn c s = s\<lparr> sv_world := (sv_world s)\<lparr> wd_cache := c \<rparr> \<rparr>"

definition sv_reg :: "'k server \<Rightarrow> registry" where
  "sv_reg s = wd_registry (sv_world s)"

definition set_reg :: "registry \<Rightarrow> 'k server \<Rightarrow> 'k server" where
  "set_reg r s = s\<lparr> sv_world := (sv_world s)\<lparr> wd_registry := r \<rparr> \<rparr>"

definition api_New :: "orch option \<Rightarrow> watcher \<Rightarrow> bool \<Rightarrow> bool \<Rightarrow> app_event bus option \<Rightarrow> bool \<Rightarrow> 'k world \<Rightarrow> 'k server" where
  "api_New orc cfgWatcher kvStore cacheAgent eventBus reg w = \<lparr> sv_orch = orc, sv_policyRtr = None, sv_watcher = cfgWatcher,
     sv_has_kv = kvStore, sv_has_cache = cacheAgent, sv_has_registry = reg, sv_bus = eventBus, sv_version = [], sv_buildTime = [], sv_world = w \<rparr>"

definition SetVersion :: "string \<Rightarrow> string \<Rightarrow> 'k server \<Rightarrow> 'k server" where
  "SetVersion version buildTime s = s\<lparr> sv_version := version, sv_buildTime := buildTime \<rparr>"

definition SetPolicyRouter :: "CompositeRouter \<Rightarrow> 'k server \<Rightarrow> 'k server" where
  "SetPolicyRouter r s = s\<lparr> sv_policyRtr := Some r \<rparr>"

definition handleHealth :: "'k handler" where
  "handleHealth s = Returns (Reply 200 (BNote ''ok''), s)"

definition handleReady :: "'k handler" where
  "handleReady s = Returns (Reply 200 (BNote ''ready''), s)"

definition handleVersion :: "'k handler" where
  "handleVersion s = jsonOK (BVersion (sv_version s) (sv_buildTime s)) s"

section \<open>Publishing and persisting\<close>

definition sv_publish :: "Config \<Rightarrow> 'k server \<Rightarrow> (error option \<times> 'k server) run" where
  "sv_publish cfg s = (case wt_Publish EvReload cfg (sv_watcher s) (sv_bus s) of
     Panics e \<Rightarrow> Panics e
   | Returns (err, w, bo) \<Rightarrow> Returns (err, s\<lparr> sv_watcher := w, sv_bus := bo \<rparr>))"

definition persistPolicies :: "'k api_env \<Rightarrow> Config \<Rightarrow> 'k server \<Rightarrow> error option \<times> 'k server" where
  "persistPolicies ae cfg s =
     (if \<not> sv_has_kv s then (None, s)
      else case ae_marshal ae (rt_Policies (Routing cfg)) of
        Inl e \<Rightarrow> (Some (''marshal policies: '' @ e), s)
      | Inr data \<Rightarrow>
          (case kv_Set ''routing.policies'' data (sv_conn s) of
             (Inl e, c) \<Rightarrow> (Some e, set_conn c s)
           | (Inr _, c) \<Rightarrow> (None, set_conn c s)))"

text \<open>Publish the configuration and persist its policies; an error of the latter is only logged.\<close>

definition publish_policies :: "'k api_env \<Rightarrow> Config \<Rightarrow> 'k handler" where
  "publish_policies ae cfg s =
     (case sv_publish cfg s of
        Panics e \<Rightarrow> Panics e
      | Returns (Some e, s1) \<Rightarrow> jsonError 500 (''failed to update config: '' @ e) s1
      | Returns (None, s1) \<Rightarrow> jsonOK BOk (snd (persistPolicies ae cfg s1)))"

section \<open>policies\_handlers.go\<close>

text \<open>\<open>strings.EqualFold\<close> on ASCII, which is what valid names are made of.\<close>

definition EqualFold :: "string \<Rightarrow> string \<Rightarrow> bool" where
  "EqualFold a b \<longleftrightarrow> ToLower a = ToLower b"

definition set_policies :: "PolicyConfig list \<Rightarrow> Config \<Rightarrow> Config" where
  "set_policies ps cfg = cfg\<lparr> Routing := (Routing cfg)\<lparr> rt_Policies := ps \<rparr> \<rparr>"

definition policies_of :: "'k server \<Rightarrow> PolicyConfig list" where
  "policies_of s = rt_Policies (Routing (current_config s))"

definition handlePoliciesList :: "'k handler" where
  "handlePoliciesList s = jsonOK (BPolicies (policies_of s)) s"

definition handlePolicyGet :: "string \<Rightarrow> 'k handler" where
  "handlePolicyGet name s = (case find (\<lambda>p. pol_Name p = name) (policies_of s) of
     Some p \<Rightarrow> jsonOK (BPolicy p) s
   | None \<Rightarrow> jsonError 404 (''policy not found: '' @ name) s)"

definition handlePolicyCreate :: "'k api_env \<Rightarrow> PolicyConfig result \<Rightarrow> 'k handler" where
  "handlePolicyCreate ae decoded s =
     (case decoded of
        Inl e \<Rightarrow> jsonError 400 ''invalid JSON'' s
      | Inr policy \<Rightarrow>
          let cfg = Clone (current_config s) in
          if list_ex (\<lambda>p. EqualFold (pol_Name p) (pol_Name policy)) (rt_Policies (Routing cfg))
          then jsonError 409 (''policy already exists: '' @ pol_Name policy) s
          else publish_policies ae (set_policies (rt_Policies (Routing cfg) @ [policy]) cfg) s)"

fun replace_first :: "string \<Rightarrow> PolicyConfig \<Rightarrow> PolicyConfig list \<Rightarrow> PolicyConfig list option" where
  "replace_first name policy [] = None"
| "replace_first name policy (p # ps) =
     (if pol_Name p = name then Some (policy # ps) else map_option ((#) p) (replace_first name policy ps))"

definition handlePolicyUpdate :: "'k api_env \<Rightarrow> string \<Rightarrow> PolicyConfig result \<Rightarrow> 'k handler" where
  "handlePolicyUpdate ae name decoded s =
     (case decoded of
        Inl e \<Rightarrow> jsonError 400 ''invalid JSON'' s
      | Inr policy \<Rightarrow>
          if pol_Name policy \<noteq> name then jsonError 400 ''name mismatch'' s
          else let cfg = Clone (current_config s) in
            (case replace_first name policy (rt_Policies (Routing cfg)) of
               None \<Rightarrow> jsonError 404 (''policy not found: '' @ name) s
             | Some ps \<Rightarrow> publish_policies ae (set_policies ps cfg) s))"

fun delete_first :: "string \<Rightarrow> PolicyConfig list \<Rightarrow> PolicyConfig list option" where
  "delete_first name [] = None"
| "delete_first name (p # ps) = (if pol_Name p = name then Some ps else map_option ((#) p) (delete_first name ps))"

definition handlePolicyDelete :: "'k api_env \<Rightarrow> string \<Rightarrow> 'k handler" where
  "handlePolicyDelete ae name s =
     (let cfg = Clone (current_config s) in
      case delete_first name (rt_Policies (Routing cfg)) of
        None \<Rightarrow> jsonError 404 (''policy not found: '' @ name) s
      | Some ps \<Rightarrow> publish_policies ae (set_policies ps cfg) s)"

section \<open>settings\_handlers.go\<close>

text \<open>
  The map that \<open>GetAll\<close> returns, as its pairs in the order in which they are ranged over; reading does
  not change the table, so its keys are those of the map.
\<close>

definition all_overrides :: "'k api_env \<Rightarrow> db conn \<Rightarrow> (string \<times> string) list result \<times> db conn" where
  "all_overrides ae c = (case GetAll c of
     (Inl e, c1) \<Rightarrow> (Inl e, c1)
   | (Inr m, c1) \<Rightarrow> (Inr (map (\<lambda>k. (k, the (m k))) (ag_order (ae_agents ae) (filter (\<lambda>k. m k \<noteq> None) (remdups (map fst (tb_kv (cn_db c))))))), c1))"

fun flatten_value :: "string \<Rightarrow> anyv \<Rightarrow> (string \<times> anyv) list" where
  "flatten_value key (VMap m) = concat (map (\<lambda>(k, v). flatten_value (if key = [] then k else key @ ''.'' @ k) v) m)"
| "flatten_value key v = [(key, v)]"

definition flattenMap :: "(string \<times> anyv) list \<Rightarrow> string \<Rightarrow> (string \<times> anyv) list" where
  "flattenMap m prfx = flatten_value prfx (VMap m)"

definition structToMap :: "'k api_env \<Rightarrow> Config \<Rightarrow> (string \<times> anyv) list" where
  "structToMap ae v = flattenMap (ae_struct ae v) []"

definition handleSettingsGet :: "'k api_env \<Rightarrow> 'k handler" where
  "handleSettingsGet ae s =
     (if \<not> sv_has_kv s then jsonError 500 ''kvStore not initialized'' s
      else case all_overrides ae (sv_conn s) of
        (Inl e, c) \<Rightarrow> jsonError 500 (''failed to read kv: '' @ e) (set_conn c s)
      | (Inr kv, c) \<Rightarrow>
          jsonOK (BSettings (structToMap ae (current_config s)) (structToMap ae Defaults) kv) (set_conn c s))"

definition reloadConfig :: "'k api_env \<Rightarrow> 'k server \<Rightarrow> (error option \<times> 'k server) run" where
  "reloadConfig ae s =
     (if \<not> sv_has_kv s then Returns (Some ''kvStore not initialized'', s)
      else case all_overrides ae (sv_conn s) of
        (Inl e, c) \<Rightarrow> Returns (Some e, set_conn c s)
      | (Inr kv, c) \<Rightarrow>
          let s1 = set_conn c s; cfg = Clone (current_config s1) in
          (case ApplyOverrides (ae_config ae) (Some cfg) kv of
             Inl e \<Rightarrow> Returns (Some e, s1)
           | Inr None \<Rightarrow> Returns (None, s1)
           | Inr (Some nxt) \<Rightarrow> sv_publish nxt s1))"

fun set_all :: "(string \<times> string) list \<Rightarrow> db conn \<Rightarrow> (string \<times> error) option \<times> db conn" where
  "set_all [] c = (None, c)"
| "set_all ((key, val) # kvs) c =
     (case kv_Set key val c of
        (Inl e, c1) \<Rightarrow> (Some (key, e), c1)
      | (Inr _, c1) \<Rightarrow> set_all kvs c1)"

text \<open>The common part of \<open>handleSettingsPut\<close> and \<open>handleConfigImport\<close>.\<close>

definition put_overrides :: "'k api_env \<Rightarrow> (string \<times> string) list \<Rightarrow> body \<Rightarrow> 'k handler" where
  "put_overrides ae kv ok s =
     (if \<not> sv_has_kv s then jsonError 500 ''kvStore not initialized'' s
      else case set_all kv (sv_conn s) of
        (Some (key, e), c) \<Rightarrow> jsonError 500 (''failed to set '' @ key @ '': '' @ e) (set_conn c s)
      | (None, c) \<Rightarrow>
          (case reloadConfig ae (set_conn c s) of
             Panics e \<Rightarrow> Panics e
           | Returns (Some e, s1) \<Rightarrow> jsonError 500 (''config reload failed: '' @ e) s1
           | Returns (None, s1) \<Rightarrow> jsonOK ok s1))"

definition handleSettingsPut :: "'k api_env \<Rightarrow> (string \<times> string) list result \<Rightarrow> 'k handler" where
  "handleSettingsPut ae decoded s = (case decoded of
     Inl e \<Rightarrow> jsonError 400 (''invalid JSON: '' @ e) s
   | Inr kv \<Rightarrow> put_overrides ae kv BOk s)"

definition handleConfigImport :: "'k api_env \<Rightarrow> (string \<times> string) list result \<Rightarrow> 'k handler" where
  "handleConfigImport ae decoded s = (case decoded of
     Inl e \<Rightarrow> jsonError 400 (''invalid JSON: '' @ e) s
   | Inr kv \<Rightarrow> put_overrides ae kv (BNote ''config imported'') s)"

definition handleSettingsDelete :: "'k api_env \<Rightarrow> string \<Rightarrow> 'k handler" where
  "handleSettingsDelete ae key s =
     (if key = [] then jsonError 400 ''key is required'' s
      else if \<not> sv_has_kv s then jsonError 500 ''kvStore not initialized'' s
      else case kv_Delete key (sv_conn s) of
        (Inl e, c) \<Rightarrow> jsonError 500 (''failed to delete '' @ key @ '': '' @ e) (set_conn c s)
      | (Inr _, c) \<Rightarrow>
          (case reloadConfig ae (set_conn c s) of
             Panics e \<Rightarrow> Panics e
           | Returns (Some e, s1) \<Rightarrow> jsonError 500 (''config reload failed: '' @ e) s1
           | Returns (None, s1) \<Rightarrow> jsonOK BOk s1))"

text \<open>A nil \<open>kvStore\<close> is called without a check.\<close>

definition handleConfigExport :: "'k api_env \<Rightarrow> 'k handler" where
  "handleConfigExport ae s =
     (if \<not> sv_has_kv s then Panics ''invalid memory address or nil pointer dereference''
      else case all_overrides ae (sv_conn s) of
        (r, c) \<Rightarrow> Returns (Reply 200 (BExportedConfig (structToMap ae (current_config s)) (case r of Inl _ \<Rightarrow> [] | Inr kv \<Rightarrow> kv)), set_conn c s))"

section \<open>sources\_handlers.go\<close>

definition handleSourcesList :: "'k handler" where
  "handleSourcesList s = jsonOK (BSources (if sv_has_registry s then ListSources (sv_reg s) else [])) s"

definition handleSourceGet :: "string \<Rightarrow> 'k handler" where
  "handleSourceGet i s =
     (if i = [] then jsonError 400 ''source id is required'' s
      else if \<not> sv_has_registry s then jsonError 503 ''registry unavailable'' s
      else case GetSource (sv_reg s) i of
        None \<Rightarrow> jsonError 404 ''source not found'' s
      | Some src \<Rightarrow> jsonOK (BSource (src_Info src)) s)"

definition add_source :: "'k api_env \<Rightarrow> source_config \<Rightarrow> 'k handler" where
  "add_source ae cfg s =
     (case AddSource (ag_env (ae_agents ae)) cfg (sv_reg s) of
        Panics e \<Rightarrow> Panics e
      | Returns (Some e, r) \<Rightarrow> jsonError 500 e (set_reg r s)
      | Returns (None, r) \<Rightarrow> jsonOK BOk (set_reg r s))"

definition handleSourceCreate :: "'k api_env \<Rightarrow> source_config result \<Rightarrow> 'k handler" where
  "handleSourceCreate ae decoded s =
     (if \<not> sv_has_registry s then jsonError 503 ''registry unavailable'' s
      else case decoded of
        Inl e \<Rightarrow> jsonError 400 (''invalid JSON: '' @ e) s
      | Inr cfg \<Rightarrow>
          if sc_ID cfg = [] then jsonError 400 ''id is required'' s
          else if sc_Prefix cfg = [] then jsonError 400 ''prefix is required'' s
          else if sc_Provider cfg = [] then jsonError 400 ''provider is required'' s
          else add_source ae cfg s)"

definition handleSourceUpdate :: "'k api_env \<Rightarrow> string \<Rightarrow> source_config result \<Rightarrow> 'k handler" where
  "handleSourceUpdate ae i decoded s =
     (if i = [] then jsonError 400 ''source id is required'' s
      else if \<not> sv_has_registry s then jsonError 503 ''registry unavailable'' s
      else case decoded of
        Inl e \<Rightarrow> jsonError 400 (''invalid JSON: '' @ e) s
      | Inr cfg \<Rightarrow> add_source ae (cfg\<lparr> sc_ID := i \<rparr>) s)"

definition handleSourceDelete :: "string \<Rightarrow> 'k handler" where
  "handleSourceDelete i s =
     (if i = [] then jsonError 400 ''source id is required'' s
      else if \<not> sv_has_registry s then jsonError 503 ''registry unavailable'' s
      else case RemoveSource i (sv_reg s) of
        (Some e, r) \<Rightarrow> jsonError 500 e (set_reg r s)
      | (None, r) \<Rightarrow> jsonOK BOk (set_reg r s))"

text \<open>The registry holds the source by reference, so that the load is visible in it.\<close>

definition handleSourceRefresh :: "'k api_env \<Rightarrow> string \<Rightarrow> 'k handler" where
  "handleSourceRefresh ae i s =
     (if i = [] then jsonError 400 ''source id is required'' s
      else if \<not> sv_has_registry s then jsonError 503 ''registry unavailable'' s
      else case GetSource (sv_reg s) i of
        None \<Rightarrow> jsonError 404 ''source not found'' s
      | Some src \<Rightarrow>
          (case src_Load (ag_env (ae_agents ae)) src (rg_fs (sv_reg s)) of
             (err, src', files) \<Rightarrow>
               let s1 = set_reg ((sv_reg s)\<lparr> rg_sources := AList.update i src' (rg_sources (sv_reg s)), rg_fs := files \<rparr>) s in
               (case err of Some e \<Rightarrow> jsonError 500 e s1 | None \<Rightarrow> jsonOK (BSource (src_Info src')) s1)))"

definition handleSourceFetchLegacy :: "'k api_env \<Rightarrow> 'k handler" where
  "handleSourceFetchLegacy ae s =
     (if \<not> sv_has_registry s then jsonError 503 ''registry unavailable'' s
      else case LoadAll (ag_env (ae_agents ae)) (sv_reg s) of
        Panics e \<Rightarrow> Panics e
      | Returns (Some e, r) \<Rightarrow> jsonError 500 e (set_reg r s)
      | Returns (None, r) \<Rightarrow> jsonOK BOk (set_reg r s))"

text \<open>
  An upload after the libraries have read the form: the form or its file is missing, or the name and the
  content the client gave. A failing copy leaves a truncated file, which is removed.
\<close>

datatype upload = BadForm error | NoFile error | Upload string file_content

definition uploads_dir :: string where
  "uploads_dir = ''/tmp/d2ip-uploads''"

definition handleSourceUpload :: "string \<Rightarrow> upload \<Rightarrow> 'k handler" where
  "handleSourceUpload uuid form s =
     (case form of
        BadForm e \<Rightarrow> jsonError 400 (''parse form: '' @ e) s
      | NoFile e \<Rightarrow> jsonError 400 (''get file: '' @ e) s
      | Upload filename content \<Rightarrow>
          if \<not> HasSuffix (ToLower filename) ''.txt'' then jsonError 400 ''only .txt files allowed'' s
          else let files = wd_fs (sv_world s) in
            (case MkdirAll files uploads_dir of
               Some e \<Rightarrow> jsonError 500 (''mkdir: '' @ e) s
             | None \<Rightarrow>
                 (let p = Join uploads_dir (uuid @ ''.txt'') in
                  case WriteFile p content files of
                    (Some e, files1) \<Rightarrow>
                      if fs_fault files OpOpen p then jsonError 500 (''create file: '' @ e) s
                      else jsonError 500 (''copy: '' @ e) (s\<lparr> sv_world := set_fs (snd (Remove p files1)) (sv_world s) \<rparr>)
                  | (None, files1) \<Rightarrow> jsonOK (BPath p) (s\<lparr> sv_world := set_fs files1 (sv_world s) \<rparr>))))"

section \<open>categories\_handlers.go\<close>

text \<open>The enabled policies' categories, each once and at its first place, with their sizes.\<close>

definition configured_categories :: "'k api_env \<Rightarrow> 'k server \<Rightarrow> (string \<times> nat) list" where
  "configured_categories ae s = map (\<lambda>cat. (cat, case reg_GetDomains (ag_env (ae_agents ae)) (sv_reg s) cat of Inl _ \<Rightarrow> 0 | Inr ds \<Rightarrow> length ds))
     (keep_first id (concat (map pol_Categories (filter pol_Enabled (policies_of s)))))"

definition handleCategoriesList :: "'k api_env \<Rightarrow> 'k handler" where
  "handleCategoriesList ae s =
     (if \<not> sv_has_registry s then jsonOK (BCategories [] []) s
      else jsonOK (BCategories (configured_categories ae s) (map ci_Name (ListCategories (ag_env (ae_agents ae)) (sv_reg s)))) s)"

definition wrap64 :: "int \<Rightarrow> int" where
  "wrap64 x = sint (word_of_int x :: 64 word)"

definition scan_int :: "string \<Rightarrow> int option" where
  "scan_int p = (case Sscanf_d (dropWhile (\<lambda>c. c = CHR '' '') p) of Inl _ \<Rightarrow> None | Inr n \<Rightarrow> Some n)"

definition page_number :: "string \<Rightarrow> int" where
  "page_number p = (if p = [] then 1 else case scan_int p of None \<Rightarrow> 1 | Some n \<Rightarrow> if n < 1 then 1 else n)"

definition page_size :: "string \<Rightarrow> int" where
  "page_size pp = (if pp = [] then 100 else case scan_int pp of None \<Rightarrow> 100 | Some n \<Rightarrow> if 0 < n \<and> n \<le> 500 then n else 100)"

text \<open>The slice expression \<open>xs[lo:hi]\<close>.\<close>

definition slice :: "'a list \<Rightarrow> int \<Rightarrow> int \<Rightarrow> 'a list run" where
  "slice xs lo hi = (if lo < 0 \<or> hi < lo \<or> int (length xs) < hi then Panics ''slice bounds out of range''
     else Returns (take (nat (hi - lo)) (drop (nat lo) xs)))"

definition domain_page :: "string list \<Rightarrow> int \<Rightarrow> int \<Rightarrow> (string list \<times> bool) run" where
  "domain_page domains page perPage =
     (let start = wrap64 (wrap64 (page - 1) * perPage); stop = wrap64 (start + perPage); n = int (length domains) in
      case (if start < n then (if n < stop then slice domains start n else slice domains start stop) else Returns []) of
        Panics e \<Rightarrow> Panics e
      | Returns ds \<Rightarrow> Returns (ds, stop < n))"

definition handleCategoryDomains :: "'k api_env \<Rightarrow> string \<Rightarrow> string \<Rightarrow> string \<Rightarrow> 'k handler" where
  "handleCategoryDomains ae code p pp s =
     (if code = [] then jsonError 400 ''category code is required'' s
      else if \<not> sv_has_registry s then jsonError 503 ''registry unavailable'' s
      else case reg_GetDomains (ag_env (ae_agents ae)) (sv_reg s) code of
        Inl e \<Rightarrow>
          (case reg_GetPrefixes (sv_reg s) code of
             Inr ps \<Rightarrow> jsonOK (BPage code (map prefix_string ps) 1 (int (length ps)) (length ps) False) s
           | Inl _ \<Rightarrow> jsonError 404 (''category not found: '' @ code) s)
      | Inr domains \<Rightarrow>
          let page = page_number p; perPage = page_size pp in
          (case domain_page domains page perPage of
             Panics e \<Rightarrow> Panics e
           | Returns (ds, hasMore) \<Rightarrow> jsonOK (BPage code ds page perPage (length domains) hasMore) s))"

definition handleCategoriesAdd :: "'k handler" where
  "handleCategoriesAdd s = jsonError 404 ''POST /api/categories is no longer supported; categories are managed via routing policies'' s"

definition handleCategoriesDelete :: "'k handler" where
  "handleCategoriesDelete s = jsonError 404 ''DELETE /api/categories/{code} is no longer supported; categories are managed via routing policies'' s"

section \<open>The pipeline\<close>

text \<open>Error values: a sentinel, a wrapped error, or any other; \<open>errors.Is\<close> unwraps, \<open>==\<close> does not.\<close>

datatype go_error = Sentinel string | Wrapped string go_error | Plain string

fun errors_Is :: "go_error \<Rightarrow> go_error \<Rightarrow> bool" where
  "errors_Is (Wrapped msg e) target \<longleftrightarrow> Wrapped msg e = target \<or> errors_Is e target"
| "errors_Is e target \<longleftrightarrow> e = target"

fun error_text :: "go_error \<Rightarrow> string" where
  "error_text (Sentinel msg) = msg"
| "error_text (Wrapped msg e) = error_text e @ msg"
| "error_text (Plain msg) = msg"

definition go_ErrBusy :: go_error where
  "go_ErrBusy = Sentinel ''orchestrator: pipeline already running''"

fun run_go_error :: "run_error \<Rightarrow> go_error" where
  "run_go_error (ErrBusy i) = Wrapped ('': run_id='' @ (if sint i < 0 then ''-'' @ show_nat (nat (- sint i)) else show_nat (nat (sint i)))) go_ErrBusy"
| "run_go_error (ErrRun e) = Plain e"

fun emit_all :: "pipeline_event list \<Rightarrow> app_event bus option \<Rightarrow> app_event bus option run" where
  "emit_all [] bo = Returns bo"
| "emit_all (ev # evs) bo = (case bo of
     None \<Rightarrow> Returns None
   | Some b \<Rightarrow> (case bus_Publish ''pipeline'' (EvPipeline ev) b of Panics e \<Rightarrow> Panics e | Returns b' \<Rightarrow> emit_all evs (Some b')))"

text \<open>
  The run works on the configuration that is current when it starts. \<open>req\<close> is what the decoder left in
  the request, whose error is ignored. The panic of a run is recovered with what it did so far.
\<close>

definition handlePipelineRun :: "'k api_env \<Rightarrow> int \<Rightarrow> (nat \<Rightarrow> error option) \<Rightarrow> PipelineRequest \<Rightarrow> 'k handler" where
  "handlePipelineRun ae started ctx req s =
     (case sv_orch s of
        None \<Rightarrow> jsonError 503 ''orchestrator not initialized'' s
      | Some st \<Rightarrow>
          (case Run ((ae_agents ae)\<lparr> ag_config := current_config s \<rparr>) started req ctx st (sv_world s) of
             (res, st', w') \<Rightarrow>
               (case emit_all (drop (length (or_events st)) (or_events st')) (sv_bus s) of
                  Panics e \<Rightarrow> Panics e
                | Returns bo \<Rightarrow>
                    let s1 = s\<lparr> sv_orch := Some st', sv_world := w', sv_bus := bo \<rparr> in
                    (case res of
                       Panics e \<Rightarrow> Returns (Reply 500 BOk, s1)
                     | Returns (report, Some e) \<Rightarrow>
                         if run_go_error e = go_ErrBusy then jsonError 409 ''pipeline already running'' s1
                         else jsonError 500 (error_text (run_go_error e)) s1
                     | Returns (report, None) \<Rightarrow> jsonOK (BReport report) s1))))"

definition handlePipelineStatus :: "'k handler" where
  "handlePipelineStatus s = (case sv_orch s of
     None \<Rightarrow> jsonError 503 ''orchestrator not initialized'' s
   | Some st \<Rightarrow> jsonOK (BRunStatus (orch_Status st)) s)"

definition handlePipelineHistory :: "'k handler" where
  "handlePipelineHistory s = (case sv_orch s of
     None \<Rightarrow> jsonOK (BHistory []) s
   | Some st \<Rightarrow> jsonOK (BHistory (orch_History st)) s)"

definition handlePipelineCancel :: "'k handler" where
  "handlePipelineCancel s = (case sv_orch s of
     None \<Rightarrow> jsonError 503 ''orchestrator unavailable'' s
   | Some st \<Rightarrow> (case orch_Cancel st of
       (ok, st') \<Rightarrow> jsonOK (BNote (if ok then ''cancelled'' else ''not running'')) (s\<lparr> sv_orch := Some st' \<rparr>)))"

section \<open>Routing, exports and the cache\<close>

definition handleRoutingDryRun :: "(prefix list \<times> prefix list) result \<Rightarrow> 'k handler" where
  "handleRoutingDryRun decoded s = (case decoded of
     Inl e \<Rightarrow> jsonError 400 (''invalid JSON: '' @ e) s
   | Inr (v4, v6) \<Rightarrow>
       if v4 = [] \<and> v6 = [] then jsonOK (BPlans (noop_Plan [] FamilyV4) (noop_Plan [] FamilyV6) [] []) s
       else case (noop_DryRun v4 FamilyV4, noop_DryRun v6 FamilyV6) of
         ((v4Plan, v4Diff), (v6Plan, v6Diff)) \<Rightarrow> jsonOK (BPlans v4Plan v6Plan v4Diff v6Diff) s)"

definition handleRoutingRollback :: "'k handler" where
  "handleRoutingRollback s = jsonOK BOk s"

definition sv_sys :: "'k server \<Rightarrow> 'k sys" where
  "sv_sys s = \<lparr> sys_fs = wd_fs (sv_world s), sys_kernel = wd_kernel (sv_world s) \<rparr>"

fun sum_states :: "RouterState list \<Rightarrow> bool \<times> int \<times> nat \<times> nat \<Rightarrow> bool \<times> int \<times> nat \<times> nat" where
  "sum_states [] acc = acc"
| "sum_states (state # states) (anyApplied, lastApplied, totalV4, totalV6) =
     sum_states states
       (if rs_Backend state \<noteq> [] \<and> rs_Backend state \<noteq> ''none'' then
          (True, if lastApplied < rs_AppliedAt state then rs_AppliedAt state else lastApplied,
           totalV4 + length (rs_V4 state), totalV6 + length (rs_V6 state))
        else (anyApplied, lastApplied, totalV4, totalV6))"

definition handleRoutingSnapshot :: "'k handler" where
  "handleRoutingSnapshot s =
     (case (policies_of s, sv_policyRtr s) of
        (p # ps, Some rtr) \<Rightarrow>
          (case sum_states (map (\<lambda>p. composite_SnapshotPolicy rtr (pol_Name p) (sv_sys s)) (filter pol_Enabled (p # ps))) (False, 0, 0, 0) of
             (anyApplied, lastApplied, totalV4, totalV6) \<Rightarrow>
               jsonOK (BRoutes (if anyApplied then ''policies'' else ''none'') lastApplied totalV4 totalV6 (length (p # ps))) s)
      | _ \<Rightarrow> jsonOK (BState noop_Snapshot) s)"

definition handleExportDownload :: "string \<Rightarrow> string \<Rightarrow> 'k handler" where
  "handleExportDownload policy typ s =
     (if policy = [] \<or> typ \<noteq> ''ipv4'' \<and> typ \<noteq> ''ipv6'' then jsonError 400 ''policy and type (ipv4|ipv6) query params required'' s
      else
        let cfg = current_config s;
            baseDir = (if exp_Dir (Export cfg) = [] then ''/var/lib/d2ip/out'' else exp_Dir (Export cfg));
            configured = (if typ = ''ipv6'' then exp_IPv6File (Export cfg) else exp_IPv4File (Export cfg));
            filename = (if configured = [] then typ @ ''.txt'' else configured)
        in case ReadFile (wd_fs (sv_world s)) (baseDir @ ''/'' @ policy @ ''/'' @ filename) of
             Inl _ \<Rightarrow> jsonError 404 ''export file not found'' s
           | Inr data \<Rightarrow> Returns (Reply 200 (BFile data), s))"

definition handleCacheStats :: "'k handler" where
  "handleCacheStats s =
     (if \<not> sv_has_cache s then jsonError 503 ''cache unavailable'' s
      else case cache_Stats (sv_conn s) of
        (stats, Some e, c) \<Rightarrow> jsonError 500 (''failed to get stats: '' @ e) (set_conn c s)
      | (stats, None, c) \<Rightarrow> jsonOK (BStats stats) (set_conn c s))"

definition handleCachePurge :: "unit result \<Rightarrow> 'k handler" where
  "handleCachePurge decoded s =
     (if \<not> sv_has_cache s then jsonError 503 ''cache unavailable'' s
      else case decoded of
        Inl e \<Rightarrow> jsonError 400 (''invalid JSON: '' @ e) s
      | Inr _ \<Rightarrow> jsonOK (BNote ''purge requires cache.DeleteByPattern, not yet implemented'') s)"

definition handleCacheVacuum :: "'k api_env \<Rightarrow> 'k handler" where
  "handleCacheVacuum ae s =
     (if \<not> sv_has_cache s then jsonError 503 ''cache unavailable'' s
      else case Vacuum (fst (ae_pages ae)) (snd (ae_pages ae)) (ag_now (ae_agents ae)) 0 (sv_conn s) of
        (deleted, Some e, c) \<Rightarrow> jsonError 500 (''vacuum failed: '' @ e) (set_conn c s)
      | (deleted, None, c) \<Rightarrow> jsonOK (BDeleted deleted) (set_conn c s))"

definition handleCacheEntries :: "string \<Rightarrow> 'k handler" where
  "handleCacheEntries domain s =
     (if \<not> sv_has_cache s then jsonError 503 ''cache unavailable'' s
      else if domain = [] then jsonError 400 ''domain query parameter is required'' s
      else jsonError 503 ''domain-level lookup not yet implemented'' s)"

section \<open>Routes\<close>

datatype request =
    GetHealth | GetReady | GetVersion
  | PostPipelineRun PipelineRequest | GetPipelineStatus | GetPipelineHistory | PostPipelineCancel
  | PostRoutingDryRun "(prefix list \<times> prefix list) result" | PostRoutingRollback | GetRoutingSnapshot
  | GetSettings | PutSettings "(string \<times> string) list result" | DeleteSetting string
  | GetCategories | GetCategoryDomains string string string
  | GetCacheStats | PostCachePurge "unit result" | PostCacheVacuum | GetCacheEntries string
  | GetSources | PostSource "source_config result" | GetSourceById string | PutSource string "source_config result"
  | DeleteSource string | PostSourceRefresh string | PostSourceUpload string upload | PostSourceFetch
  | GetExport string string
  | GetConfigExport | PostConfigImport "(string \<times> string) list result"
  | GetPolicies | GetPolicy string | PostPolicy "PolicyConfig result" | PutPolicy string "PolicyConfig result" | DeletePolicy string

fun route :: "'k api_env \<Rightarrow> int \<Rightarrow> (nat \<Rightarrow> error option) \<Rightarrow> request \<Rightarrow> 'k handler" where
  "route ae t ctx GetHealth = handleHealth"
| "route ae t ctx GetReady = handleReady"
| "route ae t ctx GetVersion = handleVersion"
| "route ae t ctx (PostPipelineRun req) = handlePipelineRun ae t ctx req"
| "route ae t ctx GetPipelineStatus = handlePipelineStatus"
| "route ae t ctx GetPipelineHistory = handlePipelineHistory"
| "route ae t ctx PostPipelineCancel = handlePipelineCancel"
| "route ae t ctx (PostRoutingDryRun d) = handleRoutingDryRun d"
| "route ae t ctx PostRoutingRollback = handleRoutingRollback"
| "route ae t ctx GetRoutingSnapshot = handleRoutingSnapshot"
| "route ae t ctx GetSettings = handleSettingsGet ae"
| "route ae t ctx (PutSettings d) = handleSettingsPut ae d"
| "route ae t ctx (DeleteSetting key) = handleSettingsDelete ae key"
| "route ae t ctx GetCategories = handleCategoriesList ae"
| "route ae t ctx (GetCategoryDomains code p pp) = handleCategoryDomains ae code p pp"
| "route ae t ctx GetCacheStats = handleCacheStats"
| "route ae t ctx (PostCachePurge d) = handleCachePurge d"
| "route ae t ctx PostCacheVacuum = handleCacheVacuum ae"
| "route ae t ctx (GetCacheEntries domain) = handleCacheEntries domain"
| "route ae t ctx GetSources = handleSourcesList"
| "route ae t ctx (PostSource d) = handleSourceCreate ae d"
| "route ae t ctx (GetSourceById i) = handleSourceGet i"
| "route ae t ctx (PutSource i d) = handleSourceUpdate ae i d"
| "route ae t ctx (DeleteSource i) = handleSourceDelete i"
| "route ae t ctx (PostSourceRefresh i) = handleSourceRefresh ae i"
| "route ae t ctx (PostSourceUpload uuid form) = handleSourceUpload uuid form"
| "route ae t ctx PostSourceFetch = handleSourceFetchLegacy ae"
| "route ae t ctx (GetExport policy typ) = handleExportDownload policy typ"
| "route ae t ctx GetConfigExport = handleConfigExport ae"
| "route ae t ctx (PostConfigImport d) = handleConfigImport ae d"
| "route ae t ctx GetPolicies = handlePoliciesList"
| "route ae t ctx (GetPolicy name) = handlePolicyGet name"
| "route ae t ctx (PostPolicy d) = handlePolicyCreate ae d"
| "route ae t ctx (PutPolicy name d) = handlePolicyUpdate ae name d"
| "route ae t ctx (DeletePolicy name) = handlePolicyDelete ae name"

definition serve :: "'k api_env \<Rightarrow> int \<Rightarrow> (nat \<Rightarrow> error option) \<Rightarrow> request \<Rightarrow> 'k server \<Rightarrow> reply \<times> 'k server" where
  "serve ae t ctx req s = recoverer (route ae t ctx req) s"

text \<open>Requests one after the other, each with its start time and its context.\<close>

fun serve_all :: "'k api_env \<Rightarrow> (int \<times> (nat \<Rightarrow> error option) \<times> request) list \<Rightarrow> 'k server \<Rightarrow> 'k server" where
  "serve_all ae [] s = s"
| "serve_all ae ((t, ctx, req) # reqs) s = serve_all ae reqs (snd (serve ae t ctx req s))"

end
