(* ===== verification/Sched.thy ===== *)
theory Sched
  imports Api
begin

text \<open>
  The scheduler (\<open>internal/scheduler/scheduler.go\<close>): its state machine with the cron instances it
  creates, and the run that a tick makes. The parser of cron expressions and the times of the ticks
  belong to the cron library; \<open>parse\<close> is the error of the parser on an expression. \<open>Stop\<close> has two
  parts, because it gives up the lock while it waits for the running jobs.
\<close>

section \<open>The state machine\<close>

text \<open>An instance of the cron library with the context of its ticks.\<close>

record cron_inst =
  ci_ticking :: bool
  ci_cancelled :: bool

record sched =
  sd_cronExpr :: string
  sd_running :: bool
  sd_cron :: "nat option"
  sd_crons :: "cron_inst list"

type_synonym cron_parser = "string \<Rightarrow> error option"

definition sched_New :: "cron_parser \<Rightarrow> bool \<Rightarrow> string \<Rightarrow> sched result" where
  "sched_New parse has_orch cronExpr =
     (if \<not> has_orch then Inl ''scheduler: orchestrator cannot be nil''
      else if cronExpr = [] then Inl ''scheduler: cron expression cannot be empty''
      else case parse cronExpr of
        Some e \<Rightarrow> Inl (''scheduler: invalid cron expression '' @ cronExpr @ '': '' @ e)
      | None \<Rightarrow> Inr \<lparr> sd_cronExpr = cronExpr, sd_running = False, sd_cron = None, sd_crons = [] \<rparr>)"

text \<open>The new instance replaces the old one before the job is added to it.\<close>

definition sched_Start :: "cron_parser \<Rightarrow> sched \<Rightarrow> error option \<times> sched" where
  "sched_Start parse s =
     (if sd_running s then (Some ''scheduler: already running'', s)
      else
        let i = length (sd_crons s); s1 = s\<lparr> sd_cron := Some i \<rparr> in
        case parse (sd_cronExpr s) of
          Some e \<Rightarrow> (Some (''scheduler: failed to schedule cron job: '' @ e),
            s1\<lparr> sd_crons := sd_crons s @ [\<lparr> ci_ticking = False, ci_cancelled = True \<rparr>] \<rparr>)
        | None \<Rightarrow> (None, s1\<lparr> sd_running := True, sd_crons := sd_crons s @ [\<lparr> ci_ticking = True, ci_cancelled = False \<rparr>] \<rparr>))"

definition stop_cron :: "nat \<Rightarrow> cron_inst list \<Rightarrow> cron_inst list" where
  "stop_cron i cs = cs[i := \<lparr> ci_ticking = False, ci_cancelled = True \<rparr>]"

text \<open>The first part says whether the second one follows.\<close>

definition stop_begin :: "sched \<Rightarrow> bool \<times> sched" where
  "stop_begin s =
     (if \<not> sd_running s then (False, s)
      else (True, case sd_cron s of None \<Rightarrow> s | Some i \<Rightarrow> s\<lparr> sd_crons := stop_cron i (sd_crons s) \<rparr>))"

definition stop_end :: "sched \<Rightarrow> sched" where
  "stop_end s = s\<lparr> sd_running := False \<rparr>"

definition sched_Stop :: "sched \<Rightarrow> sched" where
  "sched_Stop s = (case stop_begin s of (waits, s1) \<Rightarrow> if waits then stop_end s1 else s1)"

section \<open>A tick\<close>

datatype tick_log = TickSkipped "64 word" | TickFailed "64 word" | TickCompleted PipelineReport

definition tick_request :: PipelineRequest where
  "tick_request = \<lparr> pq_DryRun = False, pq_ForceResolve = False, pq_SkipRouting = False \<rparr>"

definition runPipeline :: "'k agents \<Rightarrow> int \<Rightarrow> (nat \<Rightarrow> error option) \<Rightarrow> orch \<Rightarrow> 'k world \<Rightarrow> tick_log run \<times> orch \<times> 'k world" where
  "runPipeline ag started ctx st w =
     (case Run ag started tick_request ctx st w of
        (Panics e, st', w') \<Rightarrow> (Panics e, st', w')
      | (Returns (report, Some e), st', w') \<Rightarrow>
          (Returns (if errors_Is (run_go_error e) go_ErrBusy then TickSkipped (rp_RunID report) else TickFailed (rp_RunID report)), st', w')
      | (Returns (report, None), st', w') \<Rightarrow> (Returns (TickCompleted report), st', w'))"

section \<open>Callers one after the other\<close>

datatype sched_op = OpStart | OpStop

fun sched_exec :: "cron_parser \<Rightarrow> sched_op \<Rightarrow> sched \<Rightarrow> sched" where
  "sched_exec parse OpStart s = snd (sched_Start parse s)"
| "sched_exec parse OpStop s = sched_Stop s"

text \<open>Every instance but the current one is stopped, and the current one ticks while the scheduler runs.\<close>

definition sched_ok :: "sched \<Rightarrow> bool" where
  "sched_ok s \<longleftrightarrow>
     (if sd_running s then \<exists>i. sd_cron s = Some i \<and> Suc i = length (sd_crons s) \<and>
        sd_crons s ! i = \<lparr> ci_ticking = True, ci_cancelled = False \<rparr> \<and> list_all (\<lambda>c. \<not> ci_ticking c \<and> ci_cancelled c) (take i (sd_crons s))
      else list_all (\<lambda>c. \<not> ci_ticking c \<and> ci_cancelled c) (sd_crons s))"

definition ticking :: "sched \<Rightarrow> nat" where
  "ticking s = length (filter ci_ticking (sd_crons s))"

lemma split_last_cron: "Suc i = length cs \<Longrightarrow> cs = take i cs @ [cs ! i]"
  by (metis lessI take_Suc_conv_app_nth take_all_iff order_refl)

lemma start_ok: "sched_ok s \<Longrightarrow> sched_ok (snd (sched_Start parse s))"
  by (auto simp: sched_ok_def sched_Start_def Let_def split: option.split)

lemma stop_ok: "sched_ok s \<Longrightarrow> sched_ok (sched_Stop s) \<and> \<not> sd_running (sched_Stop s)"
proof (cases "sd_running s")
  case True
  assume "sched_ok s"
  with True obtain i where i: "sd_cron s = Some i" "Suc i = length (sd_crons s)"
      "list_all (\<lambda>c. \<not> ci_ticking c \<and> ci_cancelled c) (take i (sd_crons s))"
    by (auto simp: sched_ok_def)
  have "stop_cron i (sd_crons s) = take i (sd_crons s) @ [\<lparr> ci_ticking = False, ci_cancelled = True \<rparr>]"
    using i(2) by (subst split_last_cron [OF i(2)]) (simp add: stop_cron_def list_update_append)
  with True i show ?thesis by (simp add: sched_ok_def sched_Stop_def stop_begin_def stop_end_def)
qed (simp add: sched_Stop_def stop_begin_def)

lemma ticking_ok:
  assumes "sched_ok s"
  shows "ticking s = (if sd_running s then 1 else 0)"
proof (cases "sd_running s")
  case True
  with assms obtain i where i: "Suc i = length (sd_crons s)" "sd_crons s ! i = \<lparr> ci_ticking = True, ci_cancelled = False \<rparr>"
      "list_all (\<lambda>c. \<not> ci_ticking c \<and> ci_cancelled c) (take i (sd_crons s))"
    by (auto simp: sched_ok_def)
  have "filter ci_ticking (take i (sd_crons s)) = []" using i(3) by (auto simp: filter_empty_conv list_all_iff)
  with True i(2) show ?thesis unfolding ticking_def by (subst split_last_cron [OF i(1)]) simp
next
  case False
  with assms show ?thesis by (auto simp: sched_ok_def ticking_def filter_empty_conv list_all_iff)
qed

text \<open>
  C39: however \<open>Start\<close> and \<open>Stop\<close> are called one after the other, the scheduler has exactly one ticking cron
  instance while it runs and none while it does not; a \<open>Start\<close> while it runs is refused and
  changes nothing, a \<open>Start\<close> after a \<open>Stop\<close> works, and after a \<open>Stop\<close> it does not run.
\<close>

theorem one_cron_ticks:
  assumes "sched_New parse has_orch expr = Inr s0" and "s = fold (sched_exec parse) ops s0"
  shows "ticking s = (if sd_running s then 1 else 0) \<and>
    sched_Start parse s = (if sd_running s then (Some ''scheduler: already running'', s) else (None, snd (sched_Start parse s))) \<and>
    sd_running (snd (sched_Start parse s)) \<and> \<not> sd_running (sched_Stop s) \<and> ticking (sched_Stop s) = 0"
proof -
  have s0: "sched_ok s0" "sd_cronExpr s0 = expr" "parse expr = None"
    using assms(1) by (auto simp: sched_New_def sched_ok_def split: if_splits option.splits)
  have "sched_ok (fold (sched_exec parse) ops s0) \<and> sd_cronExpr (fold (sched_exec parse) ops s0) = expr"
    using s0(1,2)
  proof (induction ops arbitrary: s0)
    case (Cons x ops)
    have "sched_ok (sched_exec parse x s0)" using start_ok stop_ok Cons.prems(1) by (cases x) auto
    moreover have "sd_cronExpr (sched_exec parse x s0) = expr"
      using Cons.prems(2) by (cases x) (auto simp: sched_Start_def sched_Stop_def stop_begin_def stop_end_def Let_def split: option.split)
    ultimately show ?case using Cons.IH by simp
  qed simp
  then have s: "sched_ok s" "parse (sd_cronExpr s) = None" using assms(2) s0(3) by simp_all
  then show ?thesis
    using ticking_ok [OF s(1)] stop_ok [OF s(1)] ticking_ok [of "sched_Stop s"] by (simp add: sched_Start_def Let_def)
qed

section \<open>Concurrent callers\<close>

text \<open>The scheduler with the number of callers that wait in \<open>Stop\<close>.\<close>

inductive sched_step :: "cron_parser \<Rightarrow> sched \<times> nat \<Rightarrow> sched \<times> nat \<Rightarrow> bool" for parse where
  start: "sched_Start parse s = (e, s') \<Longrightarrow> sched_step parse (s, n) (s', n)"
| stop_first: "stop_begin s = (waits, s') \<Longrightarrow> sched_step parse (s, n) (s', if waits then Suc n else n)"
| stop_second: "sched_step parse (s, Suc n) (stop_end s, n)"

inductive_simps sched_step_simps: "sched_step parse (s, n) (s', m)"

text \<open>
  two callers in \<open>Stop\<close> at the same time and a \<open>Start\<close> between their returns leave a scheduler that
  believes it is stopped while a cron instance ticks on; no later \<open>Stop\<close> has any effect on it, and a
  later \<open>Start\<close> makes two instances tick.
\<close>

theorem double_stop_leaks:
  assumes "sched_New parse has_orch expr = Inr s0"
  shows "\<exists>s. (sched_step parse)\<^sup>*\<^sup>* (s0, 0) (s, 0) \<and> \<not> sd_running s \<and> ticking s = 1 \<and> sched_Stop s = s \<and>
    ticking (snd (sched_Start parse s)) = 2"
proof -
  let ?off = "\<lparr> ci_ticking = False, ci_cancelled = True \<rparr>" and ?on = "\<lparr> ci_ticking = True, ci_cancelled = False \<rparr>"
  let ?st = "\<lambda>r i cs. \<lparr> sd_cronExpr = expr, sd_running = r, sd_cron = i, sd_crons = cs \<rparr>"
  have s0: "s0 = ?st False None []" "parse expr = None"
    using assms by (auto simp: sched_New_def split: if_splits option.splits)
  have "sched_step parse (s0, 0) (?st True (Some 0) [?on], 0)"
    "sched_step parse (?st True (Some 0) [?on], 0) (?st True (Some 0) [?off], 1)"
    "sched_step parse (?st True (Some 0) [?off], 1) (?st True (Some 0) [?off], 2)"
    "sched_step parse (?st True (Some 0) [?off], 2) (?st False (Some 0) [?off], 1)"
    "sched_step parse (?st False (Some 0) [?off], 1) (?st True (Some 1) [?off, ?on], 1)"
    "sched_step parse (?st True (Some 1) [?off, ?on], 1) (?st False (Some 1) [?off, ?on], 0)"
    by (auto simp: sched_step_simps s0 sched_Start_def stop_begin_def stop_end_def stop_cron_def intro: exI [of _ True])
  then have "(sched_step parse)\<^sup>*\<^sup>* (s0, 0) (?st False (Some 1) [?off, ?on], 0)"
    by (meson converse_rtranclp_into_rtranclp r_into_rtranclp)
  moreover have "ticking (?st False (Some 1) [?off, ?on]) = 1" "sched_Stop (?st False (Some 1) [?off, ?on]) = ?st False (Some 1) [?off, ?on]"
    "ticking (snd (sched_Start parse (?st False (Some 1) [?off, ?on]))) = 2"
    by (simp_all add: ticking_def sched_Stop_def stop_begin_def sched_Start_def s0(2))
  ultimately show ?thesis by (intro exI [of _ "?st False (Some 1) [?off, ?on]"]) simp
qed

text \<open>
  a tick that finds another run in progress is skipped and changes nothing, but the run it names as
  the blocking one is always number 0, because \<open>Run\<close> returns an empty report with \<open>ErrBusy\<close>.
\<close>

theorem busy_tick:
  assumes "or_running st"
  shows "runPipeline ag started ctx st w = (Returns (TickSkipped 0), st, w)"
  using assms by (simp add: runPipeline_def Run_def acquire_def empty_report_def new_report_def go_ErrBusy_def)

section \<open>Witnesses\<close>

theorem one_cron_ticks_witness:
  "\<exists>s0. sched_New (\<lambda>_. None) True ''@every 1h'' = Inr s0 \<and>
     ticking (fold (sched_exec (\<lambda>_. None)) [OpStart, OpStart, OpStop, OpStop, OpStart] s0) = 1"
proof -
  let ?s0 = "\<lparr> sd_cronExpr = ''@every 1h'', sd_running = False, sd_cron = None, sd_crons = [] \<rparr>"
    and ?ops = "[OpStart, OpStart, OpStop, OpStop, OpStart]"
  have new: "sched_New (\<lambda>_. None) True ''@every 1h'' = Inr ?s0" by (simp add: sched_New_def)
  have "sd_running (fold (sched_exec (\<lambda>_. None)) ?ops ?s0)" by code_simp
  with one_cron_ticks [OF new refl, of ?ops] have "ticking (fold (sched_exec (\<lambda>_. None)) ?ops ?s0) = 1" by presburger
  with new show ?thesis by (intro exI [of _ ?s0] conjI)
qed

theorem double_stop_leaks_witness:
  "\<exists>s. (sched_step (\<lambda>_. None))\<^sup>*\<^sup>* (\<lparr> sd_cronExpr = ''@every 1h'', sd_running = False, sd_cron = None, sd_crons = [] \<rparr>, 0) (s, 0) \<and>
     \<not> sd_running s \<and> ticking s = 1"
  using double_stop_leaks [of "\<lambda>_. None" True "''@every 1h''"] by (auto simp: sched_New_def)

theorem busy_tick_witness:
  "\<exists>st w'. or_running st \<and> rs_RunID (or_current st) = 7 \<and>
     runPipeline ex_agents 0 (\<lambda>_. None) st (ex_world []) = (Returns (TickSkipped 0), st, w')"
proof -
  let ?st = "orch_New\<lparr> or_running := True, or_current := \<lparr> rs_Running = True, rs_RunID = 7, rs_Started = 0, rs_Report = None \<rparr> \<rparr>"
  show ?thesis using busy_tick [of ?st ex_agents 0 "\<lambda>_. None" "ex_world []"] by (intro exI [of _ ?st]) simp
qed

end
