(* ===== verification/Api_Props.thy ===== *)
theory Api_Props
  imports Api
begin

text \<open>
  What the API guarantees: the configuration in force is always a valid one and its version only
  grows, the policy endpoints edit the list of policies as a list, and the settings endpoints store
  overrides before they are checked. Then the behaviour of the cache, pipeline, paging and download
  endpoints.
\<close>

section \<open>The configuration in force\<close>

text \<open>The watcher is open and well formed, and so is the bus, and the current configuration is valid.\<close>

definition srv_ok :: "'k server \<Rightarrow> bool" where
  "srv_ok s \<longleftrightarrow> watch_ok (sv_watcher s) \<and> \<not> wt_closed (sv_watcher s) \<and>
     (case sv_bus s of None \<Rightarrow> True | Some b \<Rightarrow> bus_ok b) \<and> Validate (current_config s) = []"

definition config_version :: "'k server \<Rightarrow> nat" where
  "config_version s = wt_version (sv_watcher s)"

text \<open>A step that leaves the server well formed and changes the configuration only with its version.\<close>

definition config_step :: "'k server \<Rightarrow> 'k server \<Rightarrow> bool" where
  "config_step s s' \<longleftrightarrow> (srv_ok s \<longrightarrow> srv_ok s' \<and> config_version s \<le> config_version s' \<and>
     (config_version s' = config_version s \<longrightarrow> current_config s' = current_config s))"

lemma config_step_same: "sv_watcher s' = sv_watcher s \<Longrightarrow> sv_bus s' = sv_bus s \<Longrightarrow> config_step s s'"
  by (simp add: config_step_def srv_ok_def config_version_def current_config_def)

lemma config_step_refl [simp]: "config_step s s"
  by (simp add: config_step_same)

lemma config_step_trans: "config_step s s1 \<Longrightarrow> config_step s1 s2 \<Longrightarrow> config_step s s2"
  by (auto simp: config_step_def)

lemma set_conn_fields [simp]:
  "sv_watcher (set_conn c s) = sv_watcher s" "sv_bus (set_conn c s) = sv_bus s" "sv_has_kv (set_conn c s) = sv_has_kv s"
  "sv_conn (set_conn c s) = c" "current_config (set_conn c s) = current_config s" "srv_ok (set_conn c s) = srv_ok s"
  "config_version (set_conn c s) = config_version s" "set_conn c (set_conn c' s) = set_conn c s"
  by (simp_all add: set_conn_def sv_conn_def current_config_def srv_ok_def config_version_def)

lemma set_reg_fields [simp]: "sv_watcher (set_reg r s) = sv_watcher s" "sv_bus (set_reg r s) = sv_bus s"
  by (simp_all add: set_reg_def)

lemma config_step_conn [simp]: "config_step (set_conn c s) s' = config_step s s'" "config_step s (set_conn c s') = config_step s s'"
  by (simp_all add: config_step_def)

lemma send_keeps_bus:
  assumes "bus_ok b"
  shows "\<exists>b'. bus_Publish t ev b = Returns b' \<and> bus_ok b'"
  using publish_delivers [OF assms, of t ev] by blast

definition obus_ok :: "'e bus option \<Rightarrow> bool" where
  "obus_ok bo \<longleftrightarrow> (case bo of None \<Rightarrow> True | Some b \<Rightarrow> bus_ok b)"

lemma publish_event_ok: "obus_ok bo \<Longrightarrow> \<exists>bo'. publish_event ev bo = Returns bo' \<and> obus_ok bo'"
  by (cases bo) (auto simp: obus_ok_def publish_event_def dest: send_keeps_bus [of _ "''config''" ev])

lemma emit_all_ok: "obus_ok bo \<Longrightarrow> \<exists>bo'. emit_all evs bo = Returns bo' \<and> obus_ok bo'"
proof (induction evs arbitrary: bo)
  case (Cons ev evs)
  show ?case
  proof (cases bo)
    case (Some b)
    with Cons.prems obtain b' where "bus_Publish ''pipeline'' (EvPipeline ev) b = Returns b'" "bus_ok b'"
      using send_keeps_bus by (fastforce simp: obus_ok_def)
    with Cons.IH [of "Some b'"] Some show ?thesis by (simp add: obus_ok_def)
  qed (simp add: obus_ok_def)
qed simp

lemma srv_ok_alt: "srv_ok s \<longleftrightarrow> watch_ok (sv_watcher s) \<and> \<not> wt_closed (sv_watcher s) \<and> obus_ok (sv_bus s) \<and> Validate (current_config s) = []"
  by (simp add: srv_ok_def obus_ok_def)

text \<open>A publication either is refused or brings the configuration into force; it never panics.\<close>

lemma sv_publish_ok:
  assumes "srv_ok s"
  shows "if Validate cfg = [] then \<exists>w bo. sv_publish cfg s = Returns (None, s\<lparr> sv_watcher := w, sv_bus := bo \<rparr>) \<and>
      srv_ok (s\<lparr> sv_watcher := w, sv_bus := bo \<rparr>) \<and> wt_version w = wt_version (sv_watcher s) + 1 \<and> sn_Config (wt_current w) = cfg
    else sv_publish cfg s = Returns (Some (join_with ''; '' (Validate cfg)), s)"
proof (cases "Validate cfg = []")
  case True
  obtain bo where bo: "publish_event EvReload (sv_bus s) = Returns bo" "obus_ok bo"
    using publish_event_ok [of "sv_bus s" EvReload] assms by (auto simp: srv_ok_alt)
  have w: "watch_ok (sv_watcher s)" "\<not> wt_closed (sv_watcher s)" using assms by (simp_all add: srv_ok_alt)
  obtain w' where w': "wt_Publish EvReload cfg (sv_watcher s) (sv_bus s) = Returns (None, w', bo)" "watch_ok w'"
      "wt_current w' = \<lparr> sn_Version = wt_version (sv_watcher s) + 1, sn_Config = cfg \<rparr>"
      "wt_version w' = wt_version (sv_watcher s) + 1" "wt_closed w' = wt_closed (sv_watcher s)"
    using Publish_returns [OF w(1) True w(2) bo(1)] by blast
  then have "srv_ok (s\<lparr> sv_watcher := w', sv_bus := bo \<rparr>)"
    using True w(2) bo(2) by (simp add: srv_ok_alt current_config_def wt_Current_def)
  moreover have "sv_publish cfg s = Returns (None, s\<lparr> sv_watcher := w', sv_bus := bo \<rparr>)" by (simp add: sv_publish_def w'(1))
  moreover have "sn_Config (wt_current w') = cfg" by (simp add: w'(3))
  ultimately show ?thesis unfolding if_P [OF True] using w'(4) by blast
qed (simp add: sv_publish_def wt_Publish_def)

lemma sv_publish_step: "sv_publish cfg s = Returns (e, s') \<Longrightarrow> config_step s s'"
  using sv_publish_ok [of s cfg] by (auto simp: config_step_def config_version_def split: if_splits)

section \<open>Every handler\<close>

lemma jsonOK_step: "jsonOK v s = Returns (r, s') \<Longrightarrow> s' = s"
  and jsonError_step: "jsonError code msg s = Returns (r, s') \<Longrightarrow> s' = s"
  by (simp_all add: jsonOK_def jsonError_def)

lemma persist_step: "persistPolicies ae cfg s = (e, s') \<Longrightarrow> config_step s s'"
  by (auto simp: persistPolicies_def split: if_splits sum.splits prod.splits)

lemma publish_policies_step: "publish_policies ae cfg s = Returns (r, s') \<Longrightarrow> config_step s s'"
proof -
  assume p: "publish_policies ae cfg s = Returns (r, s')"
  then obtain e s1 where s1: "sv_publish cfg s = Returns (e, s1)" by (auto simp: publish_policies_def split: run.splits prod.splits)
  have "config_step s1 (snd (persistPolicies ae cfg s1))" by (rule persist_step [OF prod.collapse [symmetric]])
  from config_step_trans [OF sv_publish_step [OF s1] this] sv_publish_step [OF s1] p s1 show ?thesis
    by (auto simp: publish_policies_def jsonOK_def jsonError_def split: option.splits)
qed

lemma reload_step: "reloadConfig ae s = Returns (e, s') \<Longrightarrow> config_step s s'"
  by (auto simp: reloadConfig_def Let_def dest: sv_publish_step split: if_splits prod.splits sum.splits option.splits)

lemma put_step: "put_overrides ae kv ok s = Returns (r, s') \<Longrightarrow> config_step s s'"
  by (auto simp: put_overrides_def jsonOK_def jsonError_def dest!: reload_step split: if_splits prod.splits option.splits run.splits)

lemma emit_step:
  assumes "emit_all evs (sv_bus s) = Returns bo" and "sv_watcher s' = sv_watcher s" and "sv_bus s' = bo"
  shows "config_step s s'"
  using emit_all_ok [of "sv_bus s" evs] assms by (auto simp: config_step_def srv_ok_alt config_version_def current_config_def)

lemma pipeline_run_step: "handlePipelineRun ae t ctx req s = Returns (r, s') \<Longrightarrow> config_step s s'"
  by (auto simp: handlePipelineRun_def Let_def jsonOK_def jsonError_def intro: config_step_same emit_step
      split: option.splits prod.splits run.splits if_splits)

lemmas handler_defs = handleHealth_def handleReady_def handleVersion_def handlePoliciesList_def handlePolicyGet_def
  handleSettingsGet_def handleConfigExport_def
  handleSourcesList_def handleSourceGet_def add_source_def handleSourceCreate_def handleSourceUpdate_def handleSourceDelete_def
  handleSourceRefresh_def handleSourceUpload_def handleSourceFetchLegacy_def handleCategoriesList_def handleCategoryDomains_def
  handlePipelineStatus_def handlePipelineHistory_def handlePipelineCancel_def handleRoutingDryRun_def handleRoutingRollback_def
  handleRoutingSnapshot_def handleExportDownload_def handleCacheStats_def handleCachePurge_def handleCacheVacuum_def handleCacheEntries_def

lemma policy_handlers_step:
  "handlePolicyCreate ae d s = Returns (r, s') \<Longrightarrow> config_step s s'"
  "handlePolicyUpdate ae name d s = Returns (r, s') \<Longrightarrow> config_step s s'"
  "handlePolicyDelete ae name s = Returns (r, s') \<Longrightarrow> config_step s s'"
  by (auto simp: handlePolicyCreate_def handlePolicyUpdate_def handlePolicyDelete_def Let_def jsonError_def
      dest: publish_policies_step split: sum.splits if_splits option.splits)

lemma settings_handlers_step:
  "handleSettingsPut ae d s = Returns (r, s') \<Longrightarrow> config_step s s'"
  "handleConfigImport ae d s = Returns (r, s') \<Longrightarrow> config_step s s'"
  "handleSettingsDelete ae key s = Returns (r, s') \<Longrightarrow> config_step s s'"
  by (auto simp: handleSettingsPut_def handleConfigImport_def handleSettingsDelete_def jsonError_def jsonOK_def
      dest: put_step dest!: reload_step split: sum.splits if_splits prod.splits option.splits run.splits)

lemma route_step: "route ae t ctx req s = Returns (r, s') \<Longrightarrow> config_step s s'"
  by (cases req; simp; (erule pipeline_run_step policy_handlers_step settings_handlers_step)?)
    (auto simp: handler_defs jsonOK_def jsonError_def Let_def intro!: config_step_same
      split: if_splits option.splits sum.splits prod.splits run.splits list.splits upload.splits)

lemma serve_step: "config_step s (snd (serve ae t ctx req s))"
  by (cases "route ae t ctx req s"; (cases "projReturns (route ae t ctx req s)")?) (auto simp: serve_def recoverer_def dest: route_step)

lemma serve_all_step: "config_step s (serve_all ae reqs s)"
  by (induction ae reqs s rule: serve_all.induct) (auto intro: config_step_trans serve_step)

text \<open>
  whatever requests are served, in whatever order and whether they succeed, fail or panic, a server
  started with a valid configuration has a valid configuration in force, its watcher and its event
  bus are well formed, and the version is that of the current snapshot.
\<close>

theorem api_config_valid:
  assumes "Validate cfg = []"
  shows "let s = serve_all ae reqs (api_New orc (NewWatcher cfg n) kv cache (Some NewBus) reg w) in
    Validate (current_config s) = [] \<and> watch_ok (sv_watcher s) \<and> (case sv_bus s of None \<Rightarrow> True | Some b \<Rightarrow> bus_ok b) \<and>
    1 \<le> wt_version (sv_watcher s) \<and> (wt_version (sv_watcher s) = 1 \<longrightarrow> current_config s = cfg)"
proof -
  let ?s = "api_New orc (NewWatcher cfg n) kv cache (Some NewBus) reg w"
  have "srv_ok ?s" "current_config ?s = cfg" "config_version ?s = 1"
    using assms watch_ok_new [of cfg n]
    by (simp_all add: srv_ok_def api_New_def current_config_def wt_Current_def NewWatcher_def NewBus_def bus_ok_def config_version_def)
  then have "srv_ok (serve_all ae reqs ?s)" "1 \<le> config_version (serve_all ae reqs ?s)"
      "config_version (serve_all ae reqs ?s) = 1 \<longrightarrow> current_config (serve_all ae reqs ?s) = cfg"
    using serve_all_step [of ?s ae reqs] by (simp_all add: config_step_def)
  then show ?thesis by (simp add: Let_def srv_ok_def config_version_def)
qed

section \<open>The policies\<close>

text \<open>
  What the policy endpoints promise, on the list of policies alone: a new list, or the status of the
  refusal.
\<close>

fun policy_spec :: "request \<Rightarrow> PolicyConfig list \<Rightarrow> nat + PolicyConfig list" where
  "policy_spec (PostPolicy (Inr p)) ps =
     (if list_ex (\<lambda>q. EqualFold (pol_Name q) (pol_Name p)) ps then Inl 409 else Inr (ps @ [p]))"
| "policy_spec (PutPolicy name (Inr p)) ps =
     (if pol_Name p \<noteq> name then Inl 400 else if name \<notin> pol_Name ` set ps then Inl 404
      else Inr (map (\<lambda>q. if pol_Name q = name then p else q) ps))"
| "policy_spec (DeletePolicy name) ps =
     (if name \<notin> pol_Name ` set ps then Inl 404 else Inr (filter (\<lambda>q. pol_Name q \<noteq> name) ps))"
| "policy_spec req ps = Inl 400"

definition policy_edit :: "request \<Rightarrow> bool" where
  "policy_edit req \<longleftrightarrow> (case req of PostPolicy _ \<Rightarrow> True | PutPolicy _ _ \<Rightarrow> True | DeletePolicy _ \<Rightarrow> True | _ \<Rightarrow> False)"

lemma replace_first_map:
  "distinct (map pol_Name ps) \<Longrightarrow> replace_first name p ps =
     (if name \<in> pol_Name ` set ps then Some (map (\<lambda>q. if pol_Name q = name then p else q) ps) else None)"
proof (induction ps)
  case (Cons q ps)
  have "map (\<lambda>q. if pol_Name q = n then p else q) ps = ps" if "n \<notin> pol_Name ` set ps" for n
    using that by (intro map_idI) (metis image_eqI)
  with Cons show ?case by auto
qed simp

lemma delete_first_filter:
  "distinct (map pol_Name ps) \<Longrightarrow> delete_first name ps =
     (if name \<in> pol_Name ` set ps then Some (filter (\<lambda>q. pol_Name q \<noteq> name) ps) else None)"
proof (induction ps)
  case (Cons q ps)
  have "filter (\<lambda>q. pol_Name q \<noteq> n) ps = ps" if "n \<notin> pol_Name ` set ps" for n
    using that by (intro filter_True) (metis image_eqI)
  with Cons show ?case by auto
qed simp

lemma set_policies_same [simp]: "set_policies (rt_Policies (Routing c)) c = c" "rt_Policies (Routing (set_policies ps c)) = ps"
  by (simp_all add: set_policies_def)

lemma publish_policies_ok:
  assumes "srv_ok s"
  shows "\<exists>r s'. publish_policies ae cfg s = Returns (r, s') \<and> srv_ok s' \<and>
    (if Validate cfg = [] then status_of r = 200 \<and> current_config s' = cfg \<and> config_version s' = config_version s + 1
     else status_of r = 500 \<and> current_config s' = current_config s \<and> config_version s' = config_version s)"
proof (cases "Validate cfg = []")
  case True
  obtain w bo where w: "sv_publish cfg s = Returns (None, s\<lparr> sv_watcher := w, sv_bus := bo \<rparr>)"
      "srv_ok (s\<lparr> sv_watcher := w, sv_bus := bo \<rparr>)" "wt_version w = wt_version (sv_watcher s) + 1" "sn_Config (wt_current w) = cfg"
    using sv_publish_ok [OF assms, of cfg] True by auto
  let ?s = "s\<lparr> sv_watcher := w, sv_bus := bo \<rparr>"
  have "\<exists>c. snd (persistPolicies ae cfg ?s) = ?s \<or> snd (persistPolicies ae cfg ?s) = set_conn c ?s"
    by (auto simp: persistPolicies_def split: sum.splits prod.splits)
  moreover have "current_config ?s = cfg" "config_version ?s = config_version s + 1"
    using w(3,4) by (simp_all add: current_config_def wt_Current_def config_version_def)
  ultimately have "srv_ok (snd (persistPolicies ae cfg ?s)) \<and> current_config (snd (persistPolicies ae cfg ?s)) = cfg \<and>
      config_version (snd (persistPolicies ae cfg ?s)) = config_version s + 1"
    using w(2) by auto
  with True w(1) show ?thesis by (simp add: publish_policies_def jsonOK_def)
next
  case False
  then show ?thesis using sv_publish_ok [OF assms, of cfg] assms by (simp add: publish_policies_def jsonError_def)
qed

lemma srv_ok_distinct: "srv_ok s \<Longrightarrow> distinct (map pol_Name (policies_of s))"
  using Validate_parts [of "current_config s"]
  by (auto simp: srv_ok_def policies_of_def validatePolicies_def validatePolicies_loop_Nil)

lemma route_policy:
  assumes "srv_ok s" and "policy_edit req"
  shows "\<exists>msg. route ae t ctx req s = (case policy_spec req (policies_of s) of
    Inl code \<Rightarrow> jsonError code msg s | Inr ps \<Rightarrow> publish_policies ae (set_policies ps (current_config s)) s)"
proof (cases req)
  case (PostPolicy x)
  then show ?thesis by (cases x) (auto simp: handlePolicyCreate_def policies_of_def Let_def)
next
  case (PutPolicy name x)
  then show ?thesis
    using srv_ok_distinct [OF assms(1)] by (cases x) (auto simp: handlePolicyUpdate_def policies_of_def Let_def replace_first_map)
next
  case (DeletePolicy name)
  then show ?thesis
    using srv_ok_distinct [OF assms(1)] by (auto simp: handlePolicyDelete_def policies_of_def Let_def delete_first_filter)
qed (use assms(2) in \<open>simp_all add: policy_edit_def\<close>)


section \<open>The settings\<close>

lemma kv_Set_healthy:
  assumes "healthy c" and "cache_wf (cn_db c)"
  shows "\<exists>c'. kv_Set k v c = (Inr (), c') \<and> healthy c' \<and> cache_wf (cn_db c') \<and> kv_view c' = (kv_view c)(k \<mapsto> v)"
proof -
  obtain d where d: "upsert_kv k v (cn_db c) = Inr ((), d)" by (simp add: upsert_kv_def)
  obtain c' where c': "exec 2 (upsert_kv k v) c = (Inr (), c')" "healthy c'"
    using exec_healthy [of c 2 "upsert_kv k v" "()" d] assms(1) d by (auto simp: maxRowsPerTx_def)
  then have "kv_Set k v c = (Inr (), c')" by (simp add: kv_Set_def)
  with kv_run_ok [of c "KvSet k v" c'] assms(2) c'(2) show ?thesis by simp
qed

lemma kv_Delete_healthy:
  assumes "healthy c" and "cache_wf (cn_db c)"
  shows "\<exists>c'. kv_Delete k c = (Inr (), c') \<and> healthy c' \<and> cache_wf (cn_db c') \<and> kv_view c' = (kv_view c)(k := None)"
proof -
  obtain d where d: "delete_kv k (cn_db c) = Inr ((), d)" by (simp add: delete_kv_def)
  obtain c' where c': "exec 1 (delete_kv k) c = (Inr (), c')" "healthy c'"
    using exec_healthy [of c 1 "delete_kv k" "()" d] assms(1) d by (auto simp: maxRowsPerTx_def)
  then have "kv_Delete k c = (Inr (), c')" by (simp add: kv_Delete_def)
  with kv_run_ok [of c "KvDel k" c'] assms(2) c'(2) show ?thesis by simp
qed

lemma set_all_healthy:
  assumes "healthy c" and "cache_wf (cn_db c)"
  shows "\<exists>c'. set_all kv c = (None, c') \<and> healthy c' \<and> cache_wf (cn_db c') \<and>
    kv_view c' = fold (\<lambda>(k, v) m. m(k \<mapsto> v)) kv (kv_view c)"
  using assms
proof (induction kv arbitrary: c)
  case (Cons p kv)
  obtain k v where p: "p = (k, v)" by (rule prod.exhaust)
  obtain c1 where "kv_Set k v c = (Inr (), c1)" "healthy c1" "cache_wf (cn_db c1)" "kv_view c1 = (kv_view c)(k \<mapsto> v)"
    using kv_Set_healthy [OF Cons.prems] by blast
  with Cons.IH [of c1] show ?case by (simp add: p)
qed simp

text \<open>The rows that a reload reads: those of the table, in an order of the map.\<close>

definition fair_order :: "'k api_env \<Rightarrow> bool" where
  "fair_order ae \<longleftrightarrow> (\<forall>xs. mset (ag_order (ae_agents ae) xs) = mset xs)"

lemma all_overrides_healthy:
  assumes "healthy c" and "cache_wf (cn_db c)" and "fair_order ae"
  shows "\<exists>rows c'. all_overrides ae c = (Inr rows, c') \<and> healthy c' \<and> cn_db c' = cn_db c \<and>
    distinct (map fst rows) \<and> (\<forall>k v. (k, v) \<in> set rows \<longleftrightarrow> kv_view c k = Some v)"
proof -
  have "distinct (map fst (tb_kv (cn_db c)))" using assms(2) by (simp add: cache_wf_def)
  obtain c' where c': "query 0 tb_kv c = (Inr (tb_kv (cn_db c), False), c')" "healthy c'" "cn_db c' = cn_db c"
    using query_healthy [OF assms(1), of 0 tb_kv] by auto
  then have g: "GetAll c = (Inr (kv_view c), c')"
    using \<open>distinct _\<close> by (simp add: GetAll_def kv_view_def fold_kv)
  define ks where "ks = filter (\<lambda>k. kv_view c k \<noteq> None) (remdups (map fst (tb_kv (cn_db c))))"
  have perm: "mset (ag_order (ae_agents ae) ks) = mset ks" using assms(3) unfolding fair_order_def by blast
  have "distinct ks" by (simp add: ks_def)
  then have order: "set (ag_order (ae_agents ae) ks) = set ks" "distinct (ag_order (ae_agents ae) ks)"
    using mset_eq_setD [OF perm] mset_eq_imp_distinct_iff [OF perm] by simp_all
  have "k \<in> set ks \<longleftrightarrow> kv_view c k \<noteq> None" for k
    unfolding ks_def kv_view_def set_filter set_remdups by (auto simp: map_of_eq_None_iff image_iff dest: map_of_SomeD)
  with order(1) have "(k, v) \<in> set (map (\<lambda>k. (k, the (kv_view c k))) (ag_order (ae_agents ae) ks)) \<longleftrightarrow> kv_view c k = Some v" for k v
    by auto
  moreover have "map fst (map (\<lambda>k. (k, the (kv_view c k))) (ag_order (ae_agents ae) ks)) = ag_order (ae_agents ae) ks"
    by (simp add: comp_def)
  moreover have "all_overrides ae c = (Inr (map (\<lambda>k. (k, the (kv_view c k))) (ag_order (ae_agents ae) ks)), c')"
    by (simp add: all_overrides_def g c'(3) ks_def)
  ultimately show ?thesis using c'(2,3) order(2) by (metis (no_types, lifting))
qed

text \<open>A stored row that cannot be parsed fails every reload.\<close>

definition bad_row :: "'k api_env \<Rightarrow> string \<Rightarrow> string \<Rightarrow> bool" where
  "bad_row ae key raw \<longleftrightarrow> applies (ae_config ae) (key, raw) \<and> isl (coerceKVValue (ae_config ae) (row_key (key, raw)) raw)"

lemma reload_poisoned:
  assumes "sv_has_kv s" and "healthy (sv_conn s)" and "cache_wf (cn_db (sv_conn s))" and "fair_order ae"
    and "kv_view (sv_conn s) key = Some raw" and "bad_row ae key raw"
  shows "\<exists>e c. reloadConfig ae s = Returns (Some e, set_conn c s) \<and> healthy c \<and> cn_db c = cn_db (sv_conn s)"
proof -
  obtain rows c where rows: "all_overrides ae (sv_conn s) = (Inr rows, c)" "healthy c" "cn_db c = cn_db (sv_conn s)"
      "(key, raw) \<in> set rows"
    using all_overrides_healthy [OF assms(2-4)] assms(5) by blast
  then have "rows \<noteq> []" "\<not> well_formed_rows (ae_config ae) rows"
    using assms(6) by (auto simp: bad_row_def well_formed_rows_def list_all_iff)
  then obtain e where "ApplyOverrides (ae_config ae) (Some (current_config s)) rows = Inl e"
    using applyKV_error [of "ae_config ae" rows "applyDefaultsToViper (current_config s) @ seedViperFromConfig (current_config s)"]
    by (auto simp: ApplyOverrides_def)
  with assms(1) rows(1-3) show ?thesis by (auto simp: reloadConfig_def)
qed

lemma put_poisoned:
  assumes "sv_has_kv s" and "healthy (sv_conn s)" and "cache_wf (cn_db (sv_conn s))" and "fair_order ae"
    and "fold (\<lambda>(k, v) m. m(k \<mapsto> v)) kv (kv_view (sv_conn s)) key = Some raw" and "bad_row ae key raw"
  shows "\<exists>e c. put_overrides ae kv ok s = Returns (Reply 500 (BError e), set_conn c s) \<and> healthy c \<and>
    cache_wf (cn_db c) \<and> kv_view c = fold (\<lambda>(k, v) m. m(k \<mapsto> v)) kv (kv_view (sv_conn s))"
proof -
  obtain c1 where c1: "set_all kv (sv_conn s) = (None, c1)" "healthy c1" "cache_wf (cn_db c1)"
      "kv_view c1 = fold (\<lambda>(k, v) m. m(k \<mapsto> v)) kv (kv_view (sv_conn s))"
    using set_all_healthy [OF assms(2,3)] by blast
  obtain e c where "reloadConfig ae (set_conn c1 s) = Returns (Some e, set_conn c (set_conn c1 s))" "healthy c" "cn_db c = cn_db c1"
    using reload_poisoned [of "set_conn c1 s" ae key raw] assms c1 by auto
  with c1 assms(1) show ?thesis by (auto simp: put_overrides_def jsonError_def kv_view_def)
qed

lemma fold_upd_other: "key \<notin> fst ` set kv \<Longrightarrow> fold (\<lambda>(k, v) m. m(k \<mapsto> v)) kv m key = m key"
  by (induction kv arbitrary: m) auto

text \<open>
  a PUT of one setting whose value cannot be parsed is answered with 500, but the row is already in
  the database; from then on a PUT of any other settings is answered with 500 too, however valid
  they are, and the configuration stays as it was, until that row is overwritten or deleted.
\<close>

theorem settings_put_poison:
  assumes "srv_ok s" and "sv_has_kv s" and "healthy (sv_conn s)" and "cache_wf (cn_db (sv_conn s))" and "fair_order ae"
    and "bad_row ae key raw"
  shows "case serve ae t ctx (PutSettings (Inr [(key, raw)])) s of (r1, s1) \<Rightarrow>
    status_of r1 = 500 \<and> current_config s1 = current_config s \<and> kv_view (sv_conn s1) = (kv_view (sv_conn s))(key \<mapsto> raw) \<and>
    (\<forall>kv. key \<notin> fst ` set kv \<longrightarrow> (case serve ae t ctx (PutSettings (Inr kv)) s1 of (r2, s2) \<Rightarrow>
       status_of r2 = 500 \<and> current_config s2 = current_config s \<and>
       kv_view (sv_conn s2) = fold (\<lambda>(k, v) m. m(k \<mapsto> v)) kv (kv_view (sv_conn s1))))"
proof -
  have step: "\<exists>e c'. serve ae t ctx (PutSettings (Inr kv)) (set_conn c s) = (Reply 500 (BError e), set_conn c' s) \<and> healthy c' \<and>
      cache_wf (cn_db c') \<and> kv_view c' = fold (\<lambda>(k, v) m. m(k \<mapsto> v)) kv (kv_view c)"
    if "healthy c" "cache_wf (cn_db c)" "fold (\<lambda>(k, v) m. m(k \<mapsto> v)) kv (kv_view c) key = Some raw" for kv c
    using put_poisoned [of "set_conn c s" ae kv key raw BOk] assms(2,5,6) that
    by (auto simp: serve_def recoverer_def handleSettingsPut_def)
  have conn: "set_conn (sv_conn s) s = s" by (simp add: set_conn_def sv_conn_def)
  obtain e1 c1 where c1: "serve ae t ctx (PutSettings (Inr [(key, raw)])) s = (Reply 500 (BError e1), set_conn c1 s)" "healthy c1"
      "cache_wf (cn_db c1)" "kv_view c1 = (kv_view (sv_conn s))(key \<mapsto> raw)"
    using step [of "sv_conn s" "[(key, raw)]"] assms(3,4) by (auto simp: conn)
  have "case serve ae t ctx (PutSettings (Inr kv)) (set_conn c1 s) of (r2, s2) \<Rightarrow>
       status_of r2 = 500 \<and> current_config s2 = current_config s \<and>
       kv_view (sv_conn s2) = fold (\<lambda>(k, v) m. m(k \<mapsto> v)) kv (kv_view c1)" if "key \<notin> fst ` set kv" for kv
    using step [of c1 kv] c1(2-4) fold_upd_other [OF that] by auto
  with c1 show ?thesis by simp
qed

lemma published_fields:
  "sv_conn (s\<lparr> sv_watcher := w, sv_bus := bo \<rparr>) = sv_conn s"
  "current_config (s\<lparr> sv_watcher := w, sv_bus := bo \<rparr>) = sn_Config (wt_current w)"
  by (simp_all add: sv_conn_def current_config_def wt_Current_def)

text \<open>
  an override that is set and then deleted again stays in force: both requests are answered with
  200 and the table is empty afterwards, but the configuration is the one with the override, because
  a reload starts from the configuration in force and not from the file.
\<close>

theorem settings_delete_keeps:
  assumes "srv_ok s" and "sv_has_kv s" and "healthy (sv_conn s)" and "cache_wf (cn_db (sv_conn s))" and "fair_order ae"
    and "kv_view (sv_conn s) = Map.empty" and "key \<noteq> []"
    and "ApplyOverrides (ae_config ae) (Some (current_config s)) [(key, raw)] = Inr (Some cfg)" and "Validate cfg = []"
  shows "case serve ae t ctx (PutSettings (Inr [(key, raw)])) s of (r1, s1) \<Rightarrow>
    (case serve ae t ctx (DeleteSetting key) s1 of (r2, s2) \<Rightarrow>
      status_of r1 = 200 \<and> current_config s1 = cfg \<and> status_of r2 = 200 \<and> current_config s2 = cfg \<and>
      kv_view (sv_conn s1) = [key \<mapsto> raw] \<and> kv_view (sv_conn s2) = Map.empty)"
proof -
  have reload: "\<exists>s'. reloadConfig ae (set_conn c u) = Returns (None, s') \<and> srv_ok s' \<and> current_config s' = nxt \<and>
      sv_has_kv s' \<and> healthy (sv_conn s') \<and> cn_db (sv_conn s') = cn_db c"
    if u: "srv_ok u" "sv_has_kv u" "healthy c" "cache_wf (cn_db c)" "kv_view c = map_of rows" "length rows \<le> 1"
      "ApplyOverrides (ae_config ae) (Some (current_config u)) rows = Inr (Some nxt)" "Validate nxt = []" for u c rows nxt
  proof -
    obtain rows' c' where r: "all_overrides ae c = (Inr rows', c')" "healthy c'" "cn_db c' = cn_db c"
        "distinct (map fst rows')" "\<forall>k v. (k, v) \<in> set rows' \<longleftrightarrow> kv_view c k = Some v"
      using all_overrides_healthy [OF u(3,4) assms(5)] by blast
    have "(x, y) \<in> set rows' \<longleftrightarrow> (x, y) \<in> set rows" for x y
      using spec [OF spec [OF r(5), of x], of y] u(5,6) by (cases rows) auto
    then have "set rows' = set rows" by auto
    with r(4) u(6) have "rows' = rows"
      by (cases rows; cases rows'; cases "tl rows'") auto
    note r = r(1-3) [unfolded this]
    obtain w bo where w: "sv_publish nxt (set_conn c' u) = Returns (None, (set_conn c' u)\<lparr> sv_watcher := w, sv_bus := bo \<rparr>)"
        "srv_ok ((set_conn c' u)\<lparr> sv_watcher := w, sv_bus := bo \<rparr>)" "sn_Config (wt_current w) = nxt"
      using sv_publish_ok [of "set_conn c' u" nxt] u(1,8) by auto
    have "reloadConfig ae (set_conn c u) = sv_publish nxt (set_conn c' u)"
      using u(2,7) r(1) by (simp add: reloadConfig_def)
    with w r(2,3) u(2) show ?thesis by (simp add: published_fields)
  qed
  obtain c1 where c1: "set_all [(key, raw)] (sv_conn s) = (None, c1)" "healthy c1" "cache_wf (cn_db c1)" "kv_view c1 = [key \<mapsto> raw]"
    using set_all_healthy [OF assms(3,4), of "[(key, raw)]"] assms(6) by auto
  obtain s1 where s1: "reloadConfig ae (set_conn c1 s) = Returns (None, s1)" "srv_ok s1" "current_config s1 = cfg" "sv_has_kv s1"
      "healthy (sv_conn s1)" "cn_db (sv_conn s1) = cn_db c1"
    using reload [OF assms(1,2) c1(2,3) _ _ assms(8,9)] c1(4) by auto
  have put: "serve ae t ctx (PutSettings (Inr [(key, raw)])) s = (Reply 200 BOk, s1)"
    using assms(2) c1(1) s1(1) by (simp add: serve_def recoverer_def handleSettingsPut_def put_overrides_def jsonOK_def del: set_all.simps)
  have view1: "kv_view (sv_conn s1) = [key \<mapsto> raw]" using s1(6) c1(4) by (simp add: kv_view_def)
  obtain c2 where c2: "kv_Delete key (sv_conn s1) = (Inr (), c2)" "healthy c2" "cache_wf (cn_db c2)" "kv_view c2 = Map.empty"
    using kv_Delete_healthy [OF s1(5), of key] s1(6) c1(3) view1 by auto
  obtain s2 where s2: "reloadConfig ae (set_conn c2 s1) = Returns (None, s2)" "current_config s2 = cfg" "cn_db (sv_conn s2) = cn_db c2"
    using reload [OF s1(2,4) c2(2,3), of "[]" cfg] c2(4) s1(3) assms(9) by (auto simp: ApplyOverrides_def)
  have "serve ae t ctx (DeleteSetting key) s1 = (Reply 200 BOk, s2)"
    using assms(7) s1(4) c2(1) s2(1) by (simp add: serve_def recoverer_def handleSettingsDelete_def jsonOK_def)
  with put s1(3) s2 view1 c2(4) show ?thesis by (simp add: kv_view_def)
qed

section \<open>Cache, pipeline, pages and downloads\<close>

lemma query_row_healthy: "healthy c \<Longrightarrow> \<exists>c'. query_row f c = (Inr (f (cn_db c)), c') \<and> healthy c' \<and> cn_db c' = cn_db c"
  using exec_healthy [of c 0 "\<lambda>d. Inr (f d, d)" "f (cn_db c)" "cn_db c"] by (auto simp: query_row_def)

lemma vacuum_healthy:
  assumes "healthy c"
  shows "\<exists>c'. Vacuum free pages now olderThan c = (length (filter (\<lambda>r. rr_updated r < Unix (now - olderThan)) (tb_records (cn_db c))), None, c') \<and>
    healthy c' \<and> cn_db c' = (cn_db c)\<lparr> tb_records := filter (\<lambda>r. \<not> rr_updated r < Unix (now - olderThan)) (tb_records (cn_db c)) \<rparr>"
proof -
  let ?d = "(cn_db c)\<lparr> tb_records := filter (\<lambda>r. \<not> rr_updated r < Unix (now - olderThan)) (tb_records (cn_db c)) \<rparr>"
  obtain c1 where c1: "exec 1 (delete_old (Unix (now - olderThan))) c =
      (Inr (length (filter (\<lambda>r. rr_updated r < Unix (now - olderThan)) (tb_records (cn_db c)))), c1)" "healthy c1" "cn_db c1 = ?d"
    using exec_healthy [OF assms, of 1 "delete_old (Unix (now - olderThan))"] by (auto simp: delete_old_def maxRowsPerTx_def)
  obtain c2 where c2: "query_row (\<lambda>_. free) c1 = (Inr free, c2)" "healthy c2" "cn_db c2 = ?d"
    using query_row_healthy [OF c1(2), of "\<lambda>_. free"] c1(3) by auto
  obtain c3 where c3: "query_row (\<lambda>_. pages) c2 = (Inr pages, c3)" "healthy c3" "cn_db c3 = ?d"
    using query_row_healthy [OF c2(2), of "\<lambda>_. pages"] c2(3) by auto
  obtain c4 where "begin_or_commit c3 = (Inr (), c4)" "healthy c4" "cn_db c4 = ?d"
    using begin_or_commit_healthy [OF c3(2)] c3(3) by auto
  with c1(1) c2(1) c3 show ?thesis by (simp add: Vacuum_def Let_def)
qed

text \<open>
  \<open>POST /api/cache/vacuum\<close> asks for the records older than no time at all: when none was written
  in the current second it deletes every record and says how many, while the status rows of the
  domains stay, so that afterwards the fresh domains are still not resolved again and the snapshot
  of any set of domains is empty until their time to live has passed.
\<close>

theorem vacuum_empties_cache:
  assumes "sv_has_cache s" and "healthy (sv_conn s)" and "cache_wf (cn_db (sv_conn s))"
    and "list_all (\<lambda>r. rr_updated r < Unix (ag_now (ae_agents ae))) (tb_records (cn_db (sv_conn s)))"
    and "length domains < 5 * maxRowsPerTx"
  shows "case serve ae t ctx PostCacheVacuum s of (r, s') \<Rightarrow>
    r = Reply 200 (BDeleted (length (tb_records (cn_db (sv_conn s))))) \<and>
    fst (NeedsRefresh now domains ttl failedTTL (sv_conn s')) =
      Inr (sorted_list_of_set {n \<in> set domains. stale_at now ttl failedTTL (domain_view (cn_db (sv_conn s)) n)}) \<and>
    fst (SnapshotForDomains domains (sv_conn s')) = ([], [], None)"
proof -
  let ?d = "cn_db (sv_conn s)" and ?t = "Unix (ag_now (ae_agents ae))"
  have all: "filter (\<lambda>r. rr_updated r < ?t) (tb_records ?d) = tb_records ?d" "filter (\<lambda>r. \<not> rr_updated r < ?t) (tb_records ?d) = []"
    using assms(4) by (auto simp: list_all_iff filter_empty_conv)
  obtain c where c: "Vacuum (fst (ae_pages ae)) (snd (ae_pages ae)) (ag_now (ae_agents ae)) 0 (sv_conn s) = (length (tb_records ?d), None, c)"
      "healthy c" "cn_db c = ?d\<lparr> tb_records := [] \<rparr>"
    using vacuum_healthy [OF assms(2), of "fst (ae_pages ae)" "snd (ae_pages ae)" "ag_now (ae_agents ae)" 0] by (auto simp: all)
  have wf: "cache_wf (cn_db c)" using assms(3) by (simp add: c(3) cache_wf_def)
  obtain stale c1 where n: "NeedsRefresh now domains ttl failedTTL c = (Inr stale, c1)"
    using needs_refresh_healthy [OF c(2)] by blast
  have "domain_view (cn_db c) = domain_view ?d" by (simp add: c(3) domain_view_def)
  with needs_refresh_ok [OF wf n] have "stale = sorted_list_of_set {n \<in> set domains. stale_at now ttl failedTTL (domain_view ?d n)}" by simp
  moreover obtain c2 where "query (length domains + 1) (select_joined domains) c = (Inr ([], False), c2)"
    using query_healthy [OF c(2), of "length domains + 1" "select_joined domains"] assms(5) by (auto simp: select_joined_def c(3))
  then have "fst (SnapshotForDomains domains c) = ([], [], None)" by (simp add: SnapshotForDomains_def)
  ultimately show ?thesis using assms(1) c(1) n by (simp add: serve_def recoverer_def handleCacheVacuum_def jsonOK_def)
qed

text \<open>
  a run that is refused because another one is in progress is answered with 500, not with the 409
  the handler has for it: \<open>Run\<close> wraps \<open>ErrBusy\<close> with the number of the run, which \<open>errors.Is\<close> still
  recognises, but the handler compares with \<open>==\<close>. The server is left as it was.
\<close>

theorem busy_is_500:
  assumes "sv_orch s = Some st" and "or_running st"
  shows "case serve ae t ctx (PostPipelineRun req) s of (r, s') \<Rightarrow> status_of r = 500 \<and> s' = s \<and>
    errors_Is (run_go_error (ErrBusy (rs_RunID (or_current st)))) go_ErrBusy \<and>
    (\<exists>msg. body_of r = BError (''orchestrator: pipeline already running'' @ msg))"
  using assms by (auto simp: serve_def recoverer_def handlePipelineRun_def Run_def acquire_def Let_def jsonError_def go_ErrBusy_def)

lemma wrap64_id: "- (2 ^ 63) \<le> x \<Longrightarrow> x < 2 ^ 63 \<Longrightarrow> wrap64 x = x"
  by (simp add: wrap64_def sint64)

lemma page_bounds: "1 \<le> page_number p" "1 \<le> page_size pp" "page_size pp \<le> 500"
  by (auto simp: page_number_def page_size_def split: option.split)

lemma domain_page_ok:
  assumes "1 \<le> page" and "1 \<le> perPage" and "perPage \<le> 500" and "page * perPage < 2 ^ 63"
  shows "domain_page ds page perPage = Returns (take (nat perPage) (drop (nat (page - 1) * nat perPage) ds), page * perPage < int (length ds))"
proof -
  have "0 \<le> (page - 1) * perPage" "page - 1 \<le> (page - 1) * perPage" using assms(1,2) mult_left_mono [of 1 perPage "page - 1"] by auto
  moreover have e: "(page - 1) * perPage + perPage = page * perPage" by (simp add: algebra_simps)
  ultimately have "page - 1 < 2 ^ 63" "(page - 1) * perPage < 2 ^ 63" using assms(2,4) by linarith+
  then have w: "wrap64 (page - 1) = page - 1" "wrap64 ((page - 1) * perPage) = (page - 1) * perPage" "wrap64 (page * perPage) = page * perPage"
    using assms e \<open>0 \<le> (page - 1) * perPage\<close> by (intro wrap64_id; linarith)+
  have n: "nat ((page - 1) * perPage) = nat (page - 1) * nat perPage" using assms(1) by (simp add: nat_mult_distrib)
  let ?lo = "(page - 1) * perPage"
  have d: "page * perPage - ?lo = perPage" using e by simp
  show ?thesis
  proof (cases "?lo < int (length ds)")
    case False
    with e assms(2) \<open>0 \<le> ?lo\<close> have "length ds \<le> nat ?lo" by linarith
    with False show ?thesis by (simp add: domain_page_def Let_def w e n)
  next
    case lo: True
    show ?thesis
    proof (cases "int (length ds) < page * perPage")
      case True
      then have "length (drop (nat ?lo) ds) \<le> nat perPage" using e \<open>0 \<le> ?lo\<close> by simp
      with lo True \<open>0 \<le> ?lo\<close> show ?thesis
        by (simp add: domain_page_def Let_def w e slice_def n nat_diff_distrib)
    next
      case False
      with lo \<open>0 \<le> ?lo\<close> e assms(2) show ?thesis by (simp add: domain_page_def Let_def w e slice_def n d) (use lo in linarith)
    qed
  qed
qed

lemma concat_pages: "concat (map (\<lambda>i. take k (drop (i * k) xs)) [0..<n]) = take (n * k) xs"
  by (induction n) (simp_all add: take_add add.commute [of k])

text \<open>
  the pages of a category's domains are the list cut into pieces: with a page size of 1 to 500 and
  as long as the last position fits 64 bits, page \<open>n\<close> holds the domains from the \<open>(n - 1)\<close>-th
  piece, the flag says exactly whether more domains follow, and the pages up to \<open>n\<close> put
  together are the first domains of the list in their order.
\<close>

theorem domain_pages:
  assumes "reg_GetDomains (ag_env (ae_agents ae)) (sv_reg s) code = Inr ds" and "sv_has_registry s" and "code \<noteq> []"
    and "n = page_number p" and "k = page_size pp" and "n * k < 2 ^ 63"
  shows "serve ae t ctx (GetCategoryDomains code p pp) s =
      (Reply 200 (BPage code (take (nat k) (drop (nat (n - 1) * nat k) ds)) n k (length ds) (n * k < int (length ds))), s) \<and>
    concat (map (\<lambda>i. take (nat k) (drop (i * nat k) ds)) [0..<nat n]) = take (nat n * nat k) ds \<and> 1 \<le> k \<and> k \<le> 500"
proof -
  have nk: "1 \<le> n" "1 \<le> k" "k \<le> 500" using page_bounds assms(4,5) by simp_all
  have "serve ae t ctx (GetCategoryDomains code p pp) s =
      (Reply 200 (BPage code (take (nat k) (drop (nat (n - 1) * nat k) ds)) n k (length ds) (n * k < int (length ds))), s)"
    using domain_page_ok [OF nk assms(6), of ds] assms(1-3) unfolding assms(4,5)
    by (simp add: serve_def recoverer_def handleCategoryDomains_def jsonOK_def Let_def)
  with nk show ?thesis by (simp add: concat_pages)
qed

text \<open>A page number near the largest integer overflows to a negative position and the slice panics.\<close>

lemma huge_page: "page_number ''9223372036854775807'' = 9223372036854775807"
proof -
  have "takeWhile is_digit ''9223372036854775807'' = ''9223372036854775807''" by code_simp
  moreover have "read_dec 0 ''9223372036854775807'' = Some 9223372036854775807" by (simp add: is_dec_def dec_val_def)
  ultimately show ?thesis by (simp add: page_number_def scan_int_def Sscanf_d_def Let_def int64_min_def int64_max_def)
qed

lemma domain_page_overflow: "domain_page ds 9223372036854775807 100 = Panics ''slice bounds out of range''"
proof -
  have "wrap64 9223372036854775806 = 9223372036854775806" "wrap64 922337203685477580600 = - 200" "wrap64 (- 100) = - 100"
    by code_simp+
  then show ?thesis by (simp add: domain_page_def Let_def slice_def)
qed

theorem huge_page_panics:
  "reg_GetDomains (ag_env (ae_agents ae)) (sv_reg s) code = Inr ds \<Longrightarrow> sv_has_registry s \<Longrightarrow> code \<noteq> [] \<Longrightarrow>
   serve ae t ctx (GetCategoryDomains code ''9223372036854775807'' []) s = (Reply 500 BOk, s)"
  by (simp add: serve_def recoverer_def handleCategoryDomains_def huge_page page_size_def domain_page_overflow Let_def)

lemma WritePolicy_files:
  assumes "WritePolicy dir pol v4 v6 f = (Inr rep, f')"
  shows "f' = f\<lparr> fs_files := (fs_files f)(export_path dir pol ''ipv4'' \<mapsto> formatPrefixesForPolicy (export_format pol) (pol_Name pol) v4 ''v4'',
      export_path dir pol ''ipv6'' \<mapsto> formatPrefixesForPolicy (export_format pol) (pol_Name pol) v6 ''v6'') \<rparr>"
  using assms by (auto simp: WritePolicy_def Let_def split: option.splits prod.splits dest!: WriteFile_ok)

text \<open>
  the download of a policy's prefixes serves what the pipeline has written for it when the policy
  is exported in a format with the extension txt and the file names are the default ones; for a
  policy exported in any other format the file that was just written is not found.
\<close>

theorem export_download:
  assumes "WritePolicy (exp_Dir (Export (current_config s))) pol v4 v6 (wd_fs (sv_world s)) = (Inr rep, f')"
    and "s' = s\<lparr> sv_world := set_fs f' (sv_world s) \<rparr>" and "exp_Dir (Export (current_config s)) \<noteq> []" and "pol_Name pol \<noteq> []"
    and "exp_IPv4File (Export (current_config s)) = ''ipv4.txt''" and "exp_IPv6File (Export (current_config s)) = ''ipv6.txt''"
    and "\<not> fs_fault f' OpRead (export_path (exp_Dir (Export (current_config s))) pol ''ipv4'')"
    and "fs_files (wd_fs (sv_world s)) (Join (Join (exp_Dir (Export (current_config s))) (pol_Name pol)) ''ipv4.txt'') = None"
  shows "fst (serve ae t ctx (GetExport (pol_Name pol) ''ipv4'') s') =
    (if extForFormat (export_format pol) = ''txt'' then Reply 200 (BFile (FText (formatPlain v4)))
     else Reply 404 (BError ''export file not found''))"
proof -
  let ?dir = "exp_Dir (Export (current_config s))"
  have f: "f' = (wd_fs (sv_world s))\<lparr> fs_files := (fs_files (wd_fs (sv_world s)))
      (export_path ?dir pol ''ipv4'' \<mapsto> formatPrefixesForPolicy (export_format pol) (pol_Name pol) v4 ''v4'',
       export_path ?dir pol ''ipv6'' \<mapsto> formatPrefixesForPolicy (export_format pol) (pol_Name pol) v6 ''v6'') \<rparr>"
    by (rule WritePolicy_files [OF assms(1)])
  have cfg: "current_config s' = current_config s" "wd_fs (sv_world s') = f'"
    by (simp_all add: assms(2) current_config_def wd_fs_def set_fs_def)
  have path: "?dir @ ''/'' @ pol_Name pol @ ''/ipv4.txt'' = Join (Join ?dir (pol_Name pol)) ''ipv4.txt''"
    using assms(3) by (simp add: Join_def)
  have apart: "export_path ?dir pol ''ipv6'' \<noteq> Join (Join ?dir (pol_Name pol)) ''ipv4.txt''" "export_path ?dir pol ''ipv6'' \<noteq> export_path ?dir pol ''ipv4''"
    using assms(3) by (simp_all add: export_path_def Join_def)
  show ?thesis
  proof (cases "extForFormat (export_format pol) = ''txt''")
    case True
    then have "export_format pol \<notin> set [''ipset'', ''json'', ''nft'', ''iptables'', ''bgp'', ''yaml'']" by (auto simp: extForFormat_def)
    then have plain: "formatPrefixesForPolicy (export_format pol) (pol_Name pol) v4 ''v4'' = FText (formatPlain v4)"
      by (simp add: formatPrefixesForPolicy_def)
    have "export_path ?dir pol ''ipv4'' = Join (Join ?dir (pol_Name pol)) ''ipv4.txt''" using True by (simp add: export_path_def)
    then have "ReadFile f' (Join (Join ?dir (pol_Name pol)) ''ipv4.txt'') = Inr (FText (formatPlain v4))"
      using assms(7) apart plain by (simp add: f ReadFile_def)
    with True assms(3-6) path show ?thesis
      by (simp add: serve_def recoverer_def handleExportDownload_def cfg)
  next
    case False
    then have "export_path ?dir pol ''ipv4'' \<noteq> Join (Join ?dir (pol_Name pol)) ''ipv4.txt''"
      using assms(3) by (simp add: export_path_def Join_def)
    then have "\<exists>e. ReadFile f' (Join (Join ?dir (pol_Name pol)) ''ipv4.txt'') = Inl e"
      using apart(1) assms(8) by (simp add: f ReadFile_def)
    with False assms(3-6) path show ?thesis
      by (auto simp: serve_def recoverer_def handleExportDownload_def cfg jsonError_def)
  qed
qed

section \<open>Witnesses\<close>

definition listen_decode :: "viper \<Rightarrow> Config \<Rightarrow> Config result" where
  "listen_decode v c = Inr (c\<lparr> Listen := get_str v ''listen'' (Listen c) \<rparr>)"

definition ex_api :: "unit api_env" where
  "ex_api = \<lparr> ae_agents = ex_agents, ae_config = ex_config_env\<lparr> ce_unmarshal := listen_decode \<rparr>, ae_marshal = (\<lambda>_. Inr ''[]''),
     ae_struct = (\<lambda>_. []), ae_pages = (0, 10) \<rparr>"

definition ex_no_context :: "nat \<Rightarrow> error option" where
  "ex_no_context _ = None"

definition ex_api_server :: "db \<Rightarrow> unit server" where
  "ex_api_server d = api_New (Some orch_New) (NewWatcher Defaults 1) True True (Some NewBus) True
     ((ex_world [''a.com'', ''b.com'', ''c.com''])\<lparr> wd_cache := ex_conn no_fault d \<rparr>)"

lemma ex_server_fields [simp]:
  "current_config (ex_api_server d) = Defaults" "config_version (ex_api_server d) = 1" "sv_has_kv (ex_api_server d)" "sv_has_cache (ex_api_server d)"
  "sv_has_registry (ex_api_server d)" "sv_orch (ex_api_server d) = Some orch_New" "sv_conn (ex_api_server d) = ex_conn no_fault d"
  by (simp_all add: ex_api_server_def api_New_def current_config_def wt_Current_def NewWatcher_def config_version_def sv_conn_def)

lemma ex_srv_ok: "srv_ok (ex_api_server d)"
proof -
  have "Validate (current_config (ex_api_server d)) = []" by (simp add: defaults_valid)
  then show ?thesis
    using watch_ok_new [of Defaults 1] by (simp add: srv_ok_def ex_api_server_def api_New_def NewWatcher_def NewBus_def bus_ok_def)
qed

lemma ex_fair: "fair_order ex_api"
  by (simp add: fair_order_def ex_api_def ex_agents_def)

theorem api_config_valid_witness:
  "Validate (current_config (serve_all ex_api [(0, ex_no_context, PutSettings (Inr [(''listen'', ''none'')])), (0, ex_no_context, DeletePolicy ''p'')]
     (api_New (Some orch_New) (NewWatcher Defaults 1) True True (Some NewBus) True (ex_world [''a.com''])))) = []"
  using api_config_valid [OF defaults_valid, of ex_api "[(0, ex_no_context, PutSettings (Inr [(''listen'', ''none'')])), (0, ex_no_context, DeletePolicy ''p'')]"
      "Some orch_New" 1 True True True "ex_world [''a.com'']"]
  unfolding Let_def by blast

lemma ex_policy_valid: "Validate (set_policies [ex_policy] Defaults) = []"
proof -
  have "validatePolicies [ex_policy] = []" by code_simp
  moreover have "validateSources (set_policies [ex_policy] Defaults) = validateSources Defaults"
    "validateRouting (Routing (set_policies [ex_policy] Defaults)) = validateRouting (Routing Defaults)"
    by (simp_all add: set_policies_def validateSources_def validateRouting_def)
  ultimately show ?thesis using defaults_valid by (simp add: Validate_def) (simp add: set_policies_def)
qed


theorem settings_put_poison_witness:
  "case serve ex_api 0 ex_no_context (PutSettings (Inr [(''resolver.qps'', ''many'')])) (ex_api_server empty_db) of (r1, s1) \<Rightarrow>
     status_of r1 = 500 \<and> status_of (fst (serve ex_api 0 ex_no_context (PutSettings (Inr [(''listen'', '':9090'')])) s1)) = 500"
proof -
  have keys: "row_key (''resolver.qps'', v) = ''resolver.qps''" for v unfolding row_key_def fst_conv by code_simp
  have "env_key ''resolver.qps'' = ''D2IP_RESOLVER_QPS''" by code_simp
  moreover have "isl (coerceKVValue ce ''resolver.qps'' ''many'')" for ce by code_simp
  ultimately have bad: "bad_row ex_api ''resolver.qps'' ''many''"
    by (simp add: bad_row_def applies_def keys ex_api_def ex_config_env_def)
  have "healthy (sv_conn (ex_api_server empty_db))" "cache_wf (cn_db (sv_conn (ex_api_server empty_db)))" by (simp_all add: ex_healthy cache_wf_empty)
  note poison = settings_put_poison [OF ex_srv_ok _ this ex_fair bad, of 0 ex_no_context]
  obtain r1 s1 where one: "serve ex_api 0 ex_no_context (PutSettings (Inr [(''resolver.qps'', ''many'')])) (ex_api_server empty_db) = (r1, s1)"
    by (rule prod.exhaust)
  from poison have "status_of r1 = 500 \<and> (\<forall>kv. ''resolver.qps'' \<notin> fst ` set kv \<longrightarrow>
      (case serve ex_api 0 ex_no_context (PutSettings (Inr kv)) s1 of (r2, s2) \<Rightarrow> status_of r2 = 500))"
    by (auto simp: one)
  then have "status_of r1 = 500" "case serve ex_api 0 ex_no_context (PutSettings (Inr [(''listen'', '':9090'')])) s1 of (r2, s2) \<Rightarrow> status_of r2 = 500"
    by auto
  then show ?thesis by (simp add: one case_prod_beta)
qed

lemma listen_override:
  assumes "coerceKVValue (ae_config ex_api) ''listen'' v = Inr (AnyV (VStr v))"
  shows "ApplyOverrides (ae_config ex_api) (Some Defaults) [(''listen'', v)] = Inr (Some (Defaults\<lparr> Listen := v \<rparr>))"
proof -
  let ?v = "applyDefaultsToViper Defaults @ seedViperFromConfig Defaults"
  have "ToLower (TrimSpace ''listen'') = ''listen''" "env_key ''listen'' = ''D2IP_LISTEN''" by code_simp+
  with assms have "applyKVToViper (ae_config ex_api) [(''listen'', v)] ?v = Inr (?v @ [SetKey ''listen'' (AnyV (VStr v))])"
    by (simp add: ex_api_def ex_config_env_def)
  moreover have "explicit (?v @ [SetKey ''listen'' (AnyV (VStr v))]) ''listen'' = Some (AnyV (VStr v))"
    unfolding explicit_append by simp
  ultimately show ?thesis
    by (simp add: ApplyOverrides_def ex_api_def listen_decode_def get_str_def)
qed

theorem settings_delete_keeps_witness:
  "case serve ex_api 0 ex_no_context (PutSettings (Inr [(''listen'', '':9090'')])) (ex_api_server empty_db) of (r1, s1) \<Rightarrow>
    (case serve ex_api 0 ex_no_context (DeleteSetting ''listen'') s1 of (r2, s2) \<Rightarrow>
      status_of r2 = 200 \<and> kv_view (sv_conn s2) = Map.empty \<and> Listen (current_config s2) = '':9090'')"
proof -
  let ?c = "Defaults\<lparr> Listen := '':9090'' \<rparr>"
  have "coerceKVValue ce ''listen'' '':9090'' = Inr (AnyV (VStr '':9090''))" for ce by code_simp
  note applied = listen_override [OF this]
  have "SplitHostPort '':9090'' = Inr ([], ''9090'')" "TrimSpace '':9090'' \<noteq> []" by code_simp+
  then have "validateListen '':9090'' = []" by (simp add: validateListen_def)
  moreover have "validateSources ?c = validateSources Defaults" by (simp add: validateSources_def)
  ultimately have valid: "Validate ?c = []" using defaults_valid by (simp add: Validate_def)
  have h: "healthy (sv_conn (ex_api_server empty_db))" "cache_wf (cn_db (sv_conn (ex_api_server empty_db)))"
    by (simp_all add: ex_healthy cache_wf_empty)
  have "kv_view (sv_conn (ex_api_server empty_db)) = Map.empty" by (simp add: kv_view_def empty_db_def)
  from settings_delete_keeps [OF ex_srv_ok _ h(1,2) ex_fair this _ _ valid, of "''listen''" "'':9090''" 0 ex_no_context] applied show ?thesis
    by (simp add: case_prod_beta)
qed

theorem vacuum_empties_cache_witness:
  "case serve ex_api 0 ex_no_context PostCacheVacuum (ex_api_server ex_db) of (r, s') \<Rightarrow>
    r = Reply 200 (BDeleted 2) \<and> fst (SnapshotForDomains [''a.com''] (sv_conn s')) = ([], [], None)"
  using vacuum_empties_cache [of "ex_api_server ex_db" ex_api "[''a.com'']" 0 0 0 0 ex_no_context]
  by (simp add: ex_healthy ex_wf case_prod_beta maxRowsPerTx_def) (simp add: ex_db_def ex_api_def ex_agents_def Unix_def Second_def Millisecond_def)

theorem busy_is_500_witness:
  "case serve ex_api 0 ex_no_context (PostPipelineRun ex_request) ((ex_api_server empty_db)\<lparr> sv_orch := Some (orch_New\<lparr> or_running := True \<rparr>) \<rparr>) of
     (r, s') \<Rightarrow> status_of r = 500"
  using busy_is_500 [of "(ex_api_server empty_db)\<lparr> sv_orch := Some (orch_New\<lparr> or_running := True \<rparr>) \<rparr>" "orch_New\<lparr> or_running := True \<rparr>"
      ex_api 0 ex_no_context ex_request]
  by (simp add: case_prod_beta)

theorem domain_pages_witness:
  "fst (serve ex_api 0 ex_no_context (GetCategoryDomains ''my:default'' ''2'' ''2'') (ex_api_server empty_db)) =
     Reply 200 (BPage ''my:default'' [''c.com''] 2 2 3 False)"
proof -
  have d: "reg_GetDomains (ag_env (ae_agents ex_api)) (sv_reg (ex_api_server empty_db)) ''my:default'' = Inr [''a.com'', ''b.com'', ''c.com'']"
    by (simp add: ex_api_def ex_agents_def sv_reg_def ex_api_server_def api_New_def ex_world_def ex_registry_def ex_plaintext_def
      ResolveCategory_def findSourceForCategory_def reg_GetDomains_def plaintext_Categories_def plaintext_GetDomains_def)
  have n: "2 = page_number ''2''" "2 = page_size ''2''" by code_simp+
  show ?thesis
    using domain_pages [OF d _ _ n, of 0 ex_no_context] by simp
qed

theorem export_download_witness:
  "\<exists>rep f'. WritePolicy (exp_Dir (Export Defaults)) ex_policy [Prefix (Addr4 0x0A000000) 8] [] no_files = (Inr rep, f') \<and>
     fst (serve ex_api 0 ex_no_context (GetExport (pol_Name ex_policy) ''ipv4'')
       ((ex_api_server empty_db)\<lparr> sv_world := set_fs f' (sv_world (ex_api_server empty_db)) \<rparr>)) =
     Reply 200 (BFile (FText (formatPlain [Prefix (Addr4 0x0A000000) 8])))"
proof -
  let ?v4 = "[Prefix (Addr4 0x0A000000) 8]" and ?s = "ex_api_server empty_db"
  obtain r f' where w: "WritePolicy (exp_Dir (Export Defaults)) ex_policy ?v4 [] no_files = (r, f')" by (rule prod.exhaust)
  moreover have "\<exists>rep. r = Inr rep" "fs_fault f' = (\<lambda>_ _. False)"
    using w by (auto simp: WritePolicy_def MkdirAll_def WriteFile_def no_files_def Let_def)
  ultimately obtain rep where w': "WritePolicy (exp_Dir (Export Defaults)) ex_policy ?v4 [] no_files = (Inr rep, f')" by blast
  have fs: "wd_fs (sv_world ?s) = no_files"
    by (simp add: wd_fs_def ex_api_server_def api_New_def ex_world_def ex_registry_def)
  have f: "exp_Dir (Export Defaults) \<noteq> []" "exp_IPv4File (Export Defaults) = ''ipv4.txt''" "exp_IPv6File (Export Defaults) = ''ipv6.txt''"
    "pol_Name ex_policy \<noteq> []" "extForFormat (export_format ex_policy) = ''txt''"
    by (simp_all add: Defaults_def ex_policy_def ex_plain_policy_def export_format_def extForFormat_def)
  have "fst (serve ex_api 0 ex_no_context (GetExport (pol_Name ex_policy) ''ipv4'') (?s\<lparr> sv_world := set_fs f' (sv_world ?s) \<rparr>)) =
     Reply 200 (BFile (FText (formatPlain ?v4)))"
    using export_download [of ?s ex_policy ?v4 "[]" rep f' "?s\<lparr> sv_world := set_fs f' (sv_world ?s) \<rparr>" ex_api 0 ex_no_context]
    by (simp add: fs w' f \<open>fs_fault f' = _\<close>) (simp add: no_files_def)
  with w' show ?thesis by blast
qed

end
