(* ===== verification/Cli.thy ===== *)
theory Cli
  imports Sched Api_Props
begin

text \<open>
  The commands (\<open>cmd/d2ip/main.go\<close>): \<open>dump\<close>, \<open>resolve\<close> and \<open>export\<close> as functions from their flags, the
  files and the database to the outcome, and what \<open>serve\<close> sets up before it listens. An exit with an
  error (\<open>log.Fatal\<close>, \<open>os.Exit(1)\<close>) is the left side of a result. The flags are
  in Flags and the end of \<open>serve\<close> in \<open>Event_Stream\<close>; log lines and the HTTP listener are not modelled, and
  an opened database is an argument.
\<close>

section \<open>main\<close>

datatype command = CmdVersion | CmdServe | CmdDump | CmdResolve | CmdExport | CmdUsage

text \<open>The command of an argument list and the exit status of \<open>main\<close> itself.\<close>

definition main_command :: "string list \<Rightarrow> command \<times> nat" where
  "main_command args =
     (case args of
        prog # subcommand # rest \<Rightarrow>
          if subcommand \<in> {''version'', ''--version'', ''-v''} then (CmdVersion, 0)
          else if subcommand = ''serve'' then (CmdServe, 0)
          else if subcommand = ''dump'' then (CmdDump, 0)
          else if subcommand = ''resolve'' then (CmdResolve, 0)
          else if subcommand = ''export'' then (CmdExport, 0)
          else if subcommand \<in> {''help'', ''--help'', ''-h''} then (CmdUsage, 0)
          else (CmdUsage, 1)
      | _ \<Rightarrow> (CmdUsage, 1))"

section \<open>The list of domains\<close>

text \<open>
  What \<open>dump\<close> and \<open>resolve\<close> begin with. The log line cuts the digest to 16 characters, which panics on
  the version without metadata that \<open>Get\<close> may return.
\<close>

definition open_dlc :: "env \<Rightarrow> string \<Rightarrow> string \<Rightarrow> duration \<Rightarrow> fs \<Rightarrow> (dl_provider result \<times> fs) run" where
  "open_dlc ev sourceURL cachePath maxAge s =
     (case NewHTTPStore sourceURL cachePath (30 * Second) s of
        Panics e \<Rightarrow> Panics e
      | Returns (Inl e) \<Rightarrow> Returns (Inl (''Failed to create source store: '' @ e), s)
      | Returns (Inr store) \<Rightarrow>
          (case store_Get (ev_sha ev) (ev_server ev sourceURL) (ev_sync ev) (ev_now ev) maxAge store s of
             (Inl e, st, s1) \<Rightarrow> Returns (Inl (''Failed to fetch dlc.dat: '' @ e), s1)
           | (Inr (dlcPath, version), st, s1) \<Rightarrow>
               if length (sv_SHA256 version) < 16 then Panics ''slice bounds out of range''
               else (case dl_Load ev s1 dlcPath of
                 Inl e \<Rightarrow> Returns (Inl (''Failed to load dlc.dat: '' @ e), s1)
               | Inr dl \<Rightarrow> Returns (Inr dl, s1))))"

definition selectors :: "string list \<Rightarrow> CategorySelector list" where
  "selectors categories = map (\<lambda>cat. \<lparr> sel_Code = cat, sel_Attrs = [] \<rparr>) categories"

section \<open>dump\<close>

definition tab :: char where "tab = CHR 0x09"

definition dump_line :: "Rule \<Rightarrow> string" where
  "dump_line rule = ru_Cat rule @ [tab] @ RuleType_String (ru_Type rule) @ [tab] @ ru_Value rule @
     (if IsResolvable (ru_Type rule) then [] else '' [UNRESOLVABLE]'')"

definition dump_output :: "env \<Rightarrow> string list \<Rightarrow> bool \<Rightarrow> dl_provider \<Rightarrow> string list result" where
  "dump_output ev categories listCategories dl =
     (if listCategories then
        Inr ((''# Available categories ('' @ show_nat (length (dl_Categories dl)) @ '' total)'') # map (\<lambda>cat. ''  - '' @ cat) (dl_Categories dl))
      else if categories = [] then Inl ''Error: at least one --category required''
      else case Select (ev_idna ev) dl (selectors categories) of
        Inl e \<Rightarrow> Inl (''Failed to select categories: '' @ e)
      | Inr rules \<Rightarrow> Inr ((''# d2ip dump - '' @ show_nat (length rules) @ '' rules from '' @ show_nat (length categories) @ '' categories'') #
          map dump_line rules))"

definition dumpCmd :: "env \<Rightarrow> string list \<Rightarrow> string \<Rightarrow> string \<Rightarrow> duration \<Rightarrow> bool \<Rightarrow> fs \<Rightarrow> (string list result \<times> fs) run" where
  "dumpCmd ev categories sourceURL cachePath maxAge listCategories s =
     (case open_dlc ev sourceURL cachePath maxAge s of
        Panics e \<Rightarrow> Panics e
      | Returns (Inl e, s1) \<Rightarrow> Returns (Inl e, s1)
      | Returns (Inr dl, s1) \<Rightarrow> Returns (dump_output ev categories listCategories dl, s1))"

section \<open>resolve\<close>

record resolve_flags =
  rf_categories :: "string list"
  rf_sourceURL :: string
  rf_cachePath :: string
  rf_maxAge :: duration
  rf_upstream :: string
  rf_concurrency :: int
  rf_qps :: int

record resolve_summary =
  su_total :: nat
  su_valid :: nat
  su_failed :: nat
  su_nxdomain :: nat

definition count_status :: "Status \<Rightarrow> nat \<times> nat \<times> nat \<Rightarrow> nat \<times> nat \<times> nat" where
  "count_status st = (\<lambda>(valid, failed, nx).
     (case st of StatusValid \<Rightarrow> (Suc valid, failed, nx) | StatusFailed \<Rightarrow> (valid, Suc failed, nx) | StatusNXDomain \<Rightarrow> (valid, failed, Suc nx)))"

text \<open>
  The loop over the result channel: every thousand results are written as one batch, and the rest at
  the end. An error of a write is only logged.
\<close>

definition upsert_every :: nat where "upsert_every = 1000"

fun collect :: "ResolveResult list \<Rightarrow> cache_result list \<Rightarrow> nat \<times> nat \<times> nat \<Rightarrow> db conn \<Rightarrow> (nat \<times> nat \<times> nat) \<times> db conn" where
  "collect [] results counts c = (counts, if results = [] then c else snd (UpsertBatch results c))"
| "collect (r # rs) results counts c =
     (let results1 = results @ [to_cache r]; counts1 = count_status (r_Status r) counts in
      if upsert_every \<le> length results1 then collect rs [] counts1 (snd (UpsertBatch results1 c))
      else collect rs results1 counts1 c)"

definition resolvable :: "Rule list \<Rightarrow> string list" where
  "resolvable rules = map ru_Value (filter (\<lambda>rule. IsResolvable (ru_Type rule)) rules)"

definition resolve_domains :: "(resolver_Config \<Rightarrow> string list \<Rightarrow> ResolveResult list) \<Rightarrow> resolve_flags \<Rightarrow> db conn result \<Rightarrow> string list \<Rightarrow>
    (resolve_summary option \<times> db conn option) result" where
  "resolve_domains batch fl opened domains =
     (if domains = [] then Inr (None, None)
      else case resolver_New (DefaultConfig\<lparr> rc_Upstream := rf_upstream fl, rc_Concurrency := rf_concurrency fl, rc_QPS := rf_qps fl \<rparr>) of
        Inl e \<Rightarrow> Inl (''Failed to create resolver: '' @ e)
      | Inr rc \<Rightarrow>
          (case opened of
             Inl e \<Rightarrow> Inl (''Failed to open cache database: '' @ e)
           | Inr c \<Rightarrow>
               (case collect (batch rc domains) [] (0, 0, 0) c of
                  ((valid, failed, nx), c1) \<Rightarrow>
                    Inr (Some \<lparr> su_total = length domains, su_valid = valid, su_failed = failed, su_nxdomain = nx \<rparr>, Some c1))))"

definition resolveCmd :: "env \<Rightarrow> (resolver_Config \<Rightarrow> string list \<Rightarrow> ResolveResult list) \<Rightarrow> resolve_flags \<Rightarrow> db conn result \<Rightarrow> fs \<Rightarrow>
    ((resolve_summary option \<times> db conn option) result \<times> fs) run" where
  "resolveCmd ev batch fl opened s =
     (case open_dlc ev (rf_sourceURL fl) (rf_cachePath fl) (rf_maxAge fl) s of
        Panics e \<Rightarrow> Panics e
      | Returns (Inl e, s1) \<Rightarrow> Returns (Inl e, s1)
      | Returns (Inr dl, s1) \<Rightarrow>
          (case Select (ev_idna ev) dl (selectors (rf_categories fl)) of
             Inl e \<Rightarrow> Returns (Inl (''Failed to select categories: '' @ e), s1)
           | Inr rules \<Rightarrow> Returns (resolve_domains batch fl opened (resolvable rules), s1)))"

section \<open>export\<close>

definition parse_level :: "string \<Rightarrow> Aggressiveness option" where
  "parse_level l = (if l = ''off'' then Some AggOff else if l = ''conservative'' then Some AggConservative
     else if l = ''balanced'' then Some AggBalanced else if l = ''aggressive'' then Some AggAggressive else None)"

definition exportCmd :: "(string \<Rightarrow> string) \<Rightarrow> durability \<Rightarrow> (string \<Rightarrow> string) \<Rightarrow> string \<Rightarrow> string \<Rightarrow> db conn result \<Rightarrow> fs \<Rightarrow>
    ExportReport result \<times> fs" where
  "exportCmd sha du tmp outputDir aggLevel opened s =
     (case opened of
        Inl e \<Rightarrow> (Inl (''Failed to open cache database: '' @ e), s)
      | Inr c \<Rightarrow>
          (case Snapshot c of
             (Inl e, _) \<Rightarrow> (Inl (''Failed to get cache snapshot: '' @ e), s)
           | (Inr (ipv4Addrs, ipv6Addrs), _) \<Rightarrow>
               (case parse_level aggLevel of
                  None \<Rightarrow> (Inl ''Unknown aggregation level'', s)
                | Some level \<Rightarrow>
                    let v4Prefixes = AggregateV4 ipv4Addrs level 16; v6Prefixes = AggregateV6 ipv6Addrs level 32 in
                    (case New_exporter outputDir s of
                       Inl e \<Rightarrow> (Inl (''Failed to create exporter: '' @ e), s)
                     | Inr dir \<Rightarrow>
                         (case Export_Write sha du dir (\<lambda>_. None) tmp v4Prefixes v6Prefixes s of
                            (report, Some e, s1) \<Rightarrow> (Inl (''Failed to export: '' @ e), s1)
                          | (report, None, s1) \<Rightarrow> (Inr report, s1))))))"

section \<open>serve\<close>

text \<open>\<open>time.Duration.String\<close>.\<close>

definition frac_text :: "nat \<Rightarrow> nat \<Rightarrow> string" where
  "frac_text u prec =
     (let f = u mod 10 ^ prec; ds = show_nat f in
      if f = 0 then [] else CHR ''.'' # rev (dropWhile (\<lambda>c. c = CHR ''0'') (rev (replicate (prec - length ds) CHR ''0'' @ ds))))"

definition Duration_String :: "duration \<Rightarrow> string" where
  "Duration_String d =
     (let u = nat (abs d); sign = (if d < 0 then ''-'' else []) in
      sign @
      (if u = 0 then ''0s''
       else if u < 1000 then show_nat u @ ''ns''
       else if u < 1000000 then show_nat (u div 1000) @ frac_text u 3 @ [CHR 0xC2, CHR 0xB5, CHR ''s'']
       else if u < 1000000000 then show_nat (u div 1000000) @ frac_text u 6 @ ''ms''
       else
         let t = u div 1000000000; sec = show_nat (t mod 60) @ frac_text u 9 @ ''s''; m = t div 60; h = m div 60 in
         if m = 0 then sec else (if h = 0 then [] else show_nat h @ ''h'') @ show_nat (m mod 60) @ ''m'' @ sec))"

text \<open>The configuration with the stored overrides; a failure to read or apply them is only logged.\<close>

definition startup_config :: "'k api_env \<Rightarrow> Config \<Rightarrow> db conn \<Rightarrow> Config \<times> db conn" where
  "startup_config ae cfg c =
     (case all_overrides ae c of
        (Inl e, c1) \<Rightarrow> (cfg, c1)
      | (Inr kvOverrides, c1) \<Rightarrow>
          if kvOverrides = [] then (cfg, c1)
          else (case ApplyOverrides (ae_config ae) (Some cfg) kvOverrides of
            Inr (Some cfg1) \<Rightarrow> (cfg1, c1)
          | _ \<Rightarrow> (cfg, c1)))"

definition source_of :: "SourceItemConfig \<Rightarrow> source_config" where
  "source_of item = \<lparr> sc_ID = si_ID item, sc_Provider = si_Provider item, sc_Prefix = si_Prefix item,
     sc_Enabled = si_Enabled item, sc_Config = si_Config item \<rparr>"

text \<open>The registry is seeded and loaded; errors of either are only logged.\<close>

fun seed_sources :: "env \<Rightarrow> SourceItemConfig list \<Rightarrow> registry \<Rightarrow> registry run" where
  "seed_sources ev [] r = Returns r"
| "seed_sources ev (item # items) r =
     (case AddSource ev (source_of item) r of Panics e \<Rightarrow> Panics e | Returns (_, r1) \<Rightarrow> seed_sources ev items r1)"

definition start_registry :: "env \<Rightarrow> Config \<Rightarrow> source_row list conn \<Rightarrow> fs \<Rightarrow> registry result run" where
  "start_registry ev cfg db s =
     (case NewDBRegistry db s of
        Inl e \<Rightarrow> Returns (Inl (''failed to create source registry: '' @ e))
      | Inr r \<Rightarrow>
          (case seed_sources ev (Sources cfg) r of
             Panics e \<Rightarrow> Panics e
           | Returns r1 \<Rightarrow> (case LoadAll ev r1 of Panics e \<Rightarrow> Panics e | Returns (_, r2) \<Rightarrow> Returns (Inr r2))))"

definition resolver_config :: "Config \<Rightarrow> resolver_Config" where
  "resolver_config cfg = \<lparr> rc_Upstream = res_Upstream (Resolver cfg), rc_Network = res_Network (Resolver cfg),
     rc_Concurrency = res_Concurrency (Resolver cfg), rc_QPS = res_QPS (Resolver cfg), rc_Timeout = res_Timeout (Resolver cfg),
     rc_Retries = res_Retries (Resolver cfg), rc_BackoffBase = res_BackoffBase (Resolver cfg), rc_BackoffMax = res_BackoffMax (Resolver cfg),
     rc_FollowCNAME = res_FollowCNAME (Resolver cfg), rc_MaxCNAMEChain = 8 \<rparr>"

definition start_scheduler :: "cron_parser \<Rightarrow> Config \<Rightarrow> sched option result" where
  "start_scheduler parse cfg =
     (if 0 < sch_ResolveCycle (Scheduler cfg) then
        (case sched_New parse True (''@every '' @ Duration_String (sch_ResolveCycle (Scheduler cfg))) of
           Inl e \<Rightarrow> Inl (''Failed to create scheduler: '' @ e)
         | Inr sd \<Rightarrow> (case sched_Start parse sd of (Some e, _) \<Rightarrow> Inl (''Failed to start scheduler: '' @ e) | (None, sd1) \<Rightarrow> Inr (Some sd1)))
      else Inr None)"

text \<open>
  The pieces put together. \<open>batch\<close> is the resolver with its configuration, \<open>look\<close> and \<open>order\<close> are those
  of the validator, and \<open>dbs\<close> the opened database, the table of sources apart.
\<close>

definition serve_start :: "'k api_env \<Rightarrow> (resolver_Config \<Rightarrow> string list \<Rightarrow> ResolveResult list) \<Rightarrow> (string \<Rightarrow> bool) \<Rightarrow> RoutingBackend list \<Rightarrow>
    cron_parser \<Rightarrow> string \<times> string \<Rightarrow> LoadOptions \<Rightarrow> (db conn \<times> source_row list conn) result \<Rightarrow> fs \<Rightarrow> 'k \<Rightarrow>
    ('k api_env \<times> 'k server \<times> sched option) result run" where
  "serve_start ae batch look order parse version opts dbs s k =
     (case Load (ae_config ae) opts of
        Inl e \<Rightarrow> Returns (Inl (''Failed to load config: '' @ e))
      | Inr loaded \<Rightarrow>
     (case dbs of
        Inl e \<Rightarrow> Returns (Inl (''Failed to open cache database: '' @ e))
      | Inr (c, rows) \<Rightarrow>
     (case startup_config ae loaded c of
        (cfg, c1) \<Rightarrow>
     (case start_registry (ag_env (ae_agents ae)) cfg rows s of
        Panics e \<Rightarrow> Panics e
      | Returns (Inl e) \<Rightarrow> Returns (Inl e)
      | Returns (Inr registry) \<Rightarrow>
     (case resolver_New (resolver_config cfg) of
        Inl e \<Rightarrow> Returns (Inl (''Failed to create resolver: '' @ e))
      | Inr rc \<Rightarrow>
     (case New_exporter (if exp_Dir (Export cfg) = [] then ''./out'' else exp_Dir (Export cfg)) (rg_fs registry) of
        Inl e \<Rightarrow> Returns (Inl (''Failed to create exporter: '' @ e))
      | Inr _ \<Rightarrow>
     (case Validator_Validate look (ag_runner (ae_agents ae)) order (rt_Policies (Routing cfg)) (NewValidator, k) of
        (_, validator, k1) \<Rightarrow>
     (case start_scheduler parse cfg of
        Inl e \<Rightarrow> Returns (Inl e)
      | Inr sd \<Rightarrow>
          let policyRtr = SetValidator validator (NewCompositeRouter (Routing cfg));
              agents = (ae_agents ae)\<lparr> ag_resolve := batch rc, ag_policyExp := Some (exp_Dir (Export cfg)), ag_policyRtr := Some policyRtr \<rparr>;
              world = \<lparr> wd_registry = registry, wd_cache = c1, wd_kernel = k1 \<rparr>;
              srv = api_New (Some orch_New) (NewWatcher cfg 1) True True (Some NewBus) True world
          in Returns (Inr (ae\<lparr> ae_agents := agents \<rparr>, SetPolicyRouter policyRtr (SetVersion (fst version) (snd version) srv), sd))))))))))"

section \<open>Properties\<close>

lemma NewHTTPStore_no_meta:
  assumes "url \<noteq> []" and "cachePath \<noteq> []" and "ReadFile s (meta_path cachePath) = Inl ErrNotExist"
  shows "NewHTTPStore url cachePath timeout s =
    Returns (Inr \<lparr> hs_url = url, hs_cachePath = cachePath, hs_timeout = timeout, hs_current = zero_version \<rparr>)"
  using assms by (simp add: NewHTTPStore_def loadMetadata_def Let_def)

text \<open>
  the commands \<open>dump\<close> and \<open>resolve\<close> crash on a cached list without metadata: when the server does
  not answer and the list is on disk without its metadata file, \<open>Get\<close> falls back to the file as it
  promises, but the log line that follows cuts an empty digest and panics, whatever the list holds.
\<close>

theorem dump_without_metadata_panics:
  assumes "sourceURL \<noteq> []" and "cachePath \<noteq> []" and "ReadFile s (meta_path cachePath) = Inl ErrNotExist"
    and "Stat s cachePath" and "ev_server ev sourceURL (request_headers zero_version) = NoAnswer e" and "maxAge \<noteq> 0"
  shows "dumpCmd ev categories sourceURL cachePath maxAge listCategories s = Panics ''slice bounds out of range'' \<and>
    (\<exists>st. store_Get (ev_sha ev) (ev_server ev sourceURL) (ev_sync ev) (ev_now ev) maxAge st s = (Inr (cachePath, zero_version), st, s))"
proof -
  let ?st = "\<lparr> hs_url = sourceURL, hs_cachePath = cachePath, hs_timeout = 30 * Second, hs_current = zero_version \<rparr>"
  have get: "store_Get (ev_sha ev) (ev_server ev sourceURL) (ev_sync ev) (ev_now ev) maxAge ?st s = (Inr (cachePath, zero_version), ?st, s)"
    using assms(4-6) by (simp add: store_Get_def fetchLocked_def store_fallback_def zero_version_def)
  then have "open_dlc ev sourceURL cachePath maxAge s = Panics ''slice bounds out of range''"
    using NewHTTPStore_no_meta [OF assms(1-3), of "30 * Second"] by (simp add: open_dlc_def zero_version_def)
  with get show ?thesis by (auto simp: dumpCmd_def)
qed

lemma upsert_views:
  assumes "healthy c" and "cache_wf (cn_db c)"
  shows "\<exists>c'. UpsertBatch results c = (Inr (), c') \<and> healthy c' \<and> cache_wf (cn_db c') \<and>
    domain_view (cn_db c') = fold put_domain results (domain_view (cn_db c)) \<and>
    record_view (cn_db c') = fold put_row (expandResultsWithDomain results) (record_view (cn_db c))"
proof -
  obtain c' where c': "UpsertBatch results c = (Inr (), c')" "healthy c'" using upsert_healthy [OF assms(2,1)] by blast
  show ?thesis
  proof (cases "results = []")
    case True
    with c' assms show ?thesis by (auto simp: UpsertBatch_def expandResultsWithDomain_def)
  next
    case False
    with upsert_ok [OF assms(2) False c'(1)] c' write_results_views [OF assms(2)] wf_write_results [OF assms(2)] show ?thesis by auto
  qed
qed

definition status_counts :: "ResolveResult list \<Rightarrow> nat \<times> nat \<times> nat" where
  "status_counts rs = (length (filter (\<lambda>r. r_Status r = StatusValid) rs), length (filter (\<lambda>r. r_Status r = StatusFailed) rs),
     length (filter (\<lambda>r. r_Status r = StatusNXDomain) rs))"

lemma collect_counts: "fst (collect rs results (a, b, n) c) =
    (a + fst (status_counts rs), b + fst (snd (status_counts rs)), n + snd (snd (status_counts rs)))"
proof (induction rs arbitrary: results a b n c)
  case (Cons r rs)
  then show ?case by (cases "r_Status r") (auto simp: status_counts_def count_status_def Let_def)
qed (simp add: status_counts_def)

lemma collect_views:
  assumes "healthy c" and "cache_wf (cn_db c)"
  shows "case collect rs results counts c of (_, c') \<Rightarrow> healthy c' \<and> cache_wf (cn_db c') \<and>
    domain_view (cn_db c') = fold put_domain (results @ map to_cache rs) (domain_view (cn_db c)) \<and>
    record_view (cn_db c') = fold put_row (expandResultsWithDomain (results @ map to_cache rs)) (record_view (cn_db c))"
  using assms
proof (induction rs arbitrary: results counts c)
  case Nil
  then show ?case using upsert_views [OF Nil, of results] by (auto simp: expandResultsWithDomain_def)
next
  case (Cons r rs)
  show ?case
  proof (cases "upsert_every \<le> length (results @ [to_cache r])")
    case True
    obtain c1 where c1: "UpsertBatch (results @ [to_cache r]) c = (Inr (), c1)" "healthy c1" "cache_wf (cn_db c1)"
        "domain_view (cn_db c1) = fold put_domain (results @ [to_cache r]) (domain_view (cn_db c))"
        "record_view (cn_db c1) = fold put_row (expandResultsWithDomain (results @ [to_cache r])) (record_view (cn_db c))"
      using upsert_views [OF Cons.prems, of "results @ [to_cache r]"] by blast
    from Cons.IH [OF c1(2,3), of "[]" "count_status (r_Status r) counts"] c1(1,4,5) True
    show ?thesis by (simp add: Let_def case_prod_beta expandResultsWithDomain_def)
  next
    case False
    from Cons.IH [OF Cons.prems, of "results @ [to_cache r]" "count_status (r_Status r) counts"] False
    show ?thesis by (simp add: Let_def)
  qed
qed

text \<open>
  C24: the batches in which \<open>resolve\<close> writes are invisible: whatever their boundaries, on a working
  database the tables end up as if all results had been written at once in their order, the
  constraints of the schema hold, and the summary counts the domains and the results of each status.
\<close>

theorem resolve_writes_all:
  assumes "healthy c" and "cache_wf (cn_db c)" and "domains \<noteq> []"
    and "resolver_New (DefaultConfig\<lparr> rc_Upstream := rf_upstream fl, rc_Concurrency := rf_concurrency fl, rc_QPS := rf_qps fl \<rparr>) = Inr rc"
  shows "\<exists>c'. resolve_domains batch fl (Inr c) domains =
      Inr (Some \<lparr> su_total = length domains, su_valid = length (filter (\<lambda>r. r_Status r = StatusValid) (batch rc domains)),
        su_failed = length (filter (\<lambda>r. r_Status r = StatusFailed) (batch rc domains)),
        su_nxdomain = length (filter (\<lambda>r. r_Status r = StatusNXDomain) (batch rc domains)) \<rparr>, Some c') \<and>
    cache_wf (cn_db c') \<and>
    domain_view (cn_db c') = fold put_domain (map to_cache (batch rc domains)) (domain_view (cn_db c)) \<and>
    record_view (cn_db c') = fold put_row (expandResultsWithDomain (map to_cache (batch rc domains))) (record_view (cn_db c))"
proof -
  obtain counts c' where r: "collect (batch rc domains) [] (0, 0, 0) c = (counts, c')" by (rule prod.exhaust)
  have "counts = status_counts (batch rc domains)"
    using collect_counts [of "batch rc domains" "[]" 0 0 0 c] r by simp
  with r assms(3,4) collect_views [OF assms(1,2), where rs = "batch rc domains" and results = "[]" and counts = "(0, 0, 0)"] show ?thesis
    by (auto simp: resolve_domains_def status_counts_def)
qed

lemma Snapshot_ok:
  assumes "cache_wf (cn_db c)" and "texts is4 (cn_db c) ''A''" and "texts is6 (cn_db c) ''AAAA''" and "Snapshot c = (Inr (v4, v6), c')"
  shows "set v4 = valid_addrs ''A'' (cn_db c) \<and> set v6 = valid_addrs ''AAAA'' (cn_db c) \<and> (\<forall>a\<in>set v4. is4 a)"
proof -
  from assms(4) obtain c1 where s4: "snapshotFamily ''A'' c = (Inr v4, c1)" and s6: "snapshotFamily ''AAAA'' c1 = (Inr v6, c')"
    by (auto simp: Snapshot_def split: prod.splits sum.splits)
  note f4 = snapshotFamily_ok [OF assms(1,2) s4]
  then have db: "cn_db c1 = cn_db c" by simp
  from f4 snapshotFamily_ok [OF assms(1,3) [folded db] s6] db show ?thesis by simp
qed


text \<open>What a successful start leaves in force.\<close>

lemma serve_start_ok:
  assumes "serve_start ae batch look order parse version opts (Inr (c, rows)) s k = Returns (Inr (ae', srv, sd))"
  shows "\<exists>loaded. Load (ae_config ae) opts = Inr loaded \<and> sv_watcher srv = NewWatcher (fst (startup_config ae loaded c)) 1 \<and> sv_bus srv = Some NewBus"
  using assms
  by (auto simp: serve_start_def Let_def SetPolicyRouter_def SetVersion_def api_New_def split: sum.splits prod.splits run.splits)

lemma Load_valid: "Load ce opts = Inr cfg \<Longrightarrow> Validate cfg = []"
  by (auto simp: Load_def Let_def split: read_outcome.splits sum.splits if_splits)

lemma srv_ok_new: "Validate cfg = [] \<Longrightarrow> sv_watcher s = NewWatcher cfg n \<Longrightarrow> sv_bus s = Some NewBus \<Longrightarrow> srv_ok s"
  using watch_ok_new [of cfg n] by (simp add: srv_ok_def current_config_def wt_Current_def NewWatcher_def NewBus_def bus_ok_def)

text \<open>
  C6: a server started without stored overrides has a valid configuration in force after any sequence
  of requests: \<open>Load\<close> returns only valid configurations, and the API publishes no other.
\<close>

theorem serve_config_valid:
  assumes "serve_start ae batch look order parse version opts (Inr (c, rows)) s k = Returns (Inr (ae', srv, sd))"
    and "cache_wf (cn_db c)" and "kv_view c = Map.empty" and "fair_order ae"
  shows "Validate (current_config (serve_all ae' reqs srv)) = [] \<and> srv_ok (serve_all ae' reqs srv)"
proof -
  obtain loaded where l: "Load (ae_config ae) opts = Inr loaded" "sv_watcher srv = NewWatcher (fst (startup_config ae loaded c)) 1" "sv_bus srv = Some NewBus"
    using serve_start_ok [OF assms(1)] by blast
  have "fst (startup_config ae loaded c) = loaded"
  proof (cases "GetAll c")
    case (Pair r c1)
    show ?thesis
    proof (cases r)
      case (Inr m)
      then have "m = Map.empty" using GetAll_ok [OF assms(2)] Pair assms(3) by simp
      moreover have "ag_order (ae_agents ae) [] = []" using assms(4) by (metis fair_order_def mset_zero_iff)
      ultimately show ?thesis by (simp add: startup_config_def all_overrides_def Pair Inr)
    qed (simp add: startup_config_def all_overrides_def Pair)
  qed
  with l have "srv_ok srv" using srv_ok_new [OF Load_valid [OF l(1)]] by simp
  then have "srv_ok (serve_all ae' reqs srv)" using serve_all_step [of srv ae' reqs] by (simp add: config_step_def)
  then show ?thesis by (simp add: srv_ok_def)
qed

lemma single_row:
  assumes "distinct (map fst kv)" and "\<forall>k v. (k, v) \<in> set kv \<longleftrightarrow> m k = Some v" and "m = [key \<mapsto> raw]"
  shows "kv = [(key, raw)]"
proof -
  have "(x, y) \<in> set kv \<longleftrightarrow> (x, y) = (key, raw)" for x y
    using spec [OF spec [OF assms(2), of x], of y] assms(3) by auto
  then have "set kv = {(key, raw)}" by auto
  with assms(1) show ?thesis by (cases kv; cases "tl kv") auto
qed

text \<open>
  the overrides that are stored in the database are applied at the start without being validated:
  one row that parses is in force together with the valid configuration that was loaded, whether or
  not the result is valid.
\<close>

theorem startup_override_unchecked:
  assumes "serve_start ae batch look order parse version opts (Inr (c, rows)) s k = Returns (Inr (ae', srv, sd))"
    and "healthy c" and "cache_wf (cn_db c)" and "kv_view c = [key \<mapsto> raw]" and "fair_order ae"
    and "Load (ae_config ae) opts = Inr loaded" and "ApplyOverrides (ae_config ae) (Some loaded) [(key, raw)] = Inr (Some cfg)"
  shows "Validate loaded = [] \<and> current_config srv = cfg \<and> config_version srv = 1"
proof -
  have l: "sv_watcher srv = NewWatcher (fst (startup_config ae loaded c)) 1"
    using serve_start_ok [OF assms(1)] assms(6) by auto
  obtain kv c1 where kv: "all_overrides ae c = (Inr kv, c1)" "distinct (map fst kv)" "\<forall>k v. (k, v) \<in> set kv \<longleftrightarrow> kv_view c k = Some v"
    using all_overrides_healthy [OF assms(2,3,5)] by blast
  have "kv = [(key, raw)]" by (rule single_row [OF kv(2,3) assms(4)])
  with kv(1) assms(7) have "fst (startup_config ae loaded c) = cfg" by (simp add: startup_config_def)
  with l Load_valid [OF assms(6)] show ?thesis
    by (simp add: current_config_def config_version_def wt_Current_def NewWatcher_def)
qed

section \<open>Witnesses\<close>

definition ex_unreachable :: env where
  "ex_unreachable = ex_env\<lparr> ev_server := (\<lambda>_ _. NoAnswer ''no network'') \<rparr>"

definition ex_list_fs :: fs where
  "ex_list_fs = \<lparr> fs_files = [''/tmp/d2ip-dlc.dat'' \<mapsto> FText ''list''], fs_fault = (\<lambda>_ _. False) \<rparr>"

theorem dump_without_metadata_panics_witness:
  "dumpCmd ex_unreachable [''geosite:ru''] ''https://dlc'' ''/tmp/d2ip-dlc.dat'' (24 * Hour) False ex_list_fs = Panics ''slice bounds out of range''"
proof -
  have "meta_path ''/tmp/d2ip-dlc.dat'' \<noteq> ''/tmp/d2ip-dlc.dat''" by (simp add: meta_path_def)
  then have "ReadFile ex_list_fs (meta_path ''/tmp/d2ip-dlc.dat'') = Inl ErrNotExist" by (simp add: ReadFile_def ex_list_fs_def)
  moreover have "Stat ex_list_fs ''/tmp/d2ip-dlc.dat''" by (simp add: Stat_def ex_list_fs_def)
  ultimately show ?thesis
    using dump_without_metadata_panics [of "''https://dlc''" "''/tmp/d2ip-dlc.dat''" ex_list_fs ex_unreachable "''no network''" "24 * Hour"]
    by (simp add: ex_unreachable_def duration_defs)
qed

definition ex_batch :: "resolver_Config \<Rightarrow> string list \<Rightarrow> ResolveResult list" where
  "ex_batch rc = map (\<lambda>d. \<lparr> r_Domain = d, r_IPv4 = [Addr4 1], r_IPv6 = [], r_Status = StatusValid, r_ResolvedAt = 5 * Second, r_Err = None \<rparr>)"

theorem resolve_writes_all_witness:
  "\<exists>c'. resolve_domains ex_batch \<lparr> rf_categories = [], rf_sourceURL = [], rf_cachePath = [], rf_maxAge = 0, rf_upstream = ''8.8.8.8:53'',
       rf_concurrency = 4, rf_qps = 10 \<rparr> (Inr (ex_conn no_fault empty_db)) [''a.com'', ''b.com''] =
     Inr (Some \<lparr> su_total = 2, su_valid = 2, su_failed = 0, su_nxdomain = 0 \<rparr>, Some c') \<and>
     domain_view (cn_db c') ''b.com'' = Some (''valid'', 5)"
proof -
  let ?fl = "\<lparr> rf_categories = [], rf_sourceURL = [], rf_cachePath = [], rf_maxAge = 0, rf_upstream = ''8.8.8.8:53'', rf_concurrency = 4, rf_qps = 10 \<rparr>"
  let ?rc = "DefaultConfig\<lparr> rc_Upstream := ''8.8.8.8:53'', rc_Concurrency := 4, rc_QPS := 10 \<rparr>"
  have "resolver_New (DefaultConfig\<lparr> rc_Upstream := rf_upstream ?fl, rc_Concurrency := rf_concurrency ?fl, rc_QPS := rf_qps ?fl \<rparr>) = Inr ?rc"
    by (simp add: resolver_New_def DefaultConfig_def)
  from resolve_writes_all [OF ex_healthy _ _ this, of empty_db "[''a.com'', ''b.com'']" ex_batch] obtain c' where
    r: "resolve_domains ex_batch ?fl (Inr (ex_conn no_fault empty_db)) [''a.com'', ''b.com''] =
      Inr (Some \<lparr> su_total = 2, su_valid = 2, su_failed = 0, su_nxdomain = 0 \<rparr>, Some c')"
    and v: "domain_view (cn_db c') = fold put_domain (map to_cache (ex_batch ?rc [''a.com'', ''b.com''])) (domain_view empty_db)"
    by (auto simp: cache_wf_empty ex_batch_def)
  have "domain_view (cn_db c') ''b.com'' = Some (''valid'', 5)"
    unfolding v by (simp add: ex_batch_def put_domain_def to_cache_def Unix_def Second_def Millisecond_def)
  with r show ?thesis by blast
qed


text \<open>A start on a machine without files, network and readable table of sources.\<close>

definition ex_cron :: cron_parser where
  "ex_cron e = None"

definition ex_rows_conn :: "source_row list conn" where
  "ex_rows_conn = \<lparr> cn_db = [], cn_calls = 0, cn_fault = (\<lambda>k. 0 < k), cn_cut = (\<lambda>_. None), cn_max_vars = 32766 \<rparr>"

definition ex_options :: LoadOptions where
  "ex_options = \<lparr> lo_ConfigFile = [], lo_SearchPaths = [], lo_KVOverrides = [] \<rparr>"

lemma create_no_panic: "fs_files s = Map.empty \<Longrightarrow> \<exists>r. createSource s cfg = Returns r"
  by (auto simp: createSource_def run_map_def geosite_New_def geoip_New_def v2fly_store_def NewHTTPStore_def loadMetadata_def ReadFile_def
      Let_def split: option.splits sum.splits if_splits run.splits)

lemma add_faulty:
  assumes "fs_files (rg_fs r) = Map.empty" and "cn_fault (rg_db r) = (\<lambda>k. 0 < k)" and "0 < cn_calls (rg_db r)"
  shows "\<exists>e db. AddSource ev cfg r = Returns (e, r\<lparr> rg_db := db \<rparr>) \<and> cn_fault db = (\<lambda>k. 0 < k) \<and> 0 < cn_calls db"
proof -
  obtain x where "createSource (rg_fs r) cfg = Returns x" using create_no_panic [OF assms(1)] by blast
  moreover have "r = r\<lparr> rg_db := rg_db r \<rparr>" by simp
  ultimately show ?thesis using assms(2,3)
    by (cases x) (auto simp: AddSource_def exec_def Let_def intro: exI [of _ "rg_db r"])
qed

lemma seed_faulty:
  assumes "fs_files (rg_fs r) = Map.empty" and "cn_fault (rg_db r) = (\<lambda>k. 0 < k)" and "0 < cn_calls (rg_db r)"
  shows "\<exists>db. seed_sources ev items r = Returns (r\<lparr> rg_db := db \<rparr>) \<and> cn_fault db = (\<lambda>k. 0 < k) \<and> 0 < cn_calls db"
  using assms
proof (induction items arbitrary: r)
  case Nil
  then show ?case by (auto intro!: exI [of _ "rg_db r"])
next
  case (Cons item items)
  obtain e db where a: "AddSource ev (source_of item) r = Returns (e, r\<lparr> rg_db := db \<rparr>)" "cn_fault db = (\<lambda>k. 0 < k)" "0 < cn_calls db"
    using add_faulty [OF Cons.prems] by blast
  with Cons.IH [of "r\<lparr> rg_db := db \<rparr>"] Cons.prems(1) show ?case by auto
qed

lemma registry_faulty: "\<exists>db. start_registry ev cfg ex_rows_conn no_files = Returns (Inr \<lparr> rg_db = db, rg_sources = [], rg_fs = no_files \<rparr>)"
proof -
  obtain db0 where new: "NewDBRegistry ex_rows_conn no_files = Inr \<lparr> rg_db = db0, rg_sources = [], rg_fs = no_files \<rparr>"
      "cn_fault db0 = (\<lambda>k. 0 < k)" "0 < cn_calls db0"
    by (auto simp: NewDBRegistry_def begin_or_commit_def exec_def ex_rows_conn_def)
  obtain db where "seed_sources ev (Sources cfg) \<lparr> rg_db = db0, rg_sources = [], rg_fs = no_files \<rparr> = Returns \<lparr> rg_db = db, rg_sources = [], rg_fs = no_files \<rparr>"
      "cn_fault db = (\<lambda>k. 0 < k)" "0 < cn_calls db"
    using seed_faulty [of "\<lparr> rg_db = db0, rg_sources = [], rg_fs = no_files \<rparr>" ev "Sources cfg"] new(2,3) by (auto simp: no_files_def)
  then show ?thesis using new(1) by (auto simp: start_registry_def LoadAll_def query_def exec_def Let_def)
qed

lemma ex_load: "Load (ae_config ex_api) ex_options = Inr Defaults"
proof -
  have none: "explicit (applyDefaultsToViper Defaults @ config_location ex_options @
      [ReadInConfig, SetEnvPrefix ''D2IP'', SetEnvKeyReplacer CHR ''.'' CHR ''_'', AutomaticEnv] @ bindAllEnvKeys) ''listen'' = None"
    by (simp add: explicit_append applyDefaultsToViper_def config_location_def ex_options_def DefaultSearchPaths_def bindAllEnvKeys_def)
  then have "listen_decode (applyDefaultsToViper Defaults @ config_location ex_options @
      [ReadInConfig, SetEnvPrefix ''D2IP'', SetEnvKeyReplacer CHR ''.'' CHR ''_'', AutomaticEnv] @ bindAllEnvKeys) Defaults = Inr Defaults"
    by (simp add: listen_decode_def get_str_def)
  then show ?thesis by (simp add: Load_def ex_api_def ex_config_env_def Let_def defaults_valid) (simp add: ex_options_def)
qed

lemma ex_serve:
  assumes "fst (startup_config ex_api Defaults c) = Defaults\<lparr> Listen := l \<rparr>"
  shows "\<exists>ae' srv sd. serve_start ex_api ex_batch (\<lambda>_. True) [] ex_cron (''dev'', ''unknown'') ex_options (Inr (c, ex_rows_conn)) no_files () = Returns (Inr (ae', srv, sd))"
proof -
  let ?cfg = "Defaults\<lparr> Listen := l \<rparr>"
  obtain c1 where c: "startup_config ex_api Defaults c = (?cfg, c1)" using assms by (metis prod.collapse)
  obtain db where r: "start_registry (ag_env (ae_agents ex_api)) ?cfg ex_rows_conn no_files = Returns (Inr \<lparr> rg_db = db, rg_sources = [], rg_fs = no_files \<rparr>)"
    using registry_faulty by blast
  have "resolver_New (resolver_config ?cfg) = Inr (resolver_config ?cfg)"
    by (simp add: resolver_New_def resolver_config_def Defaults_def)
  moreover have "\<exists>sd. start_scheduler ex_cron ?cfg = Inr sd"
    by (simp add: start_scheduler_def sched_New_def sched_Start_def ex_cron_def Defaults_def duration_defs Let_def)
  moreover have "\<exists>d. New_exporter (if exp_Dir (Export ?cfg) = [] then ''./out'' else exp_Dir (Export ?cfg)) no_files = Inr d"
    by (simp add: New_exporter_def MkdirAll_def no_files_def)
  ultimately show ?thesis
    using r by (auto simp: serve_start_def ex_load c Let_def split: prod.split)
qed

theorem serve_config_valid_witness:
  "\<exists>ae' srv sd. serve_start ex_api ex_batch (\<lambda>_. True) [] ex_cron (''dev'', ''unknown'') ex_options (Inr (ex_conn no_fault empty_db, ex_rows_conn)) no_files () = Returns (Inr (ae', srv, sd)) \<and>
     Validate (current_config (serve_all ae' [(0, ex_no_context, PutSettings (Inr [(''listen'', ''none'')]))] srv)) = []"
proof -
  have wf: "cache_wf (cn_db (ex_conn no_fault empty_db))" and empty: "kv_view (ex_conn no_fault empty_db) = Map.empty"
    by (simp_all add: cache_wf_empty) (simp add: kv_view_def empty_db_def)
  obtain kv c1 where kv: "all_overrides ex_api (ex_conn no_fault empty_db) = (Inr kv, c1)" "\<forall>k v. (k, v) \<in> set kv \<longleftrightarrow> kv_view (ex_conn no_fault empty_db) k = Some v"
    using all_overrides_healthy [OF ex_healthy wf ex_fair] by blast
  then have "kv = []" using empty by (cases kv) auto
  with kv(1) have "fst (startup_config ex_api Defaults (ex_conn no_fault empty_db)) = Defaults\<lparr> Listen := Listen Defaults \<rparr>" by (simp add: startup_config_def)
  from ex_serve [OF this] obtain ae' srv sd where
    s: "serve_start ex_api ex_batch (\<lambda>_. True) [] ex_cron (''dev'', ''unknown'') ex_options (Inr (ex_conn no_fault empty_db, ex_rows_conn)) no_files () = Returns (Inr (ae', srv, sd))"
    by blast
  with serve_config_valid [OF s wf empty ex_fair] show ?thesis by blast
qed

theorem startup_override_unchecked_witness:
  "\<exists>c ae' srv sd. serve_start ex_api ex_batch (\<lambda>_. True) [] ex_cron (''dev'', ''unknown'') ex_options (Inr (c, ex_rows_conn)) no_files () = Returns (Inr (ae', srv, sd)) \<and>
     Validate (current_config srv) \<noteq> []"
proof -
  let ?c = "ex_conn no_fault (empty_db\<lparr> tb_kv := [(''listen'', ''none'')] \<rparr>)"
  have wf: "cache_wf (cn_db ?c)" by (simp add: cache_wf_def empty_db_def)
  have view: "kv_view ?c = [''listen'' \<mapsto> ''none'']" by (simp add: kv_view_def fun_eq_iff)
  have "coerceKVValue ce ''listen'' ''none'' = Inr (AnyV (VStr ''none''))" for ce by code_simp
  note over = listen_override [OF this]
  obtain kv c1 where kv: "all_overrides ex_api ?c = (Inr kv, c1)" "distinct (map fst kv)" "\<forall>k v. (k, v) \<in> set kv \<longleftrightarrow> kv_view ?c k = Some v"
    using all_overrides_healthy [OF ex_healthy wf ex_fair] by blast
  have "kv = [(''listen'', ''none'')]" by (rule single_row [OF kv(2,3) view])
  with kv(1) over have "fst (startup_config ex_api Defaults ?c) = Defaults\<lparr> Listen := ''none'' \<rparr>" by (simp add: startup_config_def)
  from ex_serve [OF this] obtain ae' srv sd where
    s: "serve_start ex_api ex_batch (\<lambda>_. True) [] ex_cron (''dev'', ''unknown'') ex_options (Inr (?c, ex_rows_conn)) no_files () = Returns (Inr (ae', srv, sd))"
    by blast
  have "current_config srv = Defaults\<lparr> Listen := ''none'' \<rparr>"
    using startup_override_unchecked [OF s ex_healthy wf view ex_fair ex_load over] by blast
  moreover have "validateListen ''none'' \<noteq> []" by code_simp
  then have "Validate (Defaults\<lparr> Listen := ''none'' \<rparr>) \<noteq> []" by (simp add: Validate_def)
  ultimately show ?thesis using s by metis
qed

end
