(* ===== verification/Source_Locks.thy ===== *)
theory Source_Locks
  imports Registry
begin

text \<open>
  The read-write lock of the providers that serve prefixes by country (\<open>ipverse\<close>, \<open>v2flygeoip\<close>,
  \<open>mmdb\<close>): their methods as the sequences of lock operations and accesses they perform, run
  concurrently on one provider under Go's \<open>sync.RWMutex\<close>. A reader that arrives while a writer holds
  or awaits the lock waits until that writer has unlocked; a writer waits for the readers before it.
\<close>

section \<open>The lock and its users\<close>

text \<open>\<open>RWait\<close> and \<open>LWait\<close> are the two places where a goroutine sleeps inside the lock.\<close>

datatype 'p act = RLock | RWait | RUnlock | Lock | LWait | Unlock | Assign "'p \<Rightarrow> 'p" | Observe

record 'p shared =
  sh_threads :: "'p act list list"
  sh_readers :: nat
  sh_pending :: bool
  sh_data :: 'p
  sh_log :: "(nat \<times> 'p) list"

definition goto :: "nat \<Rightarrow> 'p act list \<Rightarrow> 'p shared \<Rightarrow> 'p shared" where
  "goto i as s = s\<lparr> sh_threads := (sh_threads s)[i := as] \<rparr>"

fun waiting :: "'p act list \<Rightarrow> bool" where
  "waiting (RWait # as) = True"
| "waiting _ = False"

fun grant :: "'p act list \<Rightarrow> 'p act list" where
  "grant (RWait # as) = as"
| "grant as = as"

text \<open>\<open>Unlock\<close> lets in every reader that waits.\<close>

definition release :: "'p shared \<Rightarrow> 'p shared" where
  "release s = s\<lparr> sh_threads := map grant (sh_threads s),
     sh_readers := sh_readers s + length (filter waiting (sh_threads s)), sh_pending := False \<rparr>"

text \<open>The next action of one goroutine, \<open>None\<close> when it is blocked or done.\<close>

definition act_step :: "nat \<Rightarrow> 'p shared \<Rightarrow> 'p shared option" where
  "act_step i s =
     (case sh_threads s ! i of
        [] \<Rightarrow> None
      | a # as \<Rightarrow>
          (case a of
             RLock \<Rightarrow> Some (if sh_pending s then goto i (RWait # as) s else (goto i as s)\<lparr> sh_readers := Suc (sh_readers s) \<rparr>)
           | RWait \<Rightarrow> None
           | RUnlock \<Rightarrow> Some ((goto i as s)\<lparr> sh_readers := sh_readers s - 1 \<rparr>)
           | Lock \<Rightarrow> if sh_pending s then None else Some ((goto i (LWait # as) s)\<lparr> sh_pending := True \<rparr>)
           | LWait \<Rightarrow> if sh_readers s = 0 then Some (goto i as s) else None
           | Unlock \<Rightarrow> Some (release (goto i as s))
           | Assign f \<Rightarrow> Some ((goto i as s)\<lparr> sh_data := f (sh_data s) \<rparr>)
           | Observe \<Rightarrow> Some ((goto i as s)\<lparr> sh_log := sh_log s @ [(i, sh_data s)] \<rparr>)))"

inductive lock_step :: "'p shared \<Rightarrow> 'p shared \<Rightarrow> bool" where
  "i < length (sh_threads s) \<Longrightarrow> act_step i s = Some s' \<Longrightarrow> lock_step s s'"

inductive_cases lock_stepE: "lock_step s s'"

section \<open>The methods\<close>

datatype 'l call = CLoad 'l | CGet | CInfo

definition get_acts :: "'p act list" where
  "get_acts = [RLock, Observe, RUnlock]"

text \<open>\<open>Info\<close> calls \<open>Categories\<close>, which takes the lock a second time, before it has released it.\<close>

definition info_acts :: "'p act list" where
  "info_acts = RLock # get_acts @ [Observe, RUnlock]"

definition load_acts :: "('p \<Rightarrow> 'p) \<Rightarrow> ('p \<Rightarrow> 'p) \<Rightarrow> 'p act list" where
  "load_acts reset load = [Lock, Assign reset, Assign load, Unlock]"

fun acts_of :: "('p \<Rightarrow> 'p) \<Rightarrow> ('l \<Rightarrow> 'p \<Rightarrow> 'p) \<Rightarrow> 'l call \<Rightarrow> 'p act list" where
  "acts_of reset load (CLoad l) = load_acts reset (load l)"
| "acts_of reset load CGet = get_acts"
| "acts_of reset load CInfo = info_acts"

definition lock_start :: "('p \<Rightarrow> 'p) \<Rightarrow> ('l \<Rightarrow> 'p \<Rightarrow> 'p) \<Rightarrow> 'l call list \<Rightarrow> 'p \<Rightarrow> 'p shared" where
  "lock_start reset load calls p =
     \<lparr> sh_threads = map (acts_of reset load) calls, sh_readers = 0, sh_pending = False, sh_data = p, sh_log = [] \<rparr>"

definition all_returned :: "'p shared \<Rightarrow> bool" where
  "all_returned s \<longleftrightarrow> list_all (\<lambda>t. t = []) (sh_threads s)"

text \<open>The provider after some of the loads have run, each from its first to its last statement.\<close>

definition loaded_by :: "('l \<Rightarrow> 'p \<Rightarrow> 'p) \<Rightarrow> 'l call list \<Rightarrow> 'p \<Rightarrow> 'p \<Rightarrow> bool" where
  "loaded_by load calls = (\<lambda>p p'. \<exists>l. CLoad l \<in> set calls \<and> p' = load l p)\<^sup>*\<^sup>*"

section \<open>The providers\<close>

fun by_country :: "source \<Rightarrow> bool" where
  "by_country (SrcIPverse p) = True"
| "by_country (SrcGeoIP p) = True"
| "by_country (SrcMMDB p) = True"
| "by_country _ = False"

text \<open>The first statements of the three \<open>Load\<close> methods.\<close>

fun src_reset :: "source \<Rightarrow> source" where
  "src_reset (SrcIPverse p) = SrcIPverse (p\<lparr> iv_prefixes := [], iv_lastErr := [], iv_loadedAt := None \<rparr>)"
| "src_reset (SrcGeoIP p) = SrcGeoIP (p\<lparr> gp_prefixes := [], gp_lastErr := [], gp_loadedAt := None \<rparr>)"
| "src_reset (SrcMMDB p) = SrcMMDB (p\<lparr> mm_prefixes := [], mm_lastErr := [], mm_loadedAt := None \<rparr>)"
| "src_reset p = p"

definition src_reload :: "env \<times> fs \<Rightarrow> source \<Rightarrow> source" where
  "src_reload l p = fst (snd (src_Load (fst l) p (snd l)))"

text \<open>The state in which the methods have been called and none has begun.\<close>

definition src_calls :: "(env \<times> fs) call list \<Rightarrow> source \<Rightarrow> source shared" where
  "src_calls = lock_start src_reset src_reload"

section \<open>What is left of a method\<close>

fun residues :: "('p \<Rightarrow> 'p) \<Rightarrow> ('l \<Rightarrow> 'p \<Rightarrow> 'p) \<Rightarrow> 'l call \<Rightarrow> 'p act list list" where
  "residues reset load CGet = [[RLock, Observe, RUnlock], [RWait, Observe, RUnlock], [Observe, RUnlock], [RUnlock], []]"
| "residues reset load CInfo = [[RLock, RLock, Observe, RUnlock, Observe, RUnlock], [RWait, RLock, Observe, RUnlock, Observe, RUnlock],
     [RLock, Observe, RUnlock, Observe, RUnlock], [RWait, Observe, RUnlock, Observe, RUnlock], [Observe, RUnlock, Observe, RUnlock],
     [RUnlock, Observe, RUnlock], [Observe, RUnlock], [RUnlock], []]"
| "residues reset load (CLoad l) = [[Lock, Assign reset, Assign (load l), Unlock], [LWait, Assign reset, Assign (load l), Unlock],
     [Assign reset, Assign (load l), Unlock], [Assign (load l), Unlock], [Unlock], []]"

definition thread_ok :: "('p \<Rightarrow> 'p) \<Rightarrow> ('l \<Rightarrow> 'p \<Rightarrow> 'p) \<Rightarrow> 'l call list \<Rightarrow> 'p act list \<Rightarrow> bool" where
  "thread_ok reset load calls t \<longleftrightarrow> (\<exists>c\<in>set calls. t \<in> set (residues reset load c))"

text \<open>The read locks a goroutine holds, and whether it holds or awaits the write lock, or is inside.\<close>

fun held :: "'p act list \<Rightarrow> nat" where
  "held [] = 0"
| "held (RUnlock # as) = Suc (held as)"
| "held (RLock # as) = held as - 1"
| "held (RWait # as) = held as - 1"
| "held (_ # as) = held as"

fun inside :: "'p act list \<Rightarrow> bool" where
  "inside (Assign f # as) = True"
| "inside (Unlock # as) = True"
| "inside _ = False"

fun writes :: "'p act list \<Rightarrow> bool" where
  "writes (LWait # as) = True"
| "writes as = inside as"

fun run_assigns :: "'p act list \<Rightarrow> 'p \<Rightarrow> 'p" where
  "run_assigns [] d = d"
| "run_assigns (Assign f # as) d = run_assigns as (f d)"
| "run_assigns (_ # as) d = run_assigns as d"

fun act_weight :: "'p act \<Rightarrow> nat" where
  "act_weight RLock = 2"
| "act_weight Lock = 2"
| "act_weight _ = 1"

definition lock_work :: "'p shared \<Rightarrow> nat" where
  "lock_work s = sum_list (map (\<lambda>t. sum_list (map act_weight t)) (sh_threads s))"

section \<open>Facts about single goroutines\<close>

lemma thread_ok_cases:
  assumes "thread_ok reset load calls t"
  obtains (get) "CGet \<in> set calls" "t \<in> set (residues reset load CGet)"
  | (info) "CInfo \<in> set calls" "t \<in> set (residues reset load CInfo)"
  | (load) l where "CLoad l \<in> set calls" "t \<in> set (residues reset load (CLoad l))"
  using assms unfolding thread_ok_def by (metis call.exhaust)

lemma thread_okI: "c \<in> set calls \<Longrightarrow> t \<in> set (residues reset load c) \<Longrightarrow> thread_ok reset load calls t"
  unfolding thread_ok_def by blast

lemma thread_ok_acts: "c \<in> set calls \<Longrightarrow> thread_ok reset load calls (acts_of reset load c)"
  by (erule thread_okI) (cases c; simp add: get_acts_def info_acts_def load_acts_def)

text \<open>One action keeps a goroutine on its method; so does being let in.\<close>

lemma thread_ok_step:
  assumes "thread_ok reset load calls (a # as)"
  shows "thread_ok reset load calls as"
    and "a = RLock \<Longrightarrow> thread_ok reset load calls (RWait # as)"
    and "a = Lock \<Longrightarrow> thread_ok reset load calls (LWait # as)"
  using assms by (cases rule: thread_ok_cases; (auto intro: thread_okI))+

lemma thread_ok_grant: "thread_ok reset load calls t \<Longrightarrow> thread_ok reset load calls (grant t)"
  by (cases t rule: grant.cases) (simp_all add: thread_ok_step(1))

text \<open>How the counts of a goroutine change with its head.\<close>

lemma thread_counts:
  assumes "thread_ok reset load calls (a # as)"
  shows "a = RLock \<or> a = RWait \<Longrightarrow> held as = Suc (held (a # as)) \<and> \<not> writes (a # as) \<and> \<not> writes as"
    and "a = RUnlock \<or> a = Observe \<Longrightarrow> 0 < held (a # as) \<and> \<not> writes as"
    and "a = Lock \<Longrightarrow> held as = 0 \<and> \<not> inside (LWait # as)"
    and "a = LWait \<Longrightarrow> held as = 0 \<and> inside as"
    and "a = Assign f \<Longrightarrow> held as = 0 \<and> inside as"
    and "a = Unlock \<Longrightarrow> as = []"
  using assms by (cases rule: thread_ok_cases; auto)+

lemma writes_not_held: "thread_ok reset load calls t \<Longrightarrow> writes t \<Longrightarrow> held t = 0"
  by (cases rule: thread_ok_cases) auto

lemma inside_writes: "inside t \<Longrightarrow> writes t"
  by (cases t rule: inside.cases) auto

lemma waiting_grant: "thread_ok reset load calls t \<Longrightarrow> held (grant t) = held t + of_bool (waiting t)"
  by (cases rule: thread_ok_cases) auto

lemma writes_grant: "thread_ok reset load calls t \<Longrightarrow> writes (grant t) = writes t \<and> inside (grant t) = inside t"
  by (cases rule: thread_ok_cases) auto

lemma waiting_next: "thread_ok reset load calls (a # as) \<Longrightarrow> \<not> waiting as"
  by (cases rule: thread_ok_cases) auto

lemma grant_not_waiting: "thread_ok reset load calls t \<Longrightarrow> \<not> waiting (grant t)"
  by (cases rule: thread_ok_cases) auto

text \<open>A load that has entered runs from its first statement.\<close>

lemma enter_runs:
  assumes "thread_ok reset load calls (LWait # as)"
  obtains l where "CLoad l \<in> set calls" and "\<And>d. run_assigns as d = load l (reset d)"
  using assms by (cases rule: thread_ok_cases) auto

lemma sum_map_update:
  fixes f :: "'a \<Rightarrow> nat"
  shows "i < length xs \<Longrightarrow> sum_list (map f (xs[i := x])) + f (xs ! i) = sum_list (map f xs) + f x"
  by (induction xs arbitrary: i) (auto split: nat.split simp: nth_Cons')

lemma sum_map_member:
  fixes f :: "'a \<Rightarrow> nat"
  shows "i < length xs \<Longrightarrow> f (xs ! i) \<le> sum_list (map f xs)"
  by (simp add: member_le_sum_list)

lemma sum_map_filter: "sum_list (map (\<lambda>x. of_bool (P x)) xs) = length (filter P xs)"
  by (induction xs) simp_all

section \<open>The invariant of the lock\<close>

text \<open>
  The reader count is the number of read locks held, at most one goroutine writes, no reader is
  inside with a writer, and the provider is between two loads unless a writer is inside, whose
  remaining statements then complete a load.
\<close>

definition lock_inv :: "('p \<Rightarrow> 'p) \<Rightarrow> ('l \<Rightarrow> 'p \<Rightarrow> 'p) \<Rightarrow> 'l call list \<Rightarrow> 'p \<Rightarrow> 'p shared \<Rightarrow> bool" where
  "lock_inv reset load calls p s \<longleftrightarrow>
     (\<forall>t\<in>set (sh_threads s). thread_ok reset load calls t \<and> (waiting t \<longrightarrow> sh_pending s)) \<and>
     sum_list (map held (sh_threads s)) = sh_readers s \<and>
     sum_list (map (\<lambda>t. of_bool (writes t)) (sh_threads s)) = (of_bool (sh_pending s) :: nat) \<and>
     (\<forall>t\<in>set (sh_threads s). inside t \<longrightarrow> sh_readers s = 0 \<and> loaded_by load calls p (run_assigns t (sh_data s))) \<and>
     ((\<forall>t\<in>set (sh_threads s). \<not> inside t) \<longrightarrow> loaded_by load calls p (sh_data s)) \<and>
     (\<forall>(i, q)\<in>set (sh_log s). loaded_by load calls p q)"

lemma acts_idle: "held (acts_of reset load c) = 0 \<and> \<not> writes (acts_of reset load c) \<and> \<not> inside (acts_of reset load c) \<and> \<not> waiting (acts_of reset load c)"
  by (cases c) (simp_all add: get_acts_def info_acts_def load_acts_def)

lemma lock_inv_start: "lock_inv reset load calls p (lock_start reset load calls p)"
  by (simp add: lock_inv_def lock_start_def acts_idle thread_ok_acts loaded_by_def comp_def)

lemma only_writer:
  assumes "sum_list (map (\<lambda>t. of_bool (writes t)) ts) \<le> (1 :: nat)" and "i < length ts" and "writes (ts ! i)"
    and "t \<in> set (ts[i := x])"
  shows "t = x \<or> \<not> writes t"
proof -
  obtain j where j: "j < length ts" "t = ts[i := x] ! j" using assms(4) by (metis in_set_conv_nth length_list_update)
  show ?thesis
  proof (cases "j = i")
    case False
    have z: "sum_list (map (\<lambda>t. of_bool (writes t)) (ts[i := []])) = (0 :: nat)"
      using sum_map_update [OF assms(2), of "\<lambda>t. of_bool (writes t) :: nat" "[]"] assms(1,3) by (simp del: sum_list_eq_0_iff)
    have "t \<in> set (ts[i := []])" using j False by (metis length_list_update nth_list_update_neq nth_mem)
    with z show ?thesis by (auto simp: sum_list_eq_0_iff)
  qed (use j in simp)
qed

lemma no_writer:
  assumes "sum_list (map (\<lambda>t. of_bool (writes t)) ts) = (0 :: nat)" and "t \<in> set ts"
  shows "\<not> writes t"
  using assms by (auto simp: sum_list_eq_0_iff)

lemma in_update: "t \<in> set (xs[i := x]) \<Longrightarrow> t = x \<or> t \<in> set xs"
  using set_update_subset_insert by fastforce

lemma sum_map_member': 
  fixes f :: "'a \<Rightarrow> nat"
  shows "t \<in> set xs \<Longrightarrow> f t \<le> sum_list (map f xs)"
  by (simp add: member_le_sum_list)

text \<open>One goroutine moves from \<open>t\<close> to \<open>x\<close>.\<close>

lemma inv_goto:
  assumes inv: "lock_inv reset load calls p s" and i: "i < length (sh_threads s)" "sh_threads s ! i = t"
    and s': "sh_threads s' = (sh_threads s)[i := x]"
    and x: "thread_ok reset load calls x" "waiting x \<Longrightarrow> sh_pending s'"
    and counts: "sh_readers s' + held t = sh_readers s + held x"
      "of_bool (sh_pending s') + of_bool (writes t) = (of_bool (sh_pending s) + of_bool (writes x) :: nat)"
      "sh_pending s \<Longrightarrow> sh_pending s'"
    and ins: "inside x \<Longrightarrow> sh_readers s' = 0 \<and> loaded_by load calls p (run_assigns x (sh_data s'))"
      "\<And>u. u \<in> set ((sh_threads s)[i := x]) \<Longrightarrow> u \<in> set (sh_threads s) \<Longrightarrow> inside u \<Longrightarrow> u \<noteq> x \<Longrightarrow> sh_readers s' = 0 \<and> sh_data s' = sh_data s"
    and out: "\<forall>u\<in>set ((sh_threads s)[i := x]). \<not> inside u \<Longrightarrow> loaded_by load calls p (sh_data s')"
    and lg: "\<forall>(j, q)\<in>set (sh_log s'). loaded_by load calls p q"
  shows "lock_inv reset load calls p s'"
proof -
  have "thread_ok reset load calls u \<and> (waiting u \<longrightarrow> sh_pending s')" if "u \<in> set ((sh_threads s)[i := x])" for u
    using in_update [OF that] x counts(3) inv unfolding lock_inv_def by blast
  moreover have "sh_readers s' = 0 \<and> loaded_by load calls p (run_assigns u (sh_data s'))"
    if "u \<in> set ((sh_threads s)[i := x])" "inside u" for u
  proof (cases "u = x")
    case False
    with in_update [OF that(1)] have "u \<in> set (sh_threads s)" by simp
    with ins(2) [OF that(1) this that(2) False] inv that(2) show ?thesis unfolding lock_inv_def by metis
  qed (use ins(1) that(2) in simp)
  moreover have "sum_list (map held ((sh_threads s)[i := x])) = sh_readers s'"
    using sum_map_update [OF i(1), of held x] counts(1) inv i(2) unfolding lock_inv_def by simp
  moreover have "sum_list (map (\<lambda>u. of_bool (writes u)) ((sh_threads s)[i := x])) = (of_bool (sh_pending s') :: nat)"
    using sum_map_update [OF i(1), of "\<lambda>u. of_bool (writes u)" x] counts(2) inv i(2) unfolding lock_inv_def by simp
  ultimately show ?thesis using out lg unfolding lock_inv_def s' by simp
qed

locale reloadable =
  fixes reset :: "'p \<Rightarrow> 'p" and load :: "'l \<Rightarrow> 'p \<Rightarrow> 'p"
  assumes load_reset: "load l (reset p) = load l p"
begin

lemma step_inv:
  assumes inv: "lock_inv reset load calls p s" and i: "i < length (sh_threads s)" and step: "act_step i s = Some s'"
  shows "lock_inv reset load calls p s'"
proof -
  let ?ts = "sh_threads s"
  obtain a as where t: "?ts ! i = a # as" using step by (cases "?ts ! i") (simp_all add: act_step_def)
  have mem: "a # as \<in> set ?ts" using i t by (metis nth_mem)
  from inv have ok: "\<And>t. t \<in> set ?ts \<Longrightarrow> thread_ok reset load calls t"
    and wt: "\<And>t. t \<in> set ?ts \<Longrightarrow> waiting t \<Longrightarrow> sh_pending s"
    and rd: "sum_list (map held ?ts) = sh_readers s"
    and wr: "sum_list (map (\<lambda>t. of_bool (writes t)) ?ts) = (of_bool (sh_pending s) :: nat)"
    and ins: "\<And>t. t \<in> set ?ts \<Longrightarrow> inside t \<Longrightarrow> sh_readers s = 0 \<and> loaded_by load calls p (run_assigns t (sh_data s))"
    and out: "(\<forall>t\<in>set ?ts. \<not> inside t) \<Longrightarrow> loaded_by load calls p (sh_data s)"
    and lg: "\<And>j q. (j, q) \<in> set (sh_log s) \<Longrightarrow> loaded_by load calls p q"
    unfolding lock_inv_def by (blast, blast, blast, blast, blast, blast, fast)
  note ok' = ok [OF mem] and tc = thread_counts [OF ok [OF mem]] and ts = thread_ok_step [OF ok [OF mem]]
  note lt = i t and next_ok = waiting_next [OF ok']
  have one: "sum_list (map (\<lambda>t. of_bool (writes t)) ?ts) \<le> (1 :: nat)" using wr by simp
  have idle: "\<not> inside u" if "\<not> sh_pending s" "u \<in> set ?ts" for u
    using no_writer [of ?ts u] wr that inside_writes by fastforce
  have alone: "u = x" if "writes (a # as)" "u \<in> set (?ts[i := x])" "inside u" for u x
    using only_writer [OF one i, of u x] that inside_writes t by metis
  have quiet: "\<not> inside u" if "0 < held (a # as)" "u \<in> set ?ts" for u
    using ins [OF that(2)] that(1) sum_map_member' [OF mem, of held] rd by fastforce
  have lgs: "\<forall>(j, q)\<in>set (sh_log s). loaded_by load calls p q" using lg by blast
  show ?thesis
  proof (cases a)
    case RLock
    note c = tc(1) [OF disjI1 [OF RLock]]
    have noin: "\<not> inside x" if "\<not> writes x" for x :: "'p act list" using that inside_writes by blast
    show ?thesis
    proof (cases "sh_pending s")
      case True
      with step t RLock have s': "s' = goto i (RWait # as) s" by (simp add: act_step_def)
      have "\<not> inside (a # as)" using RLock by simp
      then have "u \<in> set ?ts \<Longrightarrow> inside u \<Longrightarrow> u \<in> set (?ts[i := RWait # as])" for u
        using t i by (metis in_set_conv_nth length_list_update nth_list_update_neq)
      then have "loaded_by load calls p (sh_data s)" if "\<forall>u\<in>set (?ts[i := RWait # as]). \<not> inside u"
        using out that by blast
      with True c RLock lgs ins show ?thesis
        by (intro inv_goto [OF inv lt, of s' "RWait # as"]) (simp_all add: s' goto_def ts(2))
    next
      case False
      with step t RLock have s': "s' = (goto i as s)\<lparr> sh_readers := Suc (sh_readers s) \<rparr>" by (simp add: act_step_def)
      have "loaded_by load calls p (sh_data s)" using out idle [OF False] by blast
      with False c RLock lgs idle [OF False] noin show ?thesis
        by (intro inv_goto [OF inv lt, of s' as]) (simp_all add: s' goto_def ts(1) next_ok)
    qed
  next
    case RWait
    with step t show ?thesis by (simp add: act_step_def)
  next
    case RUnlock
    note c = tc(2) [OF disjI1 [OF RUnlock]]
    from step t RUnlock have s': "s' = (goto i as s)\<lparr> sh_readers := sh_readers s - 1 \<rparr>" by (simp add: act_step_def)
    have q: "\<not> inside u" if "u \<in> set ?ts" for u using quiet c that by blast
    have "loaded_by load calls p (sh_data s)" using out q by blast
    moreover have "0 < sh_readers s" using c sum_map_member' [OF mem, of held] rd by simp
    moreover have "\<not> inside as" using c inside_writes by blast
    ultimately show ?thesis using RUnlock c lgs q
      by (intro inv_goto [OF inv lt, of s' as]) (simp_all add: s' goto_def ts(1) next_ok)
  next
    case Lock
    note c = tc(3) [OF Lock]
    from step t Lock have pn: "\<not> sh_pending s" and s': "s' = (goto i (LWait # as) s)\<lparr> sh_pending := True \<rparr>"
      by (simp_all add: act_step_def split: if_splits)
    have "loaded_by load calls p (sh_data s)" using out idle [OF pn] by blast
    then show ?thesis using Lock c lgs idle [OF pn] pn
      by (intro inv_goto [OF inv lt, of s' "LWait # as"]) (simp_all add: s' goto_def ts(3))
  next
    case LWait
    note c = tc(4) [OF LWait]
    from step t LWait have r0: "sh_readers s = 0" and s': "s' = goto i as s" by (simp_all add: act_step_def split: if_splits)
    have "\<not> inside u" if "u \<in> set ?ts" for u using alone [of u "a # as"] that list_update_id [of ?ts i] t LWait by auto
    then have "loaded_by load calls p (sh_data s)" using out by blast
    moreover obtain l where "CLoad l \<in> set calls" "\<And>d. run_assigns as d = load l (reset d)"
      using enter_runs ok' LWait by metis
    ultimately have "loaded_by load calls p (run_assigns as (sh_data s))"
      unfolding loaded_by_def load_reset by (metis (mono_tags, lifting) load_reset rtranclp.rtrancl_into_rtrancl)
    moreover have "as \<in> set (?ts[i := as])" using i by (simp add: set_update_memI)
    ultimately show ?thesis using LWait c lgs r0 inside_writes [of as]
      by (intro inv_goto [OF inv lt, of s' as]) (auto simp: s' goto_def ts(1) next_ok)
  next
    case Unlock
    note as = tc(6) [OF Unlock]
    let ?xs = "?ts[i := []]"
    from step t Unlock as have s': "s' = release (goto i [] s)" by (simp add: act_step_def)
    have t': "?ts ! i = [Unlock]" using t Unlock as by simp
    have w: "writes (?ts ! i)" "sh_readers s = 0" "loaded_by load calls p (sh_data s)"
      using ins [OF mem] Unlock as t' by simp_all
    have okx: "thread_ok reset load calls u" if "u \<in> set ?xs" for u using in_update [OF that] ok ts(1) as by auto
    have nw: "\<not> writes u" if "u \<in> set ?xs" for u using only_writer [OF one i w(1) that] by auto
    have "sum_list (map (\<lambda>u. held (grant u)) ?xs) = sum_list (map (\<lambda>u. held u + of_bool (waiting u)) ?xs)"
      by (rule arg_cong [where f = sum_list]) (simp add: waiting_grant [OF okx])
    also have "\<dots> = sum_list (map held ?xs) + length (filter waiting ?xs)" by (simp add: sum_list_addf sum_map_filter)
    also have "sum_list (map held ?xs) = sh_readers s" using sum_map_update [OF i, of held "[]"] rd t' by simp
    finally have h: "sum_list (map held (sh_threads s')) = sh_readers s'" by (simp add: s' release_def goto_def comp_def)
    have g: "thread_ok reset load calls u \<and> \<not> waiting u \<and> \<not> writes u \<and> \<not> inside u" if "u \<in> set (sh_threads s')" for u
    proof -
      from that obtain v where v: "v \<in> set ?xs" "u = grant v" by (auto simp: s' release_def goto_def)
      with writes_grant [OF okx [OF v(1)]] nw [OF v(1)] inside_writes [of v] show ?thesis
        by (auto simp: thread_ok_grant [OF okx] grant_not_waiting [OF okx])
    qed
    have "sh_pending s' = False" "sh_data s' = sh_data s" "sh_log s' = sh_log s" by (simp_all add: s' release_def goto_def)
    with h g w(3) lgs show ?thesis unfolding lock_inv_def by (simp add: sum_list_eq_0_iff)
  next
    case (Assign f)
    note c = tc(5) [OF Assign]
    from step t Assign have s': "s' = (goto i as s)\<lparr> sh_data := f (sh_data s) \<rparr>" by (simp add: act_step_def)
    have "sh_readers s = 0 \<and> loaded_by load calls p (run_assigns as (f (sh_data s)))" using ins [OF mem] Assign by simp
    moreover have "as \<in> set (?ts[i := as])" using i by (simp add: set_update_memI)
    moreover have "u = as" if "u \<in> set (?ts[i := as])" "inside u" for u using alone [of u as] that Assign by simp
    ultimately show ?thesis using Assign c lgs inside_writes [of as]
      by (intro inv_goto [OF inv lt, of s' as]) (auto simp: s' goto_def ts(1) next_ok)
  next
    case Observe
    note c = tc(2) [OF disjI2 [OF Observe]]
    from step t Observe have s': "s' = (goto i as s)\<lparr> sh_log := sh_log s @ [(i, sh_data s)] \<rparr>" by (simp add: act_step_def)
    have q: "\<not> inside u" if "u \<in> set ?ts" for u using quiet c that by blast
    have "loaded_by load calls p (sh_data s)" using out q by blast
    moreover have "\<not> inside as" using c inside_writes by blast
    ultimately show ?thesis using Observe c lgs q
      by (intro inv_goto [OF inv lt, of s' as]) (simp_all add: s' goto_def ts(1) next_ok)
  qed
qed

lemma reachable_inv: "lock_step\<^sup>*\<^sup>* (lock_start reset load calls p) s \<Longrightarrow> lock_inv reset load calls p s"
proof (induction rule: rtranclp_induct)
  case (step s s')
  from step.hyps(2) step.IH show ?case by (elim lock_stepE) (rule step_inv)
qed (rule lock_inv_start)

lemma observed_loaded:
  "lock_step\<^sup>*\<^sup>* (lock_start reset load calls p) s \<Longrightarrow> (i, q) \<in> set (sh_log s) \<Longrightarrow> loaded_by load calls p q"
  using reachable_inv unfolding lock_inv_def by fast

text \<open>Without a nested read lock a goroutine inside is never the one that is blocked.\<close>

lemma not_stuck:
  assumes "lock_step\<^sup>*\<^sup>* (lock_start reset load calls p) s" and "CInfo \<notin> set calls" and "\<not> all_returned s"
  shows "\<exists>s'. lock_step s s'"
proof (rule ccontr)
  assume stuck: "\<nexists>s'. lock_step s s'"
  note inv = reachable_inv [OF assms(1)]
  have blocked: "act_step i s = None" if "i < length (sh_threads s)" for i
    using stuck that lock_step.intros by (metis not_Some_eq)
  have head: "t = [] \<or> hd t = RWait \<or> (hd t = Lock \<and> sh_pending s) \<or> (hd t = LWait \<and> 0 < sh_readers s)" if t: "t \<in> set (sh_threads s)" for t
  proof -
    obtain i where i: "i < length (sh_threads s)" "t = sh_threads s ! i" using t by (metis in_set_conv_nth)
    show ?thesis
    proof (cases t)
      case (Cons a as)
      with i(2) have "sh_threads s ! i = a # as" by simp
      with blocked [OF i(1)] Cons show ?thesis by (cases a) (auto simp: act_step_def split: if_splits)
    qed simp
  qed
  have ok: "thread_ok reset load calls t" "waiting t \<longrightarrow> sh_pending s" if "t \<in> set (sh_threads s)" for t
    using inv that unfolding lock_inv_def by blast+
  have free: "held t = 0" if "t \<in> set (sh_threads s)" for t
    using ok(1) [OF that] head [OF that] assms(2) by (cases rule: thread_ok_cases) auto
  have "sum_list (map held (sh_threads s)) = 0" using free by (simp add: sum_list_eq_0_iff)
  then have r0: "sh_readers s = 0" using inv unfolding lock_inv_def by metis
  obtain t where t: "t \<in> set (sh_threads s)" "t \<noteq> []" using assms(3) by (auto simp: all_returned_def list_all_iff)
  have "sh_pending s" using head [OF t(1)] ok(2) [OF t(1)] t(2) r0 by (cases t) auto
  then have "sum_list (map (\<lambda>t. of_bool (writes t)) (sh_threads s)) \<noteq> (0 :: nat)" using inv unfolding lock_inv_def by simp
  then obtain w where w: "w \<in> set (sh_threads s)" "writes w" by (auto simp: sum_list_eq_0_iff)
  with head [OF w(1)] r0 show False by (cases w) auto
qed

end

section \<open>Every method ends\<close>

lemma work_release: "lock_work (release s) \<le> lock_work s"
proof -
  have "sum_list (map act_weight (grant t)) \<le> sum_list (map act_weight t)" for t :: "'a act list"
    by (cases t rule: grant.cases) simp_all
  then show ?thesis unfolding lock_work_def release_def by (simp add: comp_def sum_list_mono)
qed

lemma work_goto:
  assumes "i < length (sh_threads s)"
  shows "lock_work (goto i as s) + sum_list (map act_weight (sh_threads s ! i)) = lock_work s + sum_list (map act_weight as)"
  using sum_map_update [OF assms, of "\<lambda>t. sum_list (map act_weight t)" as] by (simp add: lock_work_def goto_def)

lemma lock_work_update [simp]:
  "lock_work (s\<lparr> sh_readers := r \<rparr>) = lock_work s" "lock_work (s\<lparr> sh_pending := b \<rparr>) = lock_work s"
  "lock_work (s\<lparr> sh_data := d \<rparr>) = lock_work s" "lock_work (s\<lparr> sh_log := l \<rparr>) = lock_work s"
  by (simp_all add: lock_work_def)

lemma step_work: "lock_step s s' \<Longrightarrow> lock_work s' < lock_work s"
proof (elim lock_stepE)
  fix i
  assume i: "i < length (sh_threads s)" and st: "act_step i s = Some s'"
  then obtain a as where t: "sh_threads s ! i = a # as" by (cases "sh_threads s ! i") (simp_all add: act_step_def)
  note g = work_goto [OF i, unfolded t]
  show "lock_work s' < lock_work s"
    using st t g [of as] g [of "RWait # as"] g [of "LWait # as"] work_release [of "goto i as s"]
    by (cases a) (auto simp: act_step_def split: if_splits)
qed

lemma steps_work: "(lock_step ^^ n) s s' \<Longrightarrow> n + lock_work s' \<le> lock_work s"
proof (induction n arbitrary: s')
  case (Suc n)
  then obtain u where "(lock_step ^^ n) s u" "lock_step u s'" by auto
  with Suc.IH [of u] step_work [of u s'] show ?case by simp
qed simp

lemma start_work: "lock_work (lock_start reset load calls p) \<le> 8 * length calls"
proof (induction calls)
  case (Cons c calls)
  have "sum_list (map act_weight (acts_of reset load c)) \<le> 8"
    by (cases c) (simp_all add: get_acts_def info_acts_def load_acts_def)
  with Cons show ?case by (simp add: lock_work_def lock_start_def)
qed (simp add: lock_work_def lock_start_def)

section \<open>The providers by country\<close>

interpretation providers: reloadable src_reset src_reload
proof unfold_locales
  fix l :: "env \<times> fs" and p
  show "src_reload l (src_reset p) = src_reload l p"
  proof (cases p)
    case (SrcIPverse q)
    then show ?thesis by (simp add: src_reload_def ipverse_Load_def split: prod.split option.split)
  next
    case (SrcGeoIP q)
    then show ?thesis by (simp add: src_reload_def geoip_Load_def)
  next
    case (SrcMMDB q)
    then show ?thesis by (simp add: src_reload_def mmdb_Load_def Let_def)
  qed simp_all
qed

section \<open>Properties\<close>

text \<open>
  C19: on a provider by country, whatever calls of \<open>Load\<close>, \<open>Info\<close>, \<open>Categories\<close> and \<open>GetPrefixes\<close> run
  concurrently and in whatever order their steps come, every value a reader sees is the value after
  a number of complete loads: no reader sees the emptied map of a load that has begun.
\<close>

theorem provider_reads_atomic:
  assumes "by_country p" and "lock_step\<^sup>*\<^sup>* (src_calls calls p) s" and "(i, q) \<in> set (sh_log s)"
  shows "loaded_by src_reload calls p q"
  using providers.observed_loaded assms(2,3) unfolding src_calls_def .

text \<open>
  C37: calls that do not include \<open>Info\<close> all return: in every reachable state in which one of them
  has not, a step is possible, and no run has more than eight steps for each call.
\<close>

theorem provider_calls_return:
  assumes "by_country p" and "CInfo \<notin> set calls" and "(lock_step ^^ n) (src_calls calls p) s"
  shows "n \<le> 8 * length calls \<and> (all_returned s \<or> (\<exists>s'. lock_step s s'))"
proof
  show "n \<le> 8 * length calls" using steps_work assms(3) start_work unfolding src_calls_def by (meson add_leD1 le_trans)
  from assms(3) have "lock_step\<^sup>*\<^sup>* (lock_start src_reset src_reload calls p) s"
    unfolding src_calls_def by (rule relpowp_imp_rtranclp)
  with providers.not_stuck assms(2) show "all_returned s \<or> (\<exists>s'. lock_step s s')" by blast
qed

text \<open>
  \<open>Info\<close> can deadlock with a \<open>Load\<close> that comes between its two read locks: a state is reachable
  in which neither call has returned, neither can ever move again and every later reader waits too.
\<close>

theorem info_load_deadlock:
  assumes "by_country p"
  shows "\<exists>s. lock_step\<^sup>*\<^sup>* (src_calls [CInfo, CLoad l, CGet] p) s \<and> (\<forall>s'. \<not> lock_step s s') \<and>
    (\<forall>t\<in>set (sh_threads s). t \<noteq> [])"
proof -
  let ?L = "[LWait, Assign src_reset, Assign (src_reload l), Unlock]"
  let ?s0 = "src_calls [CInfo, CLoad l, CGet] p"
  let ?s1 = "?s0\<lparr> sh_threads := [get_acts @ [Observe, RUnlock], load_acts src_reset (src_reload l), get_acts], sh_readers := 1 \<rparr>"
  let ?s2 = "?s1\<lparr> sh_threads := [get_acts @ [Observe, RUnlock], ?L, get_acts], sh_pending := True \<rparr>"
  let ?s3 = "?s2\<lparr> sh_threads := [[RWait, Observe, RUnlock, Observe, RUnlock], ?L, get_acts] \<rparr>"
  let ?s4 = "?s2\<lparr> sh_threads := [[RWait, Observe, RUnlock, Observe, RUnlock], ?L, [RWait, Observe, RUnlock]] \<rparr>"
  note defs = src_calls_def lock_start_def act_step_def goto_def get_acts_def info_acts_def load_acts_def
  have "lock_step ?s0 ?s1" by (rule lock_step.intros [of 0]) (simp_all add: defs)
  moreover have "lock_step ?s1 ?s2" by (rule lock_step.intros [of 1]) (simp_all add: defs)
  moreover have "lock_step ?s2 ?s3" by (rule lock_step.intros [of 0]) (simp_all add: defs)
  moreover have "lock_step ?s3 ?s4" by (rule lock_step.intros [of 2]) (simp_all add: defs)
  ultimately have "lock_step\<^sup>*\<^sup>* ?s0 ?s4" by (meson converse_rtranclp_into_rtranclp rtranclp.rtrancl_refl)
  moreover have "\<not> lock_step ?s4 s'" for s'
    by (auto simp: act_step_def less_Suc_eq numeral_3_eq_3 elim!: lock_stepE)
  ultimately show ?thesis by (intro exI [of _ ?s4]) simp
qed

section \<open>Witnesses\<close>

definition ex_mmdb :: source where
  "ex_mmdb = SrcMMDB \<lparr> mm_id = ''m'', mm_prefix = ''mmdb'', mm_File = ''/db'', mm_URL = [], mm_Countries = [],
     mm_prefixes = [(''ru'', [])], mm_loadedAt = Some 1, mm_lastErr = [], mm_reader = True \<rparr>"

lemma ex_mmdb_by_country: "by_country ex_mmdb"
  by (simp add: ex_mmdb_def)

definition ex_read :: "source shared" where
  "ex_read = (src_calls [CGet] ex_mmdb)\<lparr> sh_threads := [[RUnlock]], sh_readers := 1, sh_log := [(0, ex_mmdb)] \<rparr>"

lemma ex_read_steps: "(lock_step ^^ 2) (src_calls [CGet] ex_mmdb) ex_read"
proof -
  let ?s = "(src_calls [CGet] ex_mmdb)\<lparr> sh_threads := [[Observe, RUnlock]], sh_readers := 1 \<rparr>"
  note defs = src_calls_def lock_start_def act_step_def goto_def get_acts_def ex_read_def
  have "lock_step (src_calls [CGet] ex_mmdb) ?s" "lock_step ?s ex_read"
    by (rule lock_step.intros [of 0]; simp add: defs)+
  then show ?thesis by (auto simp: numeral_2_eq_2)
qed

theorem provider_reads_atomic_witness: "loaded_by src_reload [CGet] ex_mmdb ex_mmdb"
  by (rule provider_reads_atomic [OF ex_mmdb_by_country relpowp_imp_rtranclp [OF ex_read_steps], of 0])
    (simp add: ex_read_def)

theorem provider_calls_return_witness: "(2 :: nat) \<le> 8 * length [CGet :: (env \<times> fs) call] \<and> (\<exists>s'. lock_step ex_read s')"
  using provider_calls_return [OF ex_mmdb_by_country _ ex_read_steps] by (simp add: all_returned_def ex_read_def)

theorem info_load_deadlock_witness:
  "\<exists>s. lock_step\<^sup>*\<^sup>* (src_calls [CInfo, CLoad (ex_env, ex_dir_fs), CGet] ex_mmdb) s \<and> length (filter (\<lambda>t. t \<noteq> []) (sh_threads s)) = length (sh_threads s)"
  using info_load_deadlock [OF ex_mmdb_by_country, of "(ex_env, ex_dir_fs)"] by (metis (mono_tags, lifting) filter_id_conv)

end
