(* ===== verification/Event_Stream.thy ===== *)
theory Event_Stream
  imports Events "HOL-Library.Sublist"
begin

text \<open>
  The event stream of the API (\<open>internal/api/events.go\<close>): a client's connection as a state machine
  over the bus, in which the handler's turns interleave with publications and with other clients
  that come and go. Serialising an event is a parameter; a publication is one step of the bus.
\<close>

section \<open>The handler\<close>

text \<open>What is written and flushed: messages with a type and a data line, and comments.\<close>

datatype chunk = Message string string | Comment string

fun chunk_text :: "chunk \<Rightarrow> string" where
  "chunk_text (Message ty data) = ''event: '' @ ty @ [newline] @ ''data: '' @ data @ [newline, newline]"
| "chunk_text (Comment c) = CHR '':'' # c @ [newline, newline]"

text \<open>What the handler reads of an event: its type and \<open>json.Marshal\<close> of its data.\<close>

record 'e codec =
  co_type :: "'e \<Rightarrow> string"
  co_marshal :: "'e \<Rightarrow> string result"

record 'e stream =
  es_bus :: "'e bus"
  es_chan :: nat
  es_out :: "chunk list"
  es_running :: bool

definition stream_topics :: "string list" where
  "stream_topics = [''pipeline'', ''config'', ''routing'']"

datatype 'e started = Unsupported | NoBus chunk | Streaming "'e stream"

definition handleEvents :: "bool \<Rightarrow> 'e bus option \<Rightarrow> 'e started" where
  "handleEvents flusher bus =
     (if \<not> flusher then Unsupported
      else case bus of
        None \<Rightarrow> NoBus (Message ''error'' ''{\"message\":\"event bus not initialized\"}'')
      | Some b \<Rightarrow>
          (case Subscribe stream_topics b of (c, b') \<Rightarrow>
             Streaming \<lparr> es_bus = b', es_chan = c, es_out = [Message ''connected'' ''{}''], es_running = True \<rparr>))"

text \<open>An event whose data cannot be marshalled is logged and skipped.\<close>

definition frame :: "'e codec \<Rightarrow> 'e \<Rightarrow> chunk list" where
  "frame co ev = (case co_marshal co ev of Inl _ \<Rightarrow> [] | Inr d \<Rightarrow> [Message (co_type co ev) d])"

text \<open>The receive branch: blocked on an empty open channel; a closed one yields the zero event for ever.\<close>

definition take_event :: "'e codec \<Rightarrow> 'e stream \<Rightarrow> 'e stream option" where
  "take_event co s =
     (case receive (es_chan s) (es_bus s) of
        (Some ev, b) \<Rightarrow> Some (s\<lparr> es_bus := b, es_out := es_out s @ frame co ev \<rparr>)
      | (None, b) \<Rightarrow>
          if ch_closed (bs_chans (es_bus s) ! es_chan s) then Some (s\<lparr> es_out := es_out s @ [Message [] ''null''] \<rparr>)
          else None)"

definition write_ping :: "'e stream \<Rightarrow> 'e stream" where
  "write_ping s = s\<lparr> es_out := es_out s @ [Comment ''ping''] \<rparr>"

text \<open>The client has gone: the farewell, then the deferred \<open>Unsubscribe\<close>.\<close>

definition say_bye :: "'e stream \<Rightarrow> 'e stream run" where
  "say_bye s =
     (case Unsubscribe (es_chan s) (es_bus s) of
        Panics e \<Rightarrow> Panics e
      | Returns b \<Rightarrow> Returns (s\<lparr> es_bus := b, es_out := es_out s @ [Comment ''bye''], es_running := False \<rparr>))"

section \<open>The connection among the others\<close>

datatype 'e stream_act = Published string 'e | Received | Pinged | Left | OtherClient

inductive stream_step :: "'e codec \<Rightarrow> 'e stream_act \<Rightarrow> 'e stream \<Rightarrow> 'e stream \<Rightarrow> bool" for co where
  publish: "bus_Publish topic ev (es_bus s) = Returns b \<Longrightarrow> stream_step co (Published topic ev) s (s\<lparr> es_bus := b \<rparr>)"
| recv: "es_running s \<Longrightarrow> take_event co s = Some s' \<Longrightarrow> stream_step co Received s s'"
| ping: "es_running s \<Longrightarrow> stream_step co Pinged s (write_ping s)"
| leave: "es_running s \<Longrightarrow> say_bye s = Returns s' \<Longrightarrow> stream_step co Left s s'"
| other_comes: "distinct topics \<Longrightarrow> Subscribe topics (es_bus s) = (c, b) \<Longrightarrow> stream_step co OtherClient s (s\<lparr> es_bus := b \<rparr>)"
| other_goes: "c \<noteq> es_chan s \<Longrightarrow> c < length (bs_chans (es_bus s)) \<Longrightarrow> \<not> ch_closed (bs_chans (es_bus s) ! c) \<Longrightarrow>
    Unsubscribe c (es_bus s) = Returns b \<Longrightarrow> stream_step co OtherClient s (s\<lparr> es_bus := b \<rparr>)"

inductive stream_run :: "'e codec \<Rightarrow> 'e stream \<Rightarrow> 'e stream_act list \<Rightarrow> 'e stream \<Rightarrow> bool" for co s0 where
  start: "stream_run co s0 [] s0"
| more_acts: "stream_run co s0 ls s \<Longrightarrow> stream_step co l s s' \<Longrightarrow> stream_run co s0 (ls @ [l]) s'"

text \<open>The events published on the stream's topics, and the number of events the handler has taken.\<close>

fun published :: "'e stream_act list \<Rightarrow> 'e list" where
  "published [] = []"
| "published (Published t ev # ls) = (if t \<in> set stream_topics then ev # published ls else published ls)"
| "published (_ # ls) = published ls"

fun received :: "'e stream_act list \<Rightarrow> nat" where
  "received [] = 0"
| "received (Received # ls) = Suc (received ls)"
| "received (_ # ls) = received ls"

fun messages :: "chunk list \<Rightarrow> chunk list" where
  "messages [] = []"
| "messages (Message t d # cs) = Message t d # messages cs"
| "messages (Comment c # cs) = messages cs"

section \<open>The invariant of a connection\<close>

text \<open>The handler never falls more than sixteen events behind what is published.\<close>

definition keeps_up :: "'e stream_act list \<Rightarrow> bool" where
  "keeps_up ls \<longleftrightarrow> (\<forall>k\<le>length ls. length (published (take k ls)) \<le> chan_cap + received (take k ls))"

abbreviation stream_buf :: "'e stream \<Rightarrow> 'e list" where
  "stream_buf s \<equiv> ch_buf (bs_chans (es_bus s) ! es_chan s)"

definition frames :: "'e codec \<Rightarrow> 'e list \<Rightarrow> chunk list" where
  "frames co evs = concat (map (frame co) evs)"

definition subscribed :: "'e stream \<Rightarrow> bool" where
  "subscribed s \<longleftrightarrow> bus_ok (es_bus s) \<and> es_chan s < length (bs_chans (es_bus s)) \<and>
     ch_closed (bs_chans (es_bus s) ! es_chan s) = (\<not> es_running s) \<and>
     (\<forall>t. es_chan s \<in> set (topic_subs (es_bus s) t) \<longleftrightarrow> es_running s \<and> t \<in> set stream_topics)"

definition accepted_ok :: "'e codec \<Rightarrow> 'e stream_act list \<Rightarrow> 'e stream \<Rightarrow> 'e list \<Rightarrow> bool" where
  "accepted_ok co ls s acc \<longleftrightarrow> subseq acc (published ls) \<and>
     messages (es_out s) @ frames co (stream_buf s) = Message ''connected'' ''{}'' # frames co acc \<and>
     length acc = received ls + length (stream_buf s) \<and> (es_running s \<longrightarrow> keeps_up ls \<longrightarrow> acc = published ls)"

definition stream_inv :: "'e codec \<Rightarrow> 'e stream_act list \<Rightarrow> 'e stream \<Rightarrow> bool" where
  "stream_inv co ls s \<longleftrightarrow> subscribed s \<and> (\<exists>acc. accepted_ok co ls s acc)"

lemma published_app [simp]: "published (ls @ ls') = published ls @ published ls'"
  by (induction ls rule: published.induct) simp_all

lemma received_app [simp]: "received (ls @ ls') = received ls + received ls'"
  by (induction ls rule: received.induct) simp_all

lemma messages_app [simp]: "messages (cs @ cs') = messages cs @ messages cs'"
  by (induction cs rule: messages.induct) simp_all

lemma messages_frame [simp]: "messages (frame co ev) = frame co ev"
  by (simp add: frame_def split: sum.split)

lemma frames_simps [simp]: "frames co [] = []" "frames co (ev # evs) = frame co ev @ frames co evs"
  "frames co (evs @ evs') = frames co evs @ frames co evs'"
  by (simp_all add: frames_def)

lemma keeps_up_app: "keeps_up (ls @ [l]) \<Longrightarrow> keeps_up ls"
  unfolding keeps_up_def
proof (intro allI impI)
  fix k
  assume "\<forall>k\<le>length (ls @ [l]). length (published (take k (ls @ [l]))) \<le> chan_cap + received (take k (ls @ [l]))" and k: "k \<le> length ls"
  then have "length (published (take k (ls @ [l]))) \<le> chan_cap + received (take k (ls @ [l]))" by (metis le_SucI length_append_singleton)
  with k show "length (published (take k ls)) \<le> chan_cap + received (take k ls)" by simp
qed

lemma keeps_up_last: "keeps_up ls \<Longrightarrow> length (published ls) \<le> chan_cap + received ls"
  unfolding keeps_up_def by (metis order_refl take_all)

lemma stream_inv_start:
  assumes "bus_ok b" and "handleEvents True (Some b) = Streaming s"
  shows "stream_inv co [] s"
proof -
  obtain c b' where sub: "Subscribe stream_topics b = (c, b')" by (rule prod.exhaust)
  have "distinct stream_topics" by (simp add: stream_topics_def)
  note ok = Subscribe_ok [OF assms(1) this sub]
  have s: "s = \<lparr> es_bus = b', es_chan = c, es_out = [Message ''connected'' ''{}''], es_running = True \<rparr>"
    using assms(2) sub by (simp add: handleEvents_def)
  have "c \<notin> set (topic_subs b t)" for t using topic_subs_ok [OF assms(1), of t] ok by blast
  with ok s have "subscribed s" by (simp add: subscribed_def)
  moreover have "accepted_ok co [] s []" using ok s by (simp add: accepted_ok_def)
  ultimately show ?thesis unfolding stream_inv_def by blast
qed

text \<open>Steps that neither touch the stream's buffer nor write a message.\<close>

lemma quiet_step:
  assumes "accepted_ok co ls s acc" and "stream_buf s' = stream_buf s" and "messages (es_out s') = messages (es_out s)"
    and "published [l] = [] \<or> \<not> es_running s'" and "received [l] = 0" and "es_running s' \<longrightarrow> es_running s"
  shows "accepted_ok co (ls @ [l]) s' acc"
  using assms keeps_up_app [of ls l] unfolding accepted_ok_def by (auto intro: subseq_append)

lemma stream_inv_step:
  assumes inv: "stream_inv co ls s" and step: "stream_step co l s s'"
  shows "stream_inv co (ls @ [l]) s'"
proof -
  from inv obtain acc where sub: "subscribed s" and acc: "accepted_ok co ls s acc" unfolding stream_inv_def by blast
  from sub have ok: "bus_ok (es_bus s)" and c: "es_chan s < length (bs_chans (es_bus s))"
    and cl: "ch_closed (bs_chans (es_bus s) ! es_chan s) = (\<not> es_running s)"
    and on: "\<And>t. es_chan s \<in> set (topic_subs (es_bus s) t) \<longleftrightarrow> es_running s \<and> t \<in> set stream_topics"
    unfolding subscribed_def by blast+
  from step show ?thesis
  proof cases
    case (publish topic ev b)
    obtain b' where b': "bus_Publish topic ev (es_bus s) = Returns b'" "bus_ok b'" "bs_subs b' = bs_subs (es_bus s)"
        "length (bs_chans b') = length (bs_chans (es_bus s))"
        "\<forall>d<length (bs_chans (es_bus s)). bs_chans b' ! d = deliver_to ev (set (topic_subs (es_bus s) topic)) d (bs_chans (es_bus s) ! d)"
      using publish_delivers [OF ok, of topic ev] by blast
    with publish have b: "b = b'" by simp
    have subs: "topic_subs b t = topic_subs (es_bus s) t" for t using b b'(3) by (simp add: topic_subs_def)
    have ch: "bs_chans b ! es_chan s = deliver_to ev (set (topic_subs (es_bus s) topic)) (es_chan s) (bs_chans (es_bus s) ! es_chan s)"
      using b b'(5) c by blast
    have "subscribed s'" using publish(2) b b' c cl on subs ch unfolding subscribed_def by (simp add: deliver_to_def)
    moreover have "\<exists>acc. accepted_ok co (ls @ [l]) s' acc"
    proof (cases "es_running s \<and> topic \<in> set stream_topics \<and> length (stream_buf s) < chan_cap")
      case True
      then have "stream_buf s' = stream_buf s @ [ev]" using publish(2) ch on by (simp add: deliver_to_def)
      then have "accepted_ok co (ls @ [l]) s' (acc @ [ev])"
        using acc publish(1,2) True keeps_up_app [of ls l] unfolding accepted_ok_def by (auto simp: list_emb_append_mono)
      then show ?thesis by blast
    next
      case False
      then have buf: "stream_buf s' = stream_buf s" using publish(2) ch on by (auto simp: deliver_to_def)
      have lost: "\<not> keeps_up (ls @ [l])" if "es_running s" "topic \<in> set stream_topics"
      proof
        assume k: "keeps_up (ls @ [l])"
        have "acc = published ls" using acc that(1) keeps_up_app [OF k] unfolding accepted_ok_def by blast
        moreover have "length acc = received ls + length (stream_buf s)" using acc unfolding accepted_ok_def by blast
        ultimately show False using keeps_up_last [OF k] that False publish(1) by simp
      qed
      have "accepted_ok co (ls @ [l]) s' acc"
        using acc publish(1,2) buf lost keeps_up_app [of ls l] unfolding accepted_ok_def by (auto intro: subseq_append)
      then show ?thesis by blast
    qed
    ultimately show ?thesis unfolding stream_inv_def by blast
  next
    case recv
    then obtain ev buf where buf: "stream_buf s = ev # buf"
      and s': "s' = s\<lparr> es_bus := (es_bus s)\<lparr> bs_chans := (bs_chans (es_bus s))[es_chan s := (bs_chans (es_bus s) ! es_chan s)\<lparr> ch_buf := buf \<rparr>] \<rparr>,
        es_out := es_out s @ frame co ev \<rparr>"
      using cl by (auto simp: take_event_def receive_def split: list.splits)
    have "subscribed s'" using s' sub unfolding subscribed_def bus_ok_alt
      by (auto simp: topic_subs_def nth_list_update)
    moreover have "accepted_ok co (ls @ [l]) s' acc"
      using acc buf recv(1) c s' keeps_up_app [of ls l] unfolding accepted_ok_def by auto
    ultimately show ?thesis unfolding stream_inv_def by blast
  next
    case ping
    have "subscribed s'" using sub ping by (simp add: subscribed_def write_ping_def)
    moreover have "accepted_ok co (ls @ [l]) s' acc"
      by (rule quiet_step [OF acc]) (simp_all add: ping write_ping_def)
    ultimately show ?thesis unfolding stream_inv_def by blast
  next
    case leave
    then obtain b where b: "Unsubscribe (es_chan s) (es_bus s) = Returns b" "bus_ok b" "\<And>t. topic_subs b t = remove1 (es_chan s) (topic_subs (es_bus s) t)"
        "bs_chans b = (bs_chans (es_bus s))[es_chan s := (bs_chans (es_bus s) ! es_chan s)\<lparr> ch_closed := True \<rparr>]"
      using Unsubscribe_ok [OF ok c] cl by auto
    with leave have s': "s' = s\<lparr> es_bus := b, es_out := es_out s @ [Comment ''bye''], es_running := False \<rparr>"
      by (simp add: say_bye_def)
    have "es_chan s \<notin> set (topic_subs b t)" for t using topic_subs_ok [OF ok, of t] b(3) by simp
    with s' b c have "subscribed s'" by (simp add: subscribed_def)
    moreover have "accepted_ok co (ls @ [l]) s' acc"
      by (rule quiet_step [OF acc]) (use leave b c s' in simp_all)
    ultimately show ?thesis unfolding stream_inv_def by blast
  next
    case (other_comes topics d b)
    note o = Subscribe_ok [OF ok other_comes(3,4)]
    then have "es_chan s \<noteq> d" using c by simp
    with o other_comes c cl on have "subscribed s'" by (auto simp: subscribed_def nth_append)
    moreover have "accepted_ok co (ls @ [l]) s' acc"
      by (rule quiet_step [OF acc]) (use other_comes o c in \<open>simp_all add: nth_append\<close>)
    ultimately show ?thesis unfolding stream_inv_def by blast
  next
    case (other_goes d b)
    with Unsubscribe_ok [OF ok other_goes(4,5)] have b: "bus_ok b" "\<And>t. topic_subs b t = remove1 d (topic_subs (es_bus s) t)"
        "bs_chans b = (bs_chans (es_bus s))[d := (bs_chans (es_bus s) ! d)\<lparr> ch_closed := True \<rparr>]"
      by auto
    with other_goes c cl on have "subscribed s'" by (auto simp: subscribed_def in_set_remove1)
    moreover have "accepted_ok co (ls @ [l]) s' acc"
      by (rule quiet_step [OF acc]) (use other_goes b c in simp_all)
    ultimately show ?thesis unfolding stream_inv_def by blast
  qed
qed

lemma stream_run_inv:
  assumes "stream_run co s0 ls s" and "stream_inv co [] s0"
  shows "stream_inv co ls s"
  using assms by (induction rule: stream_run.induct) (auto intro: stream_inv_step)

section \<open>Properties\<close>

text \<open>
  C16: whatever is published and whichever other clients come and go, a connection writes its greeting
  and then, in the order of publication, the messages of events published on its three topics since
  it began: those written and those still waiting are a subsequence of the published ones, and all
  of them as long as the handler is never more than sixteen events behind.
\<close>

theorem stream_in_order:
  assumes "bus_ok b" and "handleEvents True (Some b) = Streaming s0" and "stream_run co s0 ls s"
  shows "\<exists>acc. subseq acc (published ls) \<and>
    messages (es_out s) @ frames co (stream_buf s) = Message ''connected'' ''{}'' # frames co acc \<and>
    (es_running s \<longrightarrow> keeps_up ls \<longrightarrow> acc = published ls)"
  using stream_run_inv [OF assms(3) stream_inv_start [OF assms(1,2)]] unfolding stream_inv_def accepted_ok_def by blast

text \<open>
  A client can leave at any time: the farewell is written, its channel is closed once and belongs to
  no topic any more, and the bus goes on serving the others.
\<close>

theorem stream_leaves:
  assumes "bus_ok b" and "handleEvents True (Some b) = Streaming s0" and "stream_run co s0 ls s" and "es_running s"
  shows "\<exists>s'. say_bye s = Returns s' \<and> bus_ok (es_bus s') \<and> (\<forall>t. es_chan s \<notin> set (topic_subs (es_bus s') t)) \<and>
    last (es_out s') = Comment ''bye''"
proof -
  from stream_run_inv [OF assms(3) stream_inv_start [OF assms(1,2)]] assms(4)
  have ok: "bus_ok (es_bus s)" "es_chan s < length (bs_chans (es_bus s))" "\<not> ch_closed (bs_chans (es_bus s) ! es_chan s)"
    unfolding stream_inv_def subscribed_def by blast+
  from Unsubscribe_ok [OF ok] obtain b' where "Unsubscribe (es_chan s) (es_bus s) = Returns b'" "bus_ok b'"
      "\<forall>t. topic_subs b' t = remove1 (es_chan s) (topic_subs (es_bus s) t)" by blast
  with topic_subs_ok [OF ok(1)] show ?thesis by (simp add: say_bye_def)
qed

text \<open>
  The end of \<open>serveCmd\<close> (\<open>cmd/d2ip/main.go\<close>) after a signal: an error of the HTTP server's shutdown, such
  as the time running out for a connection that stays open, is logged, and the bus is closed.
\<close>

definition serve_shutdown :: "error option \<Rightarrow> 'e bus \<Rightarrow> string list \<times> 'e bus run" where
  "serve_shutdown http_err b = ((case http_err of None \<Rightarrow> [] | Some e \<Rightarrow> [''HTTP server shutdown error: '' @ e]), bus_Close b)"

text \<open>
  A client that is still connected when the server stops makes the shutdown panic: its channel is
  subscribed to three topics and \<open>Close\<close> closes it once for each.
\<close>

theorem close_with_client_panics:
  assumes "bus_ok b" and "handleEvents True (Some b) = Streaming s0" and "stream_run co s0 ls s" and "es_running s"
  shows "\<exists>e. snd (serve_shutdown http_err (es_bus s)) = Panics e"
proof -
  from stream_run_inv [OF assms(3) stream_inv_start [OF assms(1,2)]] assms(4)
  have "bus_ok (es_bus s)" "es_chan s \<in> set (topic_subs (es_bus s) ''pipeline'')" "es_chan s \<in> set (topic_subs (es_bus s) ''config'')"
    unfolding stream_inv_def subscribed_def by (auto simp: stream_topics_def)
  then have "\<exists>e. bus_Close (es_bus s) = Panics e" by (rule close_two_topics) simp
  then show ?thesis by (simp add: serve_shutdown_def)
qed

section \<open>Witnesses\<close>

definition ex_codec :: "string codec" where
  "ex_codec = \<lparr> co_type = (\<lambda>e. e), co_marshal = (\<lambda>e. Inr ''null'') \<rparr>"

definition ex_stream :: "string stream" where
  "ex_stream = (case handleEvents True (Some NewBus) of Streaming s \<Rightarrow> s)"

lemma ex_stream_start: "handleEvents True (Some NewBus) = Streaming ex_stream"
  by (simp add: ex_stream_def handleEvents_def split: prod.split)

definition ex_after :: "string stream" where
  "ex_after = the (take_event ex_codec (case bus_Publish ''config'' ''reload'' (es_bus ex_stream) of Returns b \<Rightarrow> ex_stream\<lparr> es_bus := b \<rparr>))"

lemmas ex_stream_defs = ex_stream_def handleEvents_def Subscribe_def add_sub_def topic_subs_def NewBus_def stream_topics_def
  bus_Publish_def chan_cap_def take_event_def receive_def frame_def ex_codec_def

lemma ex_stream_run: "stream_run ex_codec ex_stream [Published ''config'' ''reload'', Received] ex_after"
proof -
  have "\<exists>b. bus_Publish ''config'' ''reload'' (es_bus ex_stream) = Returns b \<and>
      take_event ex_codec (ex_stream\<lparr> es_bus := b \<rparr>) = Some ex_after"
    by (simp add: ex_after_def ex_stream_defs)
  then obtain b where b: "bus_Publish ''config'' ''reload'' (es_bus ex_stream) = Returns b"
      "take_event ex_codec (ex_stream\<lparr> es_bus := b \<rparr>) = Some ex_after" by blast
  have "es_running ex_stream" by (simp add: ex_stream_defs)
  then have "stream_step ex_codec Received (ex_stream\<lparr> es_bus := b \<rparr>) ex_after" by (intro stream_step.recv b(2)) simp
  from stream_run.more_acts [OF stream_run.more_acts [OF stream_run.start stream_step.publish [OF b(1)]] this]
  show ?thesis by simp
qed

theorem stream_in_order_witness:
  "map chunk_text (es_out ex_after) = [''event: connected'' @ [newline] @ ''data: {}'' @ [newline, newline],
     ''event: reload'' @ [newline] @ ''data: null'' @ [newline, newline]]"
proof -
  from stream_in_order [OF bus_ok_new ex_stream_start ex_stream_run] obtain acc where
      "messages (es_out ex_after) @ frames ex_codec (stream_buf ex_after) = Message ''connected'' ''{}'' # frames ex_codec acc"
      "es_running ex_after \<longrightarrow> keeps_up [Published ''config'' ''reload'', Received] \<longrightarrow> acc = [''reload'']"
    by (auto simp: stream_topics_def)
  moreover have "stream_buf ex_after = []" "es_running ex_after" "messages (es_out ex_after) = es_out ex_after"
    by (simp_all add: ex_after_def ex_stream_defs)
  moreover have "keeps_up [Published ''config'' ''reload'', Received :: string stream_act]"
    by (auto simp: keeps_up_def chan_cap_def le_Suc_eq numeral_2_eq_2)
  ultimately have "es_out ex_after = [Message ''connected'' ''{}'', Message ''reload'' ''null'']"
    by (simp add: frame_def ex_codec_def)
  then show ?thesis by simp
qed

theorem stream_leaves_witness: "\<exists>s'. say_bye ex_after = Returns s' \<and> bus_ok (es_bus s')"
  using stream_leaves [OF bus_ok_new ex_stream_start ex_stream_run] by (auto simp: ex_after_def ex_stream_defs)

theorem close_with_client_panics_witness: "\<exists>e. snd (serve_shutdown None (es_bus ex_after)) = Panics e"
  by (rule close_with_client_panics [OF bus_ok_new ex_stream_start ex_stream_run]) (simp add: ex_after_def ex_stream_defs)

end
