(* ===== verification/Uploads.thy ===== *)
theory Uploads
  imports Api_Props
begin

text \<open>
  Uploaded files (\<open>handleSourceUpload\<close> of \<open>internal/api/sources_handlers.go\<close>): where they are written,
  and the whole way of a list of prefixes through the API: uploaded, added as a plain-text source, loaded
  by the provider and served by the registry.
\<close>

section \<open>One upload\<close>

definition upload_path :: "string \<Rightarrow> string" where
  "upload_path uuid = Join uploads_dir (uuid @ ''.txt'')"

abbreviation sv_fs :: "'k server \<Rightarrow> fs" where
  "sv_fs s \<equiv> wd_fs (sv_world s)"

lemmas upload_defs = serve_def recoverer_def handleSourceUpload_def upload_path_def jsonOK_def jsonError_def

lemma upload_cases:
  assumes "serve ae t ctx (PostSourceUpload uuid form) s = (r, s')"
  obtains (refused) "s' = s" "status_of r \<noteq> 200"
  | (failed) filename content where "form = Upload filename content" "status_of r \<noteq> 200"
      "sv_fs s' = snd (Remove (upload_path uuid) (snd (WriteFile (upload_path uuid) content (sv_fs s))))"
  | (stored) filename content where "form = Upload filename content" "HasSuffix (ToLower filename) ''.txt''"
      "r = Reply 200 (BPath (upload_path uuid))" "WriteFile (upload_path uuid) content (sv_fs s) = (None, sv_fs s')"
      "s' = s\<lparr> sv_world := set_fs (sv_fs s') (sv_world s) \<rparr>"
proof (cases form)
  case (Upload filename content)
  let ?p = "upload_path uuid" and ?w = "WriteFile (upload_path uuid) content (sv_fs s)"
  show thesis
  proof (cases "HasSuffix (ToLower filename) ''.txt'' \<and> MkdirAll (sv_fs s) uploads_dir = None")
    case True
    obtain e f where w: "?w = (e, f)" by (rule prod.exhaust)
    show thesis
    proof (cases e)
      case None
      with assms True w Upload show thesis by (intro stored [of filename content]) (auto simp: upload_defs)
    next
      case (Some x)
      show thesis
      proof (cases "fs_fault (sv_fs s) OpOpen ?p")
        case True
        with assms \<open>HasSuffix (ToLower filename) ''.txt'' \<and> MkdirAll (sv_fs s) uploads_dir = None\<close> w Some Upload show thesis
          by (intro refused) (auto simp: upload_defs)
      next
        case False
        with assms True w Some Upload show thesis by (intro failed [of filename content]) (auto simp: upload_defs)
      qed
    qed
  next
    case False
    with assms Upload show thesis by (intro refused) (auto simp: upload_defs split: if_splits option.splits)
  qed
next
  case (BadForm e)
  with assms show thesis by (intro refused) (auto simp: upload_defs)
next
  case (NoFile e)
  with assms show thesis by (intro refused) (auto simp: upload_defs)
qed

lemma set_own_fs [simp]: "set_fs (wd_fs w) w = w"
  by (simp add: wd_fs_def set_fs_def)

lemma Remove_restores:
  assumes "fs_files f p = None" and "\<not> fs_fault f OpRemove p"
  shows "fs_files (snd (Remove p (snd (WriteFile p c f)))) = fs_files f"
  using assms by (auto simp: Remove_def WriteFile_def fun_eq_iff)

text \<open>
  C38: an upload touches one file only, whatever name and content the client sends: a fresh name in
  the directory of uploads. An accepted upload has the extension \<open>.txt\<close> and its reply names the file,
  which holds the whole content; a refused or failed one leaves no file behind. Nothing else of the
  server changes.
\<close>

theorem upload_confined:
  assumes "serve ae t ctx (PostSourceUpload uuid form) s = (r, s')"
  shows "s' = s\<lparr> sv_world := set_fs (sv_fs s') (sv_world s) \<rparr> \<and>
    (\<forall>q. q \<noteq> upload_path uuid \<longrightarrow> fs_files (sv_fs s') q = fs_files (sv_fs s) q) \<and>
    (status_of r = 200 \<longrightarrow> (\<exists>filename content. form = Upload filename content \<and> HasSuffix (ToLower filename) ''.txt'' \<and>
       r = Reply 200 (BPath (upload_path uuid)) \<and> fs_files (sv_fs s') (upload_path uuid) = Some content)) \<and>
    (status_of r \<noteq> 200 \<longrightarrow> fs_files (sv_fs s) (upload_path uuid) = None \<longrightarrow> \<not> fs_fault (sv_fs s) OpRemove (upload_path uuid) \<longrightarrow>
       fs_files (sv_fs s') = fs_files (sv_fs s))"
  using assms
proof (cases rule: upload_cases)
  case refused
  then show ?thesis by simp
next
  case (failed filename content)
  have "s' = s\<lparr> sv_world := set_fs (sv_fs s') (sv_world s) \<rparr>"
    using assms failed(1) by (auto simp: upload_defs Let_def split: if_splits option.splits prod.splits)
  with failed show ?thesis by (simp add: Remove_other WriteFile_other Remove_restores)
next
  case (stored filename content)
  have w: "fs_files (sv_fs s') = (fs_files (sv_fs s))(upload_path uuid \<mapsto> content)"
    using arg_cong [OF WriteFile_ok [OF stored(4)], of fs_files] by simp
  have "r = Reply 200 (BPath (upload_path uuid))" by (rule stored(3))
  with stored(1,2) w have "\<exists>filename content. form = Upload filename content \<and> HasSuffix (ToLower filename) ''.txt'' \<and>
       r = Reply 200 (BPath (upload_path uuid)) \<and> fs_files (sv_fs s') (upload_path uuid) = Some content" by simp
  moreover have "status_of r = 200" by (simp add: stored(3))
  ultimately show ?thesis using stored(5) w by simp
qed

section \<open>From an upload to a category\<close>

definition upload_config :: "string \<Rightarrow> string \<Rightarrow> bool \<Rightarrow> string \<Rightarrow> source_config" where
  "upload_config i pfx enabled file = \<lparr> sc_ID = i, sc_Provider = ''plaintext'', sc_Prefix = pfx, sc_Enabled = enabled,
     sc_Config = [(''type'', VStr ''ips''), (''file'', VStr file)] \<rparr>"

text \<open>A successful \<open>AddSource\<close> puts the loaded source into the map under its id.\<close>

lemma AddSource_added:
  assumes "AddSource ev cfg r = Returns (None, r')"
  obtains src where "createSource (rg_fs r) cfg = Returns (Inr src)"
    "(sc_ID cfg, snd (fst (load_entry ev (sc_ID cfg, src) (rg_fs r)))) \<in> set (rg_sources r')"
proof -
  have ok: "sc_ID cfg \<noteq> []" "sc_Prefix cfg \<noteq> []" "sc_Provider cfg \<noteq> []" "list_all prefix_char_ok (sc_Prefix cfg)"
    using assms by (auto simp: AddSource_def split: if_splits)
  then obtain src where src: "createSource (rg_fs r) cfg = Returns (Inr src)"
    using assms by (auto simp: AddSource_def split: run.splits sum.splits)
  obtain en f where l: "load_entry ev (sc_ID cfg, src) (rg_fs r) = (en, f)" by (rule prod.exhaust)
  then have "fst en = sc_ID cfg" using load_entry_ok [OF l] by simp
  with assms ok src l have "(sc_ID cfg, snd en) \<in> set (rg_sources r')"
    by (auto simp: AddSource_def split: prod.splits sum.splits) (metis map_of_SomeD update_conv' fun_upd_same)
  with l show thesis by (intro that [OF src]) simp
qed

lemma plain_source_loaded:
  assumes "list_all prefix_ok ps" and "ReadFile f file = Inr (FText (formatPlain ps))" and "file \<noteq> []"
    and "createSource f (upload_config i pfx enabled file) = Returns (Inr src)"
  shows "\<exists>p. snd (fst (load_entry ev (i, src) f)) = SrcPlaintext p \<and> pt_prefix p = pfx \<and> pt_Type p = ''ips'' \<and> pt_prefixes p = ps"
proof -
  obtain q where q: "src = SrcPlaintext q" "pt_prefix q = pfx" "pt_Type q = ''ips''" "pt_File q = file"
    using assms(3,4) by (auto simp: createSource_def upload_config_def run_map_def plaintext_New_def cfg_string_def or_default_def)
  from load_plain [of ps f q ev] assms(1,2) q show ?thesis
    by (simp add: load_entry_def plaintext_Info_def)
qed

text \<open>
  C15: a list of prefixes in the plain export format that is uploaded and whose file is then added as
  a plain-text source, both with status 200, is served by the registry as that list under the
  category of the source's prefix, whatever other sources there are.
\<close>

theorem uploaded_source_serves:
  assumes "sv_has_registry s" and "reg_inv (sv_reg s)"
    and "list_all prefix_ok ps" and "ps \<noteq> []" and "\<not> fs_fault (sv_fs s) OpRead (upload_path uuid)"
    and "serve ae t ctx (PostSourceUpload uuid (Upload filename (FText (formatPlain ps)))) s = (Reply 200 (BPath file), s1)"
    and "serve ae t' ctx' (PostSource (Inr (upload_config i pfx enabled file))) s1 = (Reply 200 b, s2)"
  shows "reg_GetPrefixes (sv_reg s2) (pfx @ '':default'') = Inr ps"
proof -
  from assms(6) obtain f where s1: "s1 = s\<lparr> sv_world := set_fs f (sv_world s) \<rparr>" "file = upload_path uuid"
    and w: "WriteFile (upload_path uuid) (FText (formatPlain ps)) (sv_fs s) = (None, f)"
    by (cases rule: upload_cases) auto
  have reg1: "sv_reg s1 = (sv_reg s)\<lparr> rg_fs := f \<rparr>" "sv_has_registry s1" using s1(1) assms(1) by (simp_all add: sv_reg_def set_fs_def)
  then have inv1: "reg_inv (sv_reg s1)" using assms(2) by (simp add: reg_inv_def)
  have "fs_fault f OpRead file = fs_fault (sv_fs s) OpRead file" using fs_fault_ops(1) w by (metis snd_conv)
  with assms(5) s1(2) have rd: "ReadFile f file = Inr (FText (formatPlain ps))" by (simp add: ReadFile_def WriteFile_ok [OF w])
  have "file \<noteq> []" using s1(2) by (simp add: upload_path_def Join_def uploads_dir_def)
  let ?cfg = "upload_config i pfx enabled file"
  obtain r' where add: "AddSource (ag_env (ae_agents ae)) ?cfg (sv_reg s1) = Returns (None, r')" and s2: "s2 = set_reg r' s1"
    using assms(7) reg1(2) by (auto simp: serve_def recoverer_def handleSourceCreate_def add_source_def jsonOK_def jsonError_def
        split: run.splits prod.splits option.splits if_splits)
  from AddSource_added [OF add] obtain src where src: "createSource f ?cfg = Returns (Inr src)"
    and mem: "(i, snd (fst (load_entry (ag_env (ae_agents ae)) (i, src) f))) \<in> set (rg_sources r')"
    using reg1(1) by (auto simp: upload_config_def)
  obtain p where p: "(i, SrcPlaintext p) \<in> set (rg_sources r')" "pt_prefix p = pfx" "pt_Type p = ''ips''" "pt_prefixes p = ps"
    using plain_source_loaded [OF assms(3) rd \<open>file \<noteq> []\<close> src] mem by metis
  have inv: "reg_inv r'" using AddSource_inv [OF inv1 add] .
  have own: "pfx @ '':default'' \<in> set (src_Categories (SrcPlaintext p))" using p(2) by (simp add: plaintext_Categories_def)
  then obtain a where a: "findSource (rg_sources r') (pfx @ '':default'') = Some a"
    using p(1) findSource_None [of "rg_sources r'"] by (metis not_Some_eq snd_conv)
  from findSource_Some [OF a] obtain e where "e \<in> set (rg_sources r')" "snd e = a" "pfx @ '':default'' \<in> set (src_Categories a)" by blast
  with owner_unique [OF inv _ p(1), of e] own have "a = SrcPlaintext p" by auto
  with a p(2-4) assms(4) s2 show ?thesis
    by (simp add: reg_GetPrefixes_def findSourceForCategory_def set_reg_def sv_reg_def plaintext_GetPrefixes_def)
qed

lemma upload_accepted:
  assumes "HasSuffix (ToLower filename) ''.txt''" and "MkdirAll (sv_fs s) uploads_dir = None"
    and "WriteFile (upload_path uuid) content (sv_fs s) = (None, f)"
  shows "serve ae t ctx (PostSourceUpload uuid (Upload filename content)) s =
    (Reply 200 (BPath (upload_path uuid)), s\<lparr> sv_world := set_fs f (sv_world s) \<rparr>)"
  using assms by (simp add: upload_defs Let_def)

section \<open>Witnesses\<close>

definition ex_upload_server :: "unit server" where
  "ex_upload_server = set_reg ex_registry (ex_api_server ex_db)"

definition ex_list :: "prefix list" where
  "ex_list = [Prefix (Addr4 0x0A000000) 8]"

lemma ex_upload_fields:
  "sv_reg ex_upload_server = ex_registry" "sv_fs ex_upload_server = no_files" "sv_has_registry ex_upload_server"
  by (simp_all add: ex_upload_server_def set_reg_def sv_reg_def wd_fs_def ex_registry_def)

lemma ex_upload_serve:
  "HasSuffix (ToLower filename) ''.txt'' \<Longrightarrow> serve ex_api 0 ex_no_context (PostSourceUpload ''id'' (Upload filename content)) ex_upload_server =
     (Reply 200 (BPath (upload_path ''id'')),
      ex_upload_server\<lparr> sv_world := set_fs (no_files\<lparr> fs_files := [upload_path ''id'' \<mapsto> content] \<rparr>) (sv_world ex_upload_server) \<rparr>)"
  by (rule upload_accepted) (simp_all add: ex_upload_fields MkdirAll_def WriteFile_def no_files_def)

lemma ex_upload_stored:
  obtains s1 where "serve ex_api 0 ex_no_context (PostSourceUpload ''id'' (Upload ''list.TXT'' (FText (formatPlain ex_list)))) ex_upload_server =
      (Reply 200 (BPath (upload_path ''id'')), s1)"
    and "sv_reg s1 = ex_registry\<lparr> rg_fs := no_files\<lparr> fs_files := [upload_path ''id'' \<mapsto> FText (formatPlain ex_list)] \<rparr> \<rparr>" "sv_has_registry s1"
proof -
  have "HasSuffix (ToLower ''list.TXT'') ''.txt''" by code_simp
  from ex_upload_serve [OF this] show thesis
    by (rule that) (use ex_upload_fields in \<open>simp_all add: sv_reg_def set_fs_def\<close>)
qed

theorem upload_confined_witness:
  "\<exists>s'. serve ex_api 0 ex_no_context (PostSourceUpload ''id'' (Upload ''../../etc/x.txt'' (FText ''y''))) ex_upload_server =
      (Reply 200 (BPath ''/tmp/d2ip-uploads/id.txt''), s') \<and> fs_files (sv_fs s') ''/etc/x.txt'' = None"
proof -
  have path: "upload_path ''id'' = ''/tmp/d2ip-uploads/id.txt''" by (simp add: upload_path_def uploads_dir_def Join_def)
  have "HasSuffix (ToLower ''../../etc/x.txt'') ''.txt''" by code_simp
  note s' = ex_upload_serve [OF this, of "FText ''y''"]
  have "''/etc/x.txt'' \<noteq> upload_path ''id''" by (simp add: path)
  with upload_confined [OF s'] have "fs_files (sv_fs (snd (serve ex_api 0 ex_no_context
      (PostSourceUpload ''id'' (Upload ''../../etc/x.txt'' (FText ''y''))) ex_upload_server))) ''/etc/x.txt'' = None"
    unfolding s' by (metis ex_upload_fields(2) fs.select_convs(1) no_files_def snd_conv)
  with s' show ?thesis by (simp add: path)
qed

theorem uploaded_source_serves_witness:
  "\<exists>s1 s2 b. serve ex_api 0 ex_no_context (PostSource (Inr (upload_config ''u'' ''my'' True (upload_path ''id'')))) s1 = (Reply 200 b, s2) \<and>
     reg_GetPrefixes (sv_reg s2) ''my:default'' = Inr ex_list"
proof -
  obtain s1 where s1: "serve ex_api 0 ex_no_context (PostSourceUpload ''id'' (Upload ''list.TXT'' (FText (formatPlain ex_list)))) ex_upload_server =
      (Reply 200 (BPath (upload_path ''id'')), s1)"
    and reg: "sv_reg s1 = ex_registry\<lparr> rg_fs := no_files\<lparr> fs_files := [upload_path ''id'' \<mapsto> FText (formatPlain ex_list)] \<rparr> \<rparr>" "sv_has_registry s1"
    by (rule ex_upload_stored)
  have ok: "list_all prefix_char_ok ''my''" by code_simp
  have "upload_path ''id'' \<noteq> []" by (simp add: upload_path_def uploads_dir_def Join_def)
  then have "\<exists>r. AddSource (ag_env (ae_agents ex_api)) (upload_config ''u'' ''my'' True (upload_path ''id'')) (sv_reg s1) = Returns (None, r)"
    using ok by (simp add: reg AddSource_def upload_config_def createSource_def run_map_def plaintext_New_def cfg_string_def or_default_def
        ex_registry_def exec_def upsert_source_def config_row_def split: prod.split)
  then obtain s2 where s2: "serve ex_api 0 ex_no_context (PostSource (Inr (upload_config ''u'' ''my'' True (upload_path ''id'')))) s1 = (Reply 200 BOk, s2)"
    using reg(2) by (auto simp: serve_def recoverer_def handleSourceCreate_def add_source_def jsonOK_def upload_config_def)
  have "reg_inv (sv_reg ex_upload_server)" "list_all prefix_ok ex_list" "ex_list \<noteq> []"
    by (simp_all add: ex_upload_fields reg_inv_def ex_registry_def rows_ok_def ex_list_def prefix_ok_def)
  from uploaded_source_serves [OF ex_upload_fields(3) this _ s1 s2] s2 show ?thesis
    by (auto simp: ex_upload_fields no_files_def)
qed

end
