(* ===== verification/Observability.thy ===== *)
theory Observability
  imports Single_Flight
begin

text \<open>
  Metrics and logging (\<open>internal/metrics\<close>, \<open>internal/logging\<close>): the registry of collectors, the counters
  the resolver and the pipeline keep, and the choice of the logger. The resolver's counters are kept by
  the client it is given, which is where \<open>queryType\<close> counts; durations are not modelled.
\<close>

section \<open>metrics/prom.go\<close>

text \<open>\<open>None\<close> is the registry before \<open>Setup\<close>; collectors are known by name and registering one twice fails.\<close>

type_synonym prom_registry = "string list option"

definition app_collectors :: "string list" where
  "app_collectors = [''process'', ''go'', ''dns_resolve_total'', ''dns_resolve_duration_seconds'', ''pipeline_runs_total'',
     ''pipeline_step_duration_seconds'', ''pipeline_last_success_timestamp'']"

definition add_collector :: "string \<Rightarrow> string list \<Rightarrow> string list result" where
  "add_collector c reg = (if c \<in> set reg then Inl ''duplicate metrics collector registration attempted'' else Inr (reg @ [c]))"

fun must_register_all :: "string list \<Rightarrow> string list \<Rightarrow> string list run" where
  "must_register_all [] reg = Returns reg"
| "must_register_all (c # cs) reg = (case add_collector c reg of Inl e \<Rightarrow> Panics e | Inr reg' \<Rightarrow> must_register_all cs reg')"

definition metrics_Setup :: "prom_registry \<Rightarrow> (error option \<times> prom_registry) run" where
  "metrics_Setup r = (case must_register_all app_collectors [] of Panics e \<Rightarrow> Panics e | Returns reg \<Rightarrow> Returns (None, Some reg))"

definition metrics_MustRegister :: "string list \<Rightarrow> prom_registry \<Rightarrow> prom_registry run" where
  "metrics_MustRegister cs r =
     (case r of
        None \<Rightarrow> Panics ''metrics registry not initialized; call metrics.Setup() first''
      | Some reg \<Rightarrow> (case must_register_all cs reg of Panics e \<Rightarrow> Panics e | Returns reg' \<Rightarrow> Returns (Some reg')))"

definition metrics_Register :: "string \<Rightarrow> prom_registry \<Rightarrow> error option \<times> prom_registry" where
  "metrics_Register c r =
     (case r of
        None \<Rightarrow> (Some ''duplicate metrics collector registration attempted'', r)
      | Some reg \<Rightarrow> (case add_collector c reg of Inl e \<Rightarrow> (Some e, r) | Inr reg' \<Rightarrow> (None, Some reg')))"

definition metrics_Unregister :: "string \<Rightarrow> prom_registry \<Rightarrow> bool \<times> prom_registry" where
  "metrics_Unregister c r =
     (case r of None \<Rightarrow> (False, r) | Some reg \<Rightarrow> (c \<in> set reg, Some (removeAll c reg)))"

section \<open>logging/log.go\<close>

text \<open>A logger: its level, whether it writes JSON, and the request it belongs to.\<close>

record logger =
  lg_level :: string
  lg_json :: bool
  lg_request :: "string option"

text \<open>\<open>parse\<close> is \<open>zerolog.ParseLevel\<close>; an unknown level means \<open>info\<close> and is no error.\<close>

definition logging_Setup :: "(string \<Rightarrow> string result) \<Rightarrow> string \<Rightarrow> bool \<Rightarrow> error option \<times> logger" where
  "logging_Setup parse level js =
     (None, \<lparr> lg_level = (case parse level of Inl _ \<Rightarrow> ''info'' | Inr l \<Rightarrow> l), lg_json = js, lg_request = None \<rparr>)"

text \<open>The logger of a context, or the global one when the context has none or a disabled one.\<close>

definition FromContext :: "logger \<Rightarrow> logger option \<Rightarrow> logger" where
  "FromContext global ctx = (case ctx of None \<Rightarrow> global | Some l \<Rightarrow> if lg_level l = ''disabled'' then global else l)"

definition WithRequestID :: "logger \<Rightarrow> string \<Rightarrow> logger option \<Rightarrow> logger option" where
  "WithRequestID global rid ctx = Some ((FromContext global ctx)\<lparr> lg_request := Some rid \<rparr>)"

definition RequestIDMiddleware :: "logger \<Rightarrow> string \<Rightarrow> nat \<Rightarrow> logger option" where
  "RequestIDMiddleware global rid nextID = Some (global\<lparr> lg_request := Some (if rid = [] then show_nat nextID else rid) \<rparr>)"

section \<open>The counters of the resolver\<close>

text \<open>The label under which \<open>queryType\<close> counts an exchange; alias queries are not counted.\<close>

definition dns_label :: "outcome \<Rightarrow> string" where
  "dns_label r =
     (case r of
        CtxDone e \<Rightarrow> ''failed''
      | ExchangeErr e \<Rightarrow> ''failed''
      | Resp m \<Rightarrow>
          if m_Rcode m = RcodeNameError then ''nxdomain''
          else if m_Rcode m = RcodeServerFailure then ''failed''
          else if m_Rcode m \<noteq> RcodeSuccess then ''failed''
          else ''success'')"

type_synonym counters = "string \<Rightarrow> nat"

definition inc :: "string \<Rightarrow> counters \<Rightarrow> counters" where
  "inc l m = m(l := Suc (m l))"

definition metered :: "'w client \<Rightarrow> ('w \<times> counters) client" where
  "metered exchange d q wm =
     (case exchange d q (fst wm) of (r, w') \<Rightarrow> (r, (w', if q = TypeCNAME then snd wm else inc (dns_label r) (snd wm))))"

definition unmetered :: "'w waiter \<Rightarrow> ('w \<times> counters) waiter" where
  "unmetered wait a wm = (case wait a (fst wm) of (r, w') \<Rightarrow> (r, (w', snd wm)))"

definition dns_total :: "counters \<Rightarrow> nat" where
  "dns_total m = m ''success'' + m ''failed'' + m ''nxdomain''"

section \<open>The counters of the pipeline\<close>

record run_metrics =
  rm_total :: counters
  rm_last :: int

text \<open>A refused call counts nothing; a run that ends counts once, under the way it ended.\<close>

definition count_run :: "(PipelineReport \<times> run_error option) run \<Rightarrow> int \<Rightarrow> run_metrics \<Rightarrow> run_metrics" where
  "count_run r t m =
     (case r of
        Returns (report, Some (ErrBusy i)) \<Rightarrow> m
      | Returns (report, Some (ErrRun e)) \<Rightarrow> m\<lparr> rm_total := inc ''failed'' (rm_total m) \<rparr>
      | Returns (report, None) \<Rightarrow> m\<lparr> rm_total := inc ''success'' (rm_total m), rm_last := t \<rparr>
      | Panics e \<Rightarrow> m\<lparr> rm_total := inc ''failed'' (rm_total m) \<rparr>)"

text \<open>Calls of \<open>Run\<close> one after the other, each with its start, its request, its context and its end.\<close>

type_synonym run_call = "int \<times> PipelineRequest \<times> (nat \<Rightarrow> error option) \<times> int"

fun run_seq :: "'k agents \<Rightarrow> run_call list \<Rightarrow> orch \<times> 'k world \<times> run_metrics \<Rightarrow>
    (PipelineReport \<times> run_error option) run list \<times> orch \<times> 'k world \<times> run_metrics" where
  "run_seq ag [] s = ([], s)"
| "run_seq ag ((started, req, ctx, t) # calls) (st, w, m) =
     (case Run ag started req ctx st w of
        (r, st1, w1) \<Rightarrow> (case run_seq ag calls (st1, w1, count_run r t m) of (rs, s) \<Rightarrow> (r # rs, s)))"

section \<open>Counting changes nothing\<close>

lemma metered_result: "map_prod id fst (metered exchange d q wm) = exchange d q (fst wm)"
  by (simp add: metered_def split: prod.split)

lemma queryType_metered:
  "case queryType (metered exchange) d q wm of (r, wm') \<Rightarrow> queryType exchange d q (fst wm) = (r, fst wm') \<and>
     (q \<noteq> TypeCNAME \<longrightarrow> dns_total (snd wm') = Suc (dns_total (snd wm)) \<and>
       (\<forall>l. snd wm l \<le> snd wm' l) \<and> (addrs_of r \<noteq> [] \<longrightarrow> snd wm ''success'' < snd wm' ''success''))"
  by (auto simp: queryType_def metered_def dns_label_def inc_def dns_total_def addrs_of_def split: prod.split outcome.split)

lemma queryCNAME_metered:
  "case queryCNAME (metered exchange) d wm of (r, wm') \<Rightarrow> queryCNAME exchange d (fst wm) = (r, fst wm') \<and> snd wm' = snd wm"
  by (auto simp: queryCNAME_def metered_def split: prod.split outcome.split)

lemma followCNAME_loop_metered:
  "case followCNAME_loop (metered exchange) n visited d wm of
     (r, wm') \<Rightarrow> followCNAME_loop exchange n visited d (fst wm) = (r, fst wm') \<and> snd wm' = snd wm"
proof (induction n arbitrary: visited d wm)
  case (Suc n)
  obtain r wm1 where q: "queryCNAME (metered exchange) d wm = (r, wm1)" by (rule prod.exhaust)
  then have "queryCNAME exchange d (fst wm) = (r, fst wm1)" "snd wm1 = snd wm" using queryCNAME_metered [of exchange d wm] by simp_all
  with q Suc.IH [of "insert d visited" _ wm1] show ?case by (auto split: sum.split)
qed simp

lemma followCNAME_metered:
  "case followCNAME (metered exchange) cfg d wm of (r, wm') \<Rightarrow> followCNAME exchange cfg d (fst wm) = (r, fst wm') \<and> snd wm' = snd wm"
  using followCNAME_loop_metered [of exchange "nat (rc_MaxCNAMEChain cfg)" "{}" d wm] by (simp add: followCNAME_def)

text \<open>What one attempt adds to the counters.\<close>

definition counted_ok :: "counters \<Rightarrow> ResolveResult \<Rightarrow> counters \<Rightarrow> bool" where
  "counted_ok m r m' \<longleftrightarrow> (\<forall>l. m l \<le> m' l) \<and> (r_Status r = StatusValid \<longrightarrow> m ''success'' < m' ''success'')"

lemma counted_okI:
  assumes "\<forall>l. m l \<le> m1 l" and "\<forall>l. m1 l \<le> m2 l"
    and "r_Status r = StatusValid \<Longrightarrow> m ''success'' < m1 ''success'' \<or> m1 ''success'' < m2 ''success''"
  shows "counted_ok m r m2"
proof -
  have "m l \<le> m2 l" for l using assms(1,2) le_trans by blast
  moreover have "m ''success'' < m2 ''success''" if "r_Status r = StatusValid"
    using assms(3) [OF that] spec [OF assms(1), of "''success''"] spec [OF assms(2), of "''success''"] by linarith
  ultimately show ?thesis by (simp add: counted_ok_def)
qed

lemma queryDomain_metered:
  "case queryDomain (metered exchange) cfg now d wm of
     (x, wm') \<Rightarrow> queryDomain exchange cfg now d (fst wm) = (x, fst wm') \<and> counted_ok (snd wm) (fst x) (snd wm')"
proof -
  obtain t wm1 where t: "(if rc_FollowCNAME cfg then followCNAME (metered exchange) cfg d wm else (Inr d, wm)) = (t, wm1)"
    by (rule prod.exhaust)
  then have t': "(if rc_FollowCNAME cfg then followCNAME exchange cfg d (fst wm) else (Inr d, fst wm)) = (t, fst wm1)" "snd wm1 = snd wm"
    using followCNAME_metered [of exchange cfg d wm] by (auto split: if_splits prod.splits)
  show ?thesis
  proof (cases t)
    case (Inl e)
    with t t' show ?thesis by (simp add: queryDomain_def Let_def counted_ok_def)
  next
    case (Inr target)
    obtain a wm2 where a: "queryType (metered exchange) target TypeA wm1 = (a, wm2)" by (rule prod.exhaust)
    obtain b wm3 where b: "queryType (metered exchange) target TypeAAAA wm2 = (b, wm3)" by (rule prod.exhaust)
    from queryType_metered [of exchange target TypeA wm1] a
    have a': "queryType exchange target TypeA (fst wm1) = (a, fst wm2)" "\<forall>l. snd wm1 l \<le> snd wm2 l"
      "addrs_of a \<noteq> [] \<longrightarrow> snd wm1 ''success'' < snd wm2 ''success''" by auto
    from queryType_metered [of exchange target TypeAAAA wm2] b
    have b': "queryType exchange target TypeAAAA (fst wm2) = (b, fst wm3)" "\<forall>l. snd wm2 l \<le> snd wm3 l"
      "addrs_of b \<noteq> [] \<longrightarrow> snd wm2 ''success'' < snd wm3 ''success''" by auto
    have v: "r_Status (fst (combine_answers r a b)) = StatusValid \<longrightarrow> addrs_of a \<noteq> [] \<or> addrs_of b \<noteq> []" for r
      by (auto simp: combine_answers_def Let_def)
    have "counted_ok (snd wm) (fst (combine_answers r a b)) (snd wm3)" for r
      using a'(2,3) b'(2,3) v [of r] t'(2) by (intro counted_okI [of _ "snd wm2"]) auto
    with t t' Inr a b a'(1) b'(1) show ?thesis by (simp add: queryDomain_def Let_def)
  qed
qed

lemma resolve_loop_metered:
  "case resolve_loop (metered exchange) (unmetered wait) (\<lambda>x. now (fst x)) cfg n attempt lastErr d wm of
     (r, wm') \<Rightarrow> resolve_loop exchange wait now cfg n attempt lastErr d (fst wm) = (r, fst wm') \<and> counted_ok (snd wm) r (snd wm')"
proof (induction n arbitrary: attempt lastErr wm)
  case 0
  show ?case by (simp add: counted_ok_def failed_result_def)
next
  case (Suc n)
  obtain oc wm1 where oc: "(if 0 < attempt then unmetered wait attempt wm else (Elapsed, wm)) = (oc, wm1)" by (rule prod.exhaust)
  then have oc': "(if 0 < attempt then wait attempt (fst wm) else (Elapsed, fst wm)) = (oc, fst wm1)" "snd wm1 = snd wm"
    by (auto simp: unmetered_def split: if_splits prod.splits)
  show ?case
  proof (cases oc)
    case Elapsed
    obtain r retry wm2 where q: "queryDomain (metered exchange) cfg (now (fst wm1)) d wm1 = ((r, retry), wm2)" by (metis prod.exhaust)
    then have q': "queryDomain exchange cfg (now (fst wm1)) d (fst wm1) = ((r, retry), fst wm2)" "counted_ok (snd wm) r (snd wm2)"
      using queryDomain_metered [of exchange cfg "now (fst wm1)" d wm1] oc'(2) by simp_all
    obtain r3 wm3 where l: "resolve_loop (metered exchange) (unmetered wait) (\<lambda>x. now (fst x)) cfg n (Suc attempt) (r_Err r) d wm2 = (r3, wm3)"
      by (rule prod.exhaust)
    then have l': "resolve_loop exchange wait now cfg n (Suc attempt) (r_Err r) d (fst wm2) = (r3, fst wm3)" "counted_ok (snd wm2) r3 (snd wm3)"
      using Suc.IH [of "Suc attempt" "r_Err r" wm2] by simp_all
    have "counted_ok (snd wm) r3 (snd wm3)" using q'(2) l'(2) unfolding counted_ok_def [of _ r3] counted_ok_def [of _ r]
      by (intro counted_okI [of _ "snd wm2", unfolded counted_ok_def]) auto
    with oc oc' Elapsed q q' l l' show ?thesis by simp
  qed (use oc oc' in \<open>simp_all add: counted_ok_def failed_result_def\<close>)
qed

section \<open>Every run is accounted for\<close>

lemma body_RunID: "pipeline_body ag i req ctx w = Returns (report, e, evs, w') \<Longrightarrow> rp_RunID report = i"
  by (auto simp: pipeline_body_def new_report_def Let_def simp del: run_policies.simps split: run.splits option.splits prod.splits list.splits
      dest!: run_policies_report)

lemma Run_idle:
  assumes "\<not> or_running st" and "Run ag started req ctx st w = (r, st', w')"
  shows "\<not> or_running st' \<and> or_counter st' = or_counter st + 1 \<and>
    (\<exists>rep. rp_RunID rep = or_counter st + 1 \<and> or_history st' = or_history (push_history rep st) \<and>
      (case r of Returns (rep', Some (ErrBusy i)) \<Rightarrow> False | Returns (rep', e) \<Rightarrow> rep' = rep | Panics e \<Rightarrow> rep = new_report (or_counter st + 1)))"
proof -
  note defs = Run_def acquire_def next_run_def begin_run_def emit_def Let_def arm_cancel_def publish_start_def leave_def finish_failed_def
    finish_ok_def emit_failed_def publish_end_def push_history_def
  show ?thesis
  proof (cases "pipeline_body ag (or_counter st + 1) req ctx w")
    case (Panics e)
    with assms show ?thesis by (auto simp: defs new_report_def)
  next
    case (Returns x)
    obtain rep e evs w1 where x: "x = (rep, e, evs, w1)" by (metis prod.exhaust)
    have "rp_RunID rep = or_counter st + 1" using body_RunID Returns x by blast
    with assms Returns x show ?thesis by (cases e) (auto simp: defs)
  qed
qed

lemma push_history_drop:
  "or_history st = drop (n - 10) reports \<Longrightarrow> length reports = n \<Longrightarrow> or_history (push_history rep st) = drop (Suc n - 10) (reports @ [rep])"
proof -
  assume h: "or_history st = drop (n - 10) reports" and n: "length reports = n"
  show ?thesis
  proof (cases "10 \<le> n")
    case True
    then have "Suc n - 10 = Suc (n - 10)" by simp
    then have "tl (drop (n - 10) reports) = drop (Suc n - 10) reports" by (simp only: drop_Suc tl_drop)
    with h n True show ?thesis by (simp add: push_history_def)
  next
    case False
    with h n show ?thesis by (simp add: push_history_def)
  qed
qed

definition accounted :: "nat \<Rightarrow> orch \<Rightarrow> PipelineReport list \<Rightarrow> bool" where
  "accounted n st reports \<longleftrightarrow> \<not> or_running st \<and> or_counter st = word_of_nat n \<and> length reports = n \<and>
     map rp_RunID reports = map (\<lambda>i. word_of_nat (Suc i)) [0..<n] \<and> or_history st = drop (n - 10) reports"

lemma run_seq_accounted:
  assumes "accounted n st reports"
  shows "case run_seq ag calls (st, w, m) of (rs, st', w', m') \<Rightarrow>
    (\<exists>more_reports. accounted (n + length calls) st' (reports @ more_reports)) \<and>
    rm_total m' ''success'' = rm_total m ''success'' + length (filter (\<lambda>r. \<exists>rep. r = Returns (rep, None)) rs) \<and>
    rm_total m' ''success'' + rm_total m' ''failed'' = rm_total m ''success'' + rm_total m ''failed'' + length calls"
  using assms
proof (induction calls arbitrary: n st reports w m)
  case Nil
  then show ?case by (auto intro: exI [of _ "[]"])
next
  case (Cons c calls)
  obtain started req ctx t where c: "c = (started, req, ctx, t)" by (metis prod.exhaust)
  obtain r st1 w1 where run: "Run ag started req ctx st w = (r, st1, w1)" by (metis prod.exhaust)
  from Cons.prems have idle: "\<not> or_running st" by (simp add: accounted_def)
  from Run_idle [OF idle run] obtain rep where rep: "\<not> or_running st1" "or_counter st1 = or_counter st + 1"
      "rp_RunID rep = or_counter st + 1" "or_history st1 = or_history (push_history rep st)"
    and kind: "case r of Returns (rep', Some (ErrBusy i)) \<Rightarrow> False | Returns (rep', e) \<Rightarrow> rep' = rep | Panics e \<Rightarrow> rep = new_report (or_counter st + 1)" by blast
  have acc: "accounted (Suc n) st1 (reports @ [rep])"
    using Cons.prems rep push_history_drop [of st n reports rep] by (simp add: accounted_def add.commute)
  obtain rs st2 w2 m2 where rest: "run_seq ag calls (st1, w1, count_run r t m) = (rs, st2, w2, m2)" by (metis prod.exhaust)
  from Cons.IH [OF acc, where w = w1 and m = "count_run r t m"] rest
  obtain ms where ih: "accounted (Suc n + length calls) st2 ((reports @ [rep]) @ ms)"
      "rm_total m2 ''success'' = rm_total (count_run r t m) ''success'' + length (filter (\<lambda>r. \<exists>rep. r = Returns (rep, None)) rs)"
      "rm_total m2 ''success'' + rm_total m2 ''failed'' = rm_total (count_run r t m) ''success'' + rm_total (count_run r t m) ''failed'' + length calls"
    by auto
  have "rm_total (count_run r t m) ''success'' = rm_total m ''success'' + (if \<exists>rep. r = Returns (rep, None) then 1 else 0) \<and>
      rm_total (count_run r t m) ''success'' + rm_total (count_run r t m) ''failed'' = Suc (rm_total m ''success'' + rm_total m ''failed'')"
    using kind by (auto simp: count_run_def inc_def split: run.splits option.splits run_error.splits)
  moreover have "\<exists>ms. accounted (n + length (c # calls)) st2 (reports @ ms)" using ih(1) by (intro exI [of _ "rep # ms"]) simp
  ultimately show ?case using ih(2,3) c run rest by simp
qed

section \<open>Properties\<close>

text \<open>
  counting does not change what the resolver does, no counter ever goes down, and a domain whose
  result is valid has been counted as a success at least once.
\<close>

theorem resolver_metered:
  "case resolveDomain (metered exchange) (unmetered wait) (\<lambda>x. now (fst x)) cfg domain (w, m) of
     (r, (w', m')) \<Rightarrow> resolveDomain exchange wait now cfg domain w = (r, w') \<and> (\<forall>l. m l \<le> m' l) \<and>
       (r_Status r = StatusValid \<longrightarrow> m ''success'' < m' ''success'')"
  using resolve_loop_metered [of exchange wait now cfg "nat (rc_Retries cfg + 1)" 0 None domain "(w, m)"]
  by (auto simp: resolveDomain_def counted_ok_def)


text \<open>
  \<open>Setup\<close> cannot panic, and after it the application's own collectors cannot be registered again.
\<close>

theorem metrics_setup_ready: "\<exists>reg. metrics_Setup r = Returns (None, Some reg) \<and> distinct reg \<and>
    metrics_MustRegister [''dns_resolve_total''] (Some reg) = Panics ''duplicate metrics collector registration attempted''"
  by (simp add: metrics_Setup_def app_collectors_def add_collector_def metrics_MustRegister_def)

section \<open>Witnesses\<close>

definition ex_answer :: "nat client" where
  "ex_answer d q w = (Resp \<lparr> m_Rcode = 0, m_Answer = [RR_A [1, 2, 3, 4]] \<rparr>, Suc w)"

definition ex_plain_config :: resolver_Config where
  "ex_plain_config = DefaultConfig\<lparr> rc_FollowCNAME := False, rc_Retries := 0 \<rparr>"

lemma ex_answer_resolves:
  "resolveDomain ex_answer ex_wait (\<lambda>_. 7) ex_plain_config ''a.com'' 0 =
    (\<lparr> r_Domain = ''a.com'', r_IPv4 = [Addr4 0x01020304], r_IPv6 = [], r_Status = StatusValid, r_ResolvedAt = 7, r_Err = None \<rparr>, 2)"
  by code_simp

theorem resolver_metered_witness:
  "case resolveDomain (metered ex_answer) (unmetered ex_wait) (\<lambda>x. 7) ex_plain_config ''a.com'' (0, (\<lambda>_. 0)) of
     (r, (w', m')) \<Rightarrow> r_IPv4 r = [Addr4 0x01020304] \<and> w' = 2 \<and> m' ''success'' \<noteq> 0"
  using resolver_metered [where exchange = ex_answer and wait = ex_wait and now = "\<lambda>_. 7" and cfg = ex_plain_config and
      domain = "''a.com''" and w = 0 and m = "\<lambda>_. 0"]
  by (auto simp: ex_answer_resolves)

end
