(* ===== verification/Assets.thy ===== *)
theory Assets
  imports Go_Strings "HOL-Library.AList"
begin

text \<open>
  The embedded web interface (\<open>Handler\<close> and \<open>serveEmbeddedFile\<close> of \<open>internal/api/api.go\<close>): the path of a
  request becomes the name of a file, which is stored compressed and is sent as it is or decompressed,
  as the client accepts. The embedded file system is a map from names to entries; reading the gzip format
  is a parameter that gives \<open>None\<close> for data without a gzip header.
\<close>

section \<open>Replies with headers\<close>

type_synonym headers = "(string \<times> string) list"

record http_reply =
  hr_status :: nat
  hr_headers :: headers
  hr_body :: string

definition header :: "string \<Rightarrow> headers \<Rightarrow> string" where
  "header k hs = (case map_of hs k of None \<Rightarrow> [] | Some v \<Rightarrow> v)"

text \<open>\<open>http.Error\<close> replaces the content type and keeps the other headers.\<close>

definition http_Error :: "string \<Rightarrow> nat \<Rightarrow> headers \<Rightarrow> http_reply" where
  "http_Error msg code hs = \<lparr> hr_status = code,
     hr_headers = AList.update ''X-Content-Type-Options'' ''nosniff'' (AList.update ''Content-Type'' ''text/plain; charset=utf-8'' hs),
     hr_body = msg @ [newline] \<rparr>"

section \<open>Files\<close>

datatype embedded = EmbFile string | EmbDir

text \<open>The name a path asks for.\<close>

definition asset_name :: "string \<Rightarrow> string" where
  "asset_name p =
     (if p = ''/'' then ''index.html''
      else let n = TrimPrefix p ''/web/'' in if n = [] then ''index.html'' else n)"

definition mime_type :: "string \<Rightarrow> string" where
  "mime_type name =
     (if HasSuffix name ''.css'' then ''text/css; charset=utf-8''
      else if HasSuffix name ''.js'' then ''application/javascript''
      else if HasSuffix name ''.html'' then ''text/html; charset=utf-8''
      else ''application/octet-stream'')"

definition cache_headers :: "string \<Rightarrow> headers \<Rightarrow> headers" where
  "cache_headers name hs =
     (if name = ''index.html'' then
        AList.update ''Expires'' ''0'' (AList.update ''Pragma'' ''no-cache'' (AList.update ''Cache-Control'' ''no-cache, no-store, must-revalidate'' hs))
      else if Contains name ''.'' then AList.update ''Cache-Control'' ''public, max-age=31536000, immutable'' hs
      else hs)"

text \<open>
  \<open>sz\<close> is the decimal size \<open>Stat\<close> reports, \<open>stat_fails\<close> whether it fails. Reading a directory fails
  after the status has been sent, which leaves the body empty.
\<close>

definition serveEmbeddedFile :: "(string \<Rightarrow> string option) \<Rightarrow> (string \<Rightarrow> string) \<Rightarrow> (string \<Rightarrow> bool) \<Rightarrow> (string \<rightharpoonup> embedded) \<Rightarrow>
    string \<Rightarrow> string \<Rightarrow> http_reply" where
  "serveEmbeddedFile gunzip sz stat_fails efs accept name =
     (let hs = cache_headers name [(''Content-Type'', mime_type name)] in
      case efs name of
        None \<Rightarrow> http_Error ''not found'' 404 hs
      | Some e \<Rightarrow>
          if stat_fails name then http_Error ''stat error'' 500 hs
          else let raw = (case e of EmbFile d \<Rightarrow> d | EmbDir \<Rightarrow> []) in
            if Contains accept ''gzip'' then
              \<lparr> hr_status = 200,
                hr_headers = AList.update ''Content-Length'' (sz name) (AList.update ''Vary'' ''Accept-Encoding''
                  (AList.update ''Content-Encoding'' ''gzip'' hs)), hr_body = raw \<rparr>
            else (case gunzip raw of
                None \<Rightarrow> http_Error ''decompression error'' 500 hs
              | Some plain \<Rightarrow> \<lparr> hr_status = 200, hr_headers = hs, hr_body = plain \<rparr>))"

definition serve_asset :: "(string \<Rightarrow> string option) \<Rightarrow> (string \<Rightarrow> string) \<Rightarrow> (string \<Rightarrow> bool) \<Rightarrow> (string \<rightharpoonup> embedded) \<Rightarrow>
    string \<Rightarrow> string \<Rightarrow> http_reply" where
  "serve_asset gunzip sz stat_fails efs accept p = serveEmbeddedFile gunzip sz stat_fails efs accept (asset_name p)"

section \<open>Properties\<close>

text \<open>What a client that undoes the declared encoding reads.\<close>

definition client_reads :: "(string \<Rightarrow> string option) \<Rightarrow> http_reply \<Rightarrow> string option" where
  "client_reads gunzip r = (if header ''Content-Encoding'' (hr_headers r) = ''gzip'' then gunzip (hr_body r) else Some (hr_body r))"

lemma header_update [simp]: "header k (AList.update k' v hs) = (if k = k' then v else header k hs)"
  by (simp add: header_def update_conv')

lemma header_Cons [simp]: "header k ((k', v) # hs) = (if k = k' then v else header k hs)"
  by (simp add: header_def)

lemma header_Nil [simp]: "header k [] = []"
  by (simp add: header_def)

lemma cache_headers_other [simp]:
  "k \<notin> {''Expires'', ''Pragma'', ''Cache-Control''} \<Longrightarrow> header k (cache_headers name hs) = header k hs"
  by (simp add: cache_headers_def)

text \<open>
  every client reads the same: for a file whose data is a gzip stream, a client that accepts gzip
  and one that does not get status 200 and, after undoing the declared encoding, the same content and
  content type.
\<close>

theorem asset_content_same:
  assumes "efs (asset_name p) = Some (EmbFile d)" and "gunzip d = Some plain" and "\<not> stat_fails (asset_name p)"
  shows "hr_status (serve_asset gunzip sz stat_fails efs accept p) = 200 \<and>
    client_reads gunzip (serve_asset gunzip sz stat_fails efs accept p) = Some plain \<and>
    header ''Content-Type'' (hr_headers (serve_asset gunzip sz stat_fails efs accept p)) = mime_type (asset_name p)"
  using assms by (simp add: serve_asset_def serveEmbeddedFile_def client_reads_def Let_def)

text \<open>
  the entry page is never cached, every name with a dot is cached for a year, and so is the reply
  that there is no such file: a file that is missing for a moment stays missing for its clients.
\<close>

theorem asset_missing_cached:
  assumes "efs (asset_name p) = None" and "asset_name p \<noteq> ''index.html''" and "Contains (asset_name p) ''.''"
  shows "hr_status (serve_asset gunzip sz stat_fails efs accept p) = 404 \<and>
    header ''Cache-Control'' (hr_headers (serve_asset gunzip sz stat_fails efs accept p)) = ''public, max-age=31536000, immutable''"
  using assms by (simp add: serve_asset_def serveEmbeddedFile_def http_Error_def cache_headers_def Let_def)

section \<open>Witnesses\<close>

definition ex_efs :: "string \<rightharpoonup> embedded" where
  "ex_efs = [''index.html'' \<mapsto> EmbFile ''zpage'']"

theorem asset_content_same_witness:
  "client_reads (\<lambda>d. Some (tl d)) (serve_asset (\<lambda>d. Some (tl d)) (\<lambda>_. ''5'') (\<lambda>_. False) ex_efs ''gzip, br'' ''/'') = Some ''page''"
  using asset_content_same [of ex_efs "''/''" "''zpage''" "\<lambda>d. Some (tl d)" "''page''" "\<lambda>_. False"]
  by (simp add: ex_efs_def asset_name_def)

theorem asset_missing_cached_witness:
  "header ''Cache-Control'' (hr_headers (serve_asset (\<lambda>d. Some d) (\<lambda>_. ''5'') (\<lambda>_. False) ex_efs [] ''/web/a.js'')) =
     ''public, max-age=31536000, immutable''"
proof -
  have n: "asset_name ''/web/a.js'' = ''a.js''" "Contains ''a.js'' ''.''" by code_simp+
  from asset_missing_cached [of ex_efs "''/web/a.js''"] show ?thesis by (simp add: n ex_efs_def)
qed

end
