(* ===== verification/Support.thy ===== *)
theory Support
  imports Registry
begin

text \<open>
  The functions of the sources that only their tests call, and how far they stand for the code the
  program runs: \<open>loadFromIterator\<close> of \<open>mmdb.go\<close> beside \<open>Load\<close>, and \<open>formatPrefixes\<close> of
  \<open>policy_exporter.go\<close> beside the writer of a policy; and the \<open>Close\<close> methods of the providers.
\<close>

section \<open>mmdb.go\<close>

text \<open>An untyped record of the database and the country in it.\<close>

definition extractCountry :: "anyv \<Rightarrow> string" where
  "extractCountry record =
     (case record of
        VMap m \<Rightarrow> (case map_of m ''country'' of
            Some (VMap c) \<Rightarrow> (case map_of c ''iso_code'' of Some (VStr s) \<Rightarrow> s | _ \<Rightarrow> [])
          | _ \<Rightarrow> [])
      | _ \<Rightarrow> [])"

fun iter_networks :: "string list \<Rightarrow> (ipnet option \<times> anyv) list \<Rightarrow> country_map \<Rightarrow> country_map" where
  "iter_networks whitelist [] m = m"
| "iter_networks whitelist ((ipNet, record) # iter) m =
     iter_networks whitelist iter
       (case netipPrefixFromIPNet ipNet of
          None \<Rightarrow> m
        | Some p \<Rightarrow>
            let country = extractCountry record in
            if country = [] then m
            else if whitelist \<noteq> [] \<and> country \<notin> set whitelist then m
            else append_prefix country p m)"

definition loadFromIterator :: "int \<Rightarrow> (ipnet option \<times> anyv) list \<Rightarrow> mmdb_src \<Rightarrow> mmdb_src" where
  "loadFromIterator now iter p =
     p\<lparr> mm_lastErr := [], mm_prefixes := iter_networks (mm_Countries p) iter [], mm_loadedAt := Some now \<rparr>"

text \<open>\<open>closing\<close> is what closing the database reader returns.\<close>

definition mmdb_Close :: "error option \<Rightarrow> mmdb_src \<Rightarrow> error option" where
  "mmdb_Close closing p = (if mm_reader p then closing else None)"

section \<open>policy\_exporter.go\<close>

fun parse_all :: "string list \<Rightarrow> prefix list result" where
  "parse_all [] = Inr []"
| "parse_all (s # ss) = (case ParsePrefix s of
     Inl e \<Rightarrow> Inl e
   | Inr p \<Rightarrow> (case parse_all ss of Inl e \<Rightarrow> Inl e | Inr ps \<Rightarrow> Inr (p # ps)))"

definition formatPrefixes :: "string list \<Rightarrow> string \<Rightarrow> file_content result" where
  "formatPrefixes strs format =
     (case parse_all strs of
        Inl e \<Rightarrow> Inl e
      | Inr parsed \<Rightarrow> Inr
          (if format = ''ipset'' then FText (formatIPSet ''policy'' ''v4'' parsed)
           else if format = ''json'' then FJson (formatJSON ''policy'' ''v4'' parsed)
           else if format = ''nft'' then FText (formatNFT ''policy'' ''v4'' parsed)
           else if format = ''iptables'' then FText (formatIPTables ''v4'' parsed)
           else if format = ''bgp'' then FText (formatBGP parsed)
           else if format = ''yaml'' then FText (formatYAML ''policy'' ''v4'' parsed)
           else FText (formatPlain parsed)))"

section \<open>Properties\<close>

lemma iter_add_networks:
  "iter_networks whitelist iter m = add_networks whitelist (map (\<lambda>(n, r). Inr (n, extractCountry r)) iter) m"
  by (induction whitelist iter m rule: iter_networks.induct) (auto simp: Let_def split: option.split)

text \<open>
  the tests' iterator stands for the database: when the records decode without error, a \<open>Load\<close> from a
  file leaves the provider that \<open>loadFromIterator\<close> makes of the same networks.
\<close>

theorem iterator_stands_for_load:
  assumes "mm_File p \<noteq> []" and "ReadFile s (mm_File p) = Inr content"
    and "ev_mmdb ev (Some content) = Inr (map (\<lambda>(n, r). Inr (n, extractCountry r)) iter, None)"
  shows "mmdb_Load ev p s = (None, (loadFromIterator (ev_now ev) iter p)\<lparr> mm_reader := True \<rparr>, s)"
  using assms by (simp add: mmdb_Load_def mmdb_read_def loadFromIterator_def iter_add_networks Let_def)

lemma parse_all_printed: "list_all prefix_ok ps \<Longrightarrow> parse_all (map prefix_string ps) = Inr ps"
  by (induction ps) (simp_all add: ParsePrefix_prefix_string)

text \<open>
  on printed prefixes the tests' formatter is the exporter's formatter for a policy named \<open>policy\<close>.
\<close>

theorem format_same:
  assumes "list_all prefix_ok ps"
  shows "formatPrefixes (map prefix_string ps) format = Inr (formatPrefixesForPolicy format ''policy'' ps ''v4'')"
  by (simp add: formatPrefixes_def formatPrefixesForPolicy_def parse_all_printed [OF assms])

section \<open>Witnesses\<close>

theorem format_same_witness: "formatPrefixes [''10.0.0.0/8''] ''bgp'' = Inr (FText (formatBGP [Prefix (Addr4 0x0A000000) 8]))"
proof -
  have "prefix_string (Prefix (Addr4 0x0A000000) 8) = ''10.0.0.0/8''" by code_simp
  with format_same [of "[Prefix (Addr4 0x0A000000) 8]" "''bgp''"] show ?thesis
    by (simp add: prefix_ok_def formatPrefixesForPolicy_def)
qed

end
