(* ===== verification/Flags.thy ===== *)
theory Flags
  imports Cli Observability
begin

text \<open>
  The command line (\<open>cmd/d2ip/main.go\<close>): the flag sets of the four commands over a model of Go's
  \<open>flag.FlagSet.Parse\<close>, and each command from its arguments to its outcome. A set keeps its values in a
  record; every flag comes with the update of its field. The lists of flags that \<open>Usage\<close> prints are
  left out.
\<close>

section \<open>strconv.ParseInt with base 0\<close>

text \<open>The base that a prefix chooses, and the digits after it.\<close>

definition base_prefix :: "string \<Rightarrow> nat \<times> string" where
  "base_prefix s =
     (if s = [] \<or> hd s \<noteq> CHR ''0'' then (10, s)
      else if 3 \<le> length s \<and> lower_char (s ! 1) = CHR ''b'' then (2, drop 2 s)
      else if 3 \<le> length s \<and> lower_char (s ! 1) = CHR ''o'' then (8, drop 2 s)
      else if 3 \<le> length s \<and> lower_char (s ! 1) = CHR ''x'' then (16, drop 2 s)
      else (8, tl s))"

fun read_uint :: "nat \<Rightarrow> nat \<Rightarrow> string \<Rightarrow> nat result" where
  "read_uint base n [] = Inr n"
| "read_uint base n (c # cs) =
     (if c = CHR ''_'' then read_uint base n cs
      else case hex_val c of
        None \<Rightarrow> Inl ''invalid syntax''
      | Some d \<Rightarrow>
          if base \<le> d then Inl ''invalid syntax''
          else if 2 ^ 64 \<le> n * base + d then Inl ''value out of range''
          else read_uint base (n * base + d) cs)"

text \<open>Underscores stand between digits only; \<open>saw\<close> is the class of the character before.\<close>

fun underscores_apart :: "bool \<Rightarrow> char \<Rightarrow> string \<Rightarrow> bool" where
  "underscores_apart hex saw [] = (saw \<noteq> CHR ''_'')"
| "underscores_apart hex saw (c # cs) =
     (if is_digit c \<or> hex \<and> hex_val c \<noteq> None then underscores_apart hex CHR ''0'' cs
      else if c = CHR ''_'' then saw = CHR ''0'' \<and> underscores_apart hex CHR ''_'' cs
      else saw \<noteq> CHR ''_'' \<and> underscores_apart hex CHR ''!'' cs)"

definition underscoreOK :: "string \<Rightarrow> bool" where
  "underscoreOK s =
     (if 2 \<le> length s \<and> hd s = CHR ''0'' \<and> lower_char (s ! 1) \<in> {CHR ''b'', CHR ''o'', CHR ''x''}
      then underscores_apart (lower_char (s ! 1) = CHR ''x'') CHR ''0'' (drop 2 s)
      else underscores_apart False CHR ''^'' s)"

definition ParseInt0 :: "string \<Rightarrow> int result" where
  "ParseInt0 s =
     (let neg = (s \<noteq> [] \<and> hd s = CHR ''-'');
          body = (if s \<noteq> [] \<and> (hd s = CHR ''-'' \<or> hd s = CHR ''+'') then tl s else s)
      in if body = [] then Inl ''invalid syntax''
         else case base_prefix body of (base, digits) \<Rightarrow>
           (case read_uint base 0 digits of
              Inl e \<Rightarrow> Inl e
            | Inr n \<Rightarrow>
                if CHR ''_'' \<in> set digits \<and> \<not> underscoreOK body then Inl ''invalid syntax''
                else let v = (if neg then - int n else int n) in
                  if v < int64_min \<or> int64_max < v then Inl ''value out of range'' else Inr v))"

section \<open>flag.FlagSet\<close>

datatype 'a flag =
    StringFlag "string \<Rightarrow> 'a \<Rightarrow> 'a"
  | BoolFlag "bool \<Rightarrow> 'a \<Rightarrow> 'a"
  | IntFlag "int \<Rightarrow> 'a \<Rightarrow> 'a"
  | DurationFlag "duration \<Rightarrow> 'a \<Rightarrow> 'a"
  | FuncFlag "string \<Rightarrow> 'a \<Rightarrow> 'a"

fun assign_flag :: "'a flag \<Rightarrow> string \<Rightarrow> 'a \<Rightarrow> 'a result" where
  "assign_flag (StringFlag f) v a = Inr (f v a)"
| "assign_flag (BoolFlag f) v a = (case ParseBool v of Inl e \<Rightarrow> Inl ''parse error'' | Inr b \<Rightarrow> Inr (f b a))"
| "assign_flag (IntFlag f) v a =
     (case ParseInt0 v of Inl e \<Rightarrow> Inl (if e = ''value out of range'' then e else ''parse error'') | Inr n \<Rightarrow> Inr (f n a))"
| "assign_flag (DurationFlag f) v a = (case ParseDuration v of None \<Rightarrow> Inl ''parse error'' | Some d \<Rightarrow> Inr (f d a))"
| "assign_flag (FuncFlag f) v a = Inr (f v a)"

fun is_bool_flag :: "'a flag \<Rightarrow> bool" where
  "is_bool_flag (BoolFlag f) = True"
| "is_bool_flag _ = False"

datatype flag_error =
    HelpAsked
  | BadSyntax string
  | NotDefined string
  | NeedsArgument string
  | BadValue string string error

type_synonym 'a flag_set = "(string \<times> 'a flag) list"

text \<open>One flag: parsing stops before the remaining arguments, fails, or goes on with them.\<close>

datatype 'a parsed = Stopped "string list" | Refused flag_error | Taken "string list" 'a

definition cut_value :: "string \<Rightarrow> string \<times> string option" where
  "cut_value name = (let r = tl name in
     if CHR ''='' \<in> set r then (hd name # takeWhile (\<lambda>c. c \<noteq> CHR ''='') r, Some (tl (dropWhile (\<lambda>c. c \<noteq> CHR ''='') r)))
     else (name, None))"

definition take_value :: "'a flag \<Rightarrow> string \<Rightarrow> string \<Rightarrow> string list \<Rightarrow> 'a \<Rightarrow> 'a parsed" where
  "take_value fl name v args a = (case assign_flag fl v a of Inl e \<Rightarrow> Refused (BadValue v name e) | Inr a' \<Rightarrow> Taken args a')"

definition parseOne :: "'a flag_set \<Rightarrow> string list \<Rightarrow> 'a \<Rightarrow> 'a parsed" where
  "parseOne formal args a =
     (case args of
        [] \<Rightarrow> Stopped []
      | s # args1 \<Rightarrow>
          if length s < 2 \<or> hd s \<noteq> CHR ''-'' then Stopped args
          else if s = ''--'' then Stopped args1
          else let body = (if s ! 1 = CHR ''-'' then drop 2 s else tl s) in
            if body = [] \<or> hd body = CHR ''-'' \<or> hd body = CHR ''='' then Refused (BadSyntax s)
            else (case cut_value body of (name, value) \<Rightarrow>
              (case map_of formal name of
                 None \<Rightarrow> Refused (if name = ''help'' \<or> name = ''h'' then HelpAsked else NotDefined name)
               | Some fl \<Rightarrow>
                   (case value of
                      Some v \<Rightarrow> take_value fl name v args1 a
                    | None \<Rightarrow>
                        if is_bool_flag fl then take_value fl name ''true'' args1 a
                        else (case args1 of [] \<Rightarrow> Refused (NeedsArgument name) | v # args2 \<Rightarrow> take_value fl name v args2 a)))))"

lemma parseOne_shorter: "parseOne formal args a = Taken args' a' \<Longrightarrow> length args' < length args"
  by (auto simp: parseOne_def take_value_def Let_def split: list.splits if_splits prod.splits option.splits sum.splits)

text \<open>The values and the arguments that are left; \<open>Stopped\<close> ends the loop.\<close>

function flags_Parse :: "'a flag_set \<Rightarrow> string list \<Rightarrow> 'a \<Rightarrow> flag_error + 'a \<times> string list" where
  "flags_Parse formal args a =
     (case parseOne formal args a of
        Stopped args' \<Rightarrow> Inr (a, args')
      | Refused e \<Rightarrow> Inl e
      | Taken args' a' \<Rightarrow> flags_Parse formal args' a')"
  by pat_completeness auto
termination by (relation "measure (\<lambda>(formal, args, a). length args)") (auto dest: parseOne_shorter)

declare flags_Parse.simps [simp del]

text \<open>\<open>flag.ExitOnError\<close>: \<open>Parse\<close> ends the program itself, with status 0 when help is asked for.\<close>

definition exit_status :: "flag_error \<Rightarrow> nat" where
  "exit_status e = (if e = HelpAsked then 0 else 2)"

section \<open>The flags of the commands\<close>

record serve_flags =
  sf_logLevel :: string
  sf_logJSON :: bool
  sf_configFile :: string

definition serve_formal :: "serve_flags flag_set" where
  "serve_formal =
     [(''log-level'', StringFlag (\<lambda>v fl. fl\<lparr> sf_logLevel := v \<rparr>)),
      (''log-json'', BoolFlag (\<lambda>v fl. fl\<lparr> sf_logJSON := v \<rparr>)),
      (''config'', StringFlag (\<lambda>v fl. fl\<lparr> sf_configFile := v \<rparr>))]"

definition serve_defaults :: serve_flags where
  "serve_defaults = \<lparr> sf_logLevel = [], sf_logJSON = True, sf_configFile = [] \<rparr>"

definition dlc_url :: string where
  "dlc_url = ''https://github.com/v2fly/domain-list-community/releases/latest/download/dlc.dat''"

record dump_flags =
  df_categories :: "string list"
  df_sourceURL :: string
  df_cachePath :: string
  df_maxAge :: duration
  df_logLevel :: string
  df_listCategories :: bool

definition dump_formal :: "dump_flags flag_set" where
  "dump_formal =
     [(''category'', FuncFlag (\<lambda>v fl. fl\<lparr> df_categories := df_categories fl @ [v] \<rparr>)),
      (''source-url'', StringFlag (\<lambda>v fl. fl\<lparr> df_sourceURL := v \<rparr>)),
      (''cache-path'', StringFlag (\<lambda>v fl. fl\<lparr> df_cachePath := v \<rparr>)),
      (''max-age'', DurationFlag (\<lambda>v fl. fl\<lparr> df_maxAge := v \<rparr>)),
      (''log-level'', StringFlag (\<lambda>v fl. fl\<lparr> df_logLevel := v \<rparr>)),
      (''list-categories'', BoolFlag (\<lambda>v fl. fl\<lparr> df_listCategories := v \<rparr>))]"

definition dump_defaults :: dump_flags where
  "dump_defaults = \<lparr> df_categories = [], df_sourceURL = dlc_url, df_cachePath = ''/tmp/d2ip-dlc.dat'',
     df_maxAge = 24 * Hour, df_logLevel = ''info'', df_listCategories = False \<rparr>"

text \<open>The flags of \<open>resolve\<close> are those the resolution reads, with the database and the log level.\<close>

record resolve_args = resolve_flags +
  rf_dbPath :: string
  rf_logLevel :: string

definition resolve_formal :: "resolve_args flag_set" where
  "resolve_formal =
     [(''category'', FuncFlag (\<lambda>v fl. fl\<lparr> rf_categories := rf_categories fl @ [v] \<rparr>)),
      (''source-url'', StringFlag (\<lambda>v fl. fl\<lparr> rf_sourceURL := v \<rparr>)),
      (''cache-path'', StringFlag (\<lambda>v fl. fl\<lparr> rf_cachePath := v \<rparr>)),
      (''db'', StringFlag (\<lambda>v fl. fl\<lparr> rf_dbPath := v \<rparr>)),
      (''max-age'', DurationFlag (\<lambda>v fl. fl\<lparr> rf_maxAge := v \<rparr>)),
      (''log-level'', StringFlag (\<lambda>v fl. fl\<lparr> rf_logLevel := v \<rparr>)),
      (''upstream'', StringFlag (\<lambda>v fl. fl\<lparr> rf_upstream := v \<rparr>)),
      (''concurrency'', IntFlag (\<lambda>v fl. fl\<lparr> rf_concurrency := v \<rparr>)),
      (''qps'', IntFlag (\<lambda>v fl. fl\<lparr> rf_qps := v \<rparr>))]"

definition resolve_defaults :: resolve_args where
  "resolve_defaults = \<lparr> rf_categories = [], rf_sourceURL = dlc_url, rf_cachePath = ''/tmp/d2ip-dlc.dat'', rf_maxAge = 24 * Hour,
     rf_upstream = ''8.8.8.8:53'', rf_concurrency = 64, rf_qps = 1000, rf_dbPath = ''./d2ip.db'', rf_logLevel = ''info'' \<rparr>"

record export_flags =
  ef_dbPath :: string
  ef_outputDir :: string
  ef_logLevel :: string
  ef_aggLevel :: string

definition export_formal :: "export_flags flag_set" where
  "export_formal =
     [(''db'', StringFlag (\<lambda>v fl. fl\<lparr> ef_dbPath := v \<rparr>)),
      (''output'', StringFlag (\<lambda>v fl. fl\<lparr> ef_outputDir := v \<rparr>)),
      (''log-level'', StringFlag (\<lambda>v fl. fl\<lparr> ef_logLevel := v \<rparr>)),
      (''agg'', StringFlag (\<lambda>v fl. fl\<lparr> ef_aggLevel := v \<rparr>))]"

definition export_defaults :: export_flags where
  "export_defaults = \<lparr> ef_dbPath = ''./d2ip.db'', ef_outputDir = ''./out'', ef_logLevel = ''info'', ef_aggLevel = ''off'' \<rparr>"

section \<open>The commands from their arguments\<close>

text \<open>
  How a command ends: with a status before it begins, or with the value of its body, whose own
  errors are a status of 1. The message of a refused command line is not modelled.
\<close>

datatype 'r ended = Exited nat | Completed 'r

definition status_of_result :: "'r result \<Rightarrow> 'r ended" where
  "status_of_result r = (case r of Inl e \<Rightarrow> Exited 1 | Inr x \<Rightarrow> Completed x)"

text \<open>Flags, then the logger, then the body; \<open>level\<close> reads the logger's settings from the flags.\<close>

definition with_flags :: "(string \<Rightarrow> string result) \<Rightarrow> 'a flag_set \<Rightarrow> 'a \<Rightarrow> ('a \<Rightarrow> string) \<Rightarrow> string list \<Rightarrow>
    ('a \<Rightarrow> fs \<Rightarrow> ('r result \<times> fs) run) \<Rightarrow> fs \<Rightarrow> ('r ended \<times> fs) run" where
  "with_flags parse formal defaults level args run s =
     (case flags_Parse formal args defaults of
        Inl e \<Rightarrow> Returns (Exited (exit_status e), s)
      | Inr (fl, rest) \<Rightarrow>
          (case logging_Setup parse (level fl) False of
             (Some e, _) \<Rightarrow> Returns (Exited 1, s)
           | (None, _) \<Rightarrow>
               (case run fl s of Panics e \<Rightarrow> Panics e | Returns (r, s1) \<Rightarrow> Returns (status_of_result r, s1))))"

definition main_dump :: "(string \<Rightarrow> string result) \<Rightarrow> env \<Rightarrow> string list \<Rightarrow> fs \<Rightarrow> (string list ended \<times> fs) run" where
  "main_dump parse ev args = with_flags parse dump_formal dump_defaults df_logLevel args
     (\<lambda>fl. dumpCmd ev (df_categories fl) (df_sourceURL fl) (df_cachePath fl) (df_maxAge fl) (df_listCategories fl))"

text \<open>\<open>openDB\<close> is the opened database of a path.\<close>

definition main_resolve :: "(string \<Rightarrow> string result) \<Rightarrow> env \<Rightarrow> (resolver_Config \<Rightarrow> string list \<Rightarrow> ResolveResult list) \<Rightarrow>
    (string \<Rightarrow> db conn result) \<Rightarrow> string list \<Rightarrow> fs \<Rightarrow> ((resolve_summary option \<times> db conn option) ended \<times> fs) run" where
  "main_resolve parse ev batch openDB args = with_flags parse resolve_formal resolve_defaults rf_logLevel args
     (\<lambda>fl. resolveCmd ev batch (resolve_flags.truncate fl) (openDB (rf_dbPath fl)))"

definition main_export :: "(string \<Rightarrow> string result) \<Rightarrow> (string \<Rightarrow> string) \<Rightarrow> durability \<Rightarrow> (string \<Rightarrow> string) \<Rightarrow>
    (string \<Rightarrow> db conn result) \<Rightarrow> string list \<Rightarrow> fs \<Rightarrow> (ExportReport ended \<times> fs) run" where
  "main_export parse sha du tmp openDB args = with_flags parse export_formal export_defaults ef_logLevel args
     (\<lambda>fl s. Returns (exportCmd sha du tmp (ef_outputDir fl) (ef_aggLevel fl) (openDB (ef_dbPath fl)) s))"

text \<open>\<open>serve\<close>: the configuration is loaded before the logger, whose level the flag overrides.\<close>

definition serve_logger :: "(string \<Rightarrow> string result) \<Rightarrow> serve_flags \<Rightarrow> Config \<Rightarrow> error option \<times> logger" where
  "serve_logger parse fl cfg =
     logging_Setup parse (if sf_logLevel fl = [] then log_Level (Logging cfg) else sf_logLevel fl) (sf_logJSON fl)"

definition serve_options :: "serve_flags \<Rightarrow> LoadOptions" where
  "serve_options fl = \<lparr> lo_ConfigFile = sf_configFile fl, lo_SearchPaths = [], lo_KVOverrides = [] \<rparr>"

definition main_serve :: "(string \<Rightarrow> string result) \<Rightarrow> prom_registry \<Rightarrow> 'k api_env \<Rightarrow>
    (resolver_Config \<Rightarrow> string list \<Rightarrow> ResolveResult list) \<Rightarrow> (string \<Rightarrow> bool) \<Rightarrow> RoutingBackend list \<Rightarrow> cron_parser \<Rightarrow> string \<times> string \<Rightarrow>
    (db conn \<times> source_row list conn) result \<Rightarrow> string list \<Rightarrow> fs \<Rightarrow> 'k \<Rightarrow> ('k api_env \<times> 'k server \<times> sched option) ended run" where
  "main_serve parse prom ae batch look order cparse version dbs args s k =
     (case flags_Parse serve_formal args serve_defaults of
        Inl e \<Rightarrow> Returns (Exited (exit_status e))
      | Inr (fl, rest) \<Rightarrow>
     (case Load (ae_config ae) (serve_options fl) of
        Inl e \<Rightarrow> Returns (Exited 1)
      | Inr cfg \<Rightarrow>
     (case serve_logger parse fl cfg of
        (Some e, _) \<Rightarrow> Returns (Exited 1)
      | (None, _) \<Rightarrow>
     (case metrics_Setup prom of
        Panics e \<Rightarrow> Panics e
      | Returns (Some e, _) \<Rightarrow> Returns (Exited 1)
      | Returns (None, _) \<Rightarrow>
          (case serve_start ae batch look order cparse version (serve_options fl) dbs s k of
             Panics e \<Rightarrow> Panics e
           | Returns r \<Rightarrow> Returns (status_of_result r))))))"

section \<open>What main prints itself\<close>

definition printVersion :: "string \<Rightarrow> string \<Rightarrow> string" where
  "printVersion Version BuildTime = ''d2ip version '' @ Version @ '' (built '' @ BuildTime @ '')'' @ [newline]"

definition printUsage :: "string \<Rightarrow> string" where
  "printUsage prog = concat (map (\<lambda>l. l @ [newline])
     [''Usage: '' @ prog @ '' <command> [options]'', [],
      ''Commands:'',
      ''  serve      Start the d2ip server'',
      ''  dump       Fetch and parse dlc.dat, output selected categories'',
      ''  resolve    Resolve domains and populate cache database'',
      ''  export     Export aggregated IPs to ipv4.txt and ipv6.txt'',
      ''  version    Print version information'',
      ''  help       Show this help message''])"

section \<open>Properties\<close>

text \<open>Assignments in order, as the flags would be given one after the other.\<close>

fun assign_all :: "'a flag_set \<Rightarrow> (string \<times> string) list \<Rightarrow> 'a \<Rightarrow> 'a result" where
  "assign_all formal [] a = Inr a"
| "assign_all formal ((name, v) # asg) a =
     (case map_of formal name of
        None \<Rightarrow> Inl (''flag provided but not defined: -'' @ name)
      | Some fl \<Rightarrow> (case assign_flag fl v a of Inl e \<Rightarrow> Inl e | Inr a' \<Rightarrow> assign_all formal asg a'))"

definition flag_arg :: "string \<times> string \<Rightarrow> string" where
  "flag_arg = (\<lambda>(name, v). ''--'' @ name @ ''='' @ v)"

definition plain_name :: "string \<Rightarrow> bool" where
  "plain_name name \<longleftrightarrow> name \<noteq> [] \<and> hd name \<noteq> CHR ''-'' \<and> CHR ''='' \<notin> set name"

definition no_flag :: "string \<Rightarrow> bool" where
  "no_flag s \<longleftrightarrow> length s < 2 \<or> hd s \<noteq> CHR ''-''"

lemma cut_value_arg: "plain_name name \<Longrightarrow> cut_value (name @ CHR ''='' # v) = (name, Some v)"
  by (cases name) (auto simp: plain_name_def cut_value_def Let_def takeWhile_sep dropWhile_sep)

lemma parseOne_arg:
  assumes "plain_name name" and "map_of formal name = Some fl"
  shows "parseOne formal (flag_arg (name, v) # args) a = take_value fl name v args a"
proof -
  obtain c cs where name: "name = c # cs" using assms(1) by (cases name) (auto simp: plain_name_def)
  with assms have "c \<noteq> CHR ''-''" "c \<noteq> CHR ''=''" by (auto simp: plain_name_def)
  with cut_value_arg [OF assms(1), of v] assms(2) show ?thesis by (simp add: parseOne_def flag_arg_def name)
qed

lemma flags_Parse_stop [simp]: "flags_Parse formal [] a = Inr (a, [])"
  "no_flag s \<Longrightarrow> flags_Parse formal (s # args) a = Inr (a, s # args)"
  by (simp_all add: flags_Parse.simps parseOne_def no_flag_def)

lemma flags_given_aux:
  assumes "list_all (plain_name \<circ> fst) asg" and "assign_all formal asg a = Inr a'" and "rest = [] \<or> no_flag (hd rest)"
  shows "flags_Parse formal (map flag_arg asg @ rest) a = Inr (a', rest)"
  using assms(1,2)
proof (induction asg arbitrary: a)
  case Nil
  with assms(3) show ?case by (cases rest) auto
next
  case (Cons nv asg)
  obtain name v where nv: "nv = (name, v)" by force
  from Cons.prems obtain fl a1 where "map_of formal name = Some fl" "assign_flag fl v a = Inr a1" "assign_all formal asg a1 = Inr a'"
    by (auto simp: nv split: option.splits sum.splits)
  with Cons show ?case by (simp add: nv flags_Parse.simps [of _ "_ # _"] parseOne_arg take_value_def)
qed

lemma categories_given: "assign_all dump_formal (map (Pair ''category'') cs) fl = Inr (fl\<lparr> df_categories := df_categories fl @ cs \<rparr>)"
  by (induction cs arbitrary: fl) (simp_all add: dump_formal_def)

text \<open>
  \<open>dump\<close> with its repeatable flag selects the categories in the order given, from the default list.
\<close>

theorem dump_categories_in_order:
  "main_dump parse ev (map (\<lambda>c. ''--category='' @ c) cs) s =
     (case dumpCmd ev cs dlc_url ''/tmp/d2ip-dlc.dat'' (24 * Hour) False s of
        Panics e \<Rightarrow> Panics e
      | Returns (r, s1) \<Rightarrow> Returns (status_of_result r, s1))"
proof -
  have "list_all (plain_name \<circ> fst) (map (Pair ''category'') cs)" by (simp add: list_all_iff plain_name_def)
  from flags_given_aux [OF this categories_given, of "[]" dump_defaults]
  have "flags_Parse dump_formal (map (\<lambda>c. ''--category='' @ c) cs) dump_defaults = Inr (dump_defaults\<lparr> df_categories := cs \<rparr>, [])"
    by (simp add: flag_arg_def comp_def dump_defaults_def)
  then show ?thesis by (simp add: main_dump_def with_flags_def logging_Setup_def dump_defaults_def)
qed

text \<open>
  a boolean flag takes no value from the next argument: \<open>serve --log-json false\<close> leaves JSON on, and
  every flag after it is ignored without an error.
\<close>

theorem bool_value_apart:
  "main_serve parse prom ae batch look order cparse version dbs ([''--log-json'', ''false''] @ args) s k =
   main_serve parse prom ae batch look order cparse version dbs [] s k"
proof -
  have "flags_Parse serve_formal (''--log-json'' # ''false'' # args) serve_defaults = Inr (serve_defaults, ''false'' # args)"
    by (simp add: flags_Parse.simps [of _ "''--log-json'' # _"] parseOne_def take_value_def cut_value_def Let_def serve_formal_def
        serve_defaults_def no_flag_def ParseBool_def)
  then show ?thesis by (simp add: main_serve_def)
qed

text \<open>
  a command line of flags written \<open>--name=value\<close> sets exactly the given values, one after the other, up
  to the first argument that is no flag; that one and the rest are left.
\<close>

theorem flags_given:
  assumes "list_all (plain_name \<circ> fst) asg" and "assign_all formal asg a = Inr a'" and "rest = [] \<or> no_flag (hd rest)"
  shows "flags_Parse formal (map flag_arg asg @ rest) a = Inr (a', rest)"
  by (rule flags_given_aux [OF assms])

section \<open>Witnesses\<close>

theorem flags_given_witness:
  "flags_Parse export_formal [''--agg=balanced'', ''--output=o'', ''x''] export_defaults =
     Inr (export_defaults\<lparr> ef_aggLevel := ''balanced'', ef_outputDir := ''o'' \<rparr>, [''x''])"
proof -
  have "list_all (plain_name \<circ> fst) [(''agg'', ''balanced''), (''output'', ''o'')]" by (simp add: plain_name_def)
  from flags_given [OF this, of export_formal export_defaults _ "[''x'']"] show ?thesis
    by (simp add: export_formal_def no_flag_def flag_arg_def)
qed

end
