(* ===== verification/Spec2Isabelle.thy ===== *)
theory Spec2Isabelle
  imports Aggregator Kernel_Router Cli Source_Locks Event_Stream Uploads Observability Assets Support Flags
begin

text \<open>
  d2ip: a verification development.

  The program. d2ip turns lists of domain names into routes. Sources (\<open>internal/sourcereg\<close>,
  \<open>internal/source\<close>, \<open>internal/domainlist\<close>) supply categories of domains and of prefixes; the
  resolver (\<open>internal/resolver\<close>) asks a DNS server for their addresses; the cache
  (\<open>internal/cache\<close>) keeps the answers in SQLite; the aggregator (\<open>internal/aggregator\<close>,
  \<open>pkg/cidr\<close>) merges addresses into prefixes; the exporter (\<open>internal/exporter\<close>) writes them to
  files and the routers (\<open>internal/routing\<close>) install them with \<open>ip\<close> or \<open>nft\<close>. The orchestrator
  (\<open>internal/orchestrator\<close>) runs these steps for each policy of the configuration, at most one run
  at a time; the scheduler (\<open>internal/scheduler\<close>) and the HTTP API (\<open>internal/api\<close>) start runs; the
  configuration (\<open>internal/config\<close>) is validated, overridden by rows of a key-value table and
  published through a watcher, and the event bus (\<open>internal/events\<close>) carries events to the API.
  \<open>cmd/d2ip/main.go\<close> puts the pieces together.

  Conventions. A Go struct is a record, an interface with known implementations a datatype, a map
  from keys a map or an association list when its order can be observed, in which case the order of
  iteration is an argument. A function that returns an error returns a sum (\<open>Inl\<close> the error text), and
  one that may panic returns a value of \<open>run\<close> (\<open>Panics\<close>). Machine integers are words where they
  wrap and integers where the code stays within their range; durations and times are nanoseconds.
  Libraries and the outside world are arguments: the DNS client, the commands \<open>ip\<close> and \<open>nft\<close>, the
  SQL engine's failures, servers, decoders, viper, the cron library, clocks and random numbers.
  Files are a map from paths to contents with a fault function (\<open>Files\<close>). Error texts leave out
  quoted values; log lines are left out.

  Theories and what they model.
  \<open>Prelude\<close>, \<open>Go_Strings\<close>, \<open>Netip\<close>, \<open>Netip_Text\<close>, \<open>Files\<close>, \<open>Durations\<close>: the parts of Go's
  library the sources use. \<open>Netip\<close> has the specification side of the whole development, the bit path
  of an address.
  \<open>Cidr\<close>, \<open>Cidr_Aggregate\<close>, \<open>Aggregator\<close>: \<open>pkg/cidr/tree.go\<close>, \<open>aggregate.go\<close> and
  \<open>internal/aggregator/aggregator.go\<close>. The tree is used through the locale \<open>addr_store\<close>, the
  comparison callbacks of \<open>sort.Slice\<close> through \<open>slice_less\<close>. Aggregation covers every input, is
  lossless at threshold 1, and its prefixes are disjoint, canonical and dense enough; the levels are
  nested, except that \<open>off\<close> merges the most.
  \<open>Config\<close>: \<open>config.go\<close> and \<open>validate.go\<close>; what an accepted configuration guarantees.
  \<open>Overrides\<close>: \<open>load.go\<close> and \<open>store.go\<close>, as the calls made to viper; the precedence of stored rows.
  \<open>Watch\<close>: \<open>watch.go\<close>, alone and with concurrent publishers as a step relation.
  \<open>Events\<close>, \<open>Event_Stream\<close>: \<open>internal/events/bus.go\<close> and its client \<open>internal/api/events.go\<close>, a
  connection as a step relation among publishers and other clients: what it writes, in which order,
  when nothing is lost, how it ends and what happens to it at shutdown.
  \<open>Routing\<close>, \<open>Policy_Router\<close>, \<open>Kernel_Router\<close>: plans and state files; the policy routers behind
  the locale \<open>policy_router\<close>, interpreted for iproute2, nftables and their composite; the
  transactional routers with the parsers of what the kernel prints.
  \<open>Resolver\<close>: \<open>types.go\<close>, \<open>dns.go\<close>, \<open>resolver.go\<close>. The worker pool is a step relation with an
  invariant and a measure that every step decreases.
  \<open>Cache\<close>, \<open>Cache_Props\<close>: every SQL statement on the tables, with an arbitrary set of failing calls
  and of interrupted result sets; the key-value table behind the locale \<open>kv_store\<close>.
  \<open>Exporter\<close>, \<open>Store\<close>, \<open>Domainlist\<close>, \<open>Sources\<close>, \<open>Registry\<close>: files, downloads, domain lists, the
  five providers and the registry with the reachability of its states.
  \<open>Source_Locks\<close>: the providers' read-write lock with any number of concurrent calls, as sequences of
  lock operations; readers see whole loads only, calls without \<open>Info\<close> return, and \<open>Info\<close> can deadlock.
  Its client side is the locale \<open>reloadable\<close>. \<open>Support\<close>: functions that only tests call, against those
  the program runs.
  \<open>Orchestrator\<close>, \<open>Orchestrator_Props\<close>, \<open>Single_Flight\<close>: one run over the models above, and the
  shared state of \<open>Run\<close>, \<open>Cancel\<close>, \<open>Status\<close> with any number of concurrent callers.
  \<open>Api\<close>, \<open>Api_Props\<close>: the JSON handlers as state transformers of a server; the configuration in
  force, the policy endpoints against a specification on lists, the settings endpoints, the cache,
  paging and downloads. \<open>Uploads\<close>: one upload, and its way through the API to a served category.
  \<open>Assets\<close>: the embedded web pages, with headers.
  \<open>Observability\<close>: \<open>internal/metrics\<close> and \<open>internal/logging\<close>; the resolver and the pipeline with their
  counters, the numbering of runs and the history.
  \<open>Sched\<close>: \<open>scheduler.go\<close>, alone and with concurrent callers.
  \<open>Cli\<close>, \<open>Flags\<close>: the commands and the set-up of the server, over all the models; their flag sets over
  a model of Go's \<open>flag\<close> package, and each command from its arguments.

  Termination and fuel. The operations are total functions: \<open>followCNAME_loop\<close> and
  \<open>resolve_loop\<close> recurse on the bounds the code has (\<open>MaxCNAMEChain\<close>, \<open>Retries\<close>), \<open>deliver\<close> and
  the decimal printers have termination proofs, and no definition runs out of fuel. The pool and the
  callers of \<open>Run\<close> are step relations; \<open>batch_progress\<close> says that the pool comes to its end.

  Hypotheses. Properties that depend on the outside world name what they rely on: \<open>healthy\<close> (no SQL
  call fails), \<open>cache_wf\<close> (the constraints of the schema), \<open>texts\<close> (the address columns hold
  addresses), \<open>ip_route_semantics\<close> and \<open>nft_semantics\<close> (what the two commands do), \<open>decodes\<close> (what
  viper decodes), \<open>fair_order\<close> (ranging over a map visits each key once), and a digest without
  collisions. Each has a witness on a concrete instance.

  Not modelled: log lines, durations of metrics and the exposition format; the generated protobuf
  code, whose decoder is an argument; the matching of paths by the router library; signals and
  the timeouts of the HTTP server; the text of JSON documents, which stand for their values; blocking on
  locks outside \<open>Source_Locks\<close>, where an operation holds one from its first to its last access and so is
  one step; a publication of the bus in \<open>Event_Stream\<close> is one step too.
\<close>

end
